(* ===== verification/Prelude.thy ===== *)
theory Prelude
  imports Main "HOL-Library.Sublist"
begin

text \<open>
  Prelude: what every component theory shares.
  \<^item> C strings: a \<open>char *\<close> is a \<open>string\<close> (a list of bytes) without the
    terminating NUL; \<open>c_str\<close> cuts a buffer at its first NUL, as every C string
    function does; \<open>snprintf\<close> keeps at most \<open>size - 1\<close> bytes, as the C function
    does for a buffer of \<open>size\<close> bytes.
  \<^item> the \<open><ctype.h>\<close> predicates in the C locale (the program never calls
    \<open>setlocale\<close>): only ASCII letters, digits and blanks are classified.
  \<^item> array insertion \<open>insert_at\<close>, the loop that shifts a suffix one slot to the
    right and stores a new element, shared by the tree's leaf and internal nodes.
  \<^item> the \<open>%d\<close> conversion.
\<close>

named_theorems char_class \<open>character classification facts\<close>
named_theorems array_simps \<open>rewrite rules of the shared array operations\<close>

section \<open>C strings and buffers\<close>

abbreviation NUL :: char where "NUL \<equiv> CHR 0x00"
abbreviation LF :: char where "LF \<equiv> CHR 0x0A"
abbreviation CR :: char where "CR \<equiv> CHR 0x0D"
abbreviation TAB :: char where "TAB \<equiv> CHR 0x09"
abbreviation SP :: char where "SP \<equiv> CHR 0x20"
abbreviation DQ :: char where "DQ \<equiv> CHR 0x22"
abbreviation SQ :: char where "SQ \<equiv> CHR 0x27"
abbreviation COMMA :: char where "COMMA \<equiv> CHR 0x2C"

definition c_str :: "string \<Rightarrow> string" where
  "c_str buf = takeWhile (\<lambda>c. c \<noteq> NUL) buf"

definition snprintf :: "nat \<Rightarrow> string \<Rightarrow> string" where
  "snprintf n text = take (n - 1) text"

definition strstr :: "string \<Rightarrow> string \<Rightarrow> bool" where
  "strstr hay needle = sublist needle hay"

lemma c_str_id [simp]: "NUL \<notin> set s \<Longrightarrow> c_str s = s"
  by (auto simp: c_str_def takeWhile_eq_all_conv)

lemma NUL_notin_c_str [simp]: "NUL \<notin> set (c_str s)"
  by (auto simp: c_str_def dest: set_takeWhileD)

lemma set_c_str: "set (c_str s) \<subseteq> set s"
  by (auto simp: c_str_def dest: set_takeWhileD)

lemma c_str_append:
  "c_str (s @ t) = (if NUL \<in> set s then c_str s else s @ c_str t)"
  by (induction s) (auto simp: c_str_def)

lemma snprintf_short [simp]: "length t < n \<Longrightarrow> snprintf n t = t"
  by (simp add: snprintf_def)

lemma length_snprintf: "0 < n \<Longrightarrow> length (snprintf n t) < n"
  by (simp add: snprintf_def)

lemma takeWhile_word:
  assumes "\<forall>c\<in>set w. P c" and "\<not> P d"
  shows "takeWhile P (w @ d # s) = w" and "dropWhile P (w @ d # s) = d # s"
  using assms by (induction w) auto

section \<open>Character classes of the C locale\<close>

definition byte :: "char \<Rightarrow> nat" where
  "byte c = of_char c"

definition isdigit :: "char \<Rightarrow> bool" where
  "isdigit c = (48 \<le> byte c \<and> byte c \<le> 57)"

definition isupper :: "char \<Rightarrow> bool" where
  "isupper c = (65 \<le> byte c \<and> byte c \<le> 90)"

definition islower :: "char \<Rightarrow> bool" where
  "islower c = (97 \<le> byte c \<and> byte c \<le> 122)"

definition isalpha :: "char \<Rightarrow> bool" where
  "isalpha c = (isupper c \<or> islower c)"

definition isalnum :: "char \<Rightarrow> bool" where
  "isalnum c = (isalpha c \<or> isdigit c)"

definition isspace :: "char \<Rightarrow> bool" where
  "isspace c = (byte c = 32 \<or> (9 \<le> byte c \<and> byte c \<le> 13))"

definition tolower :: "char \<Rightarrow> char" where
  "tolower c = (if isupper c then char_of (byte c + 32) else c)"

lemma byte_lt_256 [simp]: "byte c < 256"
  by (simp add: byte_def of_char_def)

lemma byte_eq_iff: "byte c = byte d \<longleftrightarrow> c = d"
  by (simp add: byte_def)

lemma isspace_consts [char_class, simp]:
  "isspace LF" "isspace CR" "isspace TAB" "isspace SP"
  "\<not> isspace NUL" "\<not> isspace DQ" "\<not> isspace COMMA" "\<not> isspace SQ"
  by (simp_all add: isspace_def byte_def)

lemma tolower_idem [simp]: "tolower (tolower c) = tolower c"
proof (cases "isupper c")
  case True
  then have b: "byte (char_of (byte c + 32)) = byte c + 32"
    by (simp add: byte_def isupper_def)
  then have "\<not> isupper (char_of (byte c + 32))"
    using True by (simp add: isupper_def)
  then show ?thesis using True by (simp add: tolower_def)
qed (simp add: tolower_def)

lemmas char_eval = tolower_def isupper_def islower_def isalpha_def isalnum_def isdigit_def
  isspace_def byte_def char_of_def bit_0

section \<open>Array insertion\<close>

definition insert_at :: "nat \<Rightarrow> 'a \<Rightarrow> 'a list \<Rightarrow> 'a list" where
  "insert_at i x xs = take i xs @ x # drop i xs"

lemma insert_at_simps [array_simps, simp]:
  "insert_at 0 x xs = x # xs"
  "insert_at (Suc i) x (y # ys) = y # insert_at i x ys"
  by (simp_all add: insert_at_def)

lemma length_insert_at [array_simps, simp]: "length (insert_at i x xs) = Suc (length xs)"
  by (simp add: insert_at_def)

lemma set_insert_at [array_simps]: "set (insert_at i x xs) = insert x (set xs)"
proof -
  have "set (take i xs) \<union> set (drop i xs) = set xs"
    by (metis append_take_drop_id set_append)
  then show ?thesis by (auto simp: insert_at_def)
qed

lemma map_insert_at: "map f (insert_at i x xs) = insert_at i (f x) (map f xs)"
  by (simp add: insert_at_def take_map drop_map)

text \<open>A concatenation over an array in which one slot is replaced, or followed by a new one.\<close>

lemma concat_map_split:
  assumes "i < length cs"
  shows "concat (map f cs)
           = concat (map f (take i cs)) @ f (cs ! i)
             @ concat (map f (drop (Suc i) cs))"
    and "concat (map f (cs[i := c]))
           = concat (map f (take i cs)) @ f c
             @ concat (map f (drop (Suc i) cs))"
    and "concat (map f (insert_at (Suc i) r (cs[i := c])))
           = concat (map f (take i cs)) @ (f c @ f r)
             @ concat (map f (drop (Suc i) cs))"
proof -
  from assms have upd: "cs[i := x] = take i cs @ x # drop (Suc i) cs" for x
    by (simp add: upd_conv_take_nth_drop)
  from assms upd [of "cs ! i"] have "cs = take i cs @ cs ! i # drop (Suc i) cs" by simp
  then have "concat (map f cs)
      = concat (map f (take i cs @ cs ! i # drop (Suc i) cs))" by simp
  then show "concat (map f cs)
           = concat (map f (take i cs)) @ f (cs ! i)
             @ concat (map f (drop (Suc i) cs))" by simp
  show "concat (map f (cs[i := c]))
           = concat (map f (take i cs)) @ f c
             @ concat (map f (drop (Suc i) cs))"
    by (simp add: upd)
  have "insert_at (Suc i) r (cs[i := c]) = take i cs @ c # r # drop (Suc i) cs"
    using assms by (simp add: upd insert_at_def)
  then show "concat (map f (insert_at (Suc i) r (cs[i := c])))
           = concat (map f (take i cs)) @ (f c @ f r)
             @ concat (map f (drop (Suc i) cs))"
    by simp
qed

section \<open>The conversion of \<open>%d\<close>\<close>

fun dec_digits :: "nat \<Rightarrow> string" where
  "dec_digits n =
     (if n < 10 then [char_of (48 + n)] else dec_digits (n div 10) @ [char_of (48 + n mod 10)])"

declare dec_digits.simps [simp del]

definition show_int :: "int \<Rightarrow> string" where
  "show_int i = (if i < 0 then CHR 0x2D # dec_digits (nat (- i)) else dec_digits (nat i))"

lemma dec_digits_nonempty [simp]: "dec_digits n \<noteq> []"
  by (subst dec_digits.simps) simp

lemma isdigit_char_of: "d < 10 \<Longrightarrow> isdigit (char_of (48 + d :: nat))"
  by (simp add: isdigit_def byte_def)

lemma set_dec_digits: "c \<in> set (dec_digits n) \<Longrightarrow> isdigit c"
proof (induction n rule: dec_digits.induct)
  case (1 n)
  show ?case
  proof (cases "n < 10")
    case True
    with "1.prems" show ?thesis
      by (auto simp: dec_digits.simps [of n] isdigit_char_of)
  next
    case False
    with 1 show ?thesis
      by (auto simp: dec_digits.simps [of n] isdigit_char_of)
  qed
qed

end
