(* ===== verification/Util.thy ===== *)
theory Util
  imports Prelude "HOL-Library.Word"
begin

unbundle bit_operations_syntax

text \<open>
  The helpers of \<open>src/common/util.c\<close>. A C string is the list of its bytes before the NUL;
  a \<open>StringList\<close> is a list of C strings (\<open>count\<close> is its length). Memory allocation
  succeeds: the out-of-memory branches of these helpers are not modelled.
\<close>

type_synonym string_list = "string list"

section \<open>Comparison, trimming, string lists, paths\<close>

fun strings_equal_ignore_case :: "string \<Rightarrow> string \<Rightarrow> bool" where
  "strings_equal_ignore_case (l # ls) (r # rs) =
     (if tolower l \<noteq> tolower r then False else strings_equal_ignore_case ls rs)"
| "strings_equal_ignore_case ls rs = (ls = [] \<and> rs = [])"

definition trim_whitespace :: "string \<Rightarrow> string" where
  "trim_whitespace text =
     (let start = dropWhile isspace text in rev (dropWhile isspace (rev start)))"

definition strip_line_endings :: "string \<Rightarrow> string" where
  "strip_line_endings text = rev (dropWhile (\<lambda>c. c = LF \<or> c = CR) (rev text))"

definition string_list_push :: "string_list \<Rightarrow> string \<Rightarrow> string_list" where
  "string_list_push xs value = xs @ [value]"

fun index_of_from :: "int \<Rightarrow> string_list \<Rightarrow> string \<Rightarrow> int" where
  "index_of_from i [] value = -1"
| "index_of_from i (x # xs) value = (if x = value then i else index_of_from (i + 1) xs value)"

definition string_list_index_of :: "string_list \<Rightarrow> string \<Rightarrow> int" where
  "string_list_index_of xs value = index_of_from 0 xs value"

definition build_path :: "string \<Rightarrow> string \<Rightarrow> string \<Rightarrow> string" where
  "build_path dir name ext =
     snprintf (length dir + length name + length ext + 3) (dir @ ''/'' @ name @ ext)"

section \<open>Strict integers\<close>

definition INT_MAX :: int where "INT_MAX = 2147483647"
definition INT_MIN :: int where "INT_MIN = - 2147483648"
definition LONG_MAX :: int where "LONG_MAX = 9223372036854775807"
definition LONG_MIN :: int where "LONG_MIN = - 9223372036854775808"

text \<open>
  \<open>strtol (text, &end, 10)\<close> of the C library: blanks, an optional sign, decimal digits.
  The result is the value clamped to \<open>long\<close>, whether \<open>errno\<close> is set (\<open>ERANGE\<close>), and
  the text from \<open>end\<close> on; without a digit, \<open>end\<close> is the whole text.
\<close>

fun digits_value :: "int \<Rightarrow> string \<Rightarrow> int \<times> string" where
  "digits_value acc [] = (acc, [])"
| "digits_value acc (c # cs) =
     (if isdigit c then digits_value (10 * acc + (int (byte c) - 48)) cs else (acc, c # cs))"

definition strtol :: "string \<Rightarrow> int \<times> bool \<times> string" where
  "strtol text =
     (let s = dropWhile isspace text;
          neg = (s \<noteq> [] \<and> hd s = CHR ''-'');
          ds = (if s \<noteq> [] \<and> (hd s = CHR ''-'' \<or> hd s = CHR ''+'') then tl s else s)
      in if ds = [] \<or> \<not> isdigit (hd ds) then (0, False, text)
         else
           (case digits_value 0 ds of
              (n, rest) \<Rightarrow>
                let v = (if neg then - n else n) in
                if v < LONG_MIN then (LONG_MIN, True, rest)
                else if LONG_MAX < v then (LONG_MAX, True, rest)
                else (v, False, rest)))"

definition parse_int_strict :: "string \<Rightarrow> int option" where
  "parse_int_strict text =
     (if text = [] then None
      else
        (case strtol text of
           (parsed, erange, rest) \<Rightarrow>
             if erange \<or> rest = text \<or> rest \<noteq> [] then None
             else if parsed < INT_MIN \<or> INT_MAX < parsed then None
             else Some parsed))"

section \<open>UTF-8 display width\<close>

text \<open>Byte \<open>i\<close> of the text; the terminating NUL (and nothing after it) is read as 0.\<close>

definition text_byte :: "string \<Rightarrow> nat \<Rightarrow> 32 word" where
  "text_byte text i = (if i < length text then word_of_nat (byte (text ! i)) else 0)"

definition continuation :: "32 word \<Rightarrow> bool" where
  "continuation b = (b AND 0xC0 = 0x80)"

text \<open>The code point and the number of bytes; the last branch is the code's failure return.\<close>

definition utf8_decode_codepoint :: "string \<Rightarrow> bool \<times> 32 word \<times> nat" where
  "utf8_decode_codepoint text =
     (let b0 = text_byte text 0; b1 = text_byte text 1;
          b2 = text_byte text 2; b3 = text_byte text 3 in
      if b0 < 0x80 then (True, b0, 1)
      else if b0 AND 0xE0 = 0xC0 \<and> continuation b1
      then (True, push_bit 6 (b0 AND 0x1F) OR (b1 AND 0x3F), 2)
      else if b0 AND 0xF0 = 0xE0 \<and> continuation b1 \<and> continuation b2
      then (True, push_bit 12 (b0 AND 0x0F) OR push_bit 6 (b1 AND 0x3F) OR (b2 AND 0x3F), 3)
      else if b0 AND 0xF8 = 0xF0 \<and> continuation b1 \<and> continuation b2 \<and> continuation b3
      then (True, push_bit 18 (b0 AND 0x07) OR push_bit 12 (b1 AND 0x3F)
                  OR push_bit 6 (b2 AND 0x3F) OR (b3 AND 0x3F), 4)
      else (False, b0, 1))"

definition in_range :: "32 word \<Rightarrow> 32 word \<times> 32 word \<Rightarrow> bool" where
  "in_range c r = (fst r \<le> c \<and> c \<le> snd r)"

definition zero_width_ranges :: "(32 word \<times> 32 word) list" where
  "zero_width_ranges =
     [(0x0300, 0x036F), (0x1AB0, 0x1AFF), (0x1DC0, 0x1DFF), (0x20D0, 0x20FF), (0xFE20, 0xFE2F)]"

definition double_width_ranges :: "(32 word \<times> 32 word) list" where
  "double_width_ranges =
     [(0x1100, 0x115F), (0x2329, 0x232A), (0x2E80, 0xA4CF), (0xAC00, 0xD7A3),
      (0xF900, 0xFAFF), (0xFE10, 0xFE19), (0xFE30, 0xFE6F), (0xFF00, 0xFF60),
      (0xFFE0, 0xFFE6), (0x1F300, 0x1FAFF), (0x20000, 0x3FFFD)]"

definition unicode_display_width :: "32 word \<Rightarrow> nat" where
  "unicode_display_width c =
     (if c = 0 then 0
      else if list_ex (in_range c) zero_width_ranges then 0
      else if list_ex (in_range c) double_width_ranges then 2
      else 1)"

lemma utf8_decode_bytes_pos: "0 < snd (snd (utf8_decode_codepoint text))"
  by (simp add: utf8_decode_codepoint_def Let_def)

lemma utf8_decode_bytes_pos_tuple:
  "(ok, codepoint, bytes) = utf8_decode_codepoint text \<Longrightarrow> 0 < bytes"
  by (metis utf8_decode_bytes_pos snd_conv)

function utf8_display_width :: "string \<Rightarrow> nat" where
  "utf8_display_width text =
     (if text = [] then 0
      else
        (case utf8_decode_codepoint text of
           (ok, codepoint, bytes) \<Rightarrow>
             unicode_display_width codepoint + utf8_display_width (drop bytes text)))"
  by pat_completeness auto
termination
  by (relation "measure length") (auto simp: utf8_decode_bytes_pos_tuple)

declare utf8_display_width.simps [simp del]

section \<open>Facts about the helpers\<close>

lemma strings_equal_ignore_case_iff:
  "strings_equal_ignore_case l r \<longleftrightarrow> map tolower l = map tolower r"
  by (induction l r rule: strings_equal_ignore_case.induct) auto

lemma strings_equal_ignore_case_refl [simp]: "strings_equal_ignore_case s s"
  by (simp add: strings_equal_ignore_case_iff)

lemma trim_ends:
  "trim_whitespace s = [] \<or> (\<not> isspace (hd (trim_whitespace s))
     \<and> \<not> isspace (last (trim_whitespace s)))"
proof -
  define m where "m = dropWhile isspace s"
  define r where "r = dropWhile isspace (rev m)"
  have t: "trim_whitespace s = rev r" by (simp add: trim_whitespace_def m_def r_def)
  show ?thesis
  proof (cases "r = []")
    case False
    then have l: "\<not> isspace (hd r)" by (simp add: r_def hd_dropWhile)
    obtain pre where pre: "rev m = pre @ r" and "set pre \<subseteq> Collect isspace"
      unfolding r_def by (metis set_takeWhileD subsetI takeWhile_dropWhile_id mem_Collect_eq)
    from pre have m: "m = rev r @ rev pre" by (metis rev_append rev_rev_ident)
    with False have "hd m = last r" by (simp add: hd_append hd_rev)
    moreover from m False have "m \<noteq> []" by simp
    then have "\<not> isspace (hd m)" by (simp add: m_def hd_dropWhile)
    ultimately show ?thesis using l False by (simp add: t hd_rev last_rev)
  qed (simp add: t)
qed

lemma trim_id:
  assumes "s = [] \<or> (\<not> isspace (hd s) \<and> \<not> isspace (last s))"
  shows "trim_whitespace s = s"
proof (cases "s = []")
  case False
  with assms have "dropWhile isspace s = s" by (cases s) auto
  moreover from False assms have "dropWhile isspace (rev s) = rev s"
    by (cases "rev s") (auto simp: hd_rev [symmetric])
  ultimately show ?thesis by (simp add: trim_whitespace_def)
qed (simp add: trim_whitespace_def)

lemma trim_idem [simp]: "trim_whitespace (trim_whitespace s) = trim_whitespace s"
  using trim_ends by (rule trim_id)

lemma set_trim: "set (trim_whitespace s) \<subseteq> set s"
  by (auto simp: trim_whitespace_def dest!: set_dropWhileD)

lemma strip_line_endings_append_LF:
  "strip_line_endings (s @ [LF]) = strip_line_endings s"
  by (simp add: strip_line_endings_def)

lemma strip_line_endings_id:
  assumes "s = [] \<or> (last s \<noteq> LF \<and> last s \<noteq> CR)"
  shows "strip_line_endings s = s"
  using assms by (cases s rule: rev_cases) (auto simp: strip_line_endings_def)

lemma build_path_exact [simp]: "build_path dir name ext = dir @ ''/'' @ name @ ext"
  by (simp add: build_path_def)

lemma index_of_from_bounds:
  "index_of_from i xs v = -1 \<or> (i \<le> index_of_from i xs v
      \<and> index_of_from i xs v < i + int (length xs)
      \<and> xs ! nat (index_of_from i xs v - i) = v)" if "0 \<le> i"
  using that
proof (induction i xs v rule: index_of_from.induct)
  case (2 i x xs v)
  show ?case
  proof (cases "x = v")
    case False
    have "nat (index_of_from (i + 1) xs v - i) = Suc (nat (index_of_from (i + 1) xs v - (i + 1)))"
      if "i + 1 \<le> index_of_from (i + 1) xs v"
      using that by simp
    with False 2 show ?thesis by auto
  qed simp
qed simp

lemma index_of_from_absent: "0 \<le> i \<Longrightarrow> index_of_from i xs v = -1 \<longleftrightarrow> v \<notin> set xs"
  by (induction i xs v rule: index_of_from.induct) auto

lemma string_list_index_of_found:
  "string_list_index_of xs v \<noteq> -1 \<Longrightarrow>
     0 \<le> string_list_index_of xs v \<and> nat (string_list_index_of xs v) < length xs
     \<and> xs ! nat (string_list_index_of xs v) = v"
  using index_of_from_bounds [of 0 xs v] by (auto simp: string_list_index_of_def)

lemma string_list_index_of_absent: "string_list_index_of xs v = -1 \<longleftrightarrow> v \<notin> set xs"
  by (simp add: string_list_index_of_def index_of_from_absent)

lemma string_list_index_of_ge: "-1 \<le> string_list_index_of xs v"
  using string_list_index_of_found [of xs v] by fastforce

subsection \<open>Integers\<close>

lemma digits_value_append_digit:
  "(\<forall>c\<in>set ds. isdigit c) \<Longrightarrow> isdigit d \<Longrightarrow>
     digits_value acc (ds @ [d]) = (10 * fst (digits_value acc ds) + (int (byte d) - 48), [])"
  by (induction ds arbitrary: acc) auto

lemma digits_value_dec_digits: "digits_value 0 (dec_digits n) = (int n, [])"
proof (induction n rule: dec_digits.induct)
  case (1 n)
  have b: "byte (char_of (48 + d :: nat)) = 48 + d" if "d < 10" for d
    using that by (simp add: byte_def)
  show ?case
  proof (cases "n < 10")
    case True
    then show ?thesis by (simp add: dec_digits.simps [of n] isdigit_char_of b)
  next
    case False
    have "int n = 10 * int (n div 10) + int (n mod 10)"
      by (metis mult_div_mod_eq of_nat_add of_nat_mult of_nat_numeral)
    moreover have "\<forall>c\<in>set (dec_digits (n div 10)). isdigit c" by (auto dest: set_dec_digits)
    ultimately show ?thesis
      using False 1
      by (simp add: dec_digits.simps [of n] digits_value_append_digit isdigit_char_of b)
  qed
qed

lemma isdigit_not_sign: "isdigit c \<Longrightarrow> c \<noteq> CHR ''-'' \<and> c \<noteq> CHR ''+'' \<and> \<not> isspace c"
  by (auto simp: isdigit_def byte_def isspace_def)

lemma strtol_show_int:
  assumes "LONG_MIN \<le> i" and "i \<le> LONG_MAX"
  shows "strtol (show_int i) = (i, False, [])"
proof (cases "i < 0")
  case True
  have "\<not> isspace (CHR 0x2D)" by (simp add: isspace_def byte_def)
  moreover have "isdigit (hd (dec_digits (nat (- i))))"
    using set_dec_digits [OF list.set_sel(1)] by simp
  ultimately show ?thesis
    using True assms
    by (simp add: strtol_def show_int_def Let_def digits_value_dec_digits)
next
  case False
  obtain d ds where d: "dec_digits (nat i) = d # ds" by (cases "dec_digits (nat i)") auto
  then have "isdigit d" using set_dec_digits [of d "nat i"] by simp
  then show ?thesis
    using False assms isdigit_not_sign [of d] digits_value_dec_digits [of "nat i"] d
    by (simp add: strtol_def show_int_def Let_def)
qed

lemma show_int_nonempty [simp]: "show_int i \<noteq> []"
  by (simp add: show_int_def)

lemma parse_int_strict_show_int:
  assumes "INT_MIN \<le> i" and "i \<le> INT_MAX"
  shows "parse_int_strict (show_int i) = Some i"
  using assms strtol_show_int [of i]
    show_int_nonempty [of i]
  by (auto simp: parse_int_strict_def INT_MIN_def INT_MAX_def LONG_MIN_def LONG_MAX_def
      simp del: show_int_nonempty)

lemma parse_int_strict_range:
  "parse_int_strict text = Some i \<Longrightarrow> INT_MIN \<le> i \<and> i \<le> INT_MAX"
  by (auto simp: parse_int_strict_def split: if_splits prod.splits)

lemma show_int_chars: "c \<in> set (show_int i) \<Longrightarrow> isdigit c \<or> c = CHR ''-''"
  by (auto simp: show_int_def dest: set_dec_digits split: if_splits)

text \<open>How long a printed number is.\<close>

lemma length_dec_digits: "n < 10 ^ Suc k \<Longrightarrow> length (dec_digits n) \<le> Suc k"
proof (induction k arbitrary: n)
  case 0
  then show ?case by (simp add: dec_digits.simps [of n])
next
  case (Suc k)
  show ?case
  proof (cases "n < 10")
    case True
    then show ?thesis by (simp add: dec_digits.simps [of n])
  next
    case False
    have "n div 10 < 10 ^ Suc k" using Suc.prems by (simp add: less_mult_imp_div_less)
    from Suc.IH [OF this] False show ?thesis by (simp add: dec_digits.simps [of n])
  qed
qed

lemma length_show_int: "0 \<le> i \<Longrightarrow> i < 10 ^ 19 \<Longrightarrow> length (show_int i) \<le> 19"
  using length_dec_digits [of "nat i" 18] by (simp add: show_int_def nat_less_iff)

end
