(* ===== verification/BPlusTree.thy ===== *)
theory BPlusTree
  imports Prelude
begin

text \<open>
  The in-memory B+ tree of \<open>src/index/bptree.c\<close>, which maps row ids to CSV row offsets.

  A node is a \<^term>\<open>Leaf\<close> or an \<^term>\<open>Internal\<close> with its address. The valid prefix
  \<open>keys[0..key_count)\<close> of each C array is a list, so \<open>key_count\<close> is its length; the
  arrays hold \<open>BPTREE_MAX_KEYS + 1\<close> keys and \<open>BPTREE_MAX_KEYS + 2\<close> children, and a store
  past that bound is undefined behaviour, as is following a child pointer that was never
  set. Undefined behaviour is the result \<^term>\<open>None\<close> of the insert functions; the theorems
  of this theory show that it is unreachable while allocation succeeds.

  \<open>calloc\<close> is an allocator state: the next fresh address and the outcomes of the coming
  calls (\<^term>\<open>True\<close> fails; every call after the list succeeds).
\<close>

section \<open>Nodes and allocation\<close>

type_synonym addr = nat

definition BPTREE_MAX_KEYS :: nat where
  "BPTREE_MAX_KEYS = 3"

datatype bpnode =
    Leaf (node_addr: addr) (leaf_keys: "int list") (leaf_values: "int list")
         (leaf_next: "addr option")
  | Internal (node_addr: addr) (node_keys: "int list") (node_children: "bpnode list")

type_synonym bptree = "bpnode option"

datatype insert_state =
    InsertError string
  | InsertDone
  | InsertSplit (promoted_key: int) (right_node: bpnode)

record allocator =
  next_addr :: addr
  oom :: "bool list"

definition create_node :: "allocator \<Rightarrow> addr option \<times> allocator" where
  "create_node al =
     (case oom al of
        [] \<Rightarrow> (Some (next_addr al), al\<lparr>next_addr := Suc (next_addr al)\<rparr>)
      | failed # rest \<Rightarrow>
          if failed then (None, al\<lparr>oom := rest\<rparr>)
          else (Some (next_addr al), al\<lparr>next_addr := Suc (next_addr al), oom := rest\<rparr>))"

section \<open>Insertion\<close>

fun find_child_index :: "int list \<Rightarrow> int \<Rightarrow> nat" where
  "find_child_index [] key = 0"
| "find_child_index (k # ks) key = (if k \<le> key then Suc (find_child_index ks key) else 0)"

fun leaf_insert_index :: "int list \<Rightarrow> int \<Rightarrow> nat" where
  "leaf_insert_index [] key = 0"
| "leaf_insert_index (k # ks) key = (if k < key then Suc (leaf_insert_index ks key) else 0)"

definition insert_into_leaf ::
  "allocator \<Rightarrow> addr \<Rightarrow> int list \<Rightarrow> int list \<Rightarrow> addr option \<Rightarrow> int \<Rightarrow> int
     \<Rightarrow> (insert_state \<times> bpnode \<times> allocator) option" where
  "insert_into_leaf al a ks vs nxt key val =
     (let i = leaf_insert_index ks key in
      if i < length ks \<and> ks ! i = key
      then Some (InsertError ''duplicate id key'', Leaf a ks vs nxt, al)
      else if BPTREE_MAX_KEYS + 1 \<le> length ks then None
      else
        let ks' = insert_at i key ks; vs' = insert_at i val vs in
        if length ks' \<le> BPTREE_MAX_KEYS
        then Some (InsertDone, Leaf a ks' vs' nxt, al)
        else
          case create_node al of
            (None, al') \<Rightarrow>
              Some (InsertError ''out of memory while splitting B+ tree leaf'',
                    Leaf a ks' vs' nxt, al')
          | (Some r, al') \<Rightarrow>
              let s = length ks' div 2 in
              Some (InsertSplit (drop s ks' ! 0) (Leaf r (drop s ks') (drop s vs') nxt),
                    Leaf a (take s ks') (take s vs') (Some r), al'))"

text \<open>
  The part of \<open>insert_into_internal\<close> after the recursive call: \<open>st\<close> is what the child
  returned, \<open>cs\<close> holds the child as that call left it.
\<close>

definition absorb_child ::
  "allocator \<Rightarrow> addr \<Rightarrow> int list \<Rightarrow> bpnode list \<Rightarrow> nat \<Rightarrow> insert_state
     \<Rightarrow> (insert_state \<times> bpnode \<times> allocator) option" where
  "absorb_child al a ks cs ci st =
     (case st of
        InsertError m \<Rightarrow> Some (InsertError m, Internal a ks cs, al)
      | InsertDone \<Rightarrow> Some (InsertDone, Internal a ks cs, al)
      | InsertSplit p r \<Rightarrow>
          if BPTREE_MAX_KEYS + 1 \<le> length ks then None
          else
            let ks' = insert_at ci p ks; cs' = insert_at (Suc ci) r cs in
            if length ks' \<le> BPTREE_MAX_KEYS
            then Some (InsertDone, Internal a ks' cs', al)
            else
              case create_node al of
                (None, al') \<Rightarrow>
                  Some (InsertError ''out of memory while splitting B+ tree internal node'',
                        Internal a ks' cs', al')
              | (Some b, al') \<Rightarrow>
                  let m = length ks' div 2 in
                  Some (InsertSplit (ks' ! m) (Internal b (drop (Suc m) ks') (drop (Suc m) cs')),
                        Internal a (take m ks') (take (Suc m) cs'), al'))"

function insert_into_node ::
  "allocator \<Rightarrow> bpnode \<Rightarrow> int \<Rightarrow> int \<Rightarrow> (insert_state \<times> bpnode \<times> allocator) option" where
  "insert_into_node al (Leaf a ks vs nxt) key val = insert_into_leaf al a ks vs nxt key val"
| "insert_into_node al (Internal a ks cs) key val =
     (let ci = find_child_index ks key in
      if ci < length cs then
        (case insert_into_node al (cs ! ci) key val of
           None \<Rightarrow> None
         | Some (st, c', al') \<Rightarrow> absorb_child al' a ks (cs[ci := c']) ci st)
      else None)"
  by pat_completeness auto
termination
  by (relation "measure (\<lambda>(al, n, key, val). size n)")
     (auto simp: less_Suc_eq_le intro!: size_list_estimation' [OF nth_mem order_refl])

definition bptree_init :: bptree where
  "bptree_init = None"

text \<open>The nodes that are freed, in this order, and the tree after it.\<close>

function free_node :: "bpnode \<Rightarrow> addr list" where
  "free_node (Leaf a ks vs nxt) = [a]"
| "free_node (Internal a ks cs) = concat (map free_node (take (Suc (length ks)) cs)) @ [a]"
  by pat_completeness auto
termination
  by (relation "measure size") (auto simp: less_Suc_eq_le dest!: in_set_takeD intro!: size_list_estimation' [OF _ order_refl])

definition bptree_free :: "bptree \<Rightarrow> addr list \<times> bptree" where
  "bptree_free t = (case t of None \<Rightarrow> [] | Some root \<Rightarrow> free_node root, None)"

text \<open>
  The outcome of \<open>bptree_insert\<close>: the error message, or \<^term>\<open>None\<close> for the return
  value 1; the tree, which the code updates in place on failure too; and the allocator.
\<close>

definition bptree_insert ::
  "allocator \<Rightarrow> bptree \<Rightarrow> int \<Rightarrow> int \<Rightarrow> (string option \<times> bptree \<times> allocator) option" where
  "bptree_insert al t key val =
     (case t of
        None \<Rightarrow>
          (case create_node al of
             (None, al') \<Rightarrow>
               Some (Some ''out of memory while creating B+ tree root'', None, al')
           | (Some a, al') \<Rightarrow> Some (None, Some (Leaf a [key] [val] None), al'))
      | Some root \<Rightarrow>
          (case insert_into_node al root key val of
             None \<Rightarrow> None
           | Some (InsertError m, root', al') \<Rightarrow> Some (Some m, Some root', al')
           | Some (InsertDone, root', al') \<Rightarrow> Some (None, Some root', al')
           | Some (InsertSplit p r, root', al') \<Rightarrow>
               (case create_node al' of
                  (None, al'') \<Rightarrow>
                    Some (Some ''out of memory while growing B+ tree root'', Some root', al'')
                | (Some a, al'') \<Rightarrow>
                    Some (None, Some (Internal a [p] [root', r]), al''))))"

section \<open>Search\<close>

fun leaf_find :: "int list \<Rightarrow> int list \<Rightarrow> int \<Rightarrow> int option" where
  "leaf_find (k # ks) (v # vs) key = (if k = key then Some v else leaf_find ks vs key)"
| "leaf_find _ _ key = None"

function search_node :: "bpnode \<Rightarrow> int \<Rightarrow> int option" where
  "search_node (Leaf a ks vs nxt) key = leaf_find ks vs key"
| "search_node (Internal a ks cs) key =
     (let ci = find_child_index ks key in
      if ci < length cs then search_node (cs ! ci) key else None)"
  by pat_completeness auto
termination
  by (relation "measure (\<lambda>(n, key). size n)")
     (auto simp: less_Suc_eq_le intro!: size_list_estimation' [OF nth_mem order_refl])

definition bptree_search :: "bptree \<Rightarrow> int \<Rightarrow> int option" where
  "bptree_search t key = (case t of None \<Rightarrow> None | Some root \<Rightarrow> search_node root key)"

section \<open>Views and the structural invariant\<close>

fun entries :: "bpnode \<Rightarrow> (int \<times> int) list" where
  "entries (Leaf a ks vs nxt) = zip ks vs"
| "entries (Internal a ks cs) = concat (map entries cs)"

definition tree_entries :: "bptree \<Rightarrow> (int \<times> int) list" where
  "tree_entries t = (case t of None \<Rightarrow> [] | Some root \<Rightarrow> entries root)"

definition above :: "int option \<Rightarrow> int \<Rightarrow> bool" where
  "above lo k = (case lo of None \<Rightarrow> True | Some l \<Rightarrow> l \<le> k)"

definition beyond :: "int option \<Rightarrow> int \<Rightarrow> bool" where
  "beyond lo k = (case lo of None \<Rightarrow> True | Some l \<Rightarrow> l < k)"

definition below :: "int option \<Rightarrow> int \<Rightarrow> bool" where
  "below hi k = (case hi of None \<Rightarrow> True | Some h \<Rightarrow> k < h)"

text \<open>
  \<open>children_ok P lo ks hi cs\<close>: there is one child more than there are separators, and
  child \<open>i\<close> satisfies \<open>P\<close> between separators \<open>i - 1\<close> (inclusive) and \<open>i\<close> (exclusive).
\<close>

fun children_ok ::
  "(int option \<Rightarrow> int option \<Rightarrow> bpnode \<Rightarrow> bool) \<Rightarrow> int option \<Rightarrow> int list \<Rightarrow> int option
     \<Rightarrow> bpnode list \<Rightarrow> bool" where
  "children_ok P lo [] hi [c] = P lo hi c"
| "children_ok P lo (k # ks) hi (c # cs) =
     (beyond lo k \<and> below hi k \<and> P lo (Some k) c \<and> children_ok P (Some k) ks hi cs)"
| "children_ok P lo ks hi cs = False"

text \<open>
  \<open>wf_node mn h lo hi n\<close>: all leaves of \<open>n\<close> are at depth \<open>h\<close>, hold between \<open>mn\<close> and
  \<open>BPTREE_MAX_KEYS\<close> strictly sorted keys in \<open>[lo, hi)\<close> with one value each, and every
  internal node has between 1 and \<open>BPTREE_MAX_KEYS\<close> separators.
\<close>

primrec wf_node :: "nat \<Rightarrow> nat \<Rightarrow> int option \<Rightarrow> int option \<Rightarrow> bpnode \<Rightarrow> bool" where
  "wf_node mn 0 lo hi n =
     (case n of
        Leaf a ks vs nxt \<Rightarrow>
          length vs = length ks \<and> mn \<le> length ks \<and> length ks \<le> BPTREE_MAX_KEYS
          \<and> sorted_wrt (<) ks \<and> (\<forall>k\<in>set ks. above lo k \<and> below hi k)
      | Internal a ks cs \<Rightarrow> False)"
| "wf_node mn (Suc h) lo hi n =
     (case n of
        Leaf a ks vs nxt \<Rightarrow> False
      | Internal a ks cs \<Rightarrow>
          1 \<le> length ks \<and> length ks \<le> BPTREE_MAX_KEYS
          \<and> children_ok (wf_node mn h) lo ks hi cs)"

fun height :: "bpnode \<Rightarrow> nat" where
  "height (Leaf a ks vs nxt) = 0"
| "height (Internal a ks cs) = (case cs of [] \<Rightarrow> 0 | c # _ \<Rightarrow> Suc (height c))"

text \<open>The root leaf may hold a single key; every other leaf holds at least two.\<close>

definition min_leaf :: "nat \<Rightarrow> nat" where
  "min_leaf h = (if h = 0 then 1 else 2)"

definition bptree_inv :: "bptree \<Rightarrow> bool" where
  "bptree_inv t =
     (case t of None \<Rightarrow> True
      | Some root \<Rightarrow> wf_node (min_leaf (height root)) (height root) None None root)"

fun ins_entry :: "int \<Rightarrow> int \<Rightarrow> (int \<times> int) list \<Rightarrow> (int \<times> int) list" where
  "ins_entry key val [] = [(key, val)]"
| "ins_entry key val (e # es) =
     (if fst e < key then e # ins_entry key val es else (key, val) # e # es)"

section \<open>Sorted insertion\<close>

lemma ins_entry_append:
  assumes "\<forall>e\<in>set xs. fst e < key" and "\<forall>e\<in>set zs. key < fst e"
  shows "ins_entry key val (xs @ ys @ zs) = xs @ ins_entry key val ys @ zs"
proof -
  have "ins_entry key val (ys @ zs) = ins_entry key val ys @ zs"
    using assms(2)
  proof (induction ys)
    case Nil
    then show ?case by (cases zs) auto
  qed auto
  with assms(1) show ?thesis by (induction xs) auto
qed

lemma set_ins_entry: "set (ins_entry key val es) = insert (key, val) (set es)"
  by (induction es) auto

lemma length_ins_entry [simp]: "length (ins_entry key val es) = Suc (length es)"
  by (induction es) auto

lemma map_of_ins_entry:
  assumes "key \<notin> fst ` set es"
  shows "map_of (ins_entry key val es) = (map_of es)(key \<mapsto> val)"
  using assms by (induction es) (auto simp: fun_upd_twist)

lemma ins_entry_last:
  assumes "\<forall>e\<in>set es. fst e < key"
  shows "ins_entry key val es = es @ [(key, val)]"
  using assms by (induction es) auto

lemma leaf_insert_index_dup:
  assumes "sorted_wrt (<) ks"
  shows "(leaf_insert_index ks key < length ks \<and> ks ! leaf_insert_index ks key = key)
           \<longleftrightarrow> key \<in> set ks"
  using assms by (induction ks) (auto simp: not_less)

lemma leaf_insert_sorted:
  assumes "sorted_wrt (<) ks" and "key \<notin> set ks"
  shows "sorted_wrt (<) (insert_at (leaf_insert_index ks key) key ks)"
  using assms
proof (induction ks)
  case (Cons k ks)
  show ?case
  proof (cases "k < key")
    case True
    with Cons show ?thesis by (auto simp: set_insert_at)
  next
    case False
    with Cons.prems have "key < k" by auto
    with False Cons.prems show ?thesis by fastforce
  qed
qed simp

lemma leaf_insert_zip:
  assumes "length ks = length vs"
  shows "zip (insert_at (leaf_insert_index ks key) key ks)
             (insert_at (leaf_insert_index ks key) val vs) = ins_entry key val (zip ks vs)"
  using assms by (induction ks vs rule: list_induct2) auto

lemma leaf_find_map_of:
  assumes "length ks = length vs"
  shows "leaf_find ks vs key = map_of (zip ks vs) key"
  using assms by (induction ks vs rule: list_induct2) auto

section \<open>Separators\<close>

lemma above_below_simps [simp]:
  "above None k" "below None k" "beyond None k"
  "above (Some l) k \<longleftrightarrow> l \<le> k" "below (Some h) k \<longleftrightarrow> k < h" "beyond (Some l) k \<longleftrightarrow> l < k"
  by (simp_all add: above_def below_def beyond_def)

lemma above_trans: "above lo k \<Longrightarrow> k \<le> k' \<Longrightarrow> above lo k'"
  by (cases lo) auto

lemma beyond_trans: "beyond lo k \<Longrightarrow> k \<le> k' \<Longrightarrow> beyond lo k'"
  by (cases lo) auto

lemma beyond_above: "beyond lo k \<Longrightarrow> above lo k"
  by (cases lo) auto

lemma above_beyond: "above lo k \<Longrightarrow> k < k' \<Longrightarrow> beyond lo k'"
  by (cases lo) auto

lemma below_trans: "below hi k \<Longrightarrow> k' \<le> k \<Longrightarrow> below hi k'"
  by (cases hi) auto

lemma children_ok_length: "children_ok P lo ks hi cs \<Longrightarrow> length cs = Suc (length ks)"
  by (induction P lo ks hi cs rule: children_ok.induct) auto

lemma children_ok_mono:
  assumes "\<And>lo hi c. P lo hi c \<Longrightarrow> Q lo hi c" and "children_ok P lo ks hi cs"
  shows "children_ok Q lo ks hi cs"
  using assms(2,1) by (induction P lo ks hi cs rule: children_ok.induct) auto

lemma find_child_index_le: "find_child_index ks key \<le> length ks"
  by (induction ks) auto

text \<open>
  The child the search follows: it satisfies \<open>P\<close> between two bounds that enclose the
  key, and replacing it by one or by two such children keeps the node well formed.
\<close>

lemma children_focus:
  assumes "children_ok P lo ks hi cs" and "above lo key" and "below hi key"
  defines "i \<equiv> find_child_index ks key"
  shows "\<exists>lo' hi'. i < length cs \<and> P lo' hi' (cs ! i) \<and> above lo' key \<and> below hi' key
           \<and> (\<forall>c'. P lo' hi' c' \<longrightarrow> children_ok P lo ks hi (cs[i := c']))
           \<and> (\<forall>p l r. P lo' (Some p) l \<and> P (Some p) hi' r \<and> beyond lo' p \<and> below hi' p
                 \<longrightarrow> children_ok P lo (insert_at i p ks) hi
                       (insert_at (Suc i) r (cs[i := l])))"
  using assms(1-3) unfolding i_def
proof (induction P lo ks hi cs rule: children_ok.induct)
  case (1 P lo hi c)
  then show ?case by (intro exI [of _ lo] exI [of _ hi]) auto
next
  case (2 P lo k ks hi c cs)
  show ?case
  proof (cases "k \<le> key")
    case True
    with 2 obtain lo' hi' where
      "find_child_index ks key < length cs" "P lo' hi' (cs ! find_child_index ks key)"
      "above lo' key" "below hi' key"
      "\<forall>c'. P lo' hi' c' \<longrightarrow> children_ok P (Some k) ks hi (cs[find_child_index ks key := c'])"
      "\<forall>p l r. P lo' (Some p) l \<and> P (Some p) hi' r \<and> beyond lo' p \<and> below hi' p
         \<longrightarrow> children_ok P (Some k) (insert_at (find_child_index ks key) p ks) hi
               (insert_at (Suc (find_child_index ks key)) r (cs[find_child_index ks key := l]))"
      by auto
    with True 2 show ?thesis by (intro exI [of _ lo'] exI [of _ hi']) simp
  next
    case False
    with 2 show ?thesis
      by (intro exI [of _ lo] exI [of _ "Some k"]) (auto intro: below_trans)
  qed
qed auto

lemma children_split:
  assumes "children_ok P lo ks hi cs" and "m < length ks"
  shows "children_ok P lo (take m ks) (Some (ks ! m)) (take (Suc m) cs)
           \<and> children_ok P (Some (ks ! m)) (drop (Suc m) ks) hi (drop (Suc m) cs)
           \<and> beyond lo (ks ! m) \<and> below hi (ks ! m)"
  using assms
proof (induction P lo ks hi cs arbitrary: m rule: children_ok.induct)
  case (2 P lo k ks hi c cs)
  show ?case
  proof (cases m)
    case 0
    with 2 show ?thesis by (cases cs) auto
  next
    case (Suc j)
    with "2.prems" have "j < length ks" and tail: "children_ok P (Some k) ks hi cs" by auto
    note ih = "2.IH" [OF tail \<open>j < length ks\<close>]
    with "2.prems" Suc show ?thesis by (auto intro: beyond_trans)
  qed
qed auto

section \<open>Entries of well-formed nodes\<close>

definition entries_between :: "int option \<Rightarrow> int option \<Rightarrow> bpnode \<Rightarrow> bool" where
  "entries_between lo hi n = (\<forall>e\<in>set (entries n). above lo (fst e) \<and> below hi (fst e))"

lemma children_entries_between:
  assumes "children_ok entries_between lo ks hi cs" and "e \<in> set (concat (map entries cs))"
  shows "above lo (fst e) \<and> below hi (fst e)"
  using assms
proof (induction entries_between lo ks hi cs rule: children_ok.induct)
  case (2 lo k ks hi c cs)
  then show ?case
    by (auto simp: entries_between_def intro: above_trans below_trans beyond_above)
      (metis above_beyond above_trans beyond_above less_imp_le below_trans)+
qed (auto simp: entries_between_def)

lemma wf_entries_between: "wf_node mn h lo hi n \<Longrightarrow> entries_between lo hi n"
proof (induction h arbitrary: lo hi n)
  case 0
  then show ?case
    by (auto simp: entries_between_def split: bpnode.splits dest: set_zip_leftD)
next
  case (Suc h)
  then obtain a ks cs where n: "n = Internal a ks cs"
    and cs: "children_ok (wf_node mn h) lo ks hi cs"
    by (auto split: bpnode.splits)
  from Suc.IH cs have "children_ok entries_between lo ks hi cs" by (rule children_ok_mono)
  then show ?case
    using n children_entries_between by (fastforce simp: entries_between_def)
qed

lemma wf_children_entries:
  assumes "children_ok (wf_node mn h) lo ks hi cs"
  shows "children_ok entries_between lo ks hi cs"
  using wf_entries_between assms by (rule children_ok_mono)

lemma children_entries_around:
  assumes "children_ok entries_between lo ks hi cs" and "below hi key"
  shows "(\<forall>e\<in>set (concat (map entries (take (find_child_index ks key) cs))). fst e < key)
       \<and> (\<forall>e\<in>set (concat (map entries (drop (Suc (find_child_index ks key)) cs))). key < fst e)"
  using assms
proof (induction entries_between lo ks hi cs rule: children_ok.induct)
  case (2 lo k ks hi c cs)
  show ?case
  proof (cases "k \<le> key")
    case True
    with 2 show ?thesis by (auto simp: entries_between_def)
  next
    case False
    with "2.prems" have "children_ok entries_between (Some k) ks hi cs" by simp
    then have "k \<le> fst e" if "e \<in> set (concat (map entries cs))" for e
      using children_entries_between that by fastforce
    with False show ?thesis by fastforce
  qed
qed auto

lemmas children_entries_split = concat_map_split [where f = entries]

lemma wf_height: "wf_node mn h lo hi n \<Longrightarrow> height n = h"
proof (induction h arbitrary: lo hi n)
  case (Suc h)
  then obtain a ks cs where n: "n = Internal a ks cs"
    and cs: "children_ok (wf_node mn h) lo ks hi cs"
    by (auto split: bpnode.splits)
  then obtain c rest hi' where "cs = c # rest" and "wf_node mn h lo hi' c"
    by (cases "(wf_node mn h, lo, ks, hi, cs)" rule: children_ok.cases) auto
  with Suc.IH n show ?case by simp
qed (auto split: bpnode.splits)

lemma wf_node_weaken:
  "mn \<le> 2 \<Longrightarrow> wf_node (if h = 0 then 2 else mn) h lo hi n \<Longrightarrow> wf_node mn h lo hi n"
  by (cases h) (auto split: bpnode.splits)

section \<open>Insertion is correct while allocation succeeds\<close>

text \<open>What an insertion into a well-formed node of height \<open>h\<close> returns.\<close>

definition insert_outcome ::
  "nat \<Rightarrow> nat \<Rightarrow> int option \<Rightarrow> int option \<Rightarrow> bpnode \<Rightarrow> int \<Rightarrow> int \<Rightarrow> allocator
     \<Rightarrow> insert_state \<Rightarrow> bpnode \<Rightarrow> allocator \<Rightarrow> bool" where
  "insert_outcome mn h lo hi n key val al st n' al' =
     (oom al' = [] \<and>
      (case st of
         InsertError m \<Rightarrow>
           m = ''duplicate id key'' \<and> key \<in> fst ` set (entries n) \<and> n' = n \<and> al' = al
       | InsertDone \<Rightarrow>
           key \<notin> fst ` set (entries n) \<and> wf_node mn h lo hi n'
           \<and> entries n' = ins_entry key val (entries n)
       | InsertSplit p r \<Rightarrow>
           key \<notin> fst ` set (entries n) \<and> beyond lo p \<and> below hi p
           \<and> wf_node (if h = 0 then 2 else mn) h lo (Some p) n'
           \<and> wf_node (if h = 0 then 2 else mn) h (Some p) hi r
           \<and> entries n' @ entries r = ins_entry key val (entries n)))"

lemma create_node_ok [simp]:
  "oom al = [] \<Longrightarrow> create_node al = (Some (next_addr al), al\<lparr>next_addr := Suc (next_addr al)\<rparr>)"
  by (simp add: create_node_def)

lemma length4E:
  assumes "length xs = 4"
  obtains a b c d where "xs = [a, b, c, d]"
  using assms by (auto simp: numeral_eq_Suc length_Suc_conv)

lemma zip_keys: "length vs = length ks \<Longrightarrow> fst ` set (zip ks vs) = set ks"
  by (metis list.set_map map_fst_zip)

lemma insert_into_leaf_split:
  assumes "key \<notin> set ks" and "sorted_wrt (<) ks" and "length ks = 3" and "oom al = []"
    and "insert_at (leaf_insert_index ks key) key ks = [k0, k1, k2, k3]"
    and "insert_at (leaf_insert_index ks key) val vs = [v0, v1, v2, v3]"
  shows "insert_into_leaf al a ks vs nxt key val =
    Some (InsertSplit k2 (Leaf (next_addr al) [k2, k3] [v2, v3] nxt),
          Leaf a [k0, k1] [v0, v1] (Some (next_addr al)), al\<lparr>next_addr := Suc (next_addr al)\<rparr>)"
  using assms leaf_insert_index_dup [OF assms(2), of key]
  by (auto simp: insert_into_leaf_def BPTREE_MAX_KEYS_def Let_def)

lemma insert_into_leaf_outcome:
  assumes wf: "wf_node mn 0 lo hi (Leaf a ks vs nxt)"
    and rng: "above lo key" "below hi key" and al: "oom al = []"
  shows "\<exists>st n' al'. insert_into_leaf al a ks vs nxt key val = Some (st, n', al')
           \<and> insert_outcome mn 0 lo hi (Leaf a ks vs nxt) key val al st n' al'"
proof -
  define i where "i = leaf_insert_index ks key"
  define ks' vs' where "ks' = insert_at i key ks" and "vs' = insert_at i val vs"
  from wf have len: "length vs = length ks" and srt: "sorted_wrt (<) ks"
    and mx: "length ks \<le> 3" and mn: "mn \<le> length ks"
    and b: "\<forall>k\<in>set ks. above lo k \<and> below hi k"
    by (auto simp: BPTREE_MAX_KEYS_def)
  note dup = leaf_insert_index_dup [OF srt, of key, folded i_def]
  have set': "set ks' = insert key (set ks)" by (simp add: ks'_def set_insert_at)
  have zip': "zip ks' vs' = ins_entry key val (zip ks vs)"
    unfolding ks'_def vs'_def i_def using leaf_insert_zip [OF len [symmetric]] .
  show ?thesis
  proof (cases "key \<in> set ks")
    case True
    with dup len al show ?thesis
      by (simp add: insert_into_leaf_def i_def [symmetric] insert_outcome_def zip_keys)
  next
    case False
    have srt': "sorted_wrt (<) ks'"
      unfolding ks'_def i_def using srt False by (rule leaf_insert_sorted)
    have b': "\<forall>k\<in>set ks'. above lo k \<and> below hi k" using b rng set' by auto
    show ?thesis
    proof (cases "length ks < 3")
      case True
      with False dup len al srt' b' zip' mn show ?thesis
        by (auto simp: insert_into_leaf_def i_def [symmetric] ks'_def [symmetric]
            vs'_def [symmetric] insert_outcome_def zip_keys BPTREE_MAX_KEYS_def)
          (simp_all add: ks'_def vs'_def)
    next
      case big: False
      with mx have "length ks' = 4" and "length vs' = 4" using len by (simp_all add: ks'_def vs'_def)
      then obtain k0 k1 k2 k3 v0 v1 v2 v3
        where ks': "ks' = [k0, k1, k2, k3]" and vs': "vs' = [v0, v1, v2, v3]"
        by (metis length4E)
      have "length ks = 3" using big mx by simp
      note ins = insert_into_leaf_split [OF False srt this al ks' [unfolded ks'_def i_def] vs' [unfolded vs'_def i_def]]
      from srt' b' ks' have "beyond lo k2" "below hi k2"
        by (auto intro: above_beyond [of lo k0])
      with ins False srt' b' zip' ks' vs' len al show ?thesis
        by (auto simp: insert_outcome_def zip_keys BPTREE_MAX_KEYS_def)
    qed
  qed
qed

lemma wf_internal_split:
  assumes cs: "children_ok (wf_node mn h) lo ks hi cs" and len: "length ks = 4"
  shows "wf_node mn (Suc h) lo (Some (ks ! 2)) (Internal a (take 2 ks) (take (Suc 2) cs))"
    and "wf_node mn (Suc h) (Some (ks ! 2)) hi (Internal b (drop (Suc 2) ks) (drop (Suc 2) cs))"
    and "beyond lo (ks ! 2)" and "below hi (ks ! 2)"
  using children_split [OF cs, of 2] len by (simp_all add: BPTREE_MAX_KEYS_def)

lemma absorb_split_outcome:
  assumes cs': "children_ok (wf_node mn h) lo ks' hi cs'"
    and new: "ks' = insert_at i p ks" "cs' = insert_at (Suc i) r cs"
    and ks: "1 \<le> length ks" "length ks \<le> 3" and al: "oom al = []"
    and nk: "key \<notin> fst ` set (entries n)"
    and ents: "concat (map entries cs') = ins_entry key val (entries n)"
  shows "\<exists>st' n' al'. absorb_child al a ks cs i (InsertSplit p r) = Some (st', n', al')
           \<and> insert_outcome mn (Suc h) lo hi n key val al0 st' n' al'"
proof (cases "length ks < 3")
  case True
  with cs' al nk ents ks show ?thesis
    by (auto simp: absorb_child_def new [symmetric] insert_outcome_def BPTREE_MAX_KEYS_def)
      (simp_all add: new)
next
  case False
  with ks have l4: "length ks' = 4" by (simp add: new)
  have "take (Suc 2) cs' @ drop (Suc 2) cs' = cs'" by simp
  then have "concat (map entries (take (Suc 2) cs')) @ concat (map entries (drop (Suc 2) cs'))
               = concat (map entries cs')"
    by (metis concat_append map_append)
  moreover have "absorb_child al a ks cs i (InsertSplit p r) =
    Some (InsertSplit (ks' ! 2) (Internal (next_addr al) (drop (Suc 2) ks') (drop (Suc 2) cs')),
          Internal a (take 2 ks') (take (Suc 2) cs'), al\<lparr>next_addr := Suc (next_addr al)\<rparr>)"
    using False ks al l4 by (simp add: absorb_child_def new [symmetric] BPTREE_MAX_KEYS_def Let_def)
  ultimately show ?thesis
    using wf_internal_split [OF cs' l4] al nk ents
    by (simp add: insert_outcome_def del: wf_node.simps)
qed

lemma absorb_child_outcome:
  assumes wf: "wf_node mn (Suc h) lo hi (Internal a ks cs)" and mn: "mn \<le> 2"
    and rng: "above lo key" "below hi key"
    and i: "i = find_child_index ks key"
    and child: "insert_outcome mn h lo' hi' (cs ! i) key val al0 st c' al"
    and i_lt: "i < length cs"
    and one: "\<forall>c'. wf_node mn h lo' hi' c' \<longrightarrow> children_ok (wf_node mn h) lo ks hi (cs[i := c'])"
    and two: "\<forall>p l r. wf_node mn h lo' (Some p) l \<and> wf_node mn h (Some p) hi' r
                \<and> beyond lo' p \<and> below hi' p
              \<longrightarrow> children_ok (wf_node mn h) lo (insert_at i p ks) hi
                    (insert_at (Suc i) r (cs[i := l]))"
  shows "\<exists>st' n' al'. absorb_child al a ks (cs[i := c']) i st = Some (st', n', al')
           \<and> insert_outcome mn (Suc h) lo hi (Internal a ks cs) key val al0 st' n' al'"
proof -
  from wf have cs: "children_ok (wf_node mn h) lo ks hi cs"
    and ks: "1 \<le> length ks" "length ks \<le> 3" by (auto simp: BPTREE_MAX_KEYS_def)
  define X Y where "X = concat (map entries (take i cs))"
    and "Y = concat (map entries (drop (Suc i) cs))"
  have around: "\<forall>e\<in>set X. fst e < key" "\<forall>e\<in>set Y. key < fst e"
    using children_entries_around [OF wf_children_entries [OF cs] rng(2)]
    by (simp_all add: X_def Y_def i)
  note split = children_entries_split [OF i_lt, folded X_def Y_def]
  have mem: "key \<in> fst ` set (entries (Internal a ks cs)) \<longleftrightarrow> key \<in> fst ` set (entries (cs ! i))"
    using around by (fastforce simp: split(1))
  have ins: "ins_entry key val (entries (Internal a ks cs))
               = X @ ins_entry key val (entries (cs ! i)) @ Y"
    using ins_entry_append [OF around] by (simp add: split(1))
  show ?thesis
  proof (cases st)
    case (InsertError m)
    with child mem show ?thesis
      by (auto simp: absorb_child_def insert_outcome_def)
  next
    case InsertDone
    with child one mem ins ks show ?thesis
      by (auto simp: absorb_child_def insert_outcome_def split BPTREE_MAX_KEYS_def)
  next
    case (InsertSplit p r)
    from InsertSplit child have "oom al = []" "key \<notin> fst ` set (entries (cs ! i))"
      and en: "entries c' @ entries r = ins_entry key val (entries (cs ! i))"
      and "wf_node mn h lo' (Some p) c'" "wf_node mn h (Some p) hi' r"
      and "beyond lo' p" "below hi' p"
      using wf_node_weaken [OF mn] by (auto simp: insert_outcome_def)
    moreover have "concat (map entries (insert_at (Suc i) r (cs[i := c'])))
        = ins_entry key val (entries (Internal a ks cs))"
      by (simp only: split(3) ins en)
    ultimately show ?thesis
      unfolding InsertSplit using two mem ks by (intro absorb_split_outcome) auto
  qed
qed

lemma insert_into_node_outcome:
  assumes "wf_node mn h lo hi n" and "above lo key" and "below hi key"
    and "oom al = []" and mn: "mn \<le> 2"
  shows "\<exists>st n' al'. insert_into_node al n key val = Some (st, n', al')
           \<and> insert_outcome mn h lo hi n key val al st n' al'"
  using assms(1-4)
proof (induction h arbitrary: lo hi n)
  case 0
  then obtain a ks vs nxt where n: "n = Leaf a ks vs nxt" by (auto split: bpnode.splits)
  with 0 insert_into_leaf_outcome show ?case by simp
next
  case (Suc h)
  then obtain a ks cs where n: "n = Internal a ks cs"
    and cs: "children_ok (wf_node mn h) lo ks hi cs"
    by (auto split: bpnode.splits)
  let ?i = "find_child_index ks key"
  from children_focus [OF cs Suc.prems(2,3)] obtain lo' hi' where
    f: "?i < length cs" "wf_node mn h lo' hi' (cs ! ?i)" "above lo' key" "below hi' key"
       "\<forall>c'. wf_node mn h lo' hi' c' \<longrightarrow> children_ok (wf_node mn h) lo ks hi (cs[?i := c'])"
       "\<forall>p l r. wf_node mn h lo' (Some p) l \<and> wf_node mn h (Some p) hi' r
          \<and> beyond lo' p \<and> below hi' p
        \<longrightarrow> children_ok (wf_node mn h) lo (insert_at ?i p ks) hi
              (insert_at (Suc ?i) r (cs[?i := l]))"
    by blast
  from Suc.IH [OF f(2-4) Suc.prems(4)] obtain st c' al' where
    c: "insert_into_node al (cs ! ?i) key val = Some (st, c', al')"
    and out: "insert_outcome mn h lo' hi' (cs ! ?i) key val al st c' al'" by blast
  from absorb_child_outcome [OF Suc.prems(1) [unfolded n] mn Suc.prems(2,3) refl out f(1,5,6)]
  show ?case using f(1) c n by (simp add: Let_def)
qed

section \<open>Search is correct\<close>

lemma map_of_around:
  fixes key :: int
  assumes "\<forall>e\<in>set xs. fst e < key" and "\<forall>e\<in>set zs. key < fst e"
  shows "map_of (xs @ ys @ zs) key = map_of ys key"
proof -
  from assms have "key \<notin> fst ` set xs" and "key \<notin> fst ` set zs" by auto
  then have "map_of xs key = None" and "map_of zs key = None"
    by (simp_all add: map_of_eq_None_iff)
  then show ?thesis by (cases "map_of ys key") (simp_all add: map_add_def)
qed

lemma search_node_map_of:
  assumes "wf_node mn h lo hi n" and "above lo key" and "below hi key"
  shows "search_node n key = map_of (entries n) key"
  using assms
proof (induction h arbitrary: lo hi n)
  case 0
  then obtain a ks vs nxt where "n = Leaf a ks vs nxt" and "length vs = length ks"
    by (auto split: bpnode.splits)
  then show ?case using leaf_find_map_of [of ks vs key] by simp
next
  case (Suc h)
  then obtain a ks cs where n: "n = Internal a ks cs"
    and cs: "children_ok (wf_node mn h) lo ks hi cs"
    by (auto split: bpnode.splits)
  let ?i = "find_child_index ks key"
  from children_focus [OF cs Suc.prems(2,3)] obtain lo' hi' where
    f: "?i < length cs" "wf_node mn h lo' hi' (cs ! ?i)" "above lo' key" "below hi' key"
    by blast
  have "search_node n key = map_of (entries (cs ! ?i)) key"
    using Suc.IH [OF f(2-4)] f(1) n by (simp add: Let_def)
  also have "\<dots> = map_of (concat (map entries cs)) key"
    unfolding children_entries_split(1) [OF f(1)]
    using map_of_around children_entries_around [OF wf_children_entries [OF cs] Suc.prems(3)]
    by metis
  finally show ?case using n by simp
qed

section \<open>The tree\<close>

lemma bptree_search_map_of:
  assumes "bptree_inv t"
  shows "bptree_search t key = map_of (tree_entries t) key"
  using assms search_node_map_of [of _ _ None None _ key]
  by (auto simp: bptree_search_def tree_entries_def bptree_inv_def split: option.splits)

lemma wf_new_root:
  assumes "wf_node (if h = 0 then 2 else min_leaf h) h None (Some p) l"
    and "wf_node (if h = 0 then 2 else min_leaf h) h (Some p) None r"
  shows "bptree_inv (Some (Internal a [p] [l, r]))"
proof -
  from assms have "wf_node 2 h None (Some p) l" and "wf_node 2 h (Some p) None r"
    by (simp_all add: min_leaf_def split: if_splits)
  moreover from this(1) have "height l = h" by (rule wf_height)
  ultimately show ?thesis by (simp add: bptree_inv_def min_leaf_def BPTREE_MAX_KEYS_def)
qed

lemma bptree_inv_single: "bptree_inv (Some (Leaf a [k] [v] nxt))"
  by (simp add: bptree_inv_def min_leaf_def BPTREE_MAX_KEYS_def)

lemma bptree_insert_outcome:
  assumes inv: "bptree_inv t" and al: "oom al = []"
  shows "\<exists>res t' al'. bptree_insert al t key val = Some (res, t', al') \<and> oom al' = []
           \<and> bptree_inv t'
           \<and> (if key \<in> fst ` set (tree_entries t)
              then res = Some ''duplicate id key'' \<and> t' = t \<and> al' = al
              else res = None \<and> tree_entries t' = ins_entry key val (tree_entries t))"
proof (cases t)
  case None
  with al show ?thesis
    by (simp add: bptree_insert_def tree_entries_def bptree_inv_single)
next
  case (Some root)
  define h where "h = height root"
  from inv Some have wf: "wf_node (min_leaf h) h None None root"
    by (simp add: bptree_inv_def h_def)
  have "min_leaf h \<le> 2" by (simp add: min_leaf_def)
  with wf al obtain st n' al' where
    ins: "insert_into_node al root key val = Some (st, n', al')"
    and out: "insert_outcome (min_leaf h) h None None root key val al st n' al'"
    using insert_into_node_outcome [of "min_leaf h" h None None root key al val] by auto
  show ?thesis
  proof (cases st)
    case (InsertError m)
    with ins out Some inv al show ?thesis
      by (auto simp: bptree_insert_def insert_outcome_def tree_entries_def)
  next
    case InsertDone
    with out have wf': "wf_node (min_leaf h) h None None n'" by (simp add: insert_outcome_def)
    from wf_height [OF this] this have "bptree_inv (Some n')" by (simp add: bptree_inv_def)
    with InsertDone ins out Some show ?thesis
      by (auto simp: bptree_insert_def insert_outcome_def tree_entries_def)
  next
    case (InsertSplit p r)
    with out have "bptree_inv (Some (Internal a [p] [n', r]))" for a
      by (intro wf_new_root [of h]) (simp_all add: insert_outcome_def)
    with InsertSplit ins out Some show ?thesis
      by (auto simp: bptree_insert_def insert_outcome_def tree_entries_def)
  qed
qed

lemma entries_sorted:
  assumes "wf_node mn h lo hi n"
  shows "sorted_wrt (<) (map fst (entries n))"
  using assms
proof (induction h arbitrary: lo hi n)
  case 0
  then show ?case by (auto split: bpnode.splits)
next
  case (Suc h)
  then obtain a ks cs where n: "n = Internal a ks cs"
    and cs: "children_ok (wf_node mn h) lo ks hi cs"
    by (auto split: bpnode.splits)
  from cs have "sorted_wrt (<) (map fst (concat (map entries cs)))"
  proof (induction "wf_node mn h" lo ks hi cs rule: children_ok.induct)
    case (2 lo k ks hi c cs)
    then have "entries_between lo (Some k) c" and tl: "children_ok (wf_node mn h) (Some k) ks hi cs"
      by (auto dest: wf_entries_between)
    moreover have "k \<le> fst e" if "e \<in> set (concat (map entries cs))" for e
      using children_entries_between [OF wf_children_entries [OF tl] that] by simp
    ultimately show ?case
      using 2 Suc.IH by (fastforce simp: sorted_wrt_append entries_between_def)
  qed (auto dest: Suc.IH)
  with n show ?case by simp
qed

lemma tree_entries_sorted: "bptree_inv t \<Longrightarrow> sorted_wrt (<) (map fst (tree_entries t))"
  by (auto simp: bptree_inv_def tree_entries_def dest: entries_sorted split: option.splits)

end
