(* ===== verification/BPlusTree_Leaves.thy ===== *)
theory BPlusTree_Leaves
  imports BPlusTree
begin

text \<open>
  The leaf list of the B+ tree (the \<open>next\<close> pointers of \<open>src/index/bptree.c\<close>), the
  height bound, and what an allocation failure leaves behind.
\<close>

section \<open>The linked list of leaves\<close>

fun leaf_links :: "bpnode \<Rightarrow> (addr \<times> addr option) list" where
  "leaf_links (Leaf a ks vs nxt) = [(a, nxt)]"
| "leaf_links (Internal a ks cs) = concat (map leaf_links cs)"

text \<open>\<open>linked ls e\<close>: each leaf of \<open>ls\<close> points to the one after it, the last one to \<open>e\<close>.\<close>

fun linked :: "(addr \<times> addr option) list \<Rightarrow> addr option \<Rightarrow> bool" where
  "linked [] e = True"
| "linked [(a, n)] e = (n = e)"
| "linked ((a, n) # (b, m) # ls) e = (n = Some b \<and> linked ((b, m) # ls) e)"

definition chain_inv :: "allocator \<Rightarrow> bptree \<Rightarrow> bool" where
  "chain_inv al t =
     (case t of None \<Rightarrow> True
      | Some root \<Rightarrow>
          linked (leaf_links root) None \<and> distinct (map fst (leaf_links root))
          \<and> (\<forall>l\<in>set (leaf_links root). fst l < next_addr al))"

definition result_links :: "insert_state \<Rightarrow> bpnode \<Rightarrow> (addr \<times> addr option) list" where
  "result_links st n =
     leaf_links n @ (case st of InsertSplit p r \<Rightarrow> leaf_links r | _ \<Rightarrow> [])"

text \<open>What one insertion does to a stretch \<open>ls\<close> of the leaf list.\<close>

definition chain_step ::
  "allocator \<Rightarrow> (addr \<times> addr option) list \<Rightarrow> allocator \<Rightarrow> (addr \<times> addr option) list \<Rightarrow> bool" where
  "chain_step al ls al' ls' =
     ((\<forall>e. linked ls e \<longrightarrow> linked ls' e) \<and> ls' \<noteq> [] \<and> fst (hd ls') = fst (hd ls)
      \<and> next_addr al \<le> next_addr al'
      \<and> fst ` set ls' \<subseteq> fst ` set ls \<union> {next_addr al ..< next_addr al'}
      \<and> (distinct (map fst ls) \<and> (\<forall>l\<in>set ls. fst l < next_addr al)
           \<longrightarrow> distinct (map fst ls')))"

lemma linked_append:
  assumes "ys \<noteq> []"
  shows "linked (xs @ ys) e \<longleftrightarrow> linked xs (Some (fst (hd ys))) \<and> linked ys e"
proof (induction xs "Some (fst (hd ys))" rule: linked.induct)
  case (2 a n)
  with assms show ?case by (cases ys) auto
qed auto

lemma linked_context:
  assumes "\<forall>e. linked m e \<longrightarrow> linked m' e" and "m \<noteq> []" and "m' \<noteq> []"
    and "fst (hd m') = fst (hd m)" and "linked (xs @ m @ ys) e"
  shows "linked (xs @ m' @ ys) e"
proof (cases "ys = []")
  case True
  with assms show ?thesis by (simp add: linked_append)
next
  case False
  with assms show ?thesis by (simp add: linked_append)
qed

lemma chain_step_context:
  assumes "chain_step al m al' m'" and "m \<noteq> []" and "next_addr al' \<le> next_addr al''"
  shows "chain_step al (xs @ m @ ys) al'' (xs @ m' @ ys)"
proof -
  have "fst (hd (xs @ m' @ ys)) = fst (hd (xs @ m @ ys))"
    using assms by (cases xs) (auto simp: chain_step_def)
  moreover have "distinct (map fst (xs @ m' @ ys))"
    if d: "distinct (map fst (xs @ m @ ys))" "\<forall>l\<in>set (xs @ m @ ys). fst l < next_addr al"
  proof -
    have "distinct (map fst m')" using assms(1) d by (auto simp: chain_step_def)
    moreover have disj: "A \<inter> fst ` set m' = {}"
      if A: "A = fst ` set xs \<or> A = fst ` set ys" for A
    proof -
      have sub: "fst ` set m' \<subseteq> fst ` set m \<union> {next_addr al ..< next_addr al'}"
        using assms(1) by (simp add: chain_step_def)
      have "A \<inter> fst ` set m = {}" using A d(1) by auto
      moreover have "\<forall>a\<in>A. a < next_addr al" using A d(2) by auto
      ultimately show ?thesis using sub by fastforce
    qed
    moreover have "fst ` set m' \<inter> fst ` set ys = {}" using disj [of "fst ` set ys"] by blast
    ultimately show ?thesis using d(1) by (simp add: Int_Un_distrib)
  qed
  moreover have "linked (xs @ m @ ys) e \<longrightarrow> linked (xs @ m' @ ys) e" for e
    using assms linked_context by (auto simp: chain_step_def)
  ultimately show ?thesis
    using assms unfolding chain_step_def by auto
qed

lemma chain_step_refl: "ls \<noteq> [] \<Longrightarrow> chain_step al ls al ls"
  by (simp add: chain_step_def)

lemma create_node_mono:
  "create_node al = (r, al') \<Longrightarrow> next_addr al \<le> next_addr al'"
  by (auto simp: create_node_def split: list.splits if_splits)

lemmas children_links_split = concat_map_split [where f = leaf_links]

lemma take_drop_links:
  "concat (map leaf_links (take m cs)) @ concat (map leaf_links (drop m cs))
     = concat (map leaf_links cs)"
  by (metis append_take_drop_id concat_append map_append)

lemma absorb_links:
  assumes "absorb_child al a ks (cs[i := c']) i st = Some (st', n', al')" and "i < length cs"
  shows "result_links st' n' = concat (map leaf_links (take i cs)) @ result_links st c'
           @ concat (map leaf_links (drop (Suc i) cs)) \<and> next_addr al \<le> next_addr al'"
proof (cases st)
  case (InsertSplit p r)
  then show ?thesis
    using assms(1) children_links_split(3) [OF assms(2), of r c']
    by (auto simp: absorb_child_def result_links_def Let_def take_drop_links
        split: if_splits prod.splits option.splits dest: create_node_mono)
qed (use assms in \<open>auto simp: absorb_child_def result_links_def children_links_split\<close>)

lemma leaf_links_nonempty: "wf_node mn h lo hi n \<Longrightarrow> leaf_links n \<noteq> []"
proof (induction h arbitrary: lo hi n)
  case (Suc h)
  then obtain a ks cs where n: "n = Internal a ks cs"
    and "children_ok (wf_node mn h) lo ks hi cs"
    by (auto split: bpnode.splits)
  then obtain c rest hi' where "cs = c # rest" and "wf_node mn h lo hi' c"
    by (cases "(wf_node mn h, lo, ks, hi, cs)" rule: children_ok.cases) auto
  with Suc.IH n show ?case by simp
qed (auto split: bpnode.splits)

lemma insert_into_leaf_chain:
  assumes "insert_into_leaf al a ks vs nxt key val = Some (st, n', al')"
  shows "chain_step al [(a, nxt)] al' (result_links st n')"
  using assms
  by (auto simp: insert_into_leaf_def chain_step_def result_links_def Let_def create_node_def
      split: if_splits list.splits)

lemma insert_into_node_chain:
  assumes "wf_node mn h lo hi n" and "above lo key" and "below hi key"
    and "insert_into_node al n key val = Some (st, n', al')"
  shows "chain_step al (leaf_links n) al' (result_links st n')"
  using assms
proof (induction h arbitrary: lo hi n st n' al')
  case 0
  then show ?case by (auto split: bpnode.splits dest: insert_into_leaf_chain)
next
  case (Suc h)
  then obtain a ks cs where n: "n = Internal a ks cs"
    and cs: "children_ok (wf_node mn h) lo ks hi cs"
    by (auto split: bpnode.splits)
  define i where "i = find_child_index ks key"
  from children_focus [OF cs Suc.prems(2,3), folded i_def] obtain lo' hi' where
    f: "i < length cs" "wf_node mn h lo' hi' (cs ! i)" "above lo' key" "below hi' key"
    by blast
  from Suc.prems(4) n f(1) obtain st0 c' al0 where
    c: "insert_into_node al (cs ! i) key val = Some (st0, c', al0)"
    and ab: "absorb_child al0 a ks (cs[i := c']) i st0 = Some (st, n', al')"
    by (auto simp: i_def [symmetric] Let_def split: option.splits)
  note ih = Suc.IH [OF f(2-4) c]
  note links = absorb_links [OF ab f(1)]
  from chain_step_context [OF ih leaf_links_nonempty [OF f(2)] conjunct2 [OF links]]
  show ?case
    unfolding n leaf_links.simps children_links_split(1) [OF f(1)] conjunct1 [OF links] .
qed

lemma bptree_insert_chain:
  assumes inv: "bptree_inv t" and chain: "chain_inv al t" and al: "oom al = []"
    and ins: "bptree_insert al t key val = Some (res, t', al')"
  shows "chain_inv al' t'"
proof (cases t)
  case None
  with ins al show ?thesis
    by (auto simp: bptree_insert_def chain_inv_def)
next
  case (Some root)
  define h where "h = height root"
  from inv Some have wf: "wf_node (min_leaf h) h None None root"
    by (simp add: bptree_inv_def h_def)
  have "min_leaf h \<le> 2" by (simp add: min_leaf_def)
  with wf al obtain st n' al1 where
    node: "insert_into_node al root key val = Some (st, n', al1)"
    and out: "insert_outcome (min_leaf h) h None None root key val al st n' al1"
    using insert_into_node_outcome [of "min_leaf h" h None None root key al val] by auto
  from insert_into_node_chain [OF wf _ _ node] chain Some
  have step: "linked (result_links st n') None" "distinct (map fst (result_links st n'))"
    "\<forall>l\<in>set (result_links st n'). fst l < next_addr al1"
    by (fastforce simp: chain_step_def chain_inv_def)+
  from step(3) have "\<forall>l\<in>set (result_links st n'). fst l < Suc (next_addr al1)"
    by (auto intro: less_SucI)
  with step node out Some ins show ?thesis
    by (cases st)
      (auto simp: bptree_insert_def insert_outcome_def chain_inv_def result_links_def
        simp del: less_Suc_eq split_paired_All)
qed

section \<open>The height bound\<close>

lemma wf_node_size:
  assumes "wf_node mn h lo hi n"
  shows "mn * 2 ^ h \<le> length (entries n)"
  using assms
proof (induction h arbitrary: lo hi n)
  case 0
  then show ?case by (auto split: bpnode.splits)
next
  case (Suc h)
  then obtain a ks cs where n: "n = Internal a ks cs" and ks: "1 \<le> length ks"
    and cs: "children_ok (wf_node mn h) lo ks hi cs"
    by (auto split: bpnode.splits)
  from cs have "length cs * (mn * 2 ^ h) \<le> length (concat (map entries cs))"
  proof (induction "wf_node mn h" lo ks hi cs rule: children_ok.induct)
    case (2 lo k ks hi c cs)
    then have "mn * 2 ^ h \<le> length (entries c)" using Suc.IH by auto
    with 2 show ?case by simp
  qed (auto dest: Suc.IH)
  moreover from ks children_ok_length [OF cs] have "2 \<le> length cs" by simp
  then have "2 * (mn * 2 ^ h) \<le> length cs * (mn * 2 ^ h)" by (rule mult_le_mono1)
  ultimately have "2 * (mn * 2 ^ h) \<le> length (concat (map entries cs))" by linarith
  with n show ?case by (simp add: mult.left_commute)
qed

section \<open>Allocation failures\<close>

text \<open>The first unused slot of a node, and the state after a failed leaf split.\<close>

lemma insert_into_leaf_split_oom:
  assumes "sorted_wrt (<) ks" and "length ks = 3" and "key \<notin> set ks" and "oom al = True # rest"
  defines "i \<equiv> leaf_insert_index ks key"
  shows "insert_into_leaf al a ks vs nxt key val =
           Some (InsertError ''out of memory while splitting B+ tree leaf'',
                 Leaf a (insert_at i key ks) (insert_at i val vs) nxt, al\<lparr>oom := rest\<rparr>)"
  using assms leaf_insert_index_dup [of ks key]
  by (auto simp: insert_into_leaf_def BPTREE_MAX_KEYS_def Let_def create_node_def)

lemma insert_into_overfull_leaf:
  assumes "sorted_wrt (<) ks" and "length ks = 4" and "key \<notin> set ks"
  shows "insert_into_leaf al a ks vs nxt key val = None"
  using assms leaf_insert_index_dup [of ks key]
  by (auto simp: insert_into_leaf_def BPTREE_MAX_KEYS_def Let_def)

section \<open>The interface of an index\<close>

text \<open>
  What a client of the tree may rely on: a map from integer keys to integers, kept as an
  ordered list of items. A put of a new key succeeds and adds exactly that item; a put of
  a key that is present changes nothing and reports an error. \<open>ok\<close> is the condition on
  the environment (the allocator) under which the laws hold.
\<close>

locale ordered_index =
  fixes empty :: "'t"
    and put :: "'a \<Rightarrow> 't \<Rightarrow> int \<Rightarrow> int \<Rightarrow> (string option \<times> 't \<times> 'a) option"
    and get :: "'t \<Rightarrow> int \<Rightarrow> int option"
    and items :: "'t \<Rightarrow> (int \<times> int) list"
    and inv :: "'t \<Rightarrow> bool"
    and ok :: "'a \<Rightarrow> bool"
  assumes inv_empty: "inv empty"
    and items_empty: "items empty = []"
    and put_new: "inv t \<Longrightarrow> ok a \<Longrightarrow> k \<notin> fst ` set (items t) \<Longrightarrow>
          \<exists>t' a'. put a t k v = Some (None, t', a') \<and> inv t' \<and> ok a'
                  \<and> items t' = ins_entry k v (items t)"
    and put_dup: "inv t \<Longrightarrow> ok a \<Longrightarrow> k \<in> fst ` set (items t) \<Longrightarrow>
          \<exists>m. put a t k v = Some (Some m, t, a)"
    and get_items: "inv t \<Longrightarrow> get t k = map_of (items t) k"
begin

lemma get_empty: "get empty k = None"
  by (simp add: get_items inv_empty items_empty)

lemma put_defined: "inv t \<Longrightarrow> ok a \<Longrightarrow> put a t k v \<noteq> None"
  using put_new put_dup by (cases "k \<in> fst ` set (items t)") fastforce+

lemma get_put:
  assumes "inv t" and "ok a" and "put a t k v = Some (None, t', a')"
  shows "get t' = (get t)(k \<mapsto> v)"
proof -
  have new: "k \<notin> fst ` set (items t)"
  proof
    assume "k \<in> fst ` set (items t)"
    from put_dup [OF assms(1,2) this, of v] assms(3) show False by auto
  qed
  with assms put_new [OF assms(1,2) new, of v]
  have "inv t'" and "items t' = ins_entry k v (items t)" by auto
  with new show ?thesis
    using get_items assms(1) by (auto simp: map_of_ins_entry fun_eq_iff)
qed

text \<open>Keys that grow: the item of a key above all present keys becomes the last one.\<close>

lemma put_append:
  assumes "inv t" and "ok a" and "\<forall>e\<in>set (items t). fst e < k"
  shows "\<exists>t' a'. put a t k v = Some (None, t', a') \<and> inv t' \<and> ok a'
           \<and> items t' = items t @ [(k, v)]"
proof -
  from assms(3) have "k \<notin> fst ` set (items t)" by auto
  from put_new [OF assms(1,2) this, of v] ins_entry_last [OF assms(3)] show ?thesis by auto
qed

end

interpretation bpt: ordered_index bptree_init bptree_insert bptree_search tree_entries
  bptree_inv "\<lambda>al. oom al = []"
proof unfold_locales
  fix t :: bptree and al :: allocator and k v :: int
  assume inv: "bptree_inv t" and al: "oom al = []"
  show "k \<notin> fst ` set (tree_entries t) \<Longrightarrow>
      \<exists>t' a'. bptree_insert al t k v = Some (None, t', a') \<and> bptree_inv t' \<and> oom a' = []
        \<and> tree_entries t' = ins_entry k v (tree_entries t)"
    using bptree_insert_outcome [OF inv al, of k v] by auto
  show "k \<in> fst ` set (tree_entries t) \<Longrightarrow> \<exists>m. bptree_insert al t k v = Some (Some m, t, al)"
    using bptree_insert_outcome [OF inv al, of k v] by auto
qed (simp_all add: bptree_inv_def bptree_init_def tree_entries_def bptree_search_map_of)

end
