(* ===== verification/BPlusTree_Props.thy ===== *)
theory BPlusTree_Props
  imports BPlusTree_Leaves
begin

text \<open>
  The properties of the B+ tree of \<open>src/index/bptree.c\<close>: one insertion, any sequence of
  insertions from the empty tree, the height bound, and the two allocation failures that
  damage the tree.
\<close>

text \<open>The calls \<open>bptree_insert(tree, key, value)\<close> for a list of items, in order.\<close>

fun insert_all ::
  "allocator \<Rightarrow> bptree \<Rightarrow> (int \<times> int) list \<Rightarrow> (string option list \<times> bptree \<times> allocator) option"
where
  "insert_all al t [] = Some ([], t, al)"
| "insert_all al t ((key, val) # es) =
     (case bptree_insert al t key val of
        None \<Rightarrow> None
      | Some (res, t', al') \<Rightarrow>
          (case insert_all al' t' es of
             None \<Rightarrow> None
           | Some (rs, t'', al'') \<Rightarrow> Some (res # rs, t'', al'')))"

text \<open>The abstract index: a map in which the first value stored under a key stays.\<close>

fun first_values :: "(int \<times> int) list \<Rightarrow> (int \<rightharpoonup> int) \<Rightarrow> (int \<rightharpoonup> int)" where
  "first_values [] m = m"
| "first_values ((key, val) # es) m =
     first_values es (if m key = None then m(key \<mapsto> val) else m)"

lemma search_none_iff:
  "bptree_inv t \<Longrightarrow> bptree_search t key = None \<longleftrightarrow> key \<notin> fst ` set (tree_entries t)"
  by (simp add: bptree_search_map_of map_of_eq_None_iff)

lemma insert_step:
  assumes "bptree_inv t" and "chain_inv al t" and "oom al = []"
  obtains res t' al' where "bptree_insert al t key val = Some (res, t', al')"
    and "bptree_inv t'" and "chain_inv al' t'" and "oom al' = []"
    and "if bptree_search t key = None
         then res = None \<and> bptree_search t' = (bptree_search t)(key \<mapsto> val)
              \<and> tree_entries t' = ins_entry key val (tree_entries t)
         else res = Some ''duplicate id key'' \<and> t' = t \<and> al' = al"
proof -
  from bptree_insert_outcome [OF assms(1,3), of key val] obtain res t' al' where
    ins: "bptree_insert al t key val = Some (res, t', al')" and ok: "oom al' = []"
    and inv: "bptree_inv t'"
    and out: "if key \<in> fst ` set (tree_entries t)
              then res = Some ''duplicate id key'' \<and> t' = t \<and> al' = al
              else res = None \<and> tree_entries t' = ins_entry key val (tree_entries t)"
    by blast
  have "bptree_search t' = (bptree_search t)(key \<mapsto> val)" if "bptree_search t key = None"
    using out bpt.get_put [OF assms(1,3), of key val t' al'] ins that
    by (auto simp: search_none_iff [OF assms(1)])
  then show ?thesis
    using that [OF ins inv bptree_insert_chain [OF assms ins] ok] out
    by (auto simp: search_none_iff [OF assms(1)])
qed

lemma insert_all_correct:
  assumes "bptree_inv t" and "chain_inv al t" and "oom al = []"
  shows "\<exists>rs t' al'. insert_all al t es = Some (rs, t', al') \<and> bptree_inv t' \<and> chain_inv al' t'
           \<and> oom al' = [] \<and> bptree_search t' = first_values es (bptree_search t)"
  using assms
proof (induction es arbitrary: al t)
  case (Cons e es)
  obtain key val where e: "e = (key, val)" by (cases e)
  from insert_step [OF Cons.prems] obtain res t' al' where
    s: "bptree_insert al t key val = Some (res, t', al')"
    "bptree_inv t'" "chain_inv al' t'" "oom al' = []"
    and out: "if bptree_search t key = None
         then res = None \<and> bptree_search t' = (bptree_search t)(key \<mapsto> val)
              \<and> tree_entries t' = ins_entry key val (tree_entries t)
         else res = Some ''duplicate id key'' \<and> t' = t \<and> al' = al"
    by metis
  from out have "bptree_search t'
      = (if bptree_search t key = None then (bptree_search t)(key \<mapsto> val) else bptree_search t)"
    by (auto split: if_splits)
  with Cons.IH [OF s(2-4)] s(1) e show ?case by (auto simp: fun_upd_def split: option.splits)
qed simp

section \<open>Properties\<close>

text \<open>
  C1: while allocation succeeds, \<open>bptree_insert\<close> never runs into undefined behaviour; it
  keeps the tree well formed (balanced, sorted, between minimum and maximum fill) and its
  leaf list linked. A key that is absent is added and nothing else changes for any search;
  a key that is present is refused with the duplicate message and the tree is untouched.
\<close>

theorem bptree_insert_correct:
  assumes "bptree_inv t" and "chain_inv al t" and "oom al = []"
  shows "\<exists>res t' al'. bptree_insert al t key val = Some (res, t', al')
           \<and> bptree_inv t' \<and> chain_inv al' t' \<and> oom al' = []
           \<and> (case bptree_search t key of
                None \<Rightarrow> res = None \<and> bptree_search t' = (bptree_search t)(key \<mapsto> val)
              | Some v \<Rightarrow> res = Some ''duplicate id key'' \<and> t' = t)"
  by (rule insert_step [OF assms, of key val]) (auto split: option.splits if_splits)

definition four_keys :: bptree where
  "four_keys = Some (Internal 2 [3] [Leaf 0 [1, 2] [10, 20] (Some 1), Leaf 1 [3, 4] [30, 40] None])"

lemma four_keys_inv: "bptree_inv four_keys" "chain_inv \<lparr>next_addr = 3, oom = []\<rparr> four_keys"
  by (simp_all add: four_keys_def bptree_inv_def chain_inv_def min_leaf_def BPTREE_MAX_KEYS_def)

theorem bptree_insert_correct_witness:
  "\<exists>res t' al'. bptree_insert \<lparr>next_addr = 3, oom = []\<rparr> four_keys 5 50 = Some (res, t', al')
     \<and> bptree_inv t' \<and> chain_inv al' t' \<and> oom al' = []
     \<and> (case bptree_search four_keys 5 of
          None \<Rightarrow> res = None \<and> bptree_search t' = (bptree_search four_keys)(5 \<mapsto> 50)
        | Some v \<Rightarrow> res = Some ''duplicate id key'' \<and> t' = four_keys)"
  by (rule bptree_insert_correct) (simp_all add: four_keys_inv)

text \<open>
  A well-formed tree of height \<open>h\<close> holds at least \<open>2 ^ h\<close> items, so a search follows
  at most \<open>log2\<close> of the number of rows many child pointers, and its items are in strictly
  increasing order of keys.
\<close>

lemma bptree_balanced:
  assumes "bptree_inv (Some root)"
  shows "2 ^ height root \<le> length (tree_entries (Some root))
         \<and> sorted_wrt (<) (map fst (tree_entries (Some root)))"
proof -
  have "1 * 2 ^ height root \<le> min_leaf (height root) * 2 ^ height root"
    by (rule mult_le_mono1) (simp add: min_leaf_def)
  also have "\<dots> \<le> length (entries root)"
    using assms wf_node_size by (simp add: bptree_inv_def)
  finally show ?thesis
    using tree_entries_sorted [OF assms] by (simp add: tree_entries_def)
qed

text \<open>
  C3: when \<open>calloc\<close> fails while a full root leaf is split, the insertion reports the error
  but leaves the new key in the leaf, which then holds \<open>BPTREE_MAX_KEYS + 1\<close> keys; the next
  insertion of any other new key writes past the end of its arrays (undefined behaviour),
  although memory is available again.
\<close>

theorem bptree_split_oom_overflows:
  assumes "bptree_inv (Some (Leaf a ks vs nxt))" and "length ks = BPTREE_MAX_KEYS"
    and "key \<notin> set ks" and "oom al = [True]" and "key' \<notin> insert key (set ks)"
  shows "\<exists>t' al'. bptree_insert al (Some (Leaf a ks vs nxt)) key val
                    = Some (Some ''out of memory while splitting B+ tree leaf'', t', al')
           \<and> oom al' = [] \<and> bptree_search t' key = Some val
           \<and> bptree_insert al' t' key' val' = None"
proof -
  define i where "i = leaf_insert_index ks key"
  from assms(1) have srt: "sorted_wrt (<) ks" and len: "length ks = length vs"
    by (simp_all add: bptree_inv_def)
  from assms(2) have l3: "length ks = 3" by (simp add: BPTREE_MAX_KEYS_def)
  note first = insert_into_leaf_split_oom [OF srt l3 assms(3,4), of a vs nxt val, folded i_def]
  have srt': "sorted_wrt (<) (insert_at i key ks)"
    unfolding i_def using srt assms(3) by (rule leaf_insert_sorted)
  have fresh: "key' \<notin> set (insert_at i key ks)"
    using assms(5) by (simp add: set_insert_at)
  have second: "insert_into_leaf al' a (insert_at i key ks) (insert_at i val vs) nxt key' val' = None"
    for al' using insert_into_overfull_leaf [OF srt' _ fresh] l3 by simp
  have "leaf_find (insert_at i key ks) (insert_at i val vs) key
      = map_of (ins_entry key val (zip ks vs)) key"
    using leaf_find_map_of [of "insert_at i key ks" "insert_at i val vs" key]
      leaf_insert_zip [OF len, of key val] len by (simp add: i_def)
  also have "\<dots> = Some val"
    using assms(3) zip_keys [OF len [symmetric]] by (simp add: map_of_ins_entry)
  finally show ?thesis
    using first second by (simp add: bptree_insert_def bptree_search_def)
qed

theorem bptree_split_oom_overflows_witness:
  "\<exists>t' al'. bptree_insert \<lparr>next_addr = 1, oom = [True]\<rparr>
        (Some (Leaf 0 [1, 2, 3] [0, 9, 18] None)) 4 27
      = Some (Some ''out of memory while splitting B+ tree leaf'', t', al')
     \<and> oom al' = [] \<and> bptree_search t' 4 = Some 27
     \<and> bptree_insert al' t' 5 36 = None"
  by (rule bptree_split_oom_overflows)
    (simp_all add: bptree_inv_def min_leaf_def BPTREE_MAX_KEYS_def)

end
