(* ===== verification/BPlusTree_Nodes.thy ===== *)
theory BPlusTree_Nodes
  imports BPlusTree_Props "HOL-Library.Multiset"
begin

text \<open>
  The nodes of the B+ tree of \<open>src/index/bptree.c\<close>: a tree holds exactly the nodes that were
  allocated for it, each in one place, so that \<open>bptree_free\<close> frees each of them once.
\<close>

section \<open>Releasing the tree\<close>

text \<open>The nodes of a tree are the ones that were allocated for it, and each is freed once.\<close>

fun all_nodes :: "bpnode \<Rightarrow> addr list" where
  "all_nodes (Leaf a ks vs nxt) = [a]"
| "all_nodes (Internal a ks cs) = concat (map all_nodes cs) @ [a]"

definition result_nodes :: "insert_state \<Rightarrow> bpnode \<Rightarrow> addr multiset" where
  "result_nodes st n = mset (all_nodes n) + (case st of InsertSplit p r \<Rightarrow> mset (all_nodes r) | _ \<Rightarrow> {#})"

definition fresh_nodes :: "allocator \<Rightarrow> allocator \<Rightarrow> addr multiset" where
  "fresh_nodes al al' = mset [next_addr al..<next_addr al']"

definition grows :: "allocator \<Rightarrow> allocator \<Rightarrow> bool" where
  "grows al al' = (next_addr al \<le> next_addr al' \<and> (oom al = [] \<longrightarrow> oom al' = []))"

lemma grows_refl [simp]: "grows al al" "fresh_nodes al al = {#}"
  by (simp_all add: grows_def fresh_nodes_def)

lemma grows_trans: "grows al al' \<Longrightarrow> grows al' al'' \<Longrightarrow> grows al al''"
  by (simp add: grows_def)

lemma fresh_nodes_trans:
  assumes "grows al al'" and "grows al' al''"
  shows "fresh_nodes al al' + fresh_nodes al' al'' = fresh_nodes al al''"
proof -
  from assms have "[next_addr al..<next_addr al''] = [next_addr al..<next_addr al'] @ [next_addr al'..<next_addr al'']"
    using upt_add_eq_append [of "next_addr al" "next_addr al'" "next_addr al'' - next_addr al'"] by (simp add: grows_def)
  then show ?thesis by (simp only: fresh_nodes_def mset_append)
qed

lemma create_node_fresh:
  "create_node al = (r, al') \<Longrightarrow>
     grows al al' \<and> fresh_nodes al al' = (case r of None \<Rightarrow> {#} | Some a \<Rightarrow> {#a#})"
  by (auto simp: create_node_def grows_def fresh_nodes_def split: list.splits if_splits)

lemma insert_into_leaf_nodes:
  assumes "insert_into_leaf al a ks vs nxt key val = Some (st, n', al')"
  shows "result_nodes st n' = {#a#} + fresh_nodes al al' \<and> grows al al'"
  using assms
  by (auto simp: insert_into_leaf_def result_nodes_def Let_def split: if_splits prod.splits option.splits
      dest!: create_node_fresh)

lemma take_drop_nodes:
  "mset (concat (map all_nodes (take m cs))) + mset (concat (map all_nodes (drop m cs)))
     = mset (concat (map all_nodes cs))"
  by (metis append_take_drop_id concat_append map_append mset_append)

lemma insert_at_nodes:
  "mset (concat (map all_nodes (insert_at i r cs))) = mset (all_nodes r) + mset (concat (map all_nodes cs))"
  using take_drop_nodes [of i cs] by (simp add: insert_at_def)

lemma absorb_nodes:
  assumes "absorb_child al a ks cs i st = Some (st', n', al')"
  shows "result_nodes st' n' = mset (concat (map all_nodes cs))
      + (case st of InsertSplit p r \<Rightarrow> mset (all_nodes r) | _ \<Rightarrow> {#}) + {#a#} + fresh_nodes al al'
    \<and> grows al al'"
  using assms take_drop_nodes insert_at_nodes
  by (auto simp: absorb_child_def result_nodes_def Let_def split: insert_state.splits if_splits prod.splits option.splits
      dest!: create_node_fresh)

lemma update_nodes:
  assumes "i < length cs"
  shows "mset (concat (map all_nodes (cs[i := c']))) + mset (all_nodes (cs ! i))
    = mset (concat (map all_nodes cs)) + mset (all_nodes c')"
  by (simp add: concat_map_split(1) [OF assms, of all_nodes] concat_map_split(2) [OF assms, of all_nodes])

lemma multiset_balance:
  assumes "C + S = N + F" and "U + N = A + C"
  shows "U + S = A + (F :: 'a multiset)"
proof -
  from assms have "(U + N) + (C + S) = (A + C) + (N + F)" by simp
  then have "(U + S) + (N + C) = (A + F) + (N + C)" by (simp only: ac_simps)
  then show ?thesis by simp
qed

lemma insert_into_node_nodes:
  "insert_into_node al n key val = Some (st, n', al') \<Longrightarrow>
     result_nodes st n' = mset (all_nodes n) + fresh_nodes al al' \<and> grows al al'"
proof (induction al n key val arbitrary: st n' al' rule: insert_into_node.induct)
  case (2 al a ks cs key val)
  let ?i = "find_child_index ks key"
  from "2.prems" obtain st0 c' al0 where i: "?i < length cs"
    and c: "insert_into_node al (cs ! ?i) key val = Some (st0, c', al0)"
    and ab: "absorb_child al0 a ks (cs[?i := c']) ?i st0 = Some (st, n', al')"
    by (auto simp: Let_def split: if_splits option.splits)
  note ih = "2.IH" [OF refl i c]
  note absorbed = absorb_nodes [OF ab]
  have new: "fresh_nodes al al0 + fresh_nodes al0 al' = fresh_nodes al al'" "grows al al'"
    using fresh_nodes_trans [OF conjunct2 [OF ih] conjunct2 [OF absorbed]]
      grows_trans [OF conjunct2 [OF ih] conjunct2 [OF absorbed]] .
  define right where "right = (case st0 of InsertSplit p r \<Rightarrow> mset (all_nodes r) | _ \<Rightarrow> {#})"
  have "mset (concat (map all_nodes (cs[?i := c']))) + right = mset (concat (map all_nodes cs)) + fresh_nodes al al0"
    using conjunct1 [OF ih, unfolded result_nodes_def, folded right_def] update_nodes [OF i, of c']
    by (rule multiset_balance)
  with conjunct1 [OF absorbed, folded right_def] new show ?case by (simp add: add.assoc)
qed (fastforce dest: insert_into_leaf_nodes)

definition tree_nodes :: "bptree \<Rightarrow> addr multiset" where
  "tree_nodes t = (case t of None \<Rightarrow> {#} | Some root \<Rightarrow> mset (all_nodes root))"

lemma bptree_insert_nodes:
  assumes "bptree_insert al t key val = Some (res, t', al')" and "oom al = []"
  shows "tree_nodes t' = tree_nodes t + fresh_nodes al al' \<and> grows al al'"
proof (cases t)
  case None
  with assms show ?thesis
    by (auto simp: bptree_insert_def tree_nodes_def split: prod.splits option.splits dest!: create_node_fresh simp del: create_node_ok)
next
  case (Some root)
  with assms(1) obtain st root' al1 where r: "insert_into_node al root key val = Some (st, root', al1)"
    by (auto simp: bptree_insert_def split: option.splits prod.splits)
  note n = insert_into_node_nodes [OF r]
  show ?thesis
  proof (cases st)
    case (InsertSplit p rt)
    from n assms(2) have "oom al1 = []" by (simp add: grows_def)
    with InsertSplit Some r assms(1) obtain a where
      a: "create_node al1 = (Some a, al')" and t': "t' = Some (Internal a [p] [root', rt])"
      by (auto simp: bptree_insert_def)
    from create_node_fresh [OF a] n fresh_nodes_trans [of al al1 al'] grows_trans [of al al1 al'] Some InsertSplit
    show ?thesis by (simp add: t' tree_nodes_def result_nodes_def)
  qed (use Some r n assms(1) in \<open>auto simp: bptree_insert_def tree_nodes_def result_nodes_def\<close>)
qed

lemma insert_all_nodes:
  "insert_all al t es = Some (rs, t', al') \<Longrightarrow> oom al = [] \<Longrightarrow>
     tree_nodes t' = tree_nodes t + fresh_nodes al al' \<and> grows al al'"
proof (induction es arbitrary: al t rs)
  case (Cons e es)
  then obtain r t1 al1 rs' where s: "bptree_insert al t (fst e) (snd e) = Some (r, t1, al1)"
    "insert_all al1 t1 es = Some (rs', t', al')"
    by (cases e) (auto split: option.splits)
  note one = bptree_insert_nodes [OF s(1) Cons.prems(2)]
  from one Cons.prems(2) have "oom al1 = []" by (simp add: grows_def)
  with Cons.IH [OF s(2)] one fresh_nodes_trans [of al al1 al'] grows_trans [of al al1 al'] show ?case
    by (simp add: add.assoc)
qed simp

lemma free_node_nodes: "wf_node mn h lo hi n \<Longrightarrow> free_node n = all_nodes n"
proof (induction h arbitrary: lo hi n)
  case (Suc h)
  then obtain a ks cs where n: "n = Internal a ks cs" and cs: "children_ok (wf_node mn h) lo ks hi cs"
    by (auto split: bpnode.splits)
  have "free_node c = all_nodes c" if "c \<in> set cs" for c
    using cs that by (induction "wf_node mn h" lo ks hi cs rule: children_ok.induct) (auto dest: Suc.IH)
  with n children_ok_length [OF cs] show ?case by (simp cong: map_cong)
qed (auto split: bpnode.splits)

lemma bptree_free_nodes: "bptree_inv t \<Longrightarrow> mset (fst (bptree_free t)) = tree_nodes t"
  by (auto simp: bptree_free_def tree_nodes_def bptree_inv_def free_node_nodes split: option.split)

text \<open>
  C2: from the empty tree, every sequence of insertions succeeds without undefined behaviour,
  searching the resulting tree gives, for each key, the first value inserted under it, and freeing
  the tree frees every node that the insertions allocated, each exactly once.
\<close>

theorem bptree_built_correct:
  assumes "oom al = []"
  shows "\<exists>rs t al'. insert_all al bptree_init es = Some (rs, t, al') \<and> bptree_inv t
           \<and> chain_inv al' t \<and> bptree_search t = first_values es Map.empty
           \<and> distinct (fst (bptree_free t))
           \<and> set (fst (bptree_free t)) = {next_addr al ..< next_addr al'}"
proof -
  have "bptree_inv bptree_init" "chain_inv al bptree_init" "bptree_search bptree_init = Map.empty"
    by (auto simp: bptree_init_def bptree_inv_def chain_inv_def bptree_search_def)
  with insert_all_correct [of bptree_init al es] assms obtain rs t al' where
    t: "insert_all al bptree_init es = Some (rs, t, al')" "bptree_inv t" "chain_inv al' t"
    "bptree_search t = first_values es Map.empty" by auto
  from insert_all_nodes [OF t(1) assms] bptree_free_nodes [OF t(2)]
  have "mset (fst (bptree_free t)) = mset [next_addr al..<next_addr al']"
    by (simp add: tree_nodes_def bptree_init_def fresh_nodes_def)
  then have "distinct (fst (bptree_free t))" "set (fst (bptree_free t)) = set [next_addr al..<next_addr al']"
    by (metis distinct_upt mset_eq_imp_distinct_iff, metis mset_eq_setD)
  with t show ?thesis by auto
qed

theorem bptree_built_correct_witness:
  "\<exists>rs t al'. insert_all \<lparr>next_addr = 0, oom = []\<rparr> bptree_init
        [(5, 1), (3, 2), (9, 3), (7, 4), (3, 5)] = Some (rs, t, al') \<and> bptree_inv t
     \<and> chain_inv al' t
     \<and> bptree_search t = first_values [(5, 1), (3, 2), (9, 3), (7, 4), (3, 5)] Map.empty
     \<and> distinct (fst (bptree_free t))
     \<and> set (fst (bptree_free t)) = {next_addr \<lparr>next_addr = 0, oom = []\<rparr> ..< next_addr al'}"
  by (rule bptree_built_correct) simp

end
