(* ===== verification/Lexer.thy ===== *)
theory Lexer
  imports Util
begin

text \<open>
  The lexer of \<open>src/sql/lexer.c\<close>. The input is a C string (the list of its bytes, without
  the NUL); the pair (input, index) is kept as the index and the text from it on, so the
  test \<open>input[index] == 0\<close> is the test for the empty list. A \<open>TokenArray\<close> is a
  list of tokens; an error is its message, which the callers keep in 256 bytes.
\<close>

section \<open>Tokens\<close>

datatype token_type =
    TOKEN_IDENTIFIER | TOKEN_STRING | TOKEN_NUMBER | TOKEN_STAR | TOKEN_EQUALS
  | TOKEN_COMMA | TOKEN_LPAREN | TOKEN_RPAREN | TOKEN_SEMICOLON | TOKEN_END

record token =
  tok_type :: token_type
  tok_text :: string
  tok_position :: nat

definition mk_token :: "token_type \<Rightarrow> string \<Rightarrow> nat \<Rightarrow> token" where
  "mk_token ty text pos = \<lparr>tok_type = ty, tok_text = text, tok_position = pos\<rparr>"

definition MESSAGE_SIZE :: nat where
  "MESSAGE_SIZE = 256"

definition is_identifier_start :: "char \<Rightarrow> bool" where
  "is_identifier_start c = (isalpha c \<or> c = CHR ''_'' \<or> isdigit c \<or> 128 \<le> byte c)"

definition is_identifier_continue :: "char \<Rightarrow> bool" where
  "is_identifier_continue c = (isalnum c \<or> c = CHR ''_'' \<or> 128 \<le> byte c)"

section \<open>The scanning functions\<close>

text \<open>A word, and the text and the index after it.\<close>

definition lex_word :: "nat \<Rightarrow> string \<Rightarrow> token \<times> nat \<times> string" where
  "lex_word i s =
     (let buffer = takeWhile is_identifier_continue s;
          ty = (if buffer \<noteq> [] \<and> isdigit (hd buffer) then TOKEN_NUMBER else TOKEN_IDENTIFIER)
      in (mk_token ty buffer i, i + length buffer, dropWhile is_identifier_continue s))"

text \<open>
  The loop of \<open>lex_string\<close> over the text after the opening quote: \<open>prev\<close> is
  \<open>input[index - 1]\<close>, \<open>buffer\<close> the bytes read so far. The result is the buffer,
  \<open>input[index - 1]\<close> when the loop stops, the index and the text there.
\<close>

fun lex_string_loop :: "char \<Rightarrow> nat \<Rightarrow> string \<Rightarrow> string \<Rightarrow> string \<times> char \<times> nat \<times> string" where
  "lex_string_loop prev i [] buffer = (buffer, prev, i, [])"
| "lex_string_loop prev i [c] buffer =
     (if c = SQ then (buffer, c, i + 1, []) else (buffer @ [c], c, i + 1, []))"
| "lex_string_loop prev i (c # d # cs) buffer =
     (if c = SQ then
        (if d = SQ then lex_string_loop d (i + 2) cs (buffer @ [SQ])
         else (buffer, c, i + 1, d # cs))
      else lex_string_loop c (i + 1) (d # cs) (buffer @ [c]))"

definition lex_string :: "nat \<Rightarrow> string \<Rightarrow> string + (token \<times> nat \<times> string)" where
  "lex_string start s =
     (case lex_string_loop (hd s) (start + 1) (tl s) [] of
        (buffer, prev, i, rest) \<Rightarrow>
          if prev \<noteq> SQ
          then Inl (snprintf MESSAGE_SIZE
                 (''unterminated string literal at position '' @ show_int (int start)))
          else Inr (mk_token TOKEN_STRING buffer start, i, rest))"

definition simple_token :: "char \<Rightarrow> token_type option" where
  "simple_token c =
     (if c = CHR ''*'' then Some TOKEN_STAR
      else if c = CHR ''='' then Some TOKEN_EQUALS
      else if c = COMMA then Some TOKEN_COMMA
      else if c = CHR ''('' then Some TOKEN_LPAREN
      else if c = CHR '')'' then Some TOKEN_RPAREN
      else if c = CHR '';'' then Some TOKEN_SEMICOLON
      else None)"

definition push_token :: "token list \<Rightarrow> token \<Rightarrow> token list" where
  "push_token tokens t = tokens @ [t]"

lemma identifier_start_continue: "is_identifier_start c \<longleftrightarrow> is_identifier_continue c"
  by (auto simp: is_identifier_start_def is_identifier_continue_def isalnum_def)

lemma lex_word_rest: "length (snd (snd (lex_word i s))) \<le> length s"
  by (simp add: lex_word_def Let_def length_dropWhile_le)

lemma lex_string_loop_rest:
  "lex_string_loop prev i s buffer = (b, p, j, rest) \<Longrightarrow> length rest \<le> length s"
  by (induction prev i s buffer rule: lex_string_loop.induct) (auto split: if_splits)

lemma lex_string_rest: "lex_string i (c # cs) = Inr (t, j, rest) \<Longrightarrow> length rest < Suc (length cs)"
  by (auto simp: lex_string_def less_Suc_eq_le split: prod.splits if_splits
      dest: lex_string_loop_rest)

lemma lex_word_shorter:
  "is_identifier_start c \<Longrightarrow> lex_word i (c # cs) = (t, j, rest) \<Longrightarrow> length rest < Suc (length cs)"
  by (auto simp: lex_word_def Let_def identifier_start_continue less_Suc_eq_le
      length_dropWhile_le)

section \<open>The lexer\<close>

text \<open>The loop of \<open>lex_sql\<close>, with the tokens pushed so far.\<close>

function lex_loop :: "nat \<Rightarrow> string \<Rightarrow> token list \<Rightarrow> string + token list" where
  "lex_loop i [] tokens = Inr (push_token tokens (mk_token TOKEN_END [] i))"
| "lex_loop i (c # cs) tokens =
     (if isspace c then lex_loop (i + 1) cs tokens
      else if is_identifier_start c
      then (case lex_word i (c # cs) of (t, j, rest) \<Rightarrow> lex_loop j rest (push_token tokens t))
      else if c = SQ
      then (case lex_string i (c # cs) of
              Inl m \<Rightarrow> Inl m
            | Inr (t, j, rest) \<Rightarrow> lex_loop j rest (push_token tokens t))
      else
        (case simple_token c of
           Some ty \<Rightarrow> lex_loop (i + 1) cs (push_token tokens (mk_token ty [c] i))
         | None \<Rightarrow>
             Inl (snprintf MESSAGE_SIZE (''unexpected character '' @ [SQ, c, SQ]
                    @ '' at position '' @ show_int (int i)))))"
  by pat_completeness auto
termination
  by (relation "measure (\<lambda>(i, s, tokens). length s)")
    (auto dest: lex_string_rest lex_word_shorter [OF _ sym])

definition lex_sql :: "string \<Rightarrow> string + token list" where
  "lex_sql input = lex_loop 0 input []"

section \<open>Lexemes and their source text\<close>

text \<open>The text of a string literal between its quotes: every quote is doubled.\<close>

fun escape_quotes :: "string \<Rightarrow> string" where
  "escape_quotes [] = []"
| "escape_quotes (c # cs) = (if c = SQ then SQ # SQ # escape_quotes cs else c # escape_quotes cs)"

type_synonym lexeme = "token_type \<times> string"

definition lexeme :: "token \<Rightarrow> lexeme" where
  "lexeme t = (tok_type t, tok_text t)"

definition is_word :: "string \<Rightarrow> bool" where
  "is_word text = (text \<noteq> [] \<and> (\<forall>c\<in>set text. is_identifier_continue c))"

definition is_identifier :: "string \<Rightarrow> bool" where
  "is_identifier text = (is_word text \<and> \<not> isdigit (hd text))"

fun lexeme_ok :: "lexeme \<Rightarrow> bool" where
  "lexeme_ok (TOKEN_IDENTIFIER, text) = is_identifier text"
| "lexeme_ok (TOKEN_NUMBER, text) = (is_word text \<and> isdigit (hd text))"
| "lexeme_ok (TOKEN_STRING, text) = True"
| "lexeme_ok (TOKEN_END, text) = False"
| "lexeme_ok (ty, text) = (\<exists>c\<in>set text. text = [c] \<and> simple_token c = Some ty)"

fun lexeme_source :: "lexeme \<Rightarrow> string" where
  "lexeme_source (TOKEN_STRING, text) = SQ # escape_quotes text @ [SQ]"
| "lexeme_source (ty, text) = text"

fun render :: "lexeme list \<Rightarrow> string" where
  "render [] = []"
| "render (l # ls) = lexeme_source l @ SP # render ls"

lemma lexeme_mk_token [simp]: "lexeme (mk_token ty text i) = (ty, text)"
  by (simp add: lexeme_def mk_token_def)

lemma identifier_continue_consts [char_class, simp]:
  "\<not> is_identifier_continue SP" "\<not> is_identifier_continue SQ" "\<not> is_identifier_continue COMMA"
  by (simp_all add: is_identifier_continue_def isalnum_def isalpha_def isupper_def islower_def
      isdigit_def byte_def)

lemma identifier_continue_not_space: "is_identifier_continue c \<Longrightarrow> \<not> isspace c \<and> c \<noteq> SQ"
  by (auto simp: is_identifier_continue_def isalnum_def isalpha_def isupper_def islower_def
      isdigit_def byte_def isspace_def)

lemma simple_token_char:
  "simple_token c = Some ty \<Longrightarrow> \<not> isspace c \<and> c \<noteq> SQ \<and> \<not> is_identifier_continue c
     \<and> ty \<notin> {TOKEN_IDENTIFIER, TOKEN_NUMBER, TOKEN_STRING, TOKEN_END}"
  by (auto simp: simple_token_def is_identifier_continue_def isalnum_def isalpha_def isupper_def
      islower_def isdigit_def byte_def isspace_def split: if_splits)

lemma lex_string_loop_escaped:
  assumes "rest = [] \<or> hd rest \<noteq> SQ"
  shows "lex_string_loop prev i (escape_quotes t @ SQ # rest) b
           = (b @ t, SQ, i + length (escape_quotes t) + 1, rest)"
  using assms
proof (induction t arbitrary: prev i b)
  case Nil
  then show ?case by (cases rest) auto
next
  case (Cons c t)
  have "\<exists>d ds. escape_quotes t @ SQ # rest = d # ds" by (cases "escape_quotes t") auto
  with Cons show ?case by auto
qed

lemma lex_string_loop_open:
  "lex_string_loop prev i (escape_quotes t) b
     = (b @ t, (if t = [] then prev else last t), i + length (escape_quotes t), [])"
proof (induction t arbitrary: prev i b)
  case (Cons c t)
  show ?case
  proof (cases "c = SQ")
    case False
    then show ?thesis using Cons by (cases "escape_quotes t") (auto split: if_splits)
  qed (use Cons in auto)
qed simp

lemma lex_loop_space [simp]: "lex_loop i (SP # s) tokens = lex_loop (i + 1) s tokens"
  by simp

lemma lex_loop_lexeme:
  assumes "lexeme_ok l"
  shows "\<exists>t j. lexeme t = l
           \<and> lex_loop i (lexeme_source l @ SP # s) tokens = lex_loop j s (push_token tokens t)"
proof -
  obtain ty tx where l: "l = (ty, tx)" by (cases l)
  consider (word) "ty = TOKEN_IDENTIFIER \<or> ty = TOKEN_NUMBER" | (string) "ty = TOKEN_STRING"
    | (simple) c where "tx = [c]" "simple_token c = Some ty"
    using assms l by (cases ty) auto
  then show ?thesis
  proof cases
    case word
    with assms l have w: "tx \<noteq> []" "\<forall>c\<in>set tx. is_identifier_continue c"
      "isdigit (hd tx) \<longleftrightarrow> ty = TOKEN_NUMBER"
      by (auto simp: is_identifier_def is_word_def)
    then obtain c cs where c: "tx = c # cs" by (cases tx) auto
    have "lex_word i (tx @ SP # s) = (mk_token ty tx i, i + length tx, SP # s)"
      using w word takeWhile_word [of tx is_identifier_continue SP s]
      by (auto simp: lex_word_def Let_def)
    moreover have "\<not> isspace c" "is_identifier_start c"
      using w(2) identifier_continue_not_space by (auto simp: c identifier_start_continue)
    moreover have "lexeme_source l = tx" using word by (auto simp: l)
    ultimately show ?thesis
      by (intro exI [of _ "mk_token ty tx i"] exI [of _ "i + length tx + 1"])
        (simp add: l c)
  next
    case string
    have "lex_string i (SQ # escape_quotes tx @ SQ # SP # s)
        = Inr (mk_token TOKEN_STRING tx i, i + 1 + length (escape_quotes tx) + 1, SP # s)"
      by (simp add: lex_string_def lex_string_loop_escaped)
    then show ?thesis
      by (intro exI [of _ "mk_token TOKEN_STRING tx i"]
          exI [of _ "i + 1 + length (escape_quotes tx) + 1 + 1"])
        (simp add: l string identifier_start_continue)
  next
    case simple
    with simple_token_char [OF simple(2)] have "lexeme_source l = [c]" by (cases ty) (auto simp: l)
    with simple simple_token_char [OF simple(2)] show ?thesis
      by (intro exI [of _ "mk_token ty tx i"] exI [of _ "i + 2"])
        (simp add: l identifier_start_continue)
  qed
qed

lemma lex_loop_render:
  assumes "list_all lexeme_ok ls"
  shows "\<exists>ts. lex_loop i (render ls) tokens = Inr (tokens @ ts)
           \<and> map lexeme ts = ls @ [(TOKEN_END, [])]"
  using assms
proof (induction ls arbitrary: i tokens)
  case Nil
  then show ?case by (simp add: push_token_def)
next
  case (Cons l ls)
  then have "lexeme_ok l" and ok: "list_all lexeme_ok ls" by simp_all
  from lex_loop_lexeme [OF this(1)] obtain t j where
    t: "lexeme t = l" "lex_loop i (render (l # ls)) tokens = lex_loop j (render ls) (push_token tokens t)"
    by (metis render.simps(2))
  from Cons.IH [OF ok, of j "push_token tokens t"] obtain ts where
    "lex_loop j (render ls) (push_token tokens t) = Inr (push_token tokens t @ ts)"
    "map lexeme ts = ls @ [(TOKEN_END, [])]" by blast
  with t show ?case by (intro exI [of _ "t # ts"]) (simp add: push_token_def)
qed

lemma lex_sql_render:
  assumes "list_all lexeme_ok ls"
  obtains ts where "lex_sql (render ls) = Inr ts" and "map lexeme ts = ls @ [(TOKEN_END, [])]"
  using lex_loop_render [OF assms, of 0 "[]"] by (auto simp: lex_sql_def)

section \<open>What a successful run returns\<close>

text \<open>The token \<open>t\<close> stands in \<open>input\<close> at its position.\<close>

definition token_at :: "string \<Rightarrow> token \<Rightarrow> bool" where
  "token_at input t =
     (tok_position t < length input \<and> lexeme_ok (lexeme t)
      \<and> (if tok_type t = TOKEN_STRING then input ! tok_position t = SQ
         else take (length (tok_text t)) (drop (tok_position t) input) = tok_text t))"

definition run_of :: "string \<Rightarrow> nat \<Rightarrow> token list \<Rightarrow> bool" where
  "run_of input i ts =
     (\<exists>body. ts = body @ [mk_token TOKEN_END [] (length input)]
        \<and> list_all (token_at input) body
        \<and> sorted_wrt (<) (map tok_position body) \<and> (\<forall>t\<in>set body. i \<le> tok_position t))"

lemma run_of_cons:
  assumes "run_of input j ts" and "token_at input t" and "tok_position t < j" and "i \<le> tok_position t"
  shows "run_of input i (t # ts)"
proof -
  from assms(1) obtain body where "ts = body @ [mk_token TOKEN_END [] (length input)]"
    "list_all (token_at input) body" "sorted_wrt (<) (map tok_position body)"
    "\<forall>t\<in>set body. j \<le> tok_position t" by (auto simp: run_of_def)
  with assms(2-4) show ?thesis unfolding run_of_def
    by (intro exI [of _ "t # body"]) fastforce
qed

lemma run_of_mono: "run_of input j ts \<Longrightarrow> i \<le> j \<Longrightarrow> run_of input i ts"
  unfolding run_of_def by (blast intro: order_trans)

text \<open>The token \<open>t\<close> is read from the front of \<open>s\<close>, which leaves \<open>rest\<close> at position \<open>j\<close>.\<close>

definition reads_token :: "string \<Rightarrow> string \<Rightarrow> token \<Rightarrow> nat \<Rightarrow> string \<Rightarrow> bool" where
  "reads_token pre s t j rest =
     (token_at (pre @ s) t \<and> tok_position t = length pre \<and> length pre < j
      \<and> (\<exists>w. s = w @ rest \<and> j = length pre + length w))"

lemma lex_word_at:
  assumes "lex_word (length pre) (c # cs) = (t, j, rest)" and "is_identifier_start c"
  shows "reads_token pre (c # cs) t j rest"
proof -
  define s w where "s = c # cs" and "w = takeWhile is_identifier_continue s"
  from assms(1) have t: "t = mk_token (if w \<noteq> [] \<and> isdigit (hd w) then TOKEN_NUMBER
       else TOKEN_IDENTIFIER) w (length pre)" and j: "j = length pre + length w"
    and rest: "rest = dropWhile is_identifier_continue s"
    by (simp_all only: lex_word_def Let_def s_def w_def prod.inject)
  have s: "s = w @ rest" by (simp add: w_def rest)
  have "\<forall>d\<in>set w. is_identifier_continue d" unfolding w_def by (metis set_takeWhileD)
  moreover have "w \<noteq> []" using assms(2) by (simp add: w_def s_def identifier_start_continue)
  ultimately have "token_at (pre @ s) t \<and> tok_position t = length pre \<and> length pre < j"
    by (simp add: t j s token_at_def mk_token_def lexeme_def is_word_def is_identifier_def)
  with s j show ?thesis unfolding s_def reads_token_def by blast
qed

lemma lex_string_loop_split:
  "lex_string_loop prev i s buffer = (b, p, j, rest) \<Longrightarrow> \<exists>w. s = w @ rest \<and> j = i + length w"
proof (induction prev i s buffer rule: lex_string_loop.induct)
  case (3 prev i c d cs buffer)
  show ?case
  proof (cases "c = SQ \<and> d = SQ")
    case True
    with 3 obtain w where "cs = w @ rest" "j = i + 2 + length w" by auto
    with True show ?thesis by (intro exI [of _ "c # d # w"]) simp
  next
    case False
    then consider "c = SQ" "d \<noteq> SQ" | "c \<noteq> SQ" by blast
    then show ?thesis
    proof cases
      case 1
      with 3(3) show ?thesis by auto
    next
      case 2
      with 3 obtain w where "d # cs = w @ rest" "j = i + 1 + length w" by auto
      with 2 show ?thesis by (intro exI [of _ "c # w"]) simp
    qed
  qed
qed (auto split: if_splits)

lemma lex_string_at:
  assumes "lex_string (length pre) (SQ # cs) = Inr (t, j, rest)"
  shows "reads_token pre (SQ # cs) t j rest"
proof -
  from assms obtain b p where l: "lex_string_loop SQ (Suc (length pre)) cs [] = (b, p, j, rest)"
    and t: "t = mk_token TOKEN_STRING b (length pre)"
    by (auto simp: lex_string_def split: prod.splits if_splits)
  from lex_string_loop_split [OF l] obtain w where w: "cs = w @ rest" "j = Suc (length pre) + length w"
    by blast
  have "\<exists>w. SQ # cs = w @ rest \<and> j = length pre + length w"
    using w by (intro exI [of _ "SQ # w"]) simp
  with w t show ?thesis by (simp add: reads_token_def token_at_def mk_token_def lexeme_def)
qed

lemma run_of_push:
  assumes "reads_token pre s t j rest"
    and "\<And>pre'. j = length pre' \<Longrightarrow> \<exists>new. ts = push_token tokens t @ new \<and> run_of (pre' @ rest) (length pre') new"
  shows "\<exists>new. ts = tokens @ new \<and> run_of (pre @ s) (length pre) new"
proof -
  from assms(1) obtain w where w: "s = w @ rest" "j = length pre + length w"
    and t: "token_at (pre @ s) t" "tok_position t = length pre" "length pre < j"
    unfolding reads_token_def by blast
  from assms(2) [of "pre @ w"] w(2) obtain new where
    n: "ts = push_token tokens t @ new" "run_of ((pre @ w) @ rest) (length (pre @ w)) new" by (metis length_append)
  then have "ts = push_token tokens t @ new" "run_of (pre @ s) j new" by (simp_all add: w)
  with run_of_cons [OF this(2) t(1)] t(2,3) show ?thesis
    by (intro exI [of _ "t # new"]) (simp add: push_token_def)
qed

lemma simple_token_at:
  assumes "simple_token c = Some ty"
  shows "reads_token pre (c # cs) (mk_token ty [c] (length pre)) (length pre + 1) cs"
proof -
  have "token_at (pre @ c # cs) (mk_token ty [c] (length pre))"
    using assms simple_token_char [OF assms] by (cases ty) (auto simp: token_at_def mk_token_def lexeme_def)
  then show ?thesis unfolding reads_token_def by (intro conjI exI [of _ "[c]"]) (simp_all add: mk_token_def)
qed

lemma lex_loop_run:
  "lex_loop (length pre) s tokens = Inr ts \<Longrightarrow>
     \<exists>new. ts = tokens @ new \<and> run_of (pre @ s) (length pre) new"
proof (induction "length pre" s tokens arbitrary: pre rule: lex_loop.induct)
  case (1 tokens)
  then show ?case
    by (intro exI [of _ "[mk_token TOKEN_END [] (length pre)]"])
      (simp add: run_of_def push_token_def)
next
  case (2 c cs tokens)
  consider (space) "isspace c" | (word) "\<not> isspace c" "is_identifier_start c"
    | (string) "\<not> isspace c" "\<not> is_identifier_start c" "c = SQ"
    | (simple) "\<not> isspace c" "\<not> is_identifier_start c" "c \<noteq> SQ" by blast
  then show ?case
  proof cases
    case space
    with "2.hyps"(1) [of "pre @ [c]"] "2.prems"
    obtain new where "ts = tokens @ new" "run_of (pre @ c # cs) (Suc (length pre)) new" by auto
    with run_of_mono [OF this(2), of "length pre"] show ?thesis by auto
  next
    case word
    obtain t j rest where w: "lex_word (length pre) (c # cs) = (t, j, rest)" by (metis prod.exhaust)
    from "2.prems" word w have "lex_loop j rest (push_token tokens t) = Inr ts" by simp
    then show ?thesis
      using "2.hyps"(2) [OF word w [symmetric]] by (intro run_of_push [OF lex_word_at [OF w word(2)]]) simp
  next
    case string
    with "2.prems" obtain t j rest where w: "lex_string (length pre) (SQ # cs) = Inr (t, j, rest)"
      and r: "lex_loop j rest (push_token tokens t) = Inr ts" by (auto split: sum.splits)
    from r show ?thesis unfolding string(3)
      using "2.hyps"(3) [OF string w [folded string(3)] refl]
      by (intro run_of_push [OF lex_string_at [OF w]]) simp
  next
    case simple
    with "2.prems" obtain ty where ty: "simple_token c = Some ty"
      and r: "lex_loop (length pre + 1) cs (push_token tokens (mk_token ty [c] (length pre))) = Inr ts"
      by (auto split: option.splits)
    from r show ?thesis
      using "2.hyps"(4) [OF simple ty] by (intro run_of_push [OF simple_token_at [OF ty]]) simp
  qed
qed

lemma lex_sql_run: "lex_sql s = Inr ts \<Longrightarrow> run_of s 0 ts"
  using lex_loop_run [of "[]" s "[]" ts] by (simp add: lex_sql_def)

section \<open>Properties\<close>

text \<open>
  C4: every successful run of \<open>lex_sql\<close> ends with exactly one \<open>TOKEN_END\<close>, at the end
  of the input; the tokens before it stand at strictly increasing positions, each is the
  text found there (a string literal starts with its quote there), and each has the form
  its type promises: a name is a non-empty word of letters, digits, underscores and non-ASCII
  bytes that does not begin with a digit, a number is such a word that does.
\<close>

theorem lex_sql_tokens:
  assumes "lex_sql s = Inr ts"
  shows "\<exists>body. ts = body @ [mk_token TOKEN_END [] (length s)]
           \<and> list_all (token_at s) body \<and> sorted_wrt (<) (map tok_position body)"
  using lex_sql_run [OF assms] by (auto simp: run_of_def)

theorem lex_sql_tokens_witness:
  "\<exists>body. [mk_token TOKEN_IDENTIFIER ''ab'' 0, mk_token TOKEN_EQUALS ''='' 3,
      mk_token TOKEN_NUMBER ''1'' 5, mk_token TOKEN_END [] 6]
      = body @ [mk_token TOKEN_END [] (length ''ab = 1'')]
    \<and> list_all (token_at ''ab = 1'') body \<and> sorted_wrt (<) (map tok_position body)"
  by (rule lex_sql_tokens)
    (simp add: lex_sql_def lex_word_def is_identifier_start_def is_identifier_continue_def
      isalnum_def isalpha_def isupper_def islower_def isdigit_def isspace_def byte_def
      push_token_def simple_token_def numeral_eq_Suc)

text \<open>
  C5: lexing inverts printing. Any sequence of well-formed lexemes (names, numbers, string
  literals with every quote doubled, symbols), printed with a space after each, is read
  back as exactly that sequence followed by \<open>TOKEN_END\<close>.
\<close>

theorem lex_sql_roundtrip:
  assumes "list_all lexeme_ok ls"
  shows "\<exists>ts. lex_sql (render ls) = Inr ts \<and> map lexeme ts = ls @ [(TOKEN_END, [])]"
  using lex_loop_render [OF assms, of 0 "[]"] by (simp add: lex_sql_def)

theorem lex_sql_roundtrip_witness:
  "\<exists>ts. lex_sql (render [(TOKEN_IDENTIFIER, ''ab''), (TOKEN_STRING, [SQ, SP])]) = Inr ts
    \<and> map lexeme ts = [(TOKEN_IDENTIFIER, ''ab''), (TOKEN_STRING, [SQ, SP])] @ [(TOKEN_END, [])]"
  by (rule lex_sql_roundtrip)
    (simp add: is_identifier_def is_word_def is_identifier_continue_def isalnum_def isalpha_def
      isupper_def islower_def isdigit_def byte_def)

text \<open>
  C6: a string literal whose closing quote is missing is refused, except when its text is
  empty or ends with an (escaped) quote: the check looks only at the last byte read, so
  these unterminated literals are accepted as if they were closed.
\<close>

theorem lex_sql_unterminated:
  "lex_sql (SQ # escape_quotes t)
     = (if t = [] \<or> last t = SQ
        then Inr [mk_token TOKEN_STRING t 0, mk_token TOKEN_END [] (Suc (length (escape_quotes t)))]
        else Inl ''unterminated string literal at position 0'')"
proof -
  have "show_int 0 = ''0''" by (simp add: show_int_def dec_digits.simps char_of_def bit_0)
  then show ?thesis
    by (simp add: lex_sql_def lex_string_def lex_string_loop_open identifier_start_continue
        push_token_def MESSAGE_SIZE_def)
qed

end
