(* ===== verification/Parser.thy ===== *)
theory Parser
  imports Lexer
begin

text \<open>
  The recursive descent parser of \<open>src/sql/parser.c\<close> and the statements of
  \<open>include/sqlparser/sql/ast.h\<close>. The parser state (the token array and the index) is the
  list of tokens from the index on; reading past the array is the outcome \<open>Stuck\<close>, which
  the theorems show to be impossible for the arrays of the lexer. A failed parse is its
  message: the partly built statement is freed by the code and never seen again.
\<close>

section \<open>Statements\<close>

record insert_statement =
  ins_table :: string
  ins_columns :: string_list
  ins_values :: string_list

text \<open>\<open>where_column\<close> and \<open>where_value\<close> are NULL in the code (here empty) unless \<open>has_where\<close>.\<close>

record select_statement =
  sel_table :: string
  sel_columns :: string_list
  select_all :: bool
  has_where :: bool
  where_column :: string
  where_value :: string

datatype statement = INSERT insert_statement | SELECT select_statement

section \<open>Parser outcomes\<close>

datatype 'a parsed = Stuck | Failed string | Parsed 'a "token list"

fun andThen :: "'a parsed \<Rightarrow> ('a \<Rightarrow> token list \<Rightarrow> 'b parsed) \<Rightarrow> 'b parsed" where
  "andThen Stuck f = Stuck"
| "andThen (Failed m) f = Failed m"
| "andThen (Parsed v ts) f = f v ts"

fun current_token :: "token list \<Rightarrow> token option" where
  "current_token [] = None"
| "current_token (t # ts) = Some t"

definition token_type_name :: "token_type \<Rightarrow> string" where
  "token_type_name ty =
     (case ty of
        TOKEN_IDENTIFIER \<Rightarrow> ''IDENTIFIER'' | TOKEN_STRING \<Rightarrow> ''STRING''
      | TOKEN_NUMBER \<Rightarrow> ''NUMBER'' | TOKEN_STAR \<Rightarrow> ''STAR'' | TOKEN_EQUALS \<Rightarrow> ''EQUALS''
      | TOKEN_COMMA \<Rightarrow> ''COMMA'' | TOKEN_LPAREN \<Rightarrow> ''LPAREN'' | TOKEN_RPAREN \<Rightarrow> ''RPAREN''
      | TOKEN_SEMICOLON \<Rightarrow> ''SEMICOLON'' | TOKEN_END \<Rightarrow> ''EOF'')"

definition describe_token :: "token \<Rightarrow> string" where
  "describe_token t =
     (let at = '' at position '' @ show_int (int (tok_position t)) in
      if tok_type t = TOKEN_END then snprintf 128 (''EOF'' @ at)
      else if tok_text t \<noteq> []
      then snprintf 128 (token_type_name (tok_type t) @ ''('' @ [DQ] @ tok_text t @ [DQ] @ '')'' @ at)
      else snprintf 128 (token_type_name (tok_type t) @ at))"

definition set_expected_token_error :: "token list \<Rightarrow> string \<Rightarrow> 'a parsed" where
  "set_expected_token_error ts expected =
     (case current_token ts of
        None \<Rightarrow> Stuck
      | Some t \<Rightarrow>
          Failed (snprintf MESSAGE_SIZE
            ((if take 9 expected = ''expected '' \<or> take 11 expected = ''unexpected ''
              then expected else ''expected '' @ expected) @ '', got '' @ describe_token t)))"

definition match_type :: "token list \<Rightarrow> token_type \<Rightarrow> bool parsed" where
  "match_type ts ty =
     (case current_token ts of
        None \<Rightarrow> Stuck
      | Some t \<Rightarrow> if tok_type t = ty then Parsed True (tl ts) else Parsed False ts)"

definition expect_type :: "token list \<Rightarrow> token_type \<Rightarrow> string \<Rightarrow> unit parsed" where
  "expect_type ts ty msg =
     andThen (match_type ts ty)
       (\<lambda>ok rest. if ok then Parsed () rest else set_expected_token_error rest msg)"

definition expect_keyword :: "token list \<Rightarrow> string \<Rightarrow> unit parsed" where
  "expect_keyword ts keyword =
     (case current_token ts of
        None \<Rightarrow> Stuck
      | Some t \<Rightarrow>
          if tok_type t \<noteq> TOKEN_IDENTIFIER \<or> \<not> strings_equal_ignore_case (tok_text t) keyword
          then set_expected_token_error ts (snprintf 64 (''keyword '' @ keyword))
          else Parsed () (tl ts))"

definition parse_identifier :: "token list \<Rightarrow> string parsed" where
  "parse_identifier ts =
     (case current_token ts of
        None \<Rightarrow> Stuck
      | Some t \<Rightarrow>
          if tok_type t \<noteq> TOKEN_IDENTIFIER then set_expected_token_error ts ''identifier''
          else Parsed (tok_text t) (tl ts))"

definition is_value_type :: "token_type \<Rightarrow> bool" where
  "is_value_type ty = (ty = TOKEN_STRING \<or> ty = TOKEN_NUMBER \<or> ty = TOKEN_IDENTIFIER)"

text \<open>The value reads of \<open>parse_value_list\<close> and \<open>parse_condition_value\<close>.\<close>

definition parse_value :: "string \<Rightarrow> token list \<Rightarrow> string parsed" where
  "parse_value what ts =
     (case current_token ts of
        None \<Rightarrow> Stuck
      | Some t \<Rightarrow>
          if \<not> is_value_type (tok_type t) then set_expected_token_error ts what
          else Parsed (tok_text t) (tl ts))"

definition parse_condition_value :: "token list \<Rightarrow> string parsed" where
  "parse_condition_value ts = parse_value ''SQL value in WHERE clause'' ts"

lemma parse_identifier_tl: "parse_identifier ts = Parsed v rest \<Longrightarrow> ts \<noteq> [] \<and> rest = tl ts"
  by (auto simp: parse_identifier_def set_expected_token_error_def split: option.splits if_splits
      elim: current_token.elims)

lemma parse_value_tl: "parse_value w ts = Parsed v rest \<Longrightarrow> ts \<noteq> [] \<and> rest = tl ts"
  by (auto simp: parse_value_def set_expected_token_error_def split: option.splits if_splits
      elim: current_token.elims)

section \<open>Lists\<close>

text \<open>The loops \<open>while (match_type(state, TOKEN_COMMA))\<close> with the list read so far.\<close>

function identifier_list_loop :: "token list \<Rightarrow> string_list \<Rightarrow> string_list parsed" where
  "identifier_list_loop ts xs =
     (case match_type ts TOKEN_COMMA of
        Parsed True rest \<Rightarrow>
          (case parse_identifier rest of
             Parsed v rest' \<Rightarrow> identifier_list_loop rest' (string_list_push xs v)
           | Failed m \<Rightarrow> Failed m
           | Stuck \<Rightarrow> Stuck)
      | Parsed False rest \<Rightarrow> Parsed xs rest
      | Failed m \<Rightarrow> Failed m
      | Stuck \<Rightarrow> Stuck)"
  by pat_completeness auto
termination
  by (relation "measure (\<lambda>(ts, xs). length ts)")
    (auto simp: match_type_def split: option.splits if_splits dest!: parse_identifier_tl
      elim!: current_token.elims)

definition parse_identifier_list :: "token list \<Rightarrow> string_list parsed" where
  "parse_identifier_list ts =
     andThen (parse_identifier ts) (\<lambda>v rest. identifier_list_loop rest (string_list_push [] v))"

function value_list_loop :: "token list \<Rightarrow> string_list \<Rightarrow> string_list parsed" where
  "value_list_loop ts xs =
     (case match_type ts TOKEN_COMMA of
        Parsed True rest \<Rightarrow>
          (case parse_value ''SQL value'' rest of
             Parsed v rest' \<Rightarrow> value_list_loop rest' (string_list_push xs v)
           | Failed m \<Rightarrow> Failed m
           | Stuck \<Rightarrow> Stuck)
      | Parsed False rest \<Rightarrow> Parsed xs rest
      | Failed m \<Rightarrow> Failed m
      | Stuck \<Rightarrow> Stuck)"
  by pat_completeness auto
termination
  by (relation "measure (\<lambda>(ts, xs). length ts)")
    (auto simp: match_type_def split: option.splits if_splits dest!: parse_value_tl
      elim!: current_token.elims)

declare identifier_list_loop.simps [simp del] value_list_loop.simps [simp del]

definition parse_value_list :: "token list \<Rightarrow> string_list parsed" where
  "parse_value_list ts =
     andThen (parse_value ''SQL value'' ts)
       (\<lambda>v rest. value_list_loop rest (string_list_push [] v))"

definition reject_unsupported_where_connector :: "token list \<Rightarrow> unit parsed" where
  "reject_unsupported_where_connector ts =
     (case current_token ts of
        None \<Rightarrow> Stuck
      | Some t \<Rightarrow>
          if tok_type t \<noteq> TOKEN_IDENTIFIER then Parsed () ts
          else if \<not> strings_equal_ignore_case (tok_text t) ''AND''
                \<and> \<not> strings_equal_ignore_case (tok_text t) ''OR''
          then Parsed () ts
          else Failed (snprintf MESSAGE_SIZE
            (''AND/OR conditions are not supported; only a single WHERE condition is allowed, got IDENTIFIER(''
             @ [DQ] @ tok_text t @ [DQ] @ '') at position '' @ show_int (int (tok_position t)))))"

section \<open>Statements\<close>

definition parse_insert :: "token list \<Rightarrow> insert_statement parsed" where
  "parse_insert ts =
     andThen (expect_keyword ts ''INSERT'') (\<lambda>_ ts.
     andThen (expect_keyword ts ''INTO'') (\<lambda>_ ts.
     andThen (parse_identifier ts) (\<lambda>table ts.
     andThen (expect_type ts TOKEN_LPAREN (''expected '' @ [SQ] @ ''('' @ [SQ] @ '' after table name'')) (\<lambda>_ ts.
     andThen (parse_identifier_list ts) (\<lambda>columns ts.
     andThen (expect_type ts TOKEN_RPAREN (''expected '' @ [SQ] @ '')'' @ [SQ] @ '' after column list'')) (\<lambda>_ ts.
     andThen (expect_keyword ts ''VALUES'') (\<lambda>_ ts.
     andThen (expect_type ts TOKEN_LPAREN (''expected '' @ [SQ] @ ''('' @ [SQ] @ '' after VALUES'')) (\<lambda>_ ts.
     andThen (parse_value_list ts) (\<lambda>vals ts.
     andThen (expect_type ts TOKEN_RPAREN (''expected '' @ [SQ] @ '')'' @ [SQ] @ '' after value list'')) (\<lambda>_ ts.
       Parsed \<lparr>ins_table = table, ins_columns = columns, ins_values = vals\<rparr> ts))))))))))"

text \<open>The column part of SELECT: \<open>(select_all, columns)\<close>.\<close>

definition parse_projection :: "token list \<Rightarrow> (bool \<times> string_list) parsed" where
  "parse_projection ts =
     andThen (match_type ts TOKEN_STAR) (\<lambda>star ts.
       if star then Parsed (True, []) ts
       else andThen (parse_identifier_list ts) (\<lambda>columns ts. Parsed (False, columns) ts))"

text \<open>The optional WHERE part: \<open>(has_where, where_column, where_value)\<close>.\<close>

definition parse_where :: "token list \<Rightarrow> (bool \<times> string \<times> string) parsed" where
  "parse_where ts =
     (case current_token ts of
        None \<Rightarrow> Stuck
      | Some t \<Rightarrow>
          if tok_type t = TOKEN_IDENTIFIER \<and> strings_equal_ignore_case (tok_text t) ''WHERE''
          then
            andThen (parse_identifier (tl ts)) (\<lambda>column ts.
            andThen (expect_type ts TOKEN_EQUALS (''expected '' @ [SQ] @ ''='' @ [SQ] @ '' in WHERE clause'')) (\<lambda>_ ts.
            andThen (parse_condition_value ts) (\<lambda>val ts.
            andThen (reject_unsupported_where_connector ts) (\<lambda>_ ts.
              Parsed (True, column, val) ts))))
          else Parsed (False, [], []) ts)"

definition parse_select :: "token list \<Rightarrow> select_statement parsed" where
  "parse_select ts =
     andThen (expect_keyword ts ''SELECT'') (\<lambda>_ ts.
     andThen (parse_projection ts) (\<lambda>(star, columns) ts.
     andThen (expect_keyword ts ''FROM'') (\<lambda>_ ts.
     andThen (parse_identifier ts) (\<lambda>table ts.
     andThen (parse_where ts) (\<lambda>(wh, column, val) ts.
       Parsed \<lparr>sel_table = table, sel_columns = columns, select_all = star,
               has_where = wh, where_column = column, where_value = val\<rparr> ts)))))"

definition is_keyword :: "token list \<Rightarrow> string \<Rightarrow> bool" where
  "is_keyword ts keyword =
     (case current_token ts of
        None \<Rightarrow> False
      | Some t \<Rightarrow> tok_type t = TOKEN_IDENTIFIER \<and> strings_equal_ignore_case (tok_text t) keyword)"

definition parse_body :: "token list \<Rightarrow> statement parsed" where
  "parse_body ts =
     (case current_token ts of
        None \<Rightarrow> Stuck
      | Some t \<Rightarrow>
          if is_keyword ts ''INSERT''
          then andThen (parse_insert ts) (\<lambda>st ts. Parsed (INSERT st) ts)
          else if is_keyword ts ''SELECT''
          then andThen (parse_select ts) (\<lambda>st ts. Parsed (SELECT st) ts)
          else Failed (snprintf MESSAGE_SIZE
                 (''only INSERT and SELECT are supported, got '' @ describe_token t)))"

definition parse_statement :: "token list \<Rightarrow> (string + statement) option" where
  "parse_statement tokens =
     (case
        andThen (parse_body tokens) (\<lambda>st ts.
        andThen (expect_type ts TOKEN_SEMICOLON
                   (''expected '' @ [SQ] @ '';'' @ [SQ] @ '' at end of SQL statement'')) (\<lambda>_ ts.
        andThen (expect_type ts TOKEN_END ''unexpected tokens after SQL statement'') (\<lambda>_ ts.
          Parsed st ts)))
      of
        Stuck \<Rightarrow> None
      | Failed m \<Rightarrow> Some (Inl m)
      | Parsed st ts \<Rightarrow> Some (Inr st))"

section \<open>Successful parses\<close>

text \<open>Each parser function succeeds exactly on the token prefixes described here.\<close>

lemma andThen_Parsed [simp]:
  "andThen r f = Parsed v rest \<longleftrightarrow> (\<exists>a ts. r = Parsed a ts \<and> f a ts = Parsed v rest)"
  by (cases r) auto

lemma set_expected_not_Parsed [simp]: "set_expected_token_error ts m \<noteq> Parsed v rest"
  by (auto simp: set_expected_token_error_def split: option.splits)

lemma current_token_Some [simp]: "current_token ts = Some t \<longleftrightarrow> (\<exists>rest. ts = t # rest)"
  by (cases ts) auto

lemma current_token_None [simp]: "current_token ts = None \<longleftrightarrow> ts = []"
  by (cases ts) auto

lemma match_type_Parsed:
  "match_type ts ty = Parsed b rest \<longleftrightarrow>
     ts \<noteq> [] \<and> b = (tok_type (hd ts) = ty) \<and> rest = (if b then tl ts else ts)"
  by (cases ts) (auto simp: match_type_def)

lemma expect_type_Parsed:
  "expect_type ts ty m = Parsed u rest \<longleftrightarrow> (\<exists>t. ts = t # rest \<and> tok_type t = ty)"
  by (cases ts) (auto simp: expect_type_def match_type_Parsed)

definition keyword_lexeme :: "string \<Rightarrow> lexeme \<Rightarrow> bool" where
  "keyword_lexeme k l = (fst l = TOKEN_IDENTIFIER \<and> strings_equal_ignore_case (snd l) k)"

lemma expect_keyword_Parsed:
  "expect_keyword ts k = Parsed u rest \<longleftrightarrow> (\<exists>t. ts = t # rest \<and> keyword_lexeme k (lexeme t))"
  by (cases ts) (auto simp: expect_keyword_def keyword_lexeme_def lexeme_def)

lemma parse_identifier_Parsed:
  "parse_identifier ts = Parsed v rest \<longleftrightarrow>
     (\<exists>t. ts = t # rest \<and> lexeme t = (TOKEN_IDENTIFIER, v))"
  by (cases ts) (auto simp: parse_identifier_def lexeme_def)

lemma parse_value_Parsed:
  "parse_value w ts = Parsed v rest \<longleftrightarrow>
     (\<exists>t ty. ts = t # rest \<and> lexeme t = (ty, v) \<and> is_value_type ty)"
  by (cases ts) (auto simp: parse_value_def lexeme_def)

lemma accepts:
  "keyword_lexeme k (lexeme t) \<Longrightarrow> expect_keyword (t # ts) k = Parsed () ts"
  "tok_type t = ty \<Longrightarrow> expect_type (t # ts) ty m = Parsed () ts"
  "lexeme t = (TOKEN_IDENTIFIER, v) \<Longrightarrow> parse_identifier (t # ts) = Parsed v ts"
  by (simp_all add: expect_keyword_Parsed expect_type_Parsed parse_identifier_Parsed)

text \<open>A comma separated list of lexemes whose types satisfy \<open>P\<close>, with its texts.\<close>

fun comma_tail :: "(token_type \<Rightarrow> bool) \<Rightarrow> lexeme list \<Rightarrow> string list \<Rightarrow> bool" where
  "comma_tail P [] xs = (xs = [])"
| "comma_tail P (c # (ty, x) # ls) (y # ys) =
     (fst c = TOKEN_COMMA \<and> P ty \<and> x = y \<and> comma_tail P ls ys)"
| "comma_tail P ls xs = False"

fun comma_list :: "(token_type \<Rightarrow> bool) \<Rightarrow> lexeme list \<Rightarrow> string list \<Rightarrow> bool" where
  "comma_list P ((ty, x) # ls) (y # ys) = (P ty \<and> x = y \<and> comma_tail P ls ys)"
| "comma_list P ls xs = False"

definition no_comma :: "token list \<Rightarrow> bool" where
  "no_comma rest = (rest \<noteq> [] \<and> tok_type (hd rest) \<noteq> TOKEN_COMMA)"

definition tail_read :: "(token_type \<Rightarrow> bool) \<Rightarrow> token list \<Rightarrow> string list \<Rightarrow> token list \<Rightarrow> bool" where
  "tail_read P ts zs rest =
     (no_comma rest \<and> (\<exists>pre. ts = pre @ rest \<and> comma_tail P (map lexeme pre) zs))"

lemma tail_read_stop:
  assumes "ts \<noteq> []" and "tok_type (hd ts) \<noteq> TOKEN_COMMA"
  shows "tail_read P ts zs rest \<longleftrightarrow> zs = [] \<and> rest = ts"
proof
  assume "tail_read P ts zs rest"
  then obtain pre where pre: "ts = pre @ rest" "comma_tail P (map lexeme pre) zs"
    by (auto simp: tail_read_def)
  have "pre = []"
  proof (cases pre)
    case (Cons t pre')
    with pre assms(2) show ?thesis
      by (cases "(P, map lexeme pre, zs)" rule: comma_tail.cases) (auto simp: lexeme_def)
  qed
  with pre show "zs = [] \<and> rest = ts" by simp
qed (use assms in \<open>simp add: tail_read_def no_comma_def\<close>)

lemma tail_read_comma:
  assumes "tok_type t = TOKEN_COMMA"
  shows "tail_read P (t # ts) zs rest \<longleftrightarrow>
     (\<exists>t' ty y ys ts'. ts = t' # ts' \<and> lexeme t' = (ty, y) \<and> P ty \<and> zs = y # ys
        \<and> tail_read P ts' ys rest)"
proof
  assume "tail_read P (t # ts) zs rest"
  then obtain pre where pre: "t # ts = pre @ rest" "comma_tail P (map lexeme pre) zs"
    and rest: "no_comma rest" by (auto simp: tail_read_def)
  from rest pre(1) assms have "pre \<noteq> []" by (auto simp: no_comma_def)
  then show "\<exists>t' ty y ys ts'. ts = t' # ts' \<and> lexeme t' = (ty, y) \<and> P ty \<and> zs = y # ys
        \<and> tail_read P ts' ys rest"
    using pre rest
    by (cases "(P, map lexeme pre, zs)" rule: comma_tail.cases) (auto simp: tail_read_def)
next
  assume "\<exists>t' ty y ys ts'. ts = t' # ts' \<and> lexeme t' = (ty, y) \<and> P ty \<and> zs = y # ys
        \<and> tail_read P ts' ys rest"
  then obtain t' ty y ys pre where "ts = t' # pre @ rest" "lexeme t' = (ty, y)" "P ty"
    "zs = y # ys" "comma_tail P (map lexeme pre) ys" "no_comma rest"
    by (auto simp: tail_read_def)
  with assms show "tail_read P (t # ts) zs rest"
    unfolding tail_read_def by (intro conjI exI [of _ "t # t' # pre"]) (simp_all add: lexeme_def)
qed

lemma identifier_list_loop_Parsed:
  "identifier_list_loop ts xs = Parsed ys rest \<longleftrightarrow>
     (\<exists>zs. ys = xs @ zs \<and> tail_read (\<lambda>ty. ty = TOKEN_IDENTIFIER) ts zs rest)"
proof (induction ts xs rule: identifier_list_loop.induct)
  case (1 ts xs)
  show ?case
  proof (cases ts)
    case Nil
    then show ?thesis
      by (auto simp: identifier_list_loop.simps [of "[]"] match_type_def tail_read_def no_comma_def)
  next
    case (Cons t ts')
    show ?thesis
    proof (cases "tok_type t = TOKEN_COMMA")
      case False
      with Cons show ?thesis
        by (auto simp: identifier_list_loop.simps [of "t # ts'"] match_type_def tail_read_stop)
    next
      case True
      with Cons have m: "match_type ts TOKEN_COMMA = Parsed True ts'" by (simp add: match_type_def)
      have unf: "identifier_list_loop ts xs = (case parse_identifier ts' of
             Parsed v rest' \<Rightarrow> identifier_list_loop rest' (string_list_push xs v)
           | Failed m \<Rightarrow> Failed m | Stuck \<Rightarrow> Stuck)"
        by (subst identifier_list_loop.simps) (simp add: m)
      have view: "(\<exists>v rest' ys. parse_identifier ts' = Parsed v rest' \<and> zs = v # ys
          \<and> tail_read (\<lambda>ty. ty = TOKEN_IDENTIFIER) rest' ys rest) \<longleftrightarrow> tail_read (\<lambda>ty. ty = TOKEN_IDENTIFIER) ts zs rest" for zs
        using True by (auto simp: Cons tail_read_comma parse_identifier_Parsed)
      show ?thesis
      proof (cases "parse_identifier ts'")
        case (Parsed v rest')
        show ?thesis
          unfolding unf view [symmetric] using "1.IH" [OF m refl Parsed]
          by (auto simp: Parsed string_list_push_def)
      qed (simp_all add: unf view [symmetric])
    qed
  qed
qed

lemma value_list_loop_Parsed:
  "value_list_loop ts xs = Parsed ys rest \<longleftrightarrow>
     (\<exists>zs. ys = xs @ zs \<and> tail_read is_value_type ts zs rest)"
proof (induction ts xs rule: value_list_loop.induct)
  case (1 ts xs)
  show ?case
  proof (cases ts)
    case Nil
    then show ?thesis
      by (auto simp: value_list_loop.simps [of "[]"] match_type_def tail_read_def no_comma_def)
  next
    case (Cons t ts')
    show ?thesis
    proof (cases "tok_type t = TOKEN_COMMA")
      case False
      with Cons show ?thesis
        by (auto simp: value_list_loop.simps [of "t # ts'"] match_type_def tail_read_stop)
    next
      case True
      with Cons have m: "match_type ts TOKEN_COMMA = Parsed True ts'" by (simp add: match_type_def)
      have unf: "value_list_loop ts xs = (case parse_value ''SQL value'' ts' of
             Parsed v rest' \<Rightarrow> value_list_loop rest' (string_list_push xs v)
           | Failed m \<Rightarrow> Failed m | Stuck \<Rightarrow> Stuck)"
        by (subst value_list_loop.simps) (simp add: m)
      have view: "(\<exists>v rest' ys. parse_value ''SQL value'' ts' = Parsed v rest' \<and> zs = v # ys
          \<and> tail_read is_value_type rest' ys rest) \<longleftrightarrow> tail_read is_value_type ts zs rest" for zs
        using True by (auto simp: Cons tail_read_comma parse_value_Parsed)
      show ?thesis
      proof (cases "parse_value ''SQL value'' ts'")
        case (Parsed v rest')
        show ?thesis
          unfolding unf view [symmetric] using "1.IH" [OF m refl Parsed]
          by (auto simp: Parsed string_list_push_def)
      qed (simp_all add: unf view [symmetric])
    qed
  qed
qed

definition list_read :: "(token_type \<Rightarrow> bool) \<Rightarrow> token list \<Rightarrow> string list \<Rightarrow> token list \<Rightarrow> bool" where
  "list_read P ts xs rest =
     (no_comma rest \<and> (\<exists>pre. ts = pre @ rest \<and> comma_list P (map lexeme pre) xs))"

lemma list_read_step:
  "list_read P ts xs rest \<longleftrightarrow>
     (\<exists>t ty y ys ts'. ts = t # ts' \<and> lexeme t = (ty, y) \<and> P ty \<and> xs = y # ys
        \<and> tail_read P ts' ys rest)" (is "?l \<longleftrightarrow> ?r")
proof
  assume ?l
  then obtain pre where "ts = pre @ rest" "comma_list P (map lexeme pre) xs" "no_comma rest"
    by (auto simp: list_read_def)
  then show ?r
    by (cases "(P, map lexeme pre, xs)" rule: comma_list.cases) (auto simp: tail_read_def)
next
  assume ?r
  then obtain t ty y ys pre where "ts = t # pre @ rest" "lexeme t = (ty, y)" "P ty"
    "xs = y # ys" "comma_tail P (map lexeme pre) ys" "no_comma rest"
    by (auto simp: tail_read_def)
  then show ?l unfolding list_read_def by (intro conjI exI [of _ "t # pre"]) simp_all
qed

lemma parse_identifier_list_Parsed:
  "parse_identifier_list ts = Parsed xs rest \<longleftrightarrow>
     list_read (\<lambda>ty. ty = TOKEN_IDENTIFIER) ts xs rest"
  by (auto simp: parse_identifier_list_def parse_identifier_Parsed identifier_list_loop_Parsed
      list_read_step string_list_push_def)

lemma parse_value_list_Parsed:
  "parse_value_list ts = Parsed xs rest \<longleftrightarrow> list_read is_value_type ts xs rest"
  by (auto simp: parse_value_list_def parse_value_Parsed value_list_loop_Parsed
      list_read_step string_list_push_def)

section \<open>The grammar\<close>

text \<open>
  The reference: the statements a sequence of lexemes (before the semicolon) denotes. Keywords
  are compared without case, symbols by their type.
\<close>

definition symbol :: "token_type \<Rightarrow> lexeme \<Rightarrow> bool" where
  "symbol ty l = (fst l = ty)"

inductive projection :: "lexeme list \<Rightarrow> bool \<Rightarrow> string_list \<Rightarrow> bool" where
  star: "symbol TOKEN_STAR l \<Longrightarrow> projection [l] True []"
| columns: "comma_list (\<lambda>ty. ty = TOKEN_IDENTIFIER) ls xs \<Longrightarrow> projection ls False xs"

inductive where_part :: "lexeme list \<Rightarrow> bool \<times> string \<times> string \<Rightarrow> bool" where
  no_where: "where_part [] (False, [], [])"
| one_where: "keyword_lexeme ''WHERE'' k \<Longrightarrow> symbol TOKEN_EQUALS e \<Longrightarrow> is_value_type ty
    \<Longrightarrow> where_part [k, (TOKEN_IDENTIFIER, c), e, (ty, v)] (True, c, v)"

inductive sql :: "lexeme list \<Rightarrow> statement \<Rightarrow> bool" where
  sql_insert: "keyword_lexeme ''INSERT'' k1 \<Longrightarrow> keyword_lexeme ''INTO'' k2
    \<Longrightarrow> symbol TOKEN_LPAREN p1 \<Longrightarrow> comma_list (\<lambda>ty. ty = TOKEN_IDENTIFIER) cl cols
    \<Longrightarrow> symbol TOKEN_RPAREN p2 \<Longrightarrow> keyword_lexeme ''VALUES'' k3 \<Longrightarrow> symbol TOKEN_LPAREN p3
    \<Longrightarrow> comma_list is_value_type vl vals \<Longrightarrow> symbol TOKEN_RPAREN p4
    \<Longrightarrow> sql ([k1, k2, (TOKEN_IDENTIFIER, table), p1] @ cl @ [p2, k3, p3] @ vl @ [p4])
          (INSERT \<lparr>ins_table = table, ins_columns = cols, ins_values = vals\<rparr>)"
| sql_select: "keyword_lexeme ''SELECT'' k1 \<Longrightarrow> projection pl star cols
    \<Longrightarrow> keyword_lexeme ''FROM'' k2 \<Longrightarrow> where_part wl (wh, c, v)
    \<Longrightarrow> sql ([k1] @ pl @ [k2, (TOKEN_IDENTIFIER, table)] @ wl)
          (SELECT \<lparr>sel_table = table, sel_columns = cols, select_all = star,
                    has_where = wh, where_column = c, where_value = v\<rparr>)"

lemma tok_type_lexeme: "tok_type t = fst (lexeme t)"
  by (simp add: lexeme_def)

lemma parse_projection_Parsed:
  "parse_projection ts = Parsed (star, cols) rest \<longleftrightarrow>
     (if star then \<exists>t. ts = t # rest \<and> symbol TOKEN_STAR (lexeme t) \<and> cols = []
      else list_read (\<lambda>ty. ty = TOKEN_IDENTIFIER) ts cols rest)"
proof -
  have "list_read (\<lambda>ty. ty = TOKEN_IDENTIFIER) ts cols rest \<Longrightarrow>
      ts \<noteq> [] \<and> tok_type (hd ts) = TOKEN_IDENTIFIER"
    by (auto simp: list_read_step tok_type_lexeme)
  then show ?thesis
    by (cases ts) (auto simp: parse_projection_def match_type_Parsed parse_identifier_list_Parsed
        symbol_def tok_type_lexeme split: if_splits)
qed

lemma reject_Parsed:
  "reject_unsupported_where_connector ts = Parsed u rest \<longleftrightarrow>
     ts \<noteq> [] \<and> rest = ts \<and> \<not> keyword_lexeme ''AND'' (lexeme (hd ts))
     \<and> \<not> keyword_lexeme ''OR'' (lexeme (hd ts))"
  by (cases ts) (auto simp: reject_unsupported_where_connector_def keyword_lexeme_def lexeme_def)

lemma parse_where_Parsed:
  "parse_where ts = Parsed w rest \<longleftrightarrow>
     rest \<noteq> [] \<and> (\<exists>pre. ts = pre @ rest \<and> where_part (map lexeme pre) w)
     \<and> (if fst w then \<not> keyword_lexeme ''AND'' (lexeme (hd rest))
                      \<and> \<not> keyword_lexeme ''OR'' (lexeme (hd rest))
        else \<not> keyword_lexeme ''WHERE'' (lexeme (hd rest)))" (is "?l \<longleftrightarrow> ?r")
proof
  assume ?l
  then obtain t ts' where ts: "ts = t # ts'" by (cases ts) (auto simp: parse_where_def)
  show ?r
  proof (cases "keyword_lexeme ''WHERE'' (lexeme t)")
    case True
    with \<open>?l\<close> ts obtain a b d c v ty where "ts = t # a # b # d # rest"
      "lexeme a = (TOKEN_IDENTIFIER, c)" "tok_type b = TOKEN_EQUALS" "lexeme d = (ty, v)"
      "is_value_type ty" "w = (True, c, v)" "rest \<noteq> []"
      "\<not> keyword_lexeme ''AND'' (lexeme (hd rest))" "\<not> keyword_lexeme ''OR'' (lexeme (hd rest))"
      by (auto simp: parse_where_def parse_condition_value_def parse_identifier_Parsed
          expect_type_Parsed parse_value_Parsed reject_Parsed keyword_lexeme_def lexeme_def)
    with True show ?thesis
      by (auto intro!: exI [of _ "[t, a, b, d]"] one_where simp: symbol_def tok_type_lexeme)
  next
    case False
    with \<open>?l\<close> ts show ?thesis
      by (auto simp: parse_where_def keyword_lexeme_def lexeme_def no_where)
  qed
next
  assume r: ?r
  then obtain pre where ts: "ts = pre @ rest" and w: "where_part (map lexeme pre) w" by blast
  from w show ?l
  proof cases
    case no_where
    with r ts show ?thesis
      by (cases rest) (auto simp: parse_where_def keyword_lexeme_def lexeme_def)
  next
    case (one_where k e ty c v)
    with r ts show ?thesis
      by (auto simp: parse_where_def parse_condition_value_def parse_identifier_Parsed
          expect_type_Parsed parse_value_Parsed reject_Parsed keyword_lexeme_def lexeme_def
          symbol_def map_eq_Cons_conv)
  qed
qed

definition insert_shape :: "token list \<Rightarrow> insert_statement \<Rightarrow> bool" where
  "insert_shape pre st =
     (\<exists>t1 t2 t3 t4 cl t5 t6 t7 vl t8. pre = [t1, t2, t3, t4] @ cl @ [t5, t6, t7] @ vl @ [t8]
        \<and> keyword_lexeme ''INSERT'' (lexeme t1) \<and> keyword_lexeme ''INTO'' (lexeme t2)
        \<and> lexeme t3 = (TOKEN_IDENTIFIER, ins_table st) \<and> tok_type t4 = TOKEN_LPAREN
        \<and> comma_list (\<lambda>ty. ty = TOKEN_IDENTIFIER) (map lexeme cl) (ins_columns st)
        \<and> tok_type t5 = TOKEN_RPAREN \<and> keyword_lexeme ''VALUES'' (lexeme t6)
        \<and> tok_type t7 = TOKEN_LPAREN \<and> comma_list is_value_type (map lexeme vl) (ins_values st)
        \<and> tok_type t8 = TOKEN_RPAREN)"

lemma map_appendE:
  assumes "map f xs = a @ b"
  obtains x y where "xs = x @ y" and "map f x = a" and "map f y = b"
  using assms by (auto simp: map_eq_append_conv)

text \<open>The tokens whose lexemes are the parts of an INSERT.\<close>

lemma insert_tokens:
  assumes "map lexeme pre = [k1, k2, k3, p1] @ cl @ [p2, k4, p3] @ vl @ [p4]"
  obtains t1 t2 t3 t4 cl' t5 t6 t7 vl' t8 where
    "pre = [t1, t2, t3, t4] @ cl' @ [t5, t6, t7] @ vl' @ [t8]"
    "lexeme t1 = k1" "lexeme t2 = k2" "lexeme t3 = k3" "lexeme t4 = p1" "map lexeme cl' = cl"
    "lexeme t5 = p2" "lexeme t6 = k4" "lexeme t7 = p3" "map lexeme vl' = vl" "lexeme t8 = p4"
proof -
  obtain a r1 where 1: "pre = a @ r1" "map lexeme a = [k1, k2, k3, p1]"
    "map lexeme r1 = cl @ [p2, k4, p3] @ vl @ [p4]" by (rule map_appendE [OF assms])
  obtain b r2 where 2: "r1 = b @ r2" "map lexeme b = cl" "map lexeme r2 = [p2, k4, p3] @ vl @ [p4]"
    by (rule map_appendE [OF 1(3)])
  obtain c d where 3: "r2 = c @ d" "map lexeme c = [p2, k4, p3]" "map lexeme d = vl @ [p4]"
    by (rule map_appendE [OF 2(3)])
  obtain e f where 4: "d = e @ f" "map lexeme e = vl" "map lexeme f = [p4]"
    by (rule map_appendE [OF 3(3)])
  from 1(2) obtain t1 t2 t3 t4 where a: "a = [t1, t2, t3, t4]" by (auto simp: map_eq_Cons_conv)
  from 3(2) obtain t5 t6 t7 where c: "c = [t5, t6, t7]" by (auto simp: map_eq_Cons_conv)
  from 4(3) obtain t8 where f: "f = [t8]" by (auto simp: map_eq_Cons_conv)
  show thesis
    by (rule that [of t1 t2 t3 t4 b t5 t6 t7 e t8]) (use 1 2 3 4 in \<open>simp_all add: a c f\<close>)
qed

lemma insert_shape_sql: "insert_shape pre st \<longleftrightarrow> sql (map lexeme pre) (INSERT st)"
proof
  assume "insert_shape pre st"
  then obtain t1 t2 t3 t4 cl t5 t6 t7 vl t8 where
    pre: "pre = [t1, t2, t3, t4] @ cl @ [t5, t6, t7] @ vl @ [t8]"
    and p: "keyword_lexeme ''INSERT'' (lexeme t1)" "keyword_lexeme ''INTO'' (lexeme t2)"
    "symbol TOKEN_LPAREN (lexeme t4)"
    "comma_list (\<lambda>ty. ty = TOKEN_IDENTIFIER) (map lexeme cl) (ins_columns st)"
    "symbol TOKEN_RPAREN (lexeme t5)" "keyword_lexeme ''VALUES'' (lexeme t6)"
    "symbol TOKEN_LPAREN (lexeme t7)" "comma_list is_value_type (map lexeme vl) (ins_values st)"
    "symbol TOKEN_RPAREN (lexeme t8)" and t: "lexeme t3 = (TOKEN_IDENTIFIER, ins_table st)"
    unfolding insert_shape_def symbol_def tok_type_lexeme by blast
  from sql_insert [OF p, of "ins_table st"] show "sql (map lexeme pre) (INSERT st)"
    by (cases st) (simp add: pre t)
next
  assume "sql (map lexeme pre) (INSERT st)"
  then show "insert_shape pre st"
  proof cases
    case (sql_insert k1 k2 p1 cl cols p2 k3 p3 vl vals p4 table)
    obtain t1 t2 t3 t4 cl' t5 t6 t7 vl' t8 where tokens:
      "pre = [t1, t2, t3, t4] @ cl' @ [t5, t6, t7] @ vl' @ [t8]" "lexeme t1 = k1"
      "lexeme t2 = k2" "lexeme t3 = (TOKEN_IDENTIFIER, table)" "lexeme t4 = p1"
      "map lexeme cl' = cl" "lexeme t5 = p2" "lexeme t6 = k3" "lexeme t7 = p3"
      "map lexeme vl' = vl" "lexeme t8 = p4"
      by (rule insert_tokens [OF sql_insert(1)])
    show ?thesis unfolding insert_shape_def
      by (rule exI [of _ t1], rule exI [of _ t2], rule exI [of _ t3], rule exI [of _ t4],
          rule exI [of _ cl'], rule exI [of _ t5], rule exI [of _ t6], rule exI [of _ t7],
          rule exI [of _ vl'], rule exI [of _ t8])
        (use tokens sql_insert(2-) in \<open>simp add: symbol_def tok_type_lexeme\<close>)
  qed
qed

lemma list_read_split: "list_read P ts xs rest \<Longrightarrow> no_comma rest"
  by (simp add: list_read_def)

lemma parse_insert_sound:
  assumes "parse_insert ts = Parsed st rest"
  shows "\<exists>pre. ts = pre @ rest \<and> sql (map lexeme pre) (INSERT st)"
proof -
  from assms obtain t1 t2 t3 t4 ts1 t5 t6 t7 ts2 t8 where
    "ts = t1 # t2 # t3 # t4 # ts1" "keyword_lexeme ''INSERT'' (lexeme t1)"
    "keyword_lexeme ''INTO'' (lexeme t2)" "lexeme t3 = (TOKEN_IDENTIFIER, ins_table st)"
    "tok_type t4 = TOKEN_LPAREN"
    "list_read (\<lambda>ty. ty = TOKEN_IDENTIFIER) ts1 (ins_columns st) (t5 # t6 # t7 # ts2)"
    "tok_type t5 = TOKEN_RPAREN" "keyword_lexeme ''VALUES'' (lexeme t6)"
    "tok_type t7 = TOKEN_LPAREN" "list_read is_value_type ts2 (ins_values st) (t8 # rest)"
    "tok_type t8 = TOKEN_RPAREN"
    by (auto simp: parse_insert_def expect_keyword_Parsed expect_type_Parsed
        parse_identifier_Parsed parse_identifier_list_Parsed parse_value_list_Parsed)
  moreover from this obtain cl vl where "ts1 = cl @ t5 # t6 # t7 # ts2"
    "comma_list (\<lambda>ty. ty = TOKEN_IDENTIFIER) (map lexeme cl) (ins_columns st)"
    "ts2 = vl @ t8 # rest" "comma_list is_value_type (map lexeme vl) (ins_values st)"
    by (auto simp: list_read_def)
  ultimately have "ts = ([t1, t2, t3, t4] @ cl @ [t5, t6, t7] @ vl @ [t8]) @ rest"
    and "insert_shape ([t1, t2, t3, t4] @ cl @ [t5, t6, t7] @ vl @ [t8]) st"
    unfolding insert_shape_def by (simp, blast)
  then show ?thesis unfolding insert_shape_sql by blast
qed

lemma parse_insert_complete:
  assumes "insert_shape pre st"
  shows "parse_insert (pre @ rest) = Parsed st rest"
proof -
  from assms obtain t1 t2 t3 t4 cl t5 t6 t7 vl t8 where
    p: "pre = [t1, t2, t3, t4] @ cl @ [t5, t6, t7] @ vl @ [t8]"
    and k: "keyword_lexeme ''INSERT'' (lexeme t1)" "keyword_lexeme ''INTO'' (lexeme t2)"
    "lexeme t3 = (TOKEN_IDENTIFIER, ins_table st)" "tok_type t4 = TOKEN_LPAREN"
    "tok_type t5 = TOKEN_RPAREN" "keyword_lexeme ''VALUES'' (lexeme t6)"
    "tok_type t7 = TOKEN_LPAREN" "tok_type t8 = TOKEN_RPAREN"
    and c: "comma_list (\<lambda>ty. ty = TOKEN_IDENTIFIER) (map lexeme cl) (ins_columns st)"
    "comma_list is_value_type (map lexeme vl) (ins_values st)"
    unfolding insert_shape_def by blast
  have "list_read (\<lambda>ty. ty = TOKEN_IDENTIFIER) (cl @ t5 # t6 # t7 # vl @ t8 # rest)
      (ins_columns st) (t5 # t6 # t7 # vl @ t8 # rest)"
    using c k by (auto simp: list_read_def no_comma_def)
  moreover have "list_read is_value_type (vl @ t8 # rest) (ins_values st) (t8 # rest)"
    using c k by (auto simp: list_read_def no_comma_def)
  ultimately show ?thesis
    unfolding parse_identifier_list_Parsed [symmetric] parse_value_list_Parsed [symmetric]
    using k by (cases st) (simp add: p parse_insert_def accepts del: andThen_Parsed)
qed

lemma parse_insert_Parsed:
  "parse_insert ts = Parsed st rest \<longleftrightarrow>
     (\<exists>pre. ts = pre @ rest \<and> sql (map lexeme pre) (INSERT st))"
  using parse_insert_sound parse_insert_complete by (auto simp: insert_shape_sql [symmetric])

lemma parse_projection_lexemes:
  assumes "no_comma rest"
  shows "parse_projection ts = Parsed (star, cols) rest \<longleftrightarrow>
     (\<exists>pre. ts = pre @ rest \<and> projection (map lexeme pre) star cols)" (is "?l \<longleftrightarrow> ?r")
proof
  assume ?l
  show ?r
  proof (cases star)
    case True
    with \<open>?l\<close> obtain t where "ts = t # rest" "symbol TOKEN_STAR (lexeme t)" "cols = []"
      by (auto simp: parse_projection_Parsed)
    with True show ?thesis by (auto intro!: exI [of _ "[t]"] star)
  next
    case False
    with \<open>?l\<close> show ?thesis by (auto simp: parse_projection_Parsed list_read_def intro: columns)
  qed
next
  assume ?r
  then obtain pre where ts: "ts = pre @ rest" and pr: "projection (map lexeme pre) star cols"
    by blast
  from pr show ?l
  proof cases
    case (star l)
    with ts show ?thesis by (auto simp: parse_projection_Parsed map_eq_Cons_conv)
  next
    case columns
    with ts assms show ?thesis by (auto simp: parse_projection_Parsed list_read_def)
  qed
qed

lemma parse_select_sound:
  assumes "parse_select ts = Parsed st (t # rest)"
  shows "\<exists>pre. ts = pre @ t # rest \<and> sql (map lexeme pre) (SELECT st)"
proof -
  from assms obtain t1 ts1 t2 t3 ts3 where k: "ts = t1 # ts1" "keyword_lexeme ''SELECT'' (lexeme t1)"
    "parse_projection ts1 = Parsed (select_all st, sel_columns st) (t2 # t3 # ts3)"
    "keyword_lexeme ''FROM'' (lexeme t2)" "lexeme t3 = (TOKEN_IDENTIFIER, sel_table st)"
    "parse_where ts3 = Parsed (has_where st, where_column st, where_value st) (t # rest)"
    by (auto simp: parse_select_def expect_keyword_Parsed parse_identifier_Parsed)
  have "no_comma (t2 # t3 # ts3)" using k(4) by (simp add: no_comma_def keyword_lexeme_def tok_type_lexeme)
  with k(3) obtain pl where pl: "ts1 = pl @ t2 # t3 # ts3"
    "projection (map lexeme pl) (select_all st) (sel_columns st)"
    by (auto simp: parse_projection_lexemes)
  from k(6) obtain wl where wl: "ts3 = wl @ t # rest"
    "where_part (map lexeme wl) (has_where st, where_column st, where_value st)"
    by (auto simp: parse_where_Parsed)
  from sql_select [OF k(2) pl(2) k(4) wl(2), of "sel_table st"]
  have "sql (map lexeme ([t1] @ pl @ [t2, t3] @ wl)) (SELECT st)" by (cases st) (simp add: k)
  with k(1) pl(1) wl(1) show ?thesis by (intro exI [of _ "[t1] @ pl @ [t2, t3] @ wl"]) simp
qed

lemma parse_select_complete:
  assumes "tok_type t = TOKEN_SEMICOLON" and "sql (map lexeme pre) (SELECT st)"
  shows "parse_select (pre @ t # rest) = Parsed st (t # rest)"
  using assms(2)
proof cases
  case (sql_select k1 pl star cols k2 wl wh c v table)
  obtain a r1 where 1: "pre = a @ r1" "map lexeme a = [k1]"
    "map lexeme r1 = pl @ [k2, (TOKEN_IDENTIFIER, table)] @ wl"
    by (rule map_appendE [OF sql_select(1)])
  obtain b r2 where 2: "r1 = b @ r2" "map lexeme b = pl"
    "map lexeme r2 = [k2, (TOKEN_IDENTIFIER, table)] @ wl" by (rule map_appendE [OF 1(3)])
  obtain d e where 3: "r2 = d @ e" "map lexeme d = [k2, (TOKEN_IDENTIFIER, table)]"
    "map lexeme e = wl" by (rule map_appendE [OF 2(3)])
  from 1(2) obtain t1 where a: "a = [t1]" "lexeme t1 = k1" by (auto simp: map_eq_Cons_conv)
  from 3(2) obtain t2 t3 where d: "d = [t2, t3]" "lexeme t2 = k2"
    "lexeme t3 = (TOKEN_IDENTIFIER, table)" by (auto simp: map_eq_Cons_conv)
  have "no_comma (t2 # t3 # e @ t # rest)"
    using sql_select(5) d by (simp add: no_comma_def keyword_lexeme_def tok_type_lexeme)
  then have proj: "parse_projection (b @ t2 # t3 # e @ t # rest)
      = Parsed (star, cols) (t2 # t3 # e @ t # rest)"
    using sql_select(4) 2(2) by (auto simp: parse_projection_lexemes)
  have wh: "parse_where (e @ t # rest) = Parsed (wh, c, v) (t # rest)"
    using sql_select(6) 3(3) assms(1)
    by (auto simp: parse_where_Parsed keyword_lexeme_def tok_type_lexeme)
  show ?thesis
    using sql_select(2,3,5) proj wh 1(1) 2(1) 3(1) a d
    by (simp add: parse_select_def accepts del: andThen_Parsed)
qed

lemma parse_select_Parsed:
  assumes "tok_type t = TOKEN_SEMICOLON"
  shows "parse_select ts = Parsed st (t # rest) \<longleftrightarrow>
     (\<exists>pre. ts = pre @ t # rest \<and> sql (map lexeme pre) (SELECT st))"
  using parse_select_sound parse_select_complete [OF assms] by auto

lemma sql_first:
  "sql ls st \<Longrightarrow> ls \<noteq> [] \<and> (case st of
      INSERT i \<Rightarrow> keyword_lexeme ''INSERT'' (hd ls)
    | SELECT i \<Rightarrow> keyword_lexeme ''SELECT'' (hd ls))"
  by (cases rule: sql.cases) auto

lemma not_both_keywords: "\<not> (keyword_lexeme ''INSERT'' l \<and> keyword_lexeme ''SELECT'' l)"
proof -
  have "tolower CHR ''I'' \<noteq> tolower CHR ''S''" by (simp add: char_eval)
  then show ?thesis by (auto simp: keyword_lexeme_def strings_equal_ignore_case_iff)
qed

lemma parse_body_cases:
  "parse_body (u # us) = Parsed st rest \<longleftrightarrow>
     (if keyword_lexeme ''INSERT'' (lexeme u)
      then \<exists>i. parse_insert (u # us) = Parsed i rest \<and> st = INSERT i
      else keyword_lexeme ''SELECT'' (lexeme u)
           \<and> (\<exists>i. parse_select (u # us) = Parsed i rest \<and> st = SELECT i))"
proof -
  have "is_keyword (u # us) k \<longleftrightarrow> keyword_lexeme k (lexeme u)" for k
    by (simp add: is_keyword_def keyword_lexeme_def lexeme_def)
  then show ?thesis by (auto simp: parse_body_def)
qed

lemma parse_body_Parsed:
  assumes "tok_type t = TOKEN_SEMICOLON"
  shows "parse_body ts = Parsed st (t # rest) \<longleftrightarrow>
     (\<exists>pre. ts = pre @ t # rest \<and> sql (map lexeme pre) st)"
proof (cases ts)
  case (Cons u us)
  have hd: "hd (map lexeme pre) = lexeme u" if "u # us = pre @ t # rest" "sql (map lexeme pre) st"
    for pre
    using that sql_first [of "map lexeme pre" st] by (cases pre) auto
  show ?thesis
  proof (cases st)
    case (INSERT i)
    have "keyword_lexeme ''INSERT'' (lexeme u)"
      if "u # us = pre @ t # rest" "sql (map lexeme pre) (INSERT i)" for pre
      using sql_first [OF that(2)] hd that INSERT by simp
    then show ?thesis
      unfolding Cons parse_body_cases INSERT parse_insert_Parsed by auto
  next
    case (SELECT i)
    have "keyword_lexeme ''SELECT'' (lexeme u) \<and> \<not> keyword_lexeme ''INSERT'' (lexeme u)"
      if "u # us = pre @ t # rest" "sql (map lexeme pre) (SELECT i)" for pre
      using sql_first [OF that(2)] hd that SELECT not_both_keywords [of "lexeme u"] by simp
    then show ?thesis
      unfolding Cons parse_body_cases SELECT parse_select_Parsed [OF assms] by auto
  qed
qed (auto simp: parse_body_def)

lemma parse_result_iff:
  "(case r of Stuck \<Rightarrow> None | Failed m \<Rightarrow> Some (Inl m) | Parsed st ts \<Rightarrow> Some (Inr st)) = Some (Inr v)
     \<longleftrightarrow> (\<exists>ts. r = Parsed v ts)"
  by (cases r) auto

lemma parse_statement_grammar_tokens:
  "parse_statement ts = Some (Inr st) \<longleftrightarrow>
     (\<exists>pre s e rest. ts = pre @ s # e # rest \<and> sql (map lexeme pre) st
        \<and> tok_type s = TOKEN_SEMICOLON \<and> tok_type e = TOKEN_END)"
proof -
  have "parse_statement ts = Some (Inr st) \<longleftrightarrow>
     (\<exists>s e rest. parse_body ts = Parsed st (s # e # rest)
        \<and> tok_type s = TOKEN_SEMICOLON \<and> tok_type e = TOKEN_END)"
    by (auto simp: parse_statement_def parse_result_iff expect_type_Parsed)
  also have "\<dots> \<longleftrightarrow> (\<exists>s e rest. (\<exists>pre. ts = pre @ s # e # rest \<and> sql (map lexeme pre) st)
        \<and> tok_type s = TOKEN_SEMICOLON \<and> tok_type e = TOKEN_END)"
    using parse_body_Parsed by blast
  finally show ?thesis by blast
qed

section \<open>No read past the token array\<close>

definition terminated :: "token list \<Rightarrow> bool" where
  "terminated ts = (ts \<noteq> [] \<and> tok_type (last ts) = TOKEN_END)"

text \<open>An outcome that is not stuck and leaves a terminated array.\<close>

definition safe :: "'a parsed \<Rightarrow> bool" where
  "safe r = (case r of Stuck \<Rightarrow> False | Failed m \<Rightarrow> True | Parsed v rest \<Rightarrow> terminated rest)"

lemma safe_andThen [intro]:
  assumes "safe r" and "\<And>v rest. r = Parsed v rest \<Longrightarrow> terminated rest \<Longrightarrow> safe (f v rest)"
  shows "safe (andThen r f)"
  using assms by (cases r) (auto simp: safe_def)

lemma terminated_tl: "terminated (t # ts) \<Longrightarrow> tok_type t \<noteq> TOKEN_END \<Longrightarrow> terminated ts"
  by (auto simp: terminated_def split: if_splits)

lemma safe_Parsed [simp]: "safe (Parsed v ts) \<longleftrightarrow> terminated ts"
  by (simp add: safe_def)

lemma safe_Failed [simp]: "safe (Failed m)"
  by (simp add: safe_def)

lemma safe_Stuck [simp]: "\<not> safe Stuck"
  by (simp add: safe_def)

lemma terminated_nonempty: "terminated ts \<Longrightarrow> \<exists>t rest. ts = t # rest"
  by (cases ts) (auto simp: terminated_def)

lemma not_terminated_Nil [simp]: "\<not> terminated []"
  by (simp add: terminated_def)

lemma safe_error [simp]: "terminated ts \<Longrightarrow> safe (set_expected_token_error ts m)"
  by (cases ts) (auto simp: set_expected_token_error_def)

lemma safe_match_type: "terminated ts \<Longrightarrow> ty \<noteq> TOKEN_END \<Longrightarrow> safe (match_type ts ty)"
  by (cases ts) (auto simp: match_type_def dest: terminated_tl)

lemma safe_expect_type: "terminated ts \<Longrightarrow> ty \<noteq> TOKEN_END \<Longrightarrow> safe (expect_type ts ty m)"
  by (auto simp: expect_type_def intro!: safe_match_type)

lemma safe_expect_keyword: "terminated ts \<Longrightarrow> safe (expect_keyword ts k)"
  by (cases ts) (auto simp: expect_keyword_def dest: terminated_tl)

lemma safe_parse_identifier: "terminated ts \<Longrightarrow> safe (parse_identifier ts)"
  by (cases ts) (auto simp: parse_identifier_def dest: terminated_tl)

lemma safe_parse_value: "terminated ts \<Longrightarrow> safe (parse_value w ts)"
  by (cases ts) (auto simp: parse_value_def is_value_type_def dest: terminated_tl)

lemma safe_reject: "terminated ts \<Longrightarrow> safe (reject_unsupported_where_connector ts)"
  by (cases ts) (auto simp: reject_unsupported_where_connector_def)

lemma safe_identifier_list_loop: "terminated ts \<Longrightarrow> safe (identifier_list_loop ts xs)"
proof (induction ts xs rule: identifier_list_loop.induct)
  case (1 ts xs)
  from 1(2) have m: "safe (match_type ts TOKEN_COMMA)" by (simp add: safe_match_type)
  have p: "safe (parse_identifier rest)" if "match_type ts TOKEN_COMMA = Parsed True rest" for rest
    using m that by (simp add: safe_parse_identifier)
  have "safe (identifier_list_loop rest' (string_list_push xs v))"
    if c: "match_type ts TOKEN_COMMA = Parsed True rest" "parse_identifier rest = Parsed v rest'"
    for rest v rest'
    using "1.IH" [OF c(1) refl c(2)] p [OF c(1)] c(2) by simp
  with m p show ?case
    by (subst identifier_list_loop.simps) (auto split: parsed.splits bool.splits)
qed

lemma safe_value_list_loop: "terminated ts \<Longrightarrow> safe (value_list_loop ts xs)"
proof (induction ts xs rule: value_list_loop.induct)
  case (1 ts xs)
  from 1(2) have m: "safe (match_type ts TOKEN_COMMA)" by (simp add: safe_match_type)
  have p: "safe (parse_value ''SQL value'' rest)" if "match_type ts TOKEN_COMMA = Parsed True rest" for rest
    using m that by (simp add: safe_parse_value)
  have "safe (value_list_loop rest' (string_list_push xs v))"
    if c: "match_type ts TOKEN_COMMA = Parsed True rest" "parse_value ''SQL value'' rest = Parsed v rest'"
    for rest v rest'
    using "1.IH" [OF c(1) refl c(2)] p [OF c(1)] c(2) by simp
  with m p show ?case
    by (subst value_list_loop.simps) (auto split: parsed.splits bool.splits)
qed

lemmas safe_intros = safe_andThen safe_match_type safe_expect_type safe_expect_keyword
  safe_parse_identifier safe_parse_value safe_reject safe_identifier_list_loop safe_value_list_loop

lemma safe_parse_insert: "terminated ts \<Longrightarrow> safe (parse_insert ts)"
  unfolding parse_insert_def parse_identifier_list_def parse_value_list_def
  by (intro safe_intros) (simp_all del: safe_andThen)

lemma safe_parse_where: "terminated ts \<Longrightarrow> safe (parse_where ts)"
proof -
  assume ts: "terminated ts"
  then obtain t rest where c: "ts = t # rest" by (auto dest: terminated_nonempty)
  show ?thesis
  proof (cases "tok_type t = TOKEN_IDENTIFIER \<and> strings_equal_ignore_case (tok_text t) ''WHERE''")
    case True
    with ts c have "terminated rest" by (auto dest: terminated_tl)
    then have "safe (parse_where (t # rest))"
      unfolding parse_where_def parse_condition_value_def using True
      by (simp, intro safe_intros) simp_all
    with c show ?thesis by simp
  next
    case False
    with ts c show ?thesis by (auto simp: parse_where_def)
  qed
qed

lemma safe_parse_projection: "terminated ts \<Longrightarrow> safe (parse_projection ts)"
  unfolding parse_projection_def parse_identifier_list_def
  by (intro safe_andThen safe_match_type) (auto split: if_splits intro!: safe_intros)

lemma safe_parse_select: "terminated ts \<Longrightarrow> safe (parse_select ts)"
  unfolding parse_select_def
  by (auto intro!: safe_andThen safe_expect_keyword safe_parse_identifier safe_parse_projection
      safe_parse_where split: prod.splits)

lemma safe_parse_body: "terminated ts \<Longrightarrow> safe (parse_body ts)"
  by (cases ts) (auto simp: parse_body_def intro!: safe_andThen safe_parse_insert safe_parse_select)

lemma safe_not_Stuck: "safe r \<Longrightarrow> r \<noteq> Stuck"
  by (auto simp: safe_def)

lemma parse_statement_defined:
  assumes ts: "terminated ts"
  shows "parse_statement ts \<noteq> None"
proof (cases "parse_body ts")
  case (Parsed st ts1)
  with safe_parse_body [OF ts] have 1: "terminated ts1" by simp
  define m where "m = ''expected '' @ [SQ] @ '';'' @ [SQ] @ '' at end of SQL statement''"
  define w where "w = ''unexpected tokens after SQL statement''"
  have unf: "parse_statement ts =
      (case andThen (parse_body ts) (\<lambda>st ts. andThen (expect_type ts TOKEN_SEMICOLON m) (\<lambda>_ ts.
              andThen (expect_type ts TOKEN_END w) (\<lambda>_ ts. Parsed st ts))) of
        Stuck \<Rightarrow> None | Failed m \<Rightarrow> Some (Inl m) | Parsed st ts \<Rightarrow> Some (Inr st))"
    unfolding parse_statement_def m_def w_def by (rule refl)
  from safe_expect_type [OF 1, of TOKEN_SEMICOLON m]
  have 2: "safe (expect_type ts1 TOKEN_SEMICOLON m)" by simp
  show ?thesis
  proof (cases "expect_type ts1 TOKEN_SEMICOLON m")
    case *: (Parsed u ts2)
    with 2 obtain t rest where "ts2 = t # rest" by (auto dest: terminated_nonempty)
    then have "expect_type ts2 TOKEN_END w \<noteq> Stuck"
      by (simp add: expect_type_def match_type_def set_expected_token_error_def)
    then show ?thesis
      by (cases "expect_type ts2 TOKEN_END w") (simp_all add: unf Parsed *)
  qed (use 2 in \<open>simp_all add: unf Parsed\<close>)
qed (use safe_parse_body [OF ts] in \<open>simp_all add: parse_statement_def safe_def\<close>)

end
