(* ===== verification/Sql_Frontend.thy ===== *)
theory Sql_Frontend
  imports Parser
begin

text \<open>
  The lexer and the parser together: the statements the front end accepts are exactly those
  of the grammar, printing a statement and reading it back returns it, every array of the
  lexer is parsed without a read past its end, and the names in a parsed statement are
  plain identifiers.
\<close>

section \<open>Printing a statement\<close>

fun comma_lexemes :: "token_type \<Rightarrow> string list \<Rightarrow> lexeme list" where
  "comma_lexemes ty [] = []"
| "comma_lexemes ty [x] = [(ty, x)]"
| "comma_lexemes ty (x # y # xs) = (ty, x) # (TOKEN_COMMA, '','') # comma_lexemes ty (y # xs)"

definition name_lexeme :: "string \<Rightarrow> lexeme" where
  "name_lexeme x = (TOKEN_IDENTIFIER, x)"

fun body_lexemes :: "statement \<Rightarrow> lexeme list" where
  "body_lexemes (INSERT i) =
     [name_lexeme ''INSERT'', name_lexeme ''INTO'', name_lexeme (ins_table i), (TOKEN_LPAREN, ''('')]
     @ comma_lexemes TOKEN_IDENTIFIER (ins_columns i)
     @ [(TOKEN_RPAREN, '')''), name_lexeme ''VALUES'', (TOKEN_LPAREN, ''('')]
     @ comma_lexemes TOKEN_STRING (ins_values i) @ [(TOKEN_RPAREN, '')'')]"
| "body_lexemes (SELECT i) =
     [name_lexeme ''SELECT'']
     @ (if select_all i then [(TOKEN_STAR, ''*'')]
        else comma_lexemes TOKEN_IDENTIFIER (sel_columns i))
     @ [name_lexeme ''FROM'', name_lexeme (sel_table i)]
     @ (if has_where i
        then [name_lexeme ''WHERE'', name_lexeme (where_column i), (TOKEN_EQUALS, ''=''),
              (TOKEN_STRING, where_value i)]
        else [])"

definition print_sql :: "statement \<Rightarrow> string" where
  "print_sql st = render (body_lexemes st @ [(TOKEN_SEMICOLON, '';'')])"

text \<open>The statements the parser can build.\<close>

fun statement_ok :: "statement \<Rightarrow> bool" where
  "statement_ok (INSERT i) =
     (is_identifier (ins_table i) \<and> ins_columns i \<noteq> [] \<and> list_all is_identifier (ins_columns i)
      \<and> ins_values i \<noteq> [])"
| "statement_ok (SELECT i) =
     (is_identifier (sel_table i)
      \<and> (if select_all i then sel_columns i = []
         else sel_columns i \<noteq> [] \<and> list_all is_identifier (sel_columns i))
      \<and> (if has_where i then is_identifier (where_column i)
         else where_column i = [] \<and> where_value i = []))"

lemma comma_tail_lexemes:
  "P ty \<Longrightarrow> comma_list P (comma_lexemes ty (x # xs)) (x # xs)"
proof (induction xs arbitrary: x)
  case (Cons y xs)
  from Cons.IH [OF Cons.prems, of y] Cons.prems show ?case
    by (cases xs) auto
qed simp

lemma comma_lexemes_ok:
  assumes "\<forall>x\<in>set xs. lexeme_ok (ty, x)"
  shows "list_all lexeme_ok (comma_lexemes ty xs)"
  using assms
  by (induction ty xs rule: comma_lexemes.induct) (auto simp: simple_token_def)

lemma keyword_refl: "keyword_lexeme k (name_lexeme k)"
  by (simp add: keyword_lexeme_def name_lexeme_def)

definition projection_lexemes :: "select_statement \<Rightarrow> lexeme list" where
  "projection_lexemes i = (if select_all i then [(TOKEN_STAR, ''*'')]
     else comma_lexemes TOKEN_IDENTIFIER (sel_columns i))"

definition where_lexemes :: "select_statement \<Rightarrow> lexeme list" where
  "where_lexemes i = (if has_where i
     then [name_lexeme ''WHERE'', name_lexeme (where_column i), (TOKEN_EQUALS, ''=''),
           (TOKEN_STRING, where_value i)] else [])"

lemma projection_lexemes_sql:
  assumes "statement_ok (SELECT i)"
  shows "projection (projection_lexemes i) (select_all i) (sel_columns i)"
proof (cases "select_all i")
  case True
  with assms show ?thesis by (auto simp: projection_lexemes_def symbol_def intro: star)
next
  case False
  with assms obtain c cs where "sel_columns i = c # cs" by (cases "sel_columns i") auto
  with False show ?thesis by (auto simp: projection_lexemes_def intro: columns comma_tail_lexemes)
qed

lemma where_lexemes_sql:
  assumes "statement_ok (SELECT i)"
  shows "where_part (where_lexemes i) (has_where i, where_column i, where_value i)"
proof (cases "has_where i")
  case True
  have "where_part [name_lexeme ''WHERE'', (TOKEN_IDENTIFIER, where_column i), (TOKEN_EQUALS, ''=''),
          (TOKEN_STRING, where_value i)] (True, where_column i, where_value i)"
    by (rule one_where) (simp_all only: keyword_refl, simp_all add: symbol_def is_value_type_def)
  with True show ?thesis by (simp add: where_lexemes_def name_lexeme_def)
next
  case False
  with assms show ?thesis by (auto simp: where_lexemes_def intro: no_where)
qed

lemma body_lexemes_sql:
  assumes "statement_ok st"
  shows "sql (body_lexemes st) st"
proof (cases st)
  case (INSERT i)
  with assms obtain c cs v vs where c: "ins_columns i = c # cs" "ins_values i = v # vs"
    by (cases "ins_columns i"; cases "ins_values i") auto
  have "sql (body_lexemes (INSERT i)) (INSERT \<lparr>ins_table = ins_table i,
      ins_columns = ins_columns i, ins_values = ins_values i\<rparr>)"
    unfolding body_lexemes.simps c name_lexeme_def [of "ins_table i"]
    by (rule sql_insert)
      (simp_all only: keyword_refl, auto simp: symbol_def is_value_type_def intro: comma_tail_lexemes)
  with INSERT show ?thesis by (cases i) simp
next
  case (SELECT i)
  with assms have "sql ([name_lexeme ''SELECT''] @ projection_lexemes i
      @ [name_lexeme ''FROM'', (TOKEN_IDENTIFIER, sel_table i)] @ where_lexemes i)
    (SELECT \<lparr>sel_table = sel_table i, sel_columns = sel_columns i, select_all = select_all i,
       has_where = has_where i, where_column = where_column i, where_value = where_value i\<rparr>)"
    by (intro sql_select projection_lexemes_sql where_lexemes_sql) (simp_all only: keyword_refl)
  moreover have "body_lexemes st = [name_lexeme ''SELECT''] @ projection_lexemes i
      @ [name_lexeme ''FROM'', (TOKEN_IDENTIFIER, sel_table i)] @ where_lexemes i"
    by (simp add: SELECT projection_lexemes_def where_lexemes_def name_lexeme_def)
  moreover have "SELECT \<lparr>sel_table = sel_table i, sel_columns = sel_columns i,
      select_all = select_all i, has_where = has_where i, where_column = where_column i,
      where_value = where_value i\<rparr> = st" by (simp add: SELECT)
  ultimately show ?thesis by (simp only:)
qed

lemma keyword_names_ok:
  "is_identifier ''INSERT''" "is_identifier ''INTO''" "is_identifier ''VALUES''"
  "is_identifier ''SELECT''" "is_identifier ''FROM''" "is_identifier ''WHERE''"
  by (simp_all add: is_identifier_def is_word_def is_identifier_continue_def char_eval)

lemma body_lexemes_ok:
  assumes "statement_ok st"
  shows "list_all lexeme_ok (body_lexemes st)"
proof (cases st)
  case (INSERT i)
  with assms have "\<forall>x\<in>set (ins_columns i). lexeme_ok (TOKEN_IDENTIFIER, x)"
    by (auto simp: list_all_iff)
  with assms INSERT show ?thesis
    using comma_lexemes_ok [of "ins_columns i" TOKEN_IDENTIFIER]
      comma_lexemes_ok [of "ins_values i" TOKEN_STRING]
    by (simp add: name_lexeme_def keyword_names_ok simple_token_def)
next
  case (SELECT i)
  with assms have "\<forall>x\<in>set (sel_columns i). lexeme_ok (TOKEN_IDENTIFIER, x)"
    by (auto simp: list_all_iff split: if_splits)
  with assms SELECT show ?thesis
    using comma_lexemes_ok [of "sel_columns i" TOKEN_IDENTIFIER]
    by (auto simp add: name_lexeme_def keyword_names_ok simple_token_def)
qed

lemma lex_sql_terminated: "lex_sql s = Inr ts \<Longrightarrow> terminated ts"
  using lex_sql_run [of s ts] by (auto simp: terminated_def run_of_def mk_token_def)

section \<open>Names in statements\<close>

fun statement_names :: "statement \<Rightarrow> string list" where
  "statement_names (INSERT i) = ins_table i # ins_columns i"
| "statement_names (SELECT i) =
     sel_table i # sel_columns i @ (if has_where i then [where_column i] else [])"

lemma comma_tail_texts:
  "comma_tail P ls xs \<Longrightarrow> x \<in> set xs \<Longrightarrow> \<exists>ty. P ty \<and> (ty, x) \<in> set ls"
  by (induction P ls xs rule: comma_tail.induct) auto

lemma comma_list_texts:
  "comma_list P ls xs \<Longrightarrow> x \<in> set xs \<Longrightarrow> \<exists>ty. P ty \<and> (ty, x) \<in> set ls"
  by (cases "(P, ls, xs)" rule: comma_list.cases) (auto dest: comma_tail_texts)

lemma sql_names:
  assumes "sql ls st" and "x \<in> set (statement_names st)"
  shows "(TOKEN_IDENTIFIER, x) \<in> set ls"
  using assms
proof cases
  case sql_insert
  with assms(2) show ?thesis by (auto dest: comma_list_texts)
next
  case (sql_select k1 pl star cols k2 wl wh c v table)
  have "(TOKEN_IDENTIFIER, y) \<in> set pl" if "y \<in> set cols" for y
    using sql_select(4) that by cases (auto dest: comma_list_texts)
  moreover have "wh \<Longrightarrow> (TOKEN_IDENTIFIER, c) \<in> set wl"
    using sql_select(6) by cases auto
  ultimately show ?thesis using assms(2) sql_select(1,2) by (auto split: if_splits)
qed

lemma parsed_names:
  assumes "lex_sql s = Inr ts" and "parse_statement ts = Some (Inr st)"
    and "x \<in> set (statement_names st)"
  shows "is_identifier x"
proof -
  from assms(2) obtain pre e1 e2 rest where ts: "ts = pre @ e1 # e2 # rest"
    and st: "sql (map lexeme pre) st" by (auto simp: parse_statement_grammar_tokens)
  from sql_names [OF st assms(3)] obtain t where t: "t \<in> set pre" "lexeme t = (TOKEN_IDENTIFIER, x)"
    by auto
  from lex_sql_run [OF assms(1)] obtain body e where body: "ts = body @ [e]"
    "list_all (token_at s) body" by (auto simp: run_of_def)
  have "butlast ts = pre @ butlast (e1 # e2 # rest)" by (simp add: ts butlast_append)
  with body(1) t(1) have "t \<in> set body" by auto
  with body(2) t(2) show ?thesis by (auto simp: list_all_iff token_at_def)
qed

lemma print_sql_parses:
  assumes "statement_ok st"
  shows "\<exists>ts. lex_sql (print_sql st) = Inr ts \<and> parse_statement ts = Some (Inr st)"
proof -
  have "list_all lexeme_ok (body_lexemes st @ [(TOKEN_SEMICOLON, '';'')])"
    using body_lexemes_ok [OF assms] by (simp add: simple_token_def)
  from lex_sql_render [OF this] obtain ts where
    lx: "lex_sql (print_sql st) = Inr ts"
    and "map lexeme ts = body_lexemes st @ [(TOKEN_SEMICOLON, '';'')] @ [(TOKEN_END, [])]"
    by (auto simp: print_sql_def)
  then obtain pre s e where "ts = pre @ [s, e]" "map lexeme pre = body_lexemes st"
    "lexeme s = (TOKEN_SEMICOLON, '';'')" "lexeme e = (TOKEN_END, [])"
    by (auto elim!: map_appendE simp: map_eq_Cons_conv)
  then have "parse_statement ts = Some (Inr st)"
    unfolding parse_statement_grammar_tokens tok_type_lexeme
    using body_lexemes_sql [OF assms]
    by (rule_tac x = pre in exI, rule_tac x = s in exI, rule_tac x = e in exI, simp)
  with lx show ?thesis by blast
qed

section \<open>Properties\<close>

text \<open>
  C7: the parser accepts exactly the grammar. On any token array, \<open>parse_statement\<close> returns
  the statement \<open>st\<close> if and only if the array begins with lexemes that the grammar of the
  two statements derives \<open>st\<close> from, followed by a semicolon and the end token.
\<close>

theorem parse_statement_grammar:
  "parse_statement ts = Some (Inr st) \<longleftrightarrow>
     (\<exists>pre s e rest. ts = pre @ s # e # rest \<and> sql (map lexeme pre) st
        \<and> tok_type s = TOKEN_SEMICOLON \<and> tok_type e = TOKEN_END)"
  by (rule parse_statement_grammar_tokens)

text \<open>
  C8: printing a statement as SQL text, lexing it and parsing the tokens gives the statement
  back, whatever the bytes of its values (quotes and non-ASCII text included).
\<close>

theorem print_parse_roundtrip:
  assumes "statement_ok st"
  shows "\<exists>ts. lex_sql (print_sql st) = Inr ts \<and> parse_statement ts = Some (Inr st)"
  using assms by (rule print_sql_parses)

definition sample_insert :: statement where
  "sample_insert = INSERT \<lparr>ins_table = ''users'', ins_columns = [''name'', ''age''],
     ins_values = [''O'' @ [SQ] @ ''Hara'', ''7'']\<rparr>"

lemma sample_names:
  "is_identifier ''users''" "is_identifier ''name''" "is_identifier ''age''"
  by (simp_all add: is_identifier_def is_word_def is_identifier_continue_def char_eval)

theorem print_parse_roundtrip_witness:
  "\<exists>ts. lex_sql (print_sql sample_insert) = Inr ts
     \<and> parse_statement ts = Some (Inr sample_insert)"
  by (rule print_parse_roundtrip) (simp add: sample_insert_def sample_names)

text \<open>
  C9: the parser never reads past the token array the lexer built, and every table or column
  name of the statement it returns is an identifier: non-empty, made of ASCII letters,
  digits, underscores and non-ASCII bytes only. A table name can therefore not leave the
  schema and data directories (it contains no slash, dot or NUL).
\<close>

theorem parsed_statement_safe:
  assumes "lex_sql s = Inr ts"
  shows "case parse_statement ts of
      None \<Rightarrow> False
    | Some (Inl m) \<Rightarrow> True
    | Some (Inr st) \<Rightarrow> list_all is_identifier (statement_names st)"
  using parse_statement_defined [OF lex_sql_terminated [OF assms]] parsed_names [OF assms]
  by (auto simp: list_all_iff split: sum.splits)

lemma sample_insert_tokens:
  "\<exists>ts. lex_sql (print_sql sample_insert) = Inr ts \<and> parse_statement ts = Some (Inr sample_insert)"
  by (rule print_sql_parses) (simp add: sample_insert_def sample_names)

theorem parsed_statement_safe_witness:
  "\<exists>ts. lex_sql (print_sql sample_insert) = Inr ts \<and>
     (case parse_statement ts of
        None \<Rightarrow> False
      | Some (Inl m) \<Rightarrow> True
      | Some (Inr st) \<Rightarrow> list_all is_identifier (statement_names st))"
  using sample_insert_tokens parsed_statement_safe by blast

end
