(* ===== verification/Files.thy ===== *)
theory Files
  imports Util
begin

text \<open>
  The file operations of the C library the storage layer uses. A file system maps a path to
  what is there; reads and writes of an open file succeed. \<open>Absent\<close> stands for an
  \<open>errno\<close> of \<open>ENOENT\<close>, \<open>ENOTDIR\<close> or \<open>EILSEQ\<close>, \<open>Refused\<close> for any other, both with
  the text of \<open>strerror\<close>. Opening a directory for reading succeeds and reads nothing (as
  on Linux); its names are what \<open>readdir\<close> returns, in its order.
\<close>

datatype fnode =
    Absent string
  | Refused string
  | Regular string
  | Directory "string list"

type_synonym fs = "string \<Rightarrow> fnode"

definition format_system_error :: "nat \<Rightarrow> string \<Rightarrow> string \<Rightarrow> string \<Rightarrow> string" where
  "format_system_error n action path reason =
     (if path = [] then snprintf n (action @ '': '' @ reason)
      else snprintf n (action @ '' '' @ [SQ] @ path @ [SQ] @ '': '' @ reason))"

text \<open>\<open>fopen(path, "rb")\<close>: the bytes to read, or the text of the error.\<close>

definition open_read :: "fs \<Rightarrow> string \<Rightarrow> string + string" where
  "open_read f path =
     (case f path of
        Absent r \<Rightarrow> Inl r | Refused r \<Rightarrow> Inl r | Regular s \<Rightarrow> Inr s | Directory es \<Rightarrow> Inr [])"

text \<open>\<open>fopen(path, "r+b")\<close>: a directory cannot be opened for writing.\<close>

definition open_update :: "fs \<Rightarrow> string \<Rightarrow> string + string" where
  "open_update f path =
     (case f path of
        Absent r \<Rightarrow> Inl r | Refused r \<Rightarrow> Inl r | Regular s \<Rightarrow> Inr s
      | Directory es \<Rightarrow> Inl ''Is a directory'')"

definition LINE_SIZE :: nat where
  "LINE_SIZE = 4096"

text \<open>
  \<open>fgets(line, 4096, file)\<close> at the text \<open>s\<close>: the bytes it takes from the file, at most
  4095 and none after the first newline. It returns NULL exactly when there are none.
\<close>

definition fgets_chunk :: "string \<Rightarrow> string" where
  "fgets_chunk s =
     take (LINE_SIZE - 1)
       (takeWhile (\<lambda>c. c \<noteq> LF) s @ (if LF \<in> set s then [LF] else []))"

text \<open>The line as the C string functions see it after \<open>strip_line_endings\<close>.\<close>

definition line_text :: "string \<Rightarrow> string" where
  "line_text chunk = strip_line_endings (c_str chunk)"

lemma take_own_length: "xs = take k s \<Longrightarrow> xs = take (length xs) s"
  by (simp add: min_def)

lemma fgets_chunk_prefix: "fgets_chunk s = take (length (fgets_chunk s)) s"
proof -
  define x where "x = takeWhile (\<lambda>c. c \<noteq> LF) s @ (if LF \<in> set s then [LF] else [])"
  have "x = take (length x) s" unfolding x_def by (induction s) auto
  then have "fgets_chunk s = take (LINE_SIZE - 1) (take (length x) s)"
    unfolding fgets_chunk_def x_def by (rule arg_cong)
  then have "fgets_chunk s = take (min (LINE_SIZE - 1) (length x)) s" by (simp only: take_take)
  then show ?thesis by (rule take_own_length)
qed

lemma fgets_chunk_append: "fgets_chunk s @ drop (length (fgets_chunk s)) s = s"
  by (metis fgets_chunk_prefix append_take_drop_id)

lemma fgets_chunk_Nil [simp]: "fgets_chunk [] = []"
  by (simp add: fgets_chunk_def)

lemma fgets_chunk_pos: "s \<noteq> [] \<Longrightarrow> 0 < length (fgets_chunk s)"
  by (cases s) (auto simp: fgets_chunk_def LINE_SIZE_def)

lemma fgets_chunk_le: "length (fgets_chunk s) \<le> LINE_SIZE - 1"
  by (simp add: fgets_chunk_def)

lemma fgets_chunk_whole:
  assumes "LF \<notin> set s" and "length s \<le> LINE_SIZE - 1"
  shows "fgets_chunk s = s"
proof -
  from assms(1) have tw: "takeWhile (\<lambda>c. c \<noteq> LF) s = s" by (auto simp: takeWhile_eq_all_conv)
  show ?thesis unfolding fgets_chunk_def tw using assms by simp
qed

lemma line_text_LF: "line_text (s @ [LF]) = line_text s"
proof (cases "NUL \<in> set s")
  case False
  then show ?thesis by (simp add: line_text_def c_str_append strip_line_endings_append_LF)
qed (simp add: line_text_def c_str_append)

text \<open>The bytes a chunk takes do not depend on what follows it, unless it is the last one.\<close>

lemma fgets_chunk_extend:
  assumes "length (fgets_chunk s) < length s"
  shows "fgets_chunk (s @ t) = fgets_chunk s"
proof (cases "LF \<in> set s")
  case True
  then have "takeWhile (\<lambda>c. c \<noteq> LF) (s @ t) = takeWhile (\<lambda>c. c \<noteq> LF) s"
    by (auto simp: takeWhile_append)
  with True show ?thesis by (simp add: fgets_chunk_def)
next
  case False
  then have tw: "takeWhile (\<lambda>c. c \<noteq> LF) s = s" by (auto simp: takeWhile_eq_all_conv)
  with assms False have "LINE_SIZE - 1 < length s" by (simp add: fgets_chunk_def)
  moreover from False have "takeWhile (\<lambda>c. c \<noteq> LF) (s @ t) = s @ takeWhile (\<lambda>c. c \<noteq> LF) t"
    by (subst takeWhile_append2) auto
  ultimately have "fgets_chunk (s @ t) = take (LINE_SIZE - 1) s" by (simp add: fgets_chunk_def)
  also have "\<dots> = fgets_chunk s" using False by (simp add: fgets_chunk_def tw)
  finally show ?thesis .
qed

lemma fgets_chunk_complete:
  assumes "fgets_chunk s = s" and "s \<noteq> []" and "last s = LF"
  shows "fgets_chunk (s @ t) = s"
proof -
  from assms(2,3) have LF: "LF \<in> set s" using last_in_set by fastforce
  have "takeWhile (\<lambda>c. c \<noteq> LF) (s @ t) = takeWhile (\<lambda>c. c \<noteq> LF) s"
    using LF by (auto simp: takeWhile_append)
  with LF assms(1) show ?thesis by (simp add: fgets_chunk_def)
qed

end
