(* ===== verification/Csv.thy ===== *)
theory Csv
  imports Util
begin

text \<open>
  The CSV format of \<open>src/storage/storage.c\<close>: the field parser \<open>csv_parse_line\<close> and the
  writer \<open>csv_escape_field\<close>. The buffer of the parser is NULL (\<^term>\<open>None\<close>) until the first
  byte of a field is stored.
\<close>

section \<open>The parser and the writer\<close>

definition append_character :: "string option \<Rightarrow> char \<Rightarrow> string option" where
  "append_character buffer c = Some ((case buffer of None \<Rightarrow> [] | Some s \<Rightarrow> s) @ [c])"

text \<open>The field that ends at a comma or at the end of the line.\<close>

definition field_text :: "bool \<Rightarrow> string option \<Rightarrow> string" where
  "field_text just_closed buffer =
     (let text = (case buffer of None \<Rightarrow> [] | Some s \<Rightarrow> s) in
      if just_closed then text else trim_whitespace text)"

text \<open>The loop: \<open>in_quotes\<close>, \<open>just_closed_quote\<close>, the buffer, the fields, the text at the cursor.\<close>

function csv_loop ::
  "bool \<Rightarrow> bool \<Rightarrow> string option \<Rightarrow> string list \<Rightarrow> string \<Rightarrow> string + string list" where
  "csv_loop True closed buffer fields [] = Inl ''unterminated quoted CSV field''"
| "csv_loop True closed buffer fields (c # cs) =
     (if c = DQ then
        (if cs \<noteq> [] \<and> hd cs = DQ
         then csv_loop True closed (append_character buffer DQ) fields (tl cs)
         else csv_loop False True buffer fields cs)
      else csv_loop True closed (append_character buffer c) fields cs)"
| "csv_loop False closed buffer fields [] =
     Inr (string_list_push fields (field_text closed buffer))"
| "csv_loop False closed buffer fields (c # cs) =
     (if c = COMMA
      then csv_loop False False None (string_list_push fields (field_text closed buffer)) cs
      else if c = DQ \<and> buffer = None then csv_loop True closed buffer fields cs
      else if closed \<and> c \<noteq> SP \<and> c \<noteq> TAB
      then Inl ''unexpected character after quoted CSV field''
      else if c \<noteq> CR \<and> c \<noteq> LF
      then csv_loop False closed (append_character buffer c) fields cs
      else csv_loop False closed buffer fields cs)"
  by pat_completeness auto
termination
  by (relation "measure (\<lambda>(q, k, b, f, s). length s)") auto

definition csv_parse_line :: "string \<Rightarrow> string + string list" where
  "csv_parse_line line = csv_loop False False None [] line"

definition needs_quotes :: "string \<Rightarrow> bool" where
  "needs_quotes v = list_ex (\<lambda>c. c = DQ \<or> c = COMMA \<or> c = LF \<or> c = CR) v"

fun double_quotes :: "string \<Rightarrow> string" where
  "double_quotes [] = []"
| "double_quotes (c # cs) = (if c = DQ then DQ # DQ # double_quotes cs else c # double_quotes cs)"

definition csv_escape_field :: "string \<Rightarrow> string" where
  "csv_escape_field v =
     (if v = [] then [DQ, DQ]
      else if \<not> needs_quotes v then v
      else DQ # double_quotes v @ [DQ])"

text \<open>The bytes \<open>append_row_csv\<close> writes for a row: the escaped fields with commas between them.\<close>

fun csv_row :: "string list \<Rightarrow> string" where
  "csv_row [] = []"
| "csv_row [v] = csv_escape_field v"
| "csv_row (v # w # vs) = csv_escape_field v @ COMMA # csv_row (w # vs)"

section \<open>Reading what was written\<close>

text \<open>What a value becomes when its escaped form is parsed.\<close>

definition stored :: "string \<Rightarrow> string" where
  "stored v = (if needs_quotes v then v else trim_whitespace v)"

lemma csv_loop_quoted:
  assumes "rest = [] \<or> hd rest \<noteq> DQ"
  shows "csv_loop True closed (Some b) fields (double_quotes v @ DQ # rest)
           = csv_loop False True (Some (b @ v)) fields rest"
  using assms
  by (induction v arbitrary: b) (auto simp: append_character_def)

lemma csv_loop_quoted_first:
  assumes "rest = [] \<or> hd rest \<noteq> DQ" and "v \<noteq> []"
  shows "csv_loop True closed None fields (double_quotes v @ DQ # rest)
           = csv_loop False True (Some v) fields rest"
  using assms csv_loop_quoted [OF assms(1)]
  by (cases v) (auto simp: append_character_def)

lemma needs_quotes_Cons [simp]:
  "needs_quotes (c # v) \<longleftrightarrow> c = DQ \<or> c = COMMA \<or> c = LF \<or> c = CR \<or> needs_quotes v"
  by (auto simp: needs_quotes_def)

lemma csv_loop_plain:
  assumes "\<not> needs_quotes v"
  shows "csv_loop False False (Some b) fields (v @ rest)
           = csv_loop False False (Some (b @ v)) fields rest"
  using assms by (induction v arbitrary: b) (auto simp: append_character_def)

lemma csv_loop_plain_first:
  assumes "\<not> needs_quotes v" and "v \<noteq> []"
  shows "csv_loop False False None fields (v @ rest) = csv_loop False False (Some v) fields rest"
  using assms csv_loop_plain by (cases v) (auto simp: append_character_def)

definition ends_field :: "string \<Rightarrow> bool" where
  "ends_field rest = (rest = [] \<or> hd rest = COMMA)"

lemma csv_loop_field:
  assumes "ends_field rest"
  shows "\<exists>closed buffer. csv_loop False False None fields (csv_escape_field v @ rest)
           = csv_loop False closed buffer fields rest \<and> field_text closed buffer = stored v"
proof -
  from assms have r: "rest = [] \<or> hd rest \<noteq> DQ" by (auto simp: ends_field_def)
  consider "v = []" | "v \<noteq> []" "\<not> needs_quotes v" | "v \<noteq> []" "needs_quotes v" by blast
  then show ?thesis
  proof cases
    case 1
    with r show ?thesis
      by (intro exI [of _ True] exI [of _ None])
        (auto simp: csv_escape_field_def field_text_def stored_def needs_quotes_def
          trim_whitespace_def)
  next
    case 2
    then show ?thesis
      by (intro exI [of _ False] exI [of _ "Some v"])
        (simp add: csv_escape_field_def field_text_def stored_def csv_loop_plain_first)
  next
    case 3
    with r show ?thesis
      by (intro exI [of _ True] exI [of _ "Some v"])
        (simp add: csv_escape_field_def field_text_def stored_def csv_loop_quoted_first)
  qed
qed

lemma csv_loop_row:
  "vs \<noteq> [] \<Longrightarrow> csv_loop False False None fields (csv_row vs) = Inr (fields @ map stored vs)"
proof (induction vs arbitrary: fields rule: csv_row.induct)
  case (2 v)
  from csv_loop_field [of "[]" fields v] show ?case
    by (auto simp: ends_field_def string_list_push_def)
next
  case (3 v w vs)
  from csv_loop_field [of "COMMA # csv_row (w # vs)" fields v] obtain k b where
    "csv_loop False False None fields (csv_row (v # w # vs))
       = csv_loop False k b fields (COMMA # csv_row (w # vs))" "field_text k b = stored v"
    by (auto simp: ends_field_def)
  with "3.IH" [of "fields @ [stored v]"] show ?case by (simp add: string_list_push_def)
qed simp

lemma csv_parse_row: "vs \<noteq> [] \<Longrightarrow> csv_parse_line (csv_row vs) = Inr (map stored vs)"
  by (simp add: csv_parse_line_def csv_loop_row)

text \<open>A value that survives the file unchanged.\<close>

lemma stored_id: "needs_quotes v \<or> trim_whitespace v = v \<Longrightarrow> stored v = v"
  by (auto simp: stored_def)

lemma csv_escape_nonempty [simp]: "csv_escape_field v \<noteq> []"
  by (simp add: csv_escape_field_def)

lemma csv_row_nonempty [simp]: "vs \<noteq> [] \<Longrightarrow> csv_row vs \<noteq> []"
  by (cases vs rule: csv_row.cases) auto

lemma set_double_quotes: "set (double_quotes v) \<subseteq> set v"
  by (induction v) auto

lemma set_csv_row: "c \<in> set (csv_row vs) \<Longrightarrow> c = DQ \<or> c = COMMA \<or> c \<in> (\<Union>v\<in>set vs. set v)"
proof (induction vs rule: csv_row.induct)
  case (2 v)
  then show ?case using set_double_quotes [of v]
    by (auto simp: csv_escape_field_def split: if_splits)
next
  case (3 v w vs)
  then show ?case using set_double_quotes [of v]
    by (auto simp: csv_escape_field_def split: if_splits)
qed simp

text \<open>A row never ends in a line break, unless one of its bytes is one.\<close>

lemma last_csv_row:
  assumes "vs \<noteq> []" and "\<forall>v\<in>set vs. LF \<notin> set v \<and> CR \<notin> set v"
  shows "last (csv_row vs) \<noteq> LF" and "last (csv_row vs) \<noteq> CR" and "LF \<notin> set (csv_row vs)"
    and "CR \<notin> set (csv_row vs)"
proof -
  show lf: "LF \<notin> set (csv_row vs)" and cr: "CR \<notin> set (csv_row vs)"
    using assms set_csv_row by force+
  from last_in_set [OF csv_row_nonempty [OF assms(1)]] lf cr
  show "last (csv_row vs) \<noteq> LF" and "last (csv_row vs) \<noteq> CR" by metis+
qed

lemma csv_loop_length:
  "csv_loop q k b fields s = Inr xs \<Longrightarrow> length fields < length xs"
  by (induction q k b fields s rule: csv_loop.induct)
    (auto simp: string_list_push_def split: if_splits)

lemma csv_parse_nonempty: "csv_parse_line s = Inr xs \<Longrightarrow> xs \<noteq> []"
  using csv_loop_length by (fastforce simp: csv_parse_line_def)

end
