(* ===== verification/Storage.thy ===== *)
theory Storage
  imports Files Csv
begin

text \<open>
  Reading and writing table files, \<open>src/storage/storage.c\<close>. Results carry the fields of
  the C structs; \<open>sr_ok\<close> and \<open>rd_ok\<close> are the \<open>ok\<close> fields. A row visitor (a C callback with
  its context) is a function from the fields, the row offset and the context to the error
  message, or \<^term>\<open>None\<close> to go on, and the context after the call; its outer \<^term>\<open>None\<close>
  is undefined behaviour inside the callback.
\<close>

record storage_result =
  sr_ok :: bool
  sr_affected_rows :: int
  sr_row_offset :: int
  sr_message :: string

record storage_read_result =
  rd_ok :: bool
  rd_fields :: string_list
  rd_message :: string

type_synonym 'c visitor = "string_list \<Rightarrow> int \<Rightarrow> 'c \<Rightarrow> (string option \<times> 'c) option"

definition table_path :: "string \<Rightarrow> string \<Rightarrow> string" where
  "table_path data_dir table = build_path data_dir table ''.csv''"

definition open_table_file ::
  "(fs \<Rightarrow> string \<Rightarrow> string + string) \<Rightarrow> fs \<Rightarrow> string \<Rightarrow> string \<Rightarrow> string + string" where
  "open_table_file mode f data_dir table =
     (case mode f (table_path data_dir table) of
        Inl reason \<Rightarrow>
          Inl (format_system_error 256 ''failed to open table file'' (table_path data_dir table) reason)
      | Inr content \<Rightarrow> Inr content)"

section \<open>Appending a row\<close>

text \<open>The newline written first when the file is not empty and does not end with one.\<close>

definition line_separator :: "string \<Rightarrow> string" where
  "line_separator content = (if content \<noteq> [] \<and> last content \<noteq> LF then [LF] else [])"

definition append_row_csv ::
  "fs \<Rightarrow> string \<Rightarrow> string \<Rightarrow> string_list \<Rightarrow> storage_result \<times> fs" where
  "append_row_csv f data_dir table row_values =
     (case open_table_file open_update f data_dir table of
        Inl m \<Rightarrow>
          (\<lparr>sr_ok = False, sr_affected_rows = 0, sr_row_offset = -1, sr_message = m\<rparr>, f)
      | Inr content \<Rightarrow>
          let before = content @ line_separator content in
          (\<lparr>sr_ok = True, sr_affected_rows = 1, sr_row_offset = int (length before),
             sr_message = ''INSERT 1''\<rparr>,
           f(table_path data_dir table := Regular (before @ csv_row row_values))))"

section \<open>Reading one row\<close>

definition read_error :: "string \<Rightarrow> storage_read_result" where
  "read_error m = \<lparr>rd_ok = False, rd_fields = [], rd_message = m\<rparr>"

definition read_row_at_offset_csv :: "fs \<Rightarrow> string \<Rightarrow> string \<Rightarrow> int \<Rightarrow> storage_read_result" where
  "read_row_at_offset_csv f data_dir table row_offset =
     (case open_table_file open_read f data_dir table of
        Inl m \<Rightarrow> read_error m
      | Inr content \<Rightarrow>
          if row_offset < 0 then read_error ''failed to seek row offset''
          else
            let rest = drop (nat row_offset) content in
            if rest = [] then read_error ''failed to read row at offset''
            else
              let line = line_text (fgets_chunk rest) in
              if line = [] then read_error ''row at offset is empty''
              else
                (case csv_parse_line line of
                   Inl m \<Rightarrow> read_error m
                 | Inr flds \<Rightarrow> \<lparr>rd_ok = True, rd_fields = flds, rd_message = []\<rparr>))"

section \<open>Scanning all rows\<close>

function scan_loop :: "'c visitor \<Rightarrow> string \<Rightarrow> nat \<Rightarrow> 'c \<Rightarrow> (string option \<times> 'c) option" where
  "scan_loop visitor rest offset ctx =
     (if rest = [] then Some (None, ctx)
      else
        let chunk = fgets_chunk rest; line = line_text chunk;
            rest' = drop (length chunk) rest; offset' = offset + length chunk in
        if line = [] then scan_loop visitor rest' offset' ctx
        else
          (case csv_parse_line line of
             Inl m \<Rightarrow> Some (Some m, ctx)
           | Inr flds \<Rightarrow>
               (case visitor flds (int offset) ctx of
                  None \<Rightarrow> None
                | Some (Some m, ctx') \<Rightarrow> Some (Some m, ctx')
                | Some (None, ctx') \<Rightarrow> scan_loop visitor rest' offset' ctx')))"
  by pat_completeness auto
termination
  by (relation "measure (\<lambda>(v, rest, off, ctx). length rest)") (auto intro!: diff_less fgets_chunk_pos simp del: length_greater_0_conv)

declare scan_loop.simps [simp del]

definition scan_rows_csv ::
  "fs \<Rightarrow> string \<Rightarrow> string \<Rightarrow> 'c visitor \<Rightarrow> 'c \<Rightarrow> (string option \<times> 'c) option" where
  "scan_rows_csv f data_dir table visitor ctx =
     (case open_table_file open_read f data_dir table of
        Inl m \<Rightarrow> Some (Some m, ctx)
      | Inr content \<Rightarrow>
          if content = [] then Some (Some ''table data file is empty'', ctx)
          else
            let header = fgets_chunk content in
            scan_loop visitor (drop (length header) content) (length header) ctx)"

section \<open>The rows of a file\<close>

text \<open>
  The reference view: the non-empty lines of a text with their offsets (a line of more than
  4095 bytes counts as several), and a scan as a walk along them.
\<close>

function line_list :: "nat \<Rightarrow> string \<Rightarrow> (nat \<times> string) list" where
  "line_list offset s =
     (if s = [] then []
      else
        (if line_text (fgets_chunk s) = [] then [] else [(offset, line_text (fgets_chunk s))])
        @ line_list (offset + length (fgets_chunk s)) (drop (length (fgets_chunk s)) s))"
  by pat_completeness auto
termination
  by (relation "measure (\<lambda>(off, s). length s)") (auto intro!: diff_less fgets_chunk_pos simp del: length_greater_0_conv)

declare line_list.simps [simp del]

lemma line_list_Nil [simp]: "line_list offset [] = []"
  by (subst line_list.simps) simp

fun visit :: "'c visitor \<Rightarrow> (nat \<times> string) list \<Rightarrow> 'c \<Rightarrow> (string option \<times> 'c) option" where
  "visit visitor [] ctx = Some (None, ctx)"
| "visit visitor ((offset, line) # ls) ctx =
     (case csv_parse_line line of
        Inl m \<Rightarrow> Some (Some m, ctx)
      | Inr flds \<Rightarrow>
          (case visitor flds (int offset) ctx of
             None \<Rightarrow> None
           | Some (Some m, ctx') \<Rightarrow> Some (Some m, ctx')
           | Some (None, ctx') \<Rightarrow> visit visitor ls ctx'))"

lemma scan_loop_visit: "scan_loop visitor s offset ctx = visit visitor (line_list offset s) ctx"
proof (induction visitor s offset ctx rule: scan_loop.induct)
  case (1 visitor rest offset ctx)
  show ?case
  proof (cases "rest = []")
    case False
    then show ?thesis
      using "1.IH"
      by (simp add: scan_loop.simps [of visitor rest] line_list.simps [of offset rest] Let_def
          split: sum.splits option.splits)
  qed (simp add: scan_loop.simps)
qed

lemma visit_append:
  "visit visitor (ls @ ls') ctx =
     (case visit visitor ls ctx of
        None \<Rightarrow> None
      | Some (Some m, ctx') \<Rightarrow> Some (Some m, ctx')
      | Some (None, ctx') \<Rightarrow> visit visitor ls' ctx')"
  by (induction visitor ls ctx rule: visit.induct) (auto split: sum.splits option.splits)

text \<open>The rows of a table file: its lines after the header line.\<close>

definition data_lines :: "string \<Rightarrow> (nat \<times> string) list" where
  "data_lines content =
     line_list (length (fgets_chunk content)) (drop (length (fgets_chunk content)) content)"

lemma scan_rows_visit:
  assumes "f (table_path data_dir table) = Regular content" and "content \<noteq> []"
  shows "scan_rows_csv f data_dir table visitor ctx = visit visitor (data_lines content) ctx"
  using assms
  by (simp add: scan_rows_csv_def open_table_file_def open_read_def scan_loop_visit data_lines_def
      Let_def)

definition parses :: "nat \<times> string \<Rightarrow> bool" where
  "parses l = (case csv_parse_line (snd l) of Inl m \<Rightarrow> False | Inr flds \<Rightarrow> True)"

text \<open>The table file can be read to its end.\<close>

definition readable :: "fs \<Rightarrow> string \<Rightarrow> string \<Rightarrow> bool" where
  "readable f data_dir name =
     (case f (table_path data_dir name) of
        Regular content \<Rightarrow> content \<noteq> [] \<and> list_all parses (data_lines content)
      | _ \<Rightarrow> False)"

definition file_rows :: "fs \<Rightarrow> string \<Rightarrow> string \<Rightarrow> (nat \<times> string) list" where
  "file_rows f data_dir name =
     (case f (table_path data_dir name) of Regular content \<Rightarrow> data_lines content | _ \<Rightarrow> [])"

section \<open>The interface of a visitor\<close>

text \<open>
  \<open>StorageRowVisitor\<close>: a visitor that accepts every row it is given. \<open>visited ls\<close> is what its
  context is after the rows \<open>ls\<close>; a scan brings it there exactly when the file can be read.
\<close>

locale row_visitor =
  fixes visitor :: "'c visitor"
    and visited :: "(nat \<times> string) list \<Rightarrow> 'c \<Rightarrow> bool"
  assumes accepts: "visited ls ctx \<Longrightarrow> csv_parse_line line = Inr flds \<Longrightarrow>
    \<exists>ctx'. visitor flds (int off) ctx = Some (None, ctx') \<and> visited (ls @ [(off, line)]) ctx'"
begin

lemma visits:
  "visited pre ctx \<Longrightarrow> \<exists>r ctx'. visit visitor ls ctx = Some (r, ctx')
     \<and> (if list_all parses ls then r = None \<and> visited (pre @ ls) ctx' else r \<noteq> None \<and> (\<exists>seen. visited seen ctx'))"
proof (induction ls arbitrary: pre ctx)
  case (Cons l ls)
  obtain off line where l: "l = (off, line)" by (cases l)
  show ?case
  proof (cases "csv_parse_line line")
    case (Inr flds)
    from accepts [OF Cons.prems Inr] obtain ctx1 where
      s: "visitor flds (int off) ctx = Some (None, ctx1)" "visited (pre @ [(off, line)]) ctx1" by blast
    from Cons.IH [OF s(2)] obtain r ctx' where
      v: "visit visitor ls ctx1 = Some (r, ctx')"
      "if list_all parses ls then r = None \<and> visited ((pre @ [(off, line)]) @ ls) ctx'
       else r \<noteq> None \<and> (\<exists>seen. visited seen ctx')" by blast
    have "list_all parses (l # ls) = list_all parses ls" using Inr l by (simp add: parses_def)
    with v Inr s(1) l show ?thesis by (intro exI [of _ r] exI [of _ ctx']) (simp split: if_splits)
  qed (use Cons.prems l in \<open>auto simp: parses_def\<close>)
qed auto

lemma scans:
  assumes "visited [] ctx"
  shows "\<exists>r ctx'. scan_rows_csv f data_dir name visitor ctx = Some (r, ctx')
    \<and> (if readable f data_dir name then r = None \<and> visited (file_rows f data_dir name) ctx'
       else r \<noteq> None \<and> (\<exists>seen. visited seen ctx'))"
proof (cases "\<exists>content. f (table_path data_dir name) = Regular content \<and> content \<noteq> []")
  case True
  then obtain content where c: "f (table_path data_dir name) = Regular content" "content \<noteq> []" by blast
  then have "readable f data_dir name = list_all parses (data_lines content)" "file_rows f data_dir name = data_lines content"
    by (simp_all add: readable_def file_rows_def)
  with visits [OF assms, of "data_lines content"] show ?thesis
    by (simp only: scan_rows_visit [of f data_dir name, OF c] append_Nil)
next
  case False
  then show ?thesis using assms
    by (auto simp: scan_rows_csv_def open_table_file_def open_read_def readable_def split: fnode.splits)
qed

end

section \<open>What appending does to the rows\<close>

text \<open>A text that \<open>fgets\<close> takes as one whole line.\<close>

definition one_line :: "string \<Rightarrow> bool" where
  "one_line row = (row \<noteq> [] \<and> LF \<notin> set row \<and> NUL \<notin> set row \<and> last row \<noteq> CR
     \<and> length row \<le> LINE_SIZE - 1)"

lemma one_line_text: "one_line row \<Longrightarrow> line_text row = row"
  by (auto simp: one_line_def line_text_def intro!: strip_line_endings_id dest: last_in_set)

lemma line_list_one:
  assumes "one_line row"
  shows "line_list offset row = [(offset, row)]"
proof -
  have "fgets_chunk row = row" using assms by (auto simp: one_line_def intro: fgets_chunk_whole)
  then show ?thesis
    using assms one_line_text [OF assms]
    by (simp add: line_list.simps [of offset row] one_line_def)
qed

lemma line_list_LF: "line_list offset (LF # s) = line_list (Suc offset) s"
proof -
  have "fgets_chunk (LF # s) = [LF]" by (simp add: fgets_chunk_def LINE_SIZE_def)
  moreover have "line_text [LF] = []" by (simp add: line_text_def strip_line_endings_def c_str_def)
  ultimately show ?thesis by (simp add: line_list.simps [of offset "LF # s"])
qed

lemma last_drop_chunk:
  assumes "length (fgets_chunk s) < length s"
  shows "line_separator (drop (length (fgets_chunk s)) s) = line_separator s"
  using assms by (auto simp: line_separator_def)

lemma chunk_without_LF:
  assumes "fgets_chunk s = s" and "last s \<noteq> LF"
  shows "LF \<notin> set s"
proof
  assume LF: "LF \<in> set s"
  define x where "x = takeWhile (\<lambda>c. c \<noteq> LF) s @ [LF]"
  from LF assms(1) have "take (LINE_SIZE - 1) x = s" by (simp add: fgets_chunk_def x_def)
  moreover have "length x \<le> length s" unfolding x_def using LF by (induction s) auto
  ultimately have "x = s" by (metis length_take min.cobounded1 min_def take_all)
  then have "last s = LF" by (metis x_def last_snoc)
  with assms(2) show False by contradiction
qed

text \<open>The chunk at the end of the old text takes at most the separator in addition.\<close>

lemma last_chunk_cases:
  assumes s: "s \<noteq> []" and whole: "fgets_chunk s = s"
  shows "fgets_chunk (s @ line_separator s @ t) = s
       \<or> line_separator s = [LF] \<and> fgets_chunk (s @ line_separator s @ t) = s @ [LF]"
proof (cases "last s = LF")
  case True
  then show ?thesis
    using fgets_chunk_complete [OF whole s True] by (simp add: line_separator_def)
next
  case False
  then have sep: "line_separator s = [LF]" using s by (simp add: line_separator_def)
  have len: "length s \<le> LINE_SIZE - 1" using fgets_chunk_le [of s] whole by simp
  have "LF \<notin> set s" using whole False by (rule chunk_without_LF)
  then have tw: "takeWhile (\<lambda>c. c \<noteq> LF) (s @ LF # t) = s" by (induction s) auto
  have "fgets_chunk (s @ LF # t) = take (LINE_SIZE - 1) (s @ [LF])"
    unfolding fgets_chunk_def tw by simp
  with len show ?thesis by (cases "length s = LINE_SIZE - 1") (simp_all add: sep)
qed

lemma line_list_last_chunk:
  assumes s: "s \<noteq> []" and whole: "fgets_chunk s = s"
  shows "line_list offset (s @ line_separator s @ t)
           = line_list offset s @ line_list (offset + length (s @ line_separator s)) t"
  using last_chunk_cases [OF assms, of t]
proof
  assume "fgets_chunk (s @ line_separator s @ t) = s"
  with s whole show ?thesis
    by (cases "last s = LF")
      (simp_all add: line_list.simps [of offset s]
        line_list.simps [of offset "s @ t"] line_list.simps [of offset "s @ LF # t"]
        line_list_LF line_separator_def)
next
  assume "line_separator s = [LF] \<and> fgets_chunk (s @ line_separator s @ t) = s @ [LF]"
  then have sep: "line_separator s = [LF]" and c: "fgets_chunk (s @ LF # t) = s @ [LF]" by auto
  from s whole c show ?thesis
    by (simp add: sep line_list.simps [of offset s] line_list.simps [of offset "s @ LF # t"]
        line_text_LF)
qed

lemma header_text_append:
  assumes "s \<noteq> []"
  shows "line_text (fgets_chunk (s @ line_separator s @ t)) = line_text (fgets_chunk s)"
proof (cases "length (fgets_chunk s) < length s")
  case True
  then show ?thesis by (simp add: fgets_chunk_extend)
next
  case False
  then have "fgets_chunk s = s" using fgets_chunk_prefix [of s] by simp
  with last_chunk_cases [OF assms this, of t] show ?thesis by (auto simp: line_text_LF)
qed

lemma line_list_append:
  "line_list offset (s @ line_separator s @ t)
     = line_list offset s @ line_list (offset + length (s @ line_separator s)) t"
proof (induction offset s rule: line_list.induct)
  case (1 offset s)
  show ?case
  proof (cases "s = []")
    case False
    show ?thesis
    proof (cases "length (fgets_chunk s) < length s")
      case True
      have chunk: "fgets_chunk (s @ u) = fgets_chunk s" for u using fgets_chunk_extend [OF True] .
      from 1 [OF False] True False show ?thesis
        by (simp add: line_list.simps [of offset s]
            line_list.simps [of offset "s @ line_separator s @ t"] chunk last_drop_chunk [OF True])
    next
      case *: False
      then have "fgets_chunk s = s"
        using fgets_chunk_prefix [of s] by simp
      with False show ?thesis by (rule line_list_last_chunk)
    qed
  qed (simp add: line_separator_def)
qed

text \<open>Appending adds exactly one row, after all the rows that were there.\<close>

lemma data_lines_append:
  assumes "content \<noteq> []" and "one_line row"
  shows "data_lines (content @ line_separator content @ row)
           = data_lines content @ [(length (content @ line_separator content), row)]"
proof -
  have split: "line_list 0 s
      = (if line_text (fgets_chunk s) = [] then [] else [(0, line_text (fgets_chunk s))]) @ data_lines s"
    if "s \<noteq> []" for s
    using that by (simp add: line_list.simps [of 0 s] data_lines_def)
  have "line_list 0 (content @ line_separator content @ row)
      = line_list 0 content @ [(length (content @ line_separator content), row)]"
    using line_list_append [of 0 content row] by (simp add: line_list_one [OF assms(2)])
  then show ?thesis
    using assms(1) header_text_append [OF assms(1), of row]
    by (simp add: split)
qed

end
