(* ===== verification/Storage_Props.thy ===== *)
theory Storage_Props
  imports Storage
begin

text \<open>
  The properties of the CSV store: what a value becomes on disk, reading back an appended
  row, and what a scan sees after an append.
\<close>

section \<open>Rows and offsets\<close>

lemma line_list_offset:
  assumes "(o', l) \<in> set (line_list off s)" and "off = length pre"
  shows "l \<noteq> [] \<and> off \<le> o' \<and> o' < length (pre @ s)
           \<and> l = line_text (fgets_chunk (drop o' (pre @ s)))"
  using assms
proof (induction off s arbitrary: pre rule: line_list.induct)
  case (1 off s)
  show ?case
  proof (cases "s = []")
    case False
    define c where "c = fgets_chunk s"
    have pos: "0 < length c" using False by (simp add: c_def fgets_chunk_pos del: length_greater_0_conv)
    from "1.prems"(1) False consider
      (here) "o' = off" "l = line_text c" "l \<noteq> []"
      | (later) "(o', l) \<in> set (line_list (off + length c) (drop (length c) s))"
      by (auto simp: line_list.simps [of off s] c_def split: if_splits)
    then show ?thesis
    proof cases
      case here
      with "1.prems"(2) False show ?thesis by (simp add: c_def)
    next
      case later
      have eq: "(pre @ c) @ drop (length c) s = pre @ s" by (simp add: c_def fgets_chunk_append)
      have "off + length c = length (pre @ c)" using "1.prems"(2) by simp
      from "1.IH" [OF False, folded c_def, OF later this] show ?thesis unfolding eq by auto
    qed
  qed (use 1 in simp)
qed

lemma data_lines_offset:
  assumes "(o', l) \<in> set (data_lines content)"
  shows "l \<noteq> [] \<and> o' < length content \<and> l = line_text (fgets_chunk (drop o' content))"
  using line_list_offset [of o' l "length (fgets_chunk content)"
      "drop (length (fgets_chunk content)) content" "fgets_chunk content"] assms
  by (auto simp: data_lines_def fgets_chunk_append)

text \<open>Reading at the offset of a row parses the line of that row.\<close>

lemma read_row_at_line:
  assumes "f (table_path data_dir table) = Regular content" and "(o', l) \<in> set (data_lines content)"
  shows "read_row_at_offset_csv f data_dir table (int o') =
           (case csv_parse_line l of
              Inl m \<Rightarrow> read_error m
            | Inr flds \<Rightarrow> \<lparr>rd_ok = True, rd_fields = flds, rd_message = []\<rparr>)"
proof -
  from data_lines_offset [OF assms(2)]
  have "line_text (fgets_chunk (drop o' content)) = l" "l \<noteq> []" "o' < length content" by auto
  with assms(1) show ?thesis
    by (simp add: read_row_at_offset_csv_def open_table_file_def open_read_def Let_def)
qed

text \<open>A row of values that the file can hold as one line.\<close>

definition storable :: "string list \<Rightarrow> bool" where
  "storable vs =
     (vs \<noteq> [] \<and> (\<forall>v\<in>set vs. LF \<notin> set v \<and> CR \<notin> set v \<and> NUL \<notin> set v)
      \<and> length (csv_row vs) \<le> LINE_SIZE - 1)"

lemma storable_one_line:
  assumes "storable vs"
  shows "one_line (csv_row vs)"
proof -
  from assms have v: "vs \<noteq> []" "\<forall>v\<in>set vs. LF \<notin> set v \<and> CR \<notin> set v" by (auto simp: storable_def)
  have "NUL \<notin> set (csv_row vs)" using assms set_csv_row [of NUL vs] by (auto simp: storable_def)
  with last_csv_row [OF v] v assms show ?thesis by (simp add: one_line_def storable_def)
qed

definition appended :: "string \<Rightarrow> string list \<Rightarrow> string" where
  "appended content vs = content @ line_separator content @ csv_row vs"

lemma append_row_csv_regular:
  assumes "f (table_path data_dir table) = Regular content"
  shows "append_row_csv f data_dir table vs =
    (\<lparr>sr_ok = True, sr_affected_rows = 1,
      sr_row_offset = int (length (content @ line_separator content)), sr_message = ''INSERT 1''\<rparr>,
     f(table_path data_dir table := Regular (appended content vs)))"
  using assms
  by (simp add: append_row_csv_def open_table_file_def open_update_def Let_def appended_def)

lemma data_lines_appended:
  assumes "content \<noteq> []" and "storable vs"
  shows "data_lines (appended content vs)
    = data_lines content @ [(length (content @ line_separator content), csv_row vs)]"
  unfolding appended_def using assms storable_one_line by (intro data_lines_append) auto

lemma appended_nonempty: "content \<noteq> [] \<Longrightarrow> appended content vs \<noteq> []"
  by (simp add: appended_def)

lemma data_lines_header_only:
  assumes "fgets_chunk content = content"
  shows "data_lines content = []"
  using assms by (simp add: data_lines_def)

section \<open>Properties\<close>

text \<open>
  C10: \<open>csv_parse_line\<close> inverts the writer, for every row of any bytes except that a value
  without a comma, a double quote or a line break loses its leading and trailing blanks:
  parsing the bytes written for a row returns exactly \<open>stored\<close> of each value.
\<close>

theorem csv_roundtrip:
  assumes "vs \<noteq> []"
  shows "csv_parse_line (csv_row vs) = Inr (map stored vs)"
  using assms by (rule csv_parse_row)

theorem csv_roundtrip_witness:
  "csv_parse_line (csv_row [''a,b'', [DQ], [], '' x'']) = Inr [''a,b'', [DQ], [], ''x'']"
  using csv_roundtrip [of "[''a,b'', [DQ], [], '' x'']"]
  by (simp add: stored_def needs_quotes_def trim_whitespace_def isspace_def byte_def)

text \<open>
  C11: appending a row to a table file succeeds, leaves every other file alone, and reading
  at the offset it reports returns the stored values of that row. Every row that could be
  read before, at whatever offset, reads the same after.
\<close>

theorem append_then_read:
  assumes "f (table_path data_dir table) = Regular content" and "content \<noteq> []" and "storable vs"
    and "append_row_csv f data_dir table vs = (r, f')"
  shows "sr_ok r \<and> f' = f(table_path data_dir table := f' (table_path data_dir table))
    \<and> read_row_at_offset_csv f' data_dir table (sr_row_offset r)
        = \<lparr>rd_ok = True, rd_fields = map stored vs, rd_message = []\<rparr>
    \<and> list_all (\<lambda>(o', l). read_row_at_offset_csv f' data_dir table (int o')
                          = read_row_at_offset_csv f data_dir table (int o')) (data_lines content)"
proof -
  from assms(4) append_row_csv_regular [of f data_dir table content vs, OF assms(1)]
  have r: "sr_ok r" "sr_row_offset r = int (length (content @ line_separator content))"
    and f': "f' = f(table_path data_dir table := Regular (appended content vs))" by auto
  then have here: "f' (table_path data_dir table) = Regular (appended content vs)" by simp
  note lines = data_lines_appended [OF assms(2,3)]
  have "vs \<noteq> []" using assms(3) by (simp add: storable_def)
  have "(length (content @ line_separator content), csv_row vs) \<in> set (data_lines (appended content vs))"
    by (simp add: lines)
  from read_row_at_line [of f' data_dir table, OF here this] csv_parse_row [OF \<open>vs \<noteq> []\<close>]
  have new: "read_row_at_offset_csv f' data_dir table (sr_row_offset r)
        = \<lparr>rd_ok = True, rd_fields = map stored vs, rd_message = []\<rparr>" by (simp add: r)
  have "read_row_at_offset_csv f' data_dir table (int o') = read_row_at_offset_csv f data_dir table (int o')"
    if "(o', l) \<in> set (data_lines content)" for o' l
  proof -
    from that have "(o', l) \<in> set (data_lines (appended content vs))" by (simp add: lines)
    from read_row_at_line [of f' data_dir table, OF here this] read_row_at_line [of f data_dir table, OF assms(1) that] show ?thesis by simp
  qed
  with r(1) f' new show ?thesis by (auto simp: list_all_iff)
qed

definition users_csv :: string where
  "users_csv = ''name,age'' @ [LF] @ ''Ann,7'' @ [LF]"

definition users_fs :: fs where
  "users_fs = (\<lambda>p. if p = ''data/users.csv'' then Regular users_csv else Absent ''No such file'')"

lemma users_path: "table_path ''data'' ''users'' = ''data/users.csv''"
  by (simp add: table_path_def)

lemma storable_bob: "storable [''Bob'', ''4,2'']"
  by (simp add: storable_def csv_escape_field_def LINE_SIZE_def needs_quotes_def)

definition bob_fs :: fs where
  "bob_fs = snd (append_row_csv users_fs ''data'' ''users'' [''Bob'', ''4,2''])"

definition bob_result :: storage_result where
  "bob_result = fst (append_row_csv users_fs ''data'' ''users'' [''Bob'', ''4,2''])"

lemma bob_append:
  "append_row_csv users_fs ''data'' ''users'' [''Bob'', ''4,2''] = (bob_result, bob_fs)"
  by (simp add: bob_fs_def bob_result_def)

lemma users_content: "users_fs (table_path ''data'' ''users'') = Regular users_csv" "users_csv \<noteq> []"
  by (simp_all add: users_path users_fs_def users_csv_def)

theorem append_then_read_witness:
  "sr_ok bob_result
    \<and> bob_fs = users_fs(table_path ''data'' ''users'' := bob_fs (table_path ''data'' ''users''))
    \<and> read_row_at_offset_csv bob_fs ''data'' ''users'' (sr_row_offset bob_result)
        = \<lparr>rd_ok = True, rd_fields = map stored [''Bob'', ''4,2''], rd_message = []\<rparr>
    \<and> list_all (\<lambda>(o', l). read_row_at_offset_csv bob_fs ''data'' ''users'' (int o')
                          = read_row_at_offset_csv users_fs ''data'' ''users'' (int o'))
        (data_lines users_csv)"
  by (rule append_then_read [OF users_content storable_bob bob_append])

text \<open>
  C12: the 4096-byte line buffer breaks long rows. A single value of 4096 to 8190 bytes (no
  quote, comma or line break) is written as one line but read back as two rows, its first
  4095 bytes and the rest, so every later scan sees one row more than was inserted.
\<close>

theorem long_row_splits:
  assumes "f (table_path data_dir table) = Regular content" and "content = header @ [LF]"
    and "LF \<notin> set header" and "length header < LINE_SIZE - 1"
    and "\<forall>c\<in>set v. c \<noteq> LF \<and> c \<noteq> CR \<and> c \<noteq> NUL \<and> c \<noteq> DQ \<and> c \<noteq> COMMA"
    and "LINE_SIZE - 1 < length v" and "length v \<le> 2 * (LINE_SIZE - 1)"
    and "append_row_csv f data_dir table [v] = (r, f')"
  shows "sr_ok r \<and> (\<exists>content'. f' (table_path data_dir table) = Regular content'
    \<and> data_lines content' =
        [(length content, take (LINE_SIZE - 1) v),
         (length content + (LINE_SIZE - 1), drop (LINE_SIZE - 1) v)])"
proof -
  define n where "n = LINE_SIZE - 1"
  have n: "0 < n" "n < length v" "length v \<le> 2 * n" "length header < n"
    using assms(4,6,7) by (simp_all add: n_def LINE_SIZE_def)
  have "\<not> needs_quotes v" using assms(5) unfolding needs_quotes_def list_ex_iff by blast
  moreover have "v \<noteq> []" using n(2) by auto
  ultimately have row: "csv_row [v] = v" by (simp add: csv_escape_field_def)
  have tw: "takeWhile (\<lambda>c. c \<noteq> LF) (header @ LF # v) = header" using assms(3) by (induction header) auto
  have hd: "fgets_chunk (content @ v) = content"
    using assms(4) by (simp add: fgets_chunk_def assms(2) tw)
  have noLF: "LF \<notin> set v" using assms(5) by blast
  then have twv: "takeWhile (\<lambda>c. c \<noteq> LF) v = v" by (auto simp: takeWhile_eq_all_conv)
  have c1: "fgets_chunk v = take n v" unfolding fgets_chunk_def twv using noLF by (simp add: n_def)
  have ok: "one_line u" if "u = take n v \<or> u = drop n v" for u
  proof -
    have sub: "set u \<subseteq> set v" using that set_take_subset set_drop_subset by metis
    have u: "u \<noteq> []" "length u \<le> n" using that n by auto
    have bytes: "c \<noteq> LF \<and> c \<noteq> CR \<and> c \<noteq> NUL" if "c \<in> set u" for c
      using sub assms(5) that by blast
    have "last u \<noteq> CR" using bytes [OF last_in_set [OF u(1)]] by blast
    moreover have "LF \<notin> set u" "NUL \<notin> set u" using bytes by blast+
    ultimately show ?thesis using u unfolding one_line_def n_def by blast
  qed
  have "line_list off v = [(off, take n v), (off + n, drop n v)]" for off
  proof -
    have "line_text (take n v) = take n v" using one_line_text [OF ok] by simp
    moreover have "take n v \<noteq> []" using n by auto
    moreover have "line_list (off + n) (drop n v) = [(off + n, drop n v)]"
      using ok line_list_one by blast
    ultimately show ?thesis using n by (simp add: line_list.simps [of off v] c1)
  qed
  then have "data_lines (content @ v) = [(length content, take n v), (length content + n, drop n v)]"
    by (simp add: data_lines_def hd)
  moreover have "appended content [v] = content @ v"
    unfolding appended_def row by (simp add: line_separator_def assms(2))
  ultimately show ?thesis
    using assms(8) append_row_csv_regular [of f data_dir table content "[v]", OF assms(1)] by (auto simp: n_def)
qed

definition one_column_fs :: fs where
  "one_column_fs = (\<lambda>p. Regular (''note'' @ [LF]))"

theorem long_row_splits_witness:
  "sr_ok (fst (append_row_csv one_column_fs ''data'' ''notes'' [replicate 5000 CHR ''x'']))
   \<and> (\<exists>content'. snd (append_row_csv one_column_fs ''data'' ''notes'' [replicate 5000 CHR ''x''])
         (table_path ''data'' ''notes'') = Regular content'
    \<and> data_lines content' =
        [(length (''note'' @ [LF]), take (LINE_SIZE - 1) (replicate 5000 CHR ''x'')),
         (length (''note'' @ [LF]) + (LINE_SIZE - 1), drop (LINE_SIZE - 1) (replicate 5000 CHR ''x''))])"
proof (rule long_row_splits [where header = "''note''"])
  show "one_column_fs (table_path ''data'' ''notes'') = Regular (''note'' @ [LF])"
    by (simp add: one_column_fs_def)
  show "append_row_csv one_column_fs ''data'' ''notes'' [replicate 5000 CHR ''x'']
    = (fst (append_row_csv one_column_fs ''data'' ''notes'' [replicate 5000 CHR ''x'']),
       snd (append_row_csv one_column_fs ''data'' ''notes'' [replicate 5000 CHR ''x'']))"
    by simp
qed (simp_all add: LINE_SIZE_def set_replicate_conv_if)

end
