(* ===== verification/Schema.thy ===== *)
theory Schema
  imports Storage_Props
begin

text \<open>
  Table definitions, \<open>src/storage/schema.c\<close>: finding the \<open>.meta\<close> file of a table, reading
  it, and checking it against the header of the CSV file. A failure is its message.
\<close>

record schema =
  sc_table_name :: "string option"
  sc_storage_name :: string
  sc_columns :: string_list

section \<open>Meta files\<close>

text \<open>The lines \<open>fgets\<close> returns for a text, each after \<open>strip_line_endings\<close>.\<close>

function text_lines :: "string \<Rightarrow> string list" where
  "text_lines s =
     (if s = [] then []
      else line_text (fgets_chunk s) # text_lines (drop (length (fgets_chunk s)) s))"
  by pat_completeness auto
termination
  by (relation "measure length")
    (auto intro!: diff_less fgets_chunk_pos simp del: length_greater_0_conv)

declare text_lines.simps [simp del]

text \<open>\<open>key=value\<close>: the text before the first \<open>=\<close> and the trimmed text after it.\<close>

definition split_meta_line :: "string \<Rightarrow> (string \<times> string) option" where
  "split_meta_line trimmed =
     (if CHR ''='' \<notin> set trimmed then None
      else Some (takeWhile (\<lambda>c. c \<noteq> CHR ''='') trimmed,
                 trim_whitespace (tl (dropWhile (\<lambda>c. c \<noteq> CHR ''='') trimmed))))"

definition parse_columns_value :: "string \<Rightarrow> string + string_list" where
  "parse_columns_value val = csv_parse_line val"

definition basename :: "string \<Rightarrow> string" where
  "basename path = rev (takeWhile (\<lambda>c. c \<noteq> CHR ''/'') (rev path))"

definition has_meta_extension :: "string \<Rightarrow> bool" where
  "has_meta_extension filename =
     (5 \<le> length filename \<and> drop (length filename - 5) filename = ''.meta'')"

definition extract_storage_name :: "string \<Rightarrow> string" where
  "extract_storage_name path =
     (let filename = basename path in
      if has_meta_extension filename then take (length filename - 5) filename else filename)"

definition build_child_file_path :: "string \<Rightarrow> string \<Rightarrow> string" where
  "build_child_file_path dir filename =
     snprintf (length dir + length filename + 2) (dir @ ''/'' @ filename)"

fun declares_table :: "string list \<Rightarrow> string \<Rightarrow> bool" where
  "declares_table [] table = False"
| "declares_table (line # ls) table =
     (let trimmed = trim_whitespace line in
      if trimmed = [] then declares_table ls table
      else
        (case split_meta_line trimmed of
           None \<Rightarrow> declares_table ls table
         | Some (key, val) \<Rightarrow>
             if key = ''table'' \<and> val = table then True else declares_table ls table))"

definition file_declares_table :: "fs \<Rightarrow> string \<Rightarrow> string \<Rightarrow> string + bool" where
  "file_declares_table f path table =
     (case f path of
        Absent r \<Rightarrow> Inl (format_system_error 256 ''failed to open schema meta file'' path r)
      | Refused r \<Rightarrow> Inl (format_system_error 256 ''failed to open schema meta file'' path r)
      | Directory es \<Rightarrow>
          Inl (snprintf 256 (''failed to open schema meta file '' @ [SQ] @ path @ [SQ]
                 @ '': not a regular file''))
      | Regular s \<Rightarrow> Inr (declares_table (text_lines s) table))"

text \<open>The loop over the names of the schema directory.\<close>

fun search_directory :: "fs \<Rightarrow> string \<Rightarrow> string list \<Rightarrow> string \<Rightarrow> string + string" where
  "search_directory f dir [] table = Inl ''schema meta file does not exist''"
| "search_directory f dir (name # names) table =
     (if \<not> has_meta_extension name then search_directory f dir names table
      else
        (case file_declares_table f (build_child_file_path dir name) table of
           Inl m \<Rightarrow> Inl m
         | Inr True \<Rightarrow> Inr (build_child_file_path dir name)
         | Inr False \<Rightarrow> search_directory f dir names table))"

definition find_schema_path :: "fs \<Rightarrow> string \<Rightarrow> string \<Rightarrow> string + string" where
  "find_schema_path f schema_dir table =
     (let path = build_path schema_dir table ''.meta'';
          failed = (\<lambda>r. Inl (format_system_error 256 ''failed to open schema directory'' schema_dir r)) in
      case f path of
        Regular s \<Rightarrow> Inr path
      | Directory es \<Rightarrow> Inr path
      | Refused r \<Rightarrow> Inl (format_system_error 256 ''failed to open schema meta file'' path r)
      | Absent r \<Rightarrow>
          (case f schema_dir of
             Absent r \<Rightarrow> failed r
           | Refused r \<Rightarrow> failed r
           | Regular s \<Rightarrow> failed ''Not a directory''
           | Directory names \<Rightarrow> search_directory f schema_dir names table))"

section \<open>Loading a schema\<close>

definition schema_find_column :: "schema \<Rightarrow> string \<Rightarrow> int" where
  "schema_find_column sch name = string_list_index_of (sc_columns sch) name"

definition schema_has_reserved_id_column :: "schema \<Rightarrow> bool" where
  "schema_has_reserved_id_column sch = (0 \<le> schema_find_column sch ''id'')"

fun compare_header :: "string list \<Rightarrow> string list \<Rightarrow> bool" where
  "compare_header (h # hs) (c # cs) = (if h \<noteq> c then False else compare_header hs cs)"
| "compare_header hs cs = True"

definition validate_csv_header :: "fs \<Rightarrow> string \<Rightarrow> string \<Rightarrow> schema \<Rightarrow> string option" where
  "validate_csv_header f data_dir storage_name sch =
     (let path = build_path data_dir storage_name ''.csv'' in
      case open_read f path of
        Inl r \<Rightarrow> Some (format_system_error 256 ''failed to open table data file'' path r)
      | Inr content \<Rightarrow>
          if content = [] then Some ''table data file is empty''
          else
            (case csv_parse_line (line_text (fgets_chunk content)) of
               Inl m \<Rightarrow> Some m
             | Inr header \<Rightarrow>
                 if length header \<noteq> length (sc_columns sch)
                 then Some ''CSV header does not match schema column count''
                 else if \<not> compare_header header (sc_columns sch)
                 then Some ''CSV header does not match schema column order''
                 else None))"

text \<open>The loop over the meta file, with the table name and the columns read so far.\<close>

fun read_meta ::
  "string list \<Rightarrow> string option \<Rightarrow> string_list \<Rightarrow> string + (string option \<times> string_list)" where
  "read_meta [] name cols = Inr (name, cols)"
| "read_meta (line # ls) name cols =
     (let trimmed = trim_whitespace line in
      if trimmed = [] then read_meta ls name cols
      else
        (case split_meta_line trimmed of
           None \<Rightarrow> Inl ''invalid schema meta format''
         | Some (key, val) \<Rightarrow>
             if key = ''table'' then read_meta ls (Some val) cols
             else if key = ''columns'' then
               (case parse_columns_value val of
                  Inl m \<Rightarrow> Inl m
                | Inr parsed \<Rightarrow> read_meta ls name parsed)
             else read_meta ls name cols))"

definition load_schema :: "fs \<Rightarrow> string \<Rightarrow> string \<Rightarrow> string \<Rightarrow> string + schema" where
  "load_schema f schema_dir data_dir table =
     (case find_schema_path f schema_dir table of
        Inl m \<Rightarrow> Inl m
      | Inr path \<Rightarrow>
          (case open_read f path of
             Inl r \<Rightarrow> Inl (format_system_error 256 ''failed to open schema meta file'' path r)
           | Inr content \<Rightarrow>
               (case read_meta (text_lines content) None [] of
                  Inl m \<Rightarrow> Inl m
                | Inr (name, cols) \<Rightarrow>
                    let sch = \<lparr>sc_table_name = name, sc_storage_name = extract_storage_name path,
                               sc_columns = cols\<rparr> in
                    if name = None \<or> cols = [] then Inl ''schema meta file is missing required fields''
                    else if schema_has_reserved_id_column sch
                    then Inl (''reserved column name '' @ [SQ] @ ''id'' @ [SQ]
                              @ '' is not allowed in user schema'')
                    else if name \<noteq> Some table \<and> sc_storage_name sch \<noteq> table
                    then Inl ''schema table name does not match requested table''
                    else
                      (case validate_csv_header f data_dir (sc_storage_name sch) sch of
                         Some m \<Rightarrow> Inl m
                       | None \<Rightarrow> Inr sch))))"

section \<open>What a loaded schema guarantees\<close>

lemma compare_header_eq: "length hs = length cs \<Longrightarrow> compare_header hs cs \<longleftrightarrow> hs = cs"
  by (induction hs cs rule: compare_header.induct) auto

lemma schema_find_column_absent: "schema_find_column sch c < 0 \<longleftrightarrow> c \<notin> set (sc_columns sch)"
  using string_list_index_of_ge [of "sc_columns sch" c]
    string_list_index_of_absent [of "sc_columns sch" c]
  by (auto simp: schema_find_column_def)

lemma schema_find_column_found:
  assumes "0 \<le> schema_find_column sch c"
  shows "nat (schema_find_column sch c) < length (sc_columns sch)
         \<and> sc_columns sch ! nat (schema_find_column sch c) = c"
  using assms string_list_index_of_found [of "sc_columns sch" c]
  by (auto simp: schema_find_column_def)

lemma reserved_iff: "schema_has_reserved_id_column sch \<longleftrightarrow> ''id'' \<in> set (sc_columns sch)"
  using schema_find_column_absent [of sch "''id''"]
  by (auto simp: schema_has_reserved_id_column_def)

definition header_matches :: "fs \<Rightarrow> string \<Rightarrow> schema \<Rightarrow> bool" where
  "header_matches f data_dir sch =
     (case f (table_path data_dir (sc_storage_name sch)) of
        Regular content \<Rightarrow>
          content \<noteq> [] \<and> csv_parse_line (line_text (fgets_chunk content)) = Inr (sc_columns sch)
      | _ \<Rightarrow> False)"

lemma validate_csv_header_iff:
  "validate_csv_header f data_dir (sc_storage_name sch) sch = None \<longleftrightarrow> header_matches f data_dir sch"
  by (auto simp: validate_csv_header_def header_matches_def open_read_def Let_def table_path_def
      compare_header_eq split: fnode.splits sum.splits if_splits)

lemma validate_csv_header_record [simp]:
  "validate_csv_header f data_dir n \<lparr>sc_table_name = t, sc_storage_name = n, sc_columns = cs\<rparr> = None
     \<longleftrightarrow> header_matches f data_dir \<lparr>sc_table_name = t, sc_storage_name = n, sc_columns = cs\<rparr>"
  using validate_csv_header_iff [of f data_dir
      "\<lparr>sc_table_name = t, sc_storage_name = n, sc_columns = cs\<rparr>"] by simp

definition schema_ok :: "fs \<Rightarrow> string \<Rightarrow> string \<Rightarrow> schema \<Rightarrow> bool" where
  "schema_ok f data_dir table sch =
     (sc_columns sch \<noteq> [] \<and> ''id'' \<notin> set (sc_columns sch)
      \<and> (sc_table_name sch = Some table \<or> sc_storage_name sch = table)
      \<and> header_matches f data_dir sch)"

lemma load_schema_ok:
  "load_schema f schema_dir data_dir table = Inr sch \<Longrightarrow> schema_ok f data_dir table sch"
  by (auto simp: load_schema_def schema_ok_def reserved_iff Let_def
      split: sum.splits if_splits option.splits)

section \<open>Appending rows does not change a schema\<close>

text \<open>Two file systems that differ only in files whose names do not end in \<open>.meta\<close>.\<close>

definition same_meta :: "fs \<Rightarrow> fs \<Rightarrow> bool" where
  "same_meta f g = (\<forall>p. f p \<noteq> g p \<longrightarrow>
     \<not> has_meta_extension p \<and> (\<exists>s t. f p = Regular s \<and> g p = Regular t))"

lemma has_meta_extension_append [simp]: "has_meta_extension (x @ ''.meta'')"
  by (simp add: has_meta_extension_def)

lemma has_meta_extension_suffix:
  assumes "has_meta_extension x"
  shows "has_meta_extension (y @ x)"
proof -
  from assms have "5 \<le> length x" "drop (length x - 5) x = ''.meta''"
    by (auto simp: has_meta_extension_def)
  then show ?thesis by (simp add: has_meta_extension_def)
qed

lemma csv_not_meta: "\<not> has_meta_extension (x @ ''.csv'')"
proof
  assume a: "has_meta_extension (x @ ''.csv'')"
  have "last (drop (length (x @ ''.csv'') - 5) (x @ ''.csv'')) = CHR ''v''"
    using a by (subst last_drop) (auto simp: has_meta_extension_def)
  with a show False by (auto simp: has_meta_extension_def)
qed

lemma same_metaD: "same_meta f g \<Longrightarrow> has_meta_extension p \<Longrightarrow> f p = g p"
  unfolding same_meta_def by blast

lemma same_meta_cases:
  "same_meta f g \<Longrightarrow> f p = g p \<or> (\<exists>s t. f p = Regular s \<and> g p = Regular t)"
  unfolding same_meta_def by blast

lemma meta_path: "has_meta_extension (build_path schema_dir table ''.meta'')"
  using has_meta_extension_suffix [of "''.meta''" "schema_dir @ ''/'' @ table"]
  by (simp add: has_meta_extension_def)

lemma file_declares_same:
  assumes "same_meta f g" and "has_meta_extension p"
  shows "file_declares_table f p table = file_declares_table g p table"
  unfolding file_declares_table_def same_metaD [OF assms] ..

lemma search_directory_same:
  assumes "same_meta f g"
  shows "search_directory f dir names table = search_directory g dir names table"
proof (induction names)
  case (Cons n names)
  have "has_meta_extension n \<Longrightarrow> has_meta_extension (build_child_file_path dir n)"
    using has_meta_extension_suffix [of n "dir @ ''/''"] by (simp add: build_child_file_path_def)
  with Cons file_declares_same [OF assms] show ?case
    by (auto split: sum.splits bool.splits)
qed simp

lemma find_schema_path_meta:
  "find_schema_path f schema_dir table = Inr path \<Longrightarrow> has_meta_extension path"
proof -
  have s: "search_directory f dir names table = Inr path \<Longrightarrow> has_meta_extension path" for dir names
  proof (induction names)
    case (Cons n names)
    have "has_meta_extension n \<Longrightarrow> has_meta_extension (build_child_file_path dir n)"
      using has_meta_extension_suffix [of n "dir @ ''/''"] by (simp add: build_child_file_path_def)
    with Cons show ?case by (auto split: if_splits sum.splits bool.splits)
  qed simp
  assume "find_schema_path f schema_dir table = Inr path"
  then show ?thesis using s meta_path [of schema_dir table] by (auto simp: find_schema_path_def Let_def split: fnode.splits)
qed

lemma find_schema_path_same:
  assumes "same_meta f g"
  shows "find_schema_path f schema_dir table = find_schema_path g schema_dir table"
proof -
  note 1 = same_metaD [OF assms meta_path [of schema_dir table]]
  note 2 = same_meta_cases [OF assms, of schema_dir]
  from search_directory_same [OF assms] 1 2 show ?thesis
    by (auto simp: find_schema_path_def Let_def split: fnode.splits)
qed

lemma load_schema_same:
  assumes same: "same_meta f g"
    and head: "validate_csv_header f data_dir = validate_csv_header g data_dir"
  shows "load_schema f schema_dir data_dir table = load_schema g schema_dir data_dir table"
proof (cases "find_schema_path f schema_dir table")
  case (Inl m)
  then show ?thesis using find_schema_path_same [OF same] by (simp add: load_schema_def)
next
  case (Inr path)
  from same_metaD [OF same find_schema_path_meta [OF Inr]] have "open_read f path = open_read g path"
    by (simp add: open_read_def)
  then show ?thesis
    unfolding load_schema_def find_schema_path_same [OF same, symmetric] Inr head by simp
qed

lemma same_meta_append:
  assumes "f (table_path data_dir storage) = Regular content"
  shows "same_meta f (f(table_path data_dir storage := Regular (appended content vs)))"
proof -
  have "\<not> has_meta_extension (table_path data_dir storage)"
    using csv_not_meta [of "data_dir @ ''/'' @ storage"] by (simp add: table_path_def)
  with assms show ?thesis by (auto simp: same_meta_def)
qed

lemma validate_append:
  assumes "f (table_path data_dir storage) = Regular content" and "content \<noteq> []"
  shows "validate_csv_header (f(table_path data_dir storage := Regular (appended content vs))) data_dir
    = validate_csv_header f data_dir"
proof (intro ext)
  fix name sch
  show "validate_csv_header (f(table_path data_dir storage := Regular (appended content vs))) data_dir
      name sch = validate_csv_header f data_dir name sch"
    using assms header_text_append [OF assms(2), of "csv_row vs"]
    by (auto simp: validate_csv_header_def open_read_def Let_def table_path_def appended_def)
qed

lemma load_schema_append:
  assumes "f (table_path data_dir storage) = Regular content" and "content \<noteq> []"
  shows "load_schema (f(table_path data_dir storage := Regular (appended content vs))) schema_dir data_dir table
    = load_schema f schema_dir data_dir table"
  by (rule load_schema_same [symmetric])
    (rule same_meta_append [of f], rule assms(1), rule validate_append [of f, symmetric], rule assms(1),
      rule assms(2))

text \<open>The storage name of a table found by its own name.\<close>

lemma basename_build:
  assumes "CHR ''/'' \<notin> set name" and "CHR ''/'' \<notin> set ext"
  shows "basename (build_path dir name ext) = name @ ext"
proof -
  have "takeWhile (\<lambda>c. c \<noteq> CHR ''/'') (rev (name @ ext) @ CHR ''/'' # rev dir) = rev (name @ ext)"
    using assms by (intro takeWhile_word) auto
  then show ?thesis by (simp add: basename_def)
qed

lemma extract_storage_name_direct:
  assumes "CHR ''/'' \<notin> set name"
  shows "extract_storage_name (build_path dir name ''.meta'') = name"
  using basename_build [OF assms, of "''.meta''" dir] by (simp add: extract_storage_name_def)

end
