(* ===== verification/Table_Index.thy ===== *)
theory Table_Index
  imports BPlusTree_Leaves Schema
begin

text \<open>
  The table indexes, \<open>src/index/table_index.c\<close>: a registry of one B+ tree per table, built
  on first use from the CSV file and kept up to date by inserts. An entry pointer is a
  position in \<open>registry.items\<close>. The operations run one at a time here; the registry mutex
  is not part of this model. Ids are mathematical integers (the code's \<open>int\<close>
  overflows only after \<open>2 ^ 31 - 1\<close> rows). \<^term>\<open>None\<close> is undefined behaviour in the tree.
\<close>

section \<open>The registry\<close>

record table_index =
  ti_table_name :: string
  ti_loaded :: bool
  ti_tree :: bptree
  ti_next_id :: int

record runtime =
  rt_registry :: "table_index list"
  rt_force_failure :: bool
  rt_alloc :: allocator

fun find_table_index :: "table_index list \<Rightarrow> string \<Rightarrow> nat option" where
  "find_table_index [] name = None"
| "find_table_index (e # es) name =
     (if ti_table_name e = name then Some 0 else map_option Suc (find_table_index es name))"

definition new_entry :: "string \<Rightarrow> table_index" where
  "new_entry name =
     \<lparr>ti_table_name = name, ti_loaded = False, ti_tree = bptree_init, ti_next_id = 1\<rparr>"

definition get_or_create_table_index ::
  "table_index list \<Rightarrow> string \<Rightarrow> nat \<times> table_index list" where
  "get_or_create_table_index reg name =
     (case find_table_index reg name of
        Some i \<Rightarrow> (i, reg)
      | None \<Rightarrow> (length reg, reg @ [new_entry name]))"

text \<open>The visitor of a rebuild; its context is the tree, the next id and the allocator.\<close>

definition rebuild_row :: "(bptree \<times> int \<times> allocator) visitor" where
  "rebuild_row flds row_offset ctx =
     (case ctx of (tree, next_id, al) \<Rightarrow>
        (case bptree_insert al tree next_id row_offset of
           None \<Rightarrow> None
         | Some (Some m, tree', al') \<Rightarrow> Some (Some m, (tree', next_id, al'))
         | Some (None, tree', al') \<Rightarrow> Some (None, (tree', next_id + 1, al'))))"

definition reset_entry :: "table_index \<Rightarrow> table_index" where
  "reset_entry e = e\<lparr>ti_loaded := False, ti_tree := bptree_init, ti_next_id := 1\<rparr>"

definition ensure_loaded ::
  "runtime \<Rightarrow> fs \<Rightarrow> schema \<Rightarrow> string \<Rightarrow> ((string + nat) \<times> runtime) option" where
  "ensure_loaded rt f sch data_dir =
     (case get_or_create_table_index (rt_registry rt) (sc_storage_name sch) of
        (i, reg) \<Rightarrow>
          if ti_loaded (reg ! i) then Some (Inr i, rt\<lparr>rt_registry := reg\<rparr>)
          else
            (case scan_rows_csv f data_dir (sc_storage_name sch) rebuild_row
                    (bptree_init, 1, rt_alloc rt) of
               None \<Rightarrow> None
             | Some (Some m, (tree, next_id, al)) \<Rightarrow>
                 Some (Inl m, rt\<lparr>rt_registry := reg[i := reset_entry (reg ! i)], rt_alloc := al\<rparr>)
             | Some (None, (tree, next_id, al)) \<Rightarrow>
                 Some (Inr i,
                   rt\<lparr>rt_registry := reg[i := (reg ! i)\<lparr>ti_loaded := True, ti_tree := tree,
                                                      ti_next_id := next_id\<rparr>],
                      rt_alloc := al\<rparr>)))"

section \<open>The operations\<close>

definition table_index_registry_reset :: "runtime \<Rightarrow> runtime" where
  "table_index_registry_reset rt = rt\<lparr>rt_registry := [], rt_force_failure := False\<rparr>"

definition table_index_invalidate :: "runtime \<Rightarrow> string \<Rightarrow> runtime" where
  "table_index_invalidate rt name =
     (case find_table_index (rt_registry rt) name of
        None \<Rightarrow> rt
      | Some i \<Rightarrow> rt\<lparr>rt_registry := (rt_registry rt)[i := reset_entry (rt_registry rt ! i)]\<rparr>)"

definition table_index_is_loaded :: "runtime \<Rightarrow> string \<Rightarrow> bool" where
  "table_index_is_loaded rt name =
     (case find_table_index (rt_registry rt) name of
        None \<Rightarrow> False
      | Some i \<Rightarrow> ti_loaded (rt_registry rt ! i))"

definition table_index_get_next_id ::
  "runtime \<Rightarrow> fs \<Rightarrow> schema \<Rightarrow> string \<Rightarrow> ((string + int) \<times> runtime) option" where
  "table_index_get_next_id rt f sch data_dir =
     (case ensure_loaded rt f sch data_dir of
        None \<Rightarrow> None
      | Some (Inl m, rt') \<Rightarrow> Some (Inl m, rt')
      | Some (Inr i, rt') \<Rightarrow> Some (Inr (ti_next_id (rt_registry rt' ! i)), rt'))"

definition table_index_register_row ::
  "runtime \<Rightarrow> fs \<Rightarrow> schema \<Rightarrow> string \<Rightarrow> int \<Rightarrow> int \<Rightarrow> (string option \<times> runtime) option" where
  "table_index_register_row rt f sch data_dir row_id row_offset =
     (if rt_force_failure rt
      then Some (Some ''forced index registration failure'', rt\<lparr>rt_force_failure := False\<rparr>)
      else
        (case ensure_loaded rt f sch data_dir of
           None \<Rightarrow> None
         | Some (Inl m, rt') \<Rightarrow> Some (Some m, rt')
         | Some (Inr i, rt') \<Rightarrow>
             let e = rt_registry rt' ! i in
             (case bptree_insert (rt_alloc rt') (ti_tree e) row_id row_offset of
                None \<Rightarrow> None
              | Some (Some m, tree, al) \<Rightarrow>
                  Some (Some m, rt'\<lparr>rt_registry := (rt_registry rt')[i := e\<lparr>ti_tree := tree\<rparr>],
                                    rt_alloc := al\<rparr>)
              | Some (None, tree, al) \<Rightarrow>
                  Some (None,
                    rt'\<lparr>rt_registry := (rt_registry rt')[i := e\<lparr>ti_tree := tree,
                          ti_next_id := (if ti_next_id e \<le> row_id then row_id + 1 else ti_next_id e)\<rparr>],
                        rt_alloc := al\<rparr>))))"

text \<open>The lookup result: the error, or the row offset when the id was found.\<close>

definition table_index_find_row ::
  "runtime \<Rightarrow> fs \<Rightarrow> schema \<Rightarrow> string \<Rightarrow> int \<Rightarrow> ((string + int option) \<times> runtime) option" where
  "table_index_find_row rt f sch data_dir row_id =
     (case ensure_loaded rt f sch data_dir of
        None \<Rightarrow> None
      | Some (Inl m, rt') \<Rightarrow> Some (Inl m, rt')
      | Some (Inr i, rt') \<Rightarrow> Some (Inr (bptree_search (ti_tree (rt_registry rt' ! i)) row_id), rt'))"

definition table_index_force_next_register_failure :: "runtime \<Rightarrow> runtime" where
  "table_index_force_next_register_failure rt = rt\<lparr>rt_force_failure := True\<rparr>"

section \<open>The registry is consistent with the files\<close>

text \<open>The items a tree has for the rows of a file: row \<open>k\<close> has the internal id \<open>k\<close>.\<close>

fun row_items :: "int \<Rightarrow> (nat \<times> string) list \<Rightarrow> (int \<times> int) list" where
  "row_items n [] = []"
| "row_items n (l # ls) = (n, int (fst l)) # row_items (n + 1) ls"

definition indexes_file :: "fs \<Rightarrow> string \<Rightarrow> table_index \<Rightarrow> bool" where
  "indexes_file f data_dir e =
     (readable f data_dir (ti_table_name e) \<and> bptree_inv (ti_tree e)
      \<and> tree_entries (ti_tree e) = row_items 1 (file_rows f data_dir (ti_table_name e))
      \<and> ti_next_id e = 1 + int (length (file_rows f data_dir (ti_table_name e))))"

definition runtime_ok :: "fs \<Rightarrow> string \<Rightarrow> runtime \<Rightarrow> bool" where
  "runtime_ok f data_dir rt =
     (distinct (map ti_table_name (rt_registry rt)) \<and> oom (rt_alloc rt) = []
      \<and> (\<forall>e\<in>set (rt_registry rt). ti_loaded e \<longrightarrow> indexes_file f data_dir e))"

lemma row_items_append:
  "row_items n (ls @ ls') = row_items n ls @ row_items (n + int (length ls)) ls'"
  by (induction ls arbitrary: n) (auto simp: algebra_simps)

lemma row_items_keys: "e \<in> set (row_items n ls) \<Longrightarrow> n \<le> fst e \<and> fst e < n + int (length ls)"
  by (induction ls arbitrary: n) fastforce+

lemma map_of_row_items:
  "map_of (row_items n ls) k =
     (if n \<le> k \<and> k < n + int (length ls) then Some (int (fst (ls ! nat (k - n)))) else None)"
proof (induction ls arbitrary: n)
  case (Cons l ls)
  show ?case
  proof (cases "k = n")
    case False
    then have "nat (k - n) = Suc (nat (k - (n + 1)))" if "n \<le> k" using that by simp
    with False Cons show ?thesis by auto
  qed simp
qed simp

text \<open>A rebuild is a visitor: after some rows, the tree has their items and the next id is known.\<close>

definition rebuilt :: "(nat \<times> string) list \<Rightarrow> bptree \<times> int \<times> allocator \<Rightarrow> bool" where
  "rebuilt ls ctx =
     (case ctx of (t, n, al) \<Rightarrow> oom al = [] \<and> bptree_inv t \<and> n = 1 + int (length ls)
        \<and> tree_entries t = row_items 1 ls)"

interpretation rebuild: row_visitor rebuild_row rebuilt
proof unfold_locales
  fix ls ctx line flds off
  assume "rebuilt ls ctx"
  then obtain t al where ctx: "ctx = (t, 1 + int (length ls), al)" and t: "oom al = []" "bptree_inv t"
    "tree_entries t = row_items 1 ls" by (cases ctx) (auto simp: rebuilt_def)
  have "\<forall>e\<in>set (tree_entries t). fst e < 1 + int (length ls)"
    using row_items_keys [of _ 1 ls] by (auto simp: t(3))
  from bpt.put_append [OF t(2,1) this, of "int off"] t show
    "\<exists>ctx'. rebuild_row flds (int off) ctx = Some (None, ctx') \<and> rebuilt (ls @ [(off, line)]) ctx'"
    by (auto simp: rebuild_row_def rebuilt_def ctx row_items_append)
qed

lemma find_table_index_Some:
  "find_table_index reg name = Some i \<Longrightarrow> i < length reg \<and> ti_table_name (reg ! i) = name"
  by (induction reg name arbitrary: i rule: find_table_index.induct) (auto split: if_splits)

lemma find_table_index_None:
  "find_table_index reg name = None \<longleftrightarrow> name \<notin> ti_table_name ` set reg"
  by (induction reg name rule: find_table_index.induct) auto

lemma get_or_create:
  assumes "get_or_create_table_index reg name = (i, reg')" and "distinct (map ti_table_name reg)"
  shows "i < length reg' \<and> ti_table_name (reg' ! i) = name \<and> distinct (map ti_table_name reg')
    \<and> find_table_index reg' name = Some i
    \<and> (\<forall>e\<in>set reg'. ti_loaded e \<longrightarrow> e \<in> set reg)"
proof (cases "find_table_index reg name")
  case None
  have app: "find_table_index (reg @ [new_entry name]) name = Some (length reg)"
    using None by (induction reg) (auto simp: new_entry_def split: if_splits)
  from None assms have "i = length reg" "reg' = reg @ [new_entry name]"
    by (auto simp: get_or_create_table_index_def)
  with None assms(2) app show ?thesis
    by (auto simp: find_table_index_None new_entry_def)
next
  case (Some j)
  with assms find_table_index_Some [OF Some] show ?thesis
    by (auto simp: get_or_create_table_index_def)
qed

lemma entry_of_name:
  assumes "distinct (map ti_table_name reg)" and "i < length reg" and "j < length reg"
    and "ti_table_name (reg ! i) = ti_table_name (reg ! j)"
  shows "i = j"
  using assms by (metis length_map nth_eq_iff_index_eq nth_map)

end
