(* ===== verification/Table_Index_Props.thy ===== *)
theory Table_Index_Props
  imports Table_Index
begin

text \<open>
  The table indexes agree with the table files: \<^term>\<open>runtime_ok\<close> holds of every loaded
  index, every operation keeps it, loading succeeds exactly on the files that can be read
  to their end, and registering an appended row gives the same index as rebuilding it.
\<close>

section \<open>Loading\<close>

lemma runtime_ok_get_or_create:
  assumes "runtime_ok f data_dir rt" and "get_or_create_table_index (rt_registry rt) name = (i, reg)"
  shows "i < length reg" and "ti_table_name (reg ! i) = name" and "distinct (map ti_table_name reg)"
    and "find_table_index reg name = Some i"
    and "\<And>e. e \<in> set reg \<Longrightarrow> ti_loaded e \<Longrightarrow> indexes_file f data_dir e"
  using get_or_create [OF assms(2)] assms(1) by (auto simp: runtime_ok_def)

lemma find_table_index_update:
  assumes "ti_table_name e = ti_table_name (reg ! i)" and "i < length reg"
  shows "find_table_index (reg[i := e]) name = find_table_index reg name"
  using assms
proof (induction reg arbitrary: i)
  case (Cons x reg)
  then show ?case by (cases i) auto
qed simp

lemma map_name_update:
  assumes "ti_table_name e = ti_table_name (reg ! i)"
  shows "map ti_table_name (reg[i := e]) = map ti_table_name reg"
  using assms by (metis list_update_id map_update)

text \<open>What \<open>ensure_loaded\<close> gives: a loaded and consistent entry, or a table that cannot be read.\<close>

definition loaded_at :: "runtime \<Rightarrow> nat \<Rightarrow> string \<Rightarrow> bool" where
  "loaded_at rt i name =
     (i < length (rt_registry rt) \<and> find_table_index (rt_registry rt) name = Some i
      \<and> ti_table_name (rt_registry rt ! i) = name \<and> ti_loaded (rt_registry rt ! i))"

lemma scan_rebuild:
  assumes "oom al = []"
  shows "\<exists>r t n al'. scan_rows_csv f data_dir name rebuild_row (bptree_init, 1, al)
             = Some (r, (t, n, al')) \<and> oom al' = []
           \<and> (if readable f data_dir name
              then r = None \<and> bptree_inv t \<and> n = 1 + int (length (file_rows f data_dir name))
                   \<and> tree_entries t = row_items 1 (file_rows f data_dir name)
              else r \<noteq> None)"
proof -
  have "rebuilt [] (bptree_init, 1, al)" using assms by (simp add: rebuilt_def bpt.inv_empty bpt.items_empty)
  from rebuild.scans [OF this, of f data_dir name] show ?thesis
    by (auto simp: rebuilt_def split: if_splits)
qed

text \<open>Replacing one entry by another one for the same table.\<close>

lemma runtime_ok_replace:
  assumes "distinct (map ti_table_name reg)" and "oom (rt_alloc rt) = []"
    and "rt_registry rt = reg[i := e]" and "ti_table_name e = ti_table_name (reg ! i)"
    and "ti_loaded e \<Longrightarrow> indexes_file f data_dir e"
    and "\<And>j. j < length reg \<Longrightarrow> j \<noteq> i \<Longrightarrow> ti_loaded (reg ! j) \<Longrightarrow> indexes_file f data_dir (reg ! j)"
  shows "runtime_ok f data_dir rt"
proof -
  have "indexes_file f data_dir x" if x: "x \<in> set (reg[i := e])" "ti_loaded x" for x
  proof -
    from x(1) obtain j where "j < length reg" "x = reg[i := e] ! j" by (auto simp: in_set_conv_nth)
    then show ?thesis using assms(5,6) x(2) by (cases "j = i") auto
  qed
  then show ?thesis using assms(1-4) by (simp add: runtime_ok_def map_name_update)
qed

text \<open>Storing the entry of the table that was looked up or created.\<close>

lemma runtime_ok_store:
  assumes ok: "runtime_ok f data_dir rt" and g: "get_or_create_table_index (rt_registry rt) name = (i, reg)"
    and al: "oom al = []" and e: "ti_table_name e = name" "ti_loaded e \<Longrightarrow> indexes_file f data_dir e"
  defines "rt' \<equiv> rt\<lparr>rt_registry := reg[i := e], rt_alloc := al\<rparr>"
  shows "runtime_ok f data_dir rt'" and "ti_loaded e \<Longrightarrow> loaded_at rt' i name"
proof -
  note reg = runtime_ok_get_or_create [OF ok g]
  show "runtime_ok f data_dir rt'"
    using reg al e by (intro runtime_ok_replace [of reg _ i e]) (simp_all add: rt'_def)
  show "ti_loaded e \<Longrightarrow> loaded_at rt' i name"
    using reg e by (simp add: rt'_def loaded_at_def find_table_index_update)
qed

lemma ensure_loaded_ok:
  assumes ok: "runtime_ok f data_dir rt"
  shows "\<exists>res rt'. ensure_loaded rt f sch data_dir = Some (res, rt') \<and> runtime_ok f data_dir rt'
    \<and> rt_force_failure rt' = rt_force_failure rt
    \<and> (if readable f data_dir (sc_storage_name sch)
       then \<exists>i. res = Inr i \<and> loaded_at rt' i (sc_storage_name sch)
       else \<exists>m. res = Inl m)"
proof -
  define name where "name = sc_storage_name sch"
  obtain i reg where g: "get_or_create_table_index (rt_registry rt) name = (i, reg)"
    by (metis prod.exhaust)
  note reg = runtime_ok_get_or_create [OF ok g] and store = runtime_ok_store [OF ok g]
  from ok have al: "oom (rt_alloc rt) = []" by (simp add: runtime_ok_def)
  show ?thesis
  proof (cases "ti_loaded (reg ! i)")
    case True
    with reg have "indexes_file f data_dir (reg ! i)" by simp
    with reg(2) have "readable f data_dir name" by (simp add: indexes_file_def)
    with True reg g al show ?thesis
      by (simp add: ensure_loaded_def name_def [symmetric] runtime_ok_def loaded_at_def)
  next
    case False
    from scan_rebuild [OF al, of f data_dir name] obtain r t n al' where
      s: "scan_rows_csv f data_dir name rebuild_row (bptree_init, 1, rt_alloc rt) = Some (r, (t, n, al'))"
      "oom al' = []"
      and res: "if readable f data_dir name
              then r = None \<and> bptree_inv t \<and> n = 1 + int (length (file_rows f data_dir name))
                   \<and> tree_entries t = row_items 1 (file_rows f data_dir name)
              else r \<noteq> None" by blast
    show ?thesis
    proof (cases "readable f data_dir name")
      case True
      define e where "e = (reg ! i)\<lparr>ti_loaded := True, ti_tree := t, ti_next_id := n\<rparr>"
      have "indexes_file f data_dir e" using True res reg(2) by (simp add: indexes_file_def e_def)
      with store [OF s(2), of e] True res s False g reg(2) show ?thesis
        by (auto simp: ensure_loaded_def name_def [symmetric] e_def)
    next
      case nr: False
      with store [OF s(2), of "reset_entry (reg ! i)"] res s False g reg(2) show ?thesis
        by (auto simp: ensure_loaded_def name_def [symmetric] reset_entry_def)
    qed
  qed
qed

lemma loaded_indexes:
  assumes "runtime_ok f data_dir rt" and "loaded_at rt i name"
  shows "indexes_file f data_dir (rt_registry rt ! i)"
  using assms by (auto simp: runtime_ok_def loaded_at_def)

section \<open>Lookups\<close>

lemma find_row_ok:
  assumes ok: "runtime_ok f data_dir rt" and rd: "readable f data_dir (sc_storage_name sch)"
  shows "\<exists>rt'. table_index_find_row rt f sch data_dir k =
       Some (Inr (if 1 \<le> k \<and> k \<le> int (length (file_rows f data_dir (sc_storage_name sch)))
                  then Some (int (fst (file_rows f data_dir (sc_storage_name sch) ! nat (k - 1))))
                  else None), rt')
     \<and> runtime_ok f data_dir rt' \<and> rt_force_failure rt' = rt_force_failure rt"
proof -
  from ensure_loaded_ok [OF ok, of sch] rd obtain i rt' where
    e: "ensure_loaded rt f sch data_dir = Some (Inr i, rt')" "runtime_ok f data_dir rt'"
    "rt_force_failure rt' = rt_force_failure rt" "loaded_at rt' i (sc_storage_name sch)" by auto
  from loaded_indexes [OF e(2,4)] e(4)
  have "bptree_search (ti_tree (rt_registry rt' ! i)) k
      = map_of (row_items 1 (file_rows f data_dir (sc_storage_name sch))) k"
    by (simp add: indexes_file_def loaded_at_def bptree_search_map_of)
  with e show ?thesis by (auto simp: table_index_find_row_def map_of_row_items)
qed

lemma get_next_id_ok:
  assumes ok: "runtime_ok f data_dir rt" and rd: "readable f data_dir (sc_storage_name sch)"
  shows "\<exists>rt' i. table_index_get_next_id rt f sch data_dir =
       Some (Inr (1 + int (length (file_rows f data_dir (sc_storage_name sch)))), rt')
     \<and> runtime_ok f data_dir rt' \<and> loaded_at rt' i (sc_storage_name sch)
     \<and> rt_force_failure rt' = rt_force_failure rt"
proof -
  from ensure_loaded_ok [OF ok, of sch] rd obtain i rt' where
    e: "ensure_loaded rt f sch data_dir = Some (Inr i, rt')" "runtime_ok f data_dir rt'"
    "rt_force_failure rt' = rt_force_failure rt" "loaded_at rt' i (sc_storage_name sch)" by auto
  from loaded_indexes [OF e(2,4)] e show ?thesis
    by (auto simp: table_index_get_next_id_def indexes_file_def loaded_at_def)
qed

section \<open>Registering an appended row\<close>

lemma table_path_inject: "table_path data_dir a = table_path data_dir b \<longleftrightarrow> a = b"
  by (simp add: table_path_def)

lemma indexes_other_file:
  assumes "indexes_file f data_dir e" and "ti_table_name e \<noteq> name"
  shows "indexes_file (f(table_path data_dir name := x)) data_dir e"
  using assms by (simp add: indexes_file_def readable_def file_rows_def table_path_inject)

lemma file_rows_append:
  assumes "f (table_path data_dir name) = Regular content" and "content \<noteq> []" and "storable vs"
    and "f' = f(table_path data_dir name := Regular (appended content vs))"
  shows "file_rows f' data_dir name = file_rows f data_dir name
           @ [(length (content @ line_separator content), csv_row vs)]"
  using assms data_lines_appended [OF assms(2,3)] by (simp add: file_rows_def)

lemma readable_append:
  assumes "f (table_path data_dir name) = Regular content" and "content \<noteq> []" and "storable vs"
    and "f' = f(table_path data_dir name := Regular (appended content vs))"
  shows "readable f' data_dir name = readable f data_dir name"
proof -
  have "vs \<noteq> []" using assms(3) by (simp add: storable_def)
  then have "parses (length (content @ line_separator content), csv_row vs)"
    by (simp add: parses_def csv_parse_row)
  with assms data_lines_appended [OF assms(2,3)] show ?thesis
    by (simp add: readable_def appended_nonempty)
qed

text \<open>The registry after a row of one table was appended and its entry extended.\<close>

lemma runtime_ok_appended:
  assumes ok: "runtime_ok f data_dir rt" and i: "i < length (rt_registry rt)"
    and name: "ti_table_name (rt_registry rt ! i) = name" "ti_table_name e' = name"
    and f': "f' = f(table_path data_dir name := x)" and e': "indexes_file f' data_dir e'" and al: "oom al = []"
  shows "runtime_ok f' data_dir (rt\<lparr>rt_registry := (rt_registry rt)[i := e'], rt_alloc := al\<rparr>)"
proof (rule runtime_ok_replace [of "rt_registry rt" _ i e'])
  have dist: "distinct (map ti_table_name (rt_registry rt))" using ok by (simp add: runtime_ok_def)
  then show "distinct (map ti_table_name (rt_registry rt))" .
  fix j assume j: "j < length (rt_registry rt)" "j \<noteq> i" "ti_loaded (rt_registry rt ! j)"
  have "ti_table_name (rt_registry rt ! j) \<noteq> name" using entry_of_name [OF dist j(1) i] j(2) name by auto
  moreover have "indexes_file f data_dir (rt_registry rt ! j)" using ok j by (simp add: runtime_ok_def)
  ultimately show "indexes_file f' data_dir (rt_registry rt ! j)" unfolding f' by (rule indexes_other_file [rotated])
qed (use assms in simp_all)

lemma register_row_ok:
  assumes ok: "runtime_ok f data_dir rt" and at: "loaded_at rt i name"
    and name: "sc_storage_name sch = name"
    and c: "f (table_path data_dir name) = Regular content" "content \<noteq> []" "storable vs"
    and f': "f' = f(table_path data_dir name := Regular (appended content vs))"
    and next_id: "k = 1 + int (length (file_rows f data_dir name))"
    and off: "off = int (length (content @ line_separator content))"
    and force: "\<not> rt_force_failure rt"
  shows "\<exists>rt'. table_index_register_row rt f' sch data_dir k off = Some (None, rt')
           \<and> runtime_ok f' data_dir rt' \<and> \<not> rt_force_failure rt'"
proof -
  define reg where "reg = rt_registry rt"
  define e where "e = reg ! i"
  note ix = loaded_indexes [OF ok at, folded reg_def, folded e_def]
  from at have i: "i < length reg" "find_table_index reg name = Some i" "ti_table_name e = name"
    "ti_loaded e" by (simp_all add: loaded_at_def reg_def e_def)
  from ok have al: "oom (rt_alloc rt) = []" by (simp add: runtime_ok_def)
  have inv: "bptree_inv (ti_tree e)" using ix by (simp add: indexes_file_def)
  have items: "tree_entries (ti_tree e) = row_items 1 (file_rows f data_dir name)"
    using ix i(3) by (simp add: indexes_file_def)
  then have "\<forall>x\<in>set (tree_entries (ti_tree e)). fst x < k"
    using row_items_keys by (fastforce simp: next_id)
  from bpt.put_append [OF inv al this, of off] obtain t' al' where
    ins: "bptree_insert (rt_alloc rt) (ti_tree e) k off = Some (None, t', al')"
    "bptree_inv t'" "oom al' = []" "tree_entries t' = tree_entries (ti_tree e) @ [(k, off)]" by blast
  define e' where "e' = e\<lparr>ti_tree := t', ti_next_id := k + 1\<rparr>"
  have nid: "ti_next_id e = k" using ix i(3) by (simp add: indexes_file_def next_id)
  have "get_or_create_table_index (rt_registry rt) name = (i, reg)"
    using i(2) by (simp add: get_or_create_table_index_def reg_def)
  then have el: "ensure_loaded rt f' sch data_dir = Some (Inr i, rt\<lparr>rt_registry := reg\<rparr>)"
    using i(4) by (simp add: ensure_loaded_def name e_def)
  have "table_index_register_row rt f' sch data_dir k off
      = Some (None, rt\<lparr>rt_registry := reg[i := e'], rt_alloc := al'\<rparr>)"
    using ins(1) nid by (simp add: table_index_register_row_def force el Let_def e_def [symmetric] e'_def)
  moreover have "indexes_file f' data_dir e'"
    using readable_append [of f data_dir name, OF c f'] file_rows_append [of f data_dir name, OF c f'] ix ins items i(3)
    by (simp add: indexes_file_def e'_def row_items_append next_id off)
  with runtime_ok_appended [OF ok _ _ _ f', of i e' al'] i ins(3)
  have "runtime_ok f' data_dir (rt\<lparr>rt_registry := reg[i := e'], rt_alloc := al'\<rparr>)"
    by (simp add: reg_def e_def e'_def)
  ultimately show ?thesis using force by simp
qed

lemma invalidate_ok:
  assumes ok: "\<forall>e\<in>set (rt_registry rt). ti_loaded e \<and> ti_table_name e \<noteq> name \<longrightarrow> indexes_file f data_dir e"
    and dist: "distinct (map ti_table_name (rt_registry rt))" and al: "oom (rt_alloc rt) = []"
  shows "runtime_ok f data_dir (table_index_invalidate rt name)"
proof (cases "find_table_index (rt_registry rt) name")
  case None
  then have "name \<notin> ti_table_name ` set (rt_registry rt)" by (simp add: find_table_index_None)
  with None ok dist al show ?thesis by (auto simp: table_index_invalidate_def runtime_ok_def)
next
  case (Some i)
  define reg where "reg = rt_registry rt"
  from find_table_index_Some [OF Some] have i: "i < length reg" "ti_table_name (reg ! i) = name"
    by (simp_all add: reg_def)
  define e where "e = reset_entry (reg ! i)"
  have e: "\<not> ti_loaded e" "ti_table_name e = ti_table_name (reg ! i)"
    by (simp_all add: e_def reset_entry_def)
  have "indexes_file f data_dir x" if x: "x \<in> set (reg[i := e])" "ti_loaded x" for x
  proof -
    from x obtain j where j: "j < length reg" "x = reg[i := e] ! j" by (auto simp: in_set_conv_nth)
    with x(2) i(1) e(1) have ji: "j \<noteq> i" "x = reg ! j" by (auto simp: nth_list_update split: if_splits)
    with entry_of_name [OF dist [folded reg_def] j(1) i(1)] i(2) have "ti_table_name x \<noteq> name" by auto
    with ok ji j(1) x(2) show ?thesis by (simp add: reg_def)
  qed
  with Some al dist map_name_update [OF e(2)] show ?thesis
    by (simp add: table_index_invalidate_def runtime_ok_def reg_def [symmetric] e_def [symmetric])
qed

text \<open>After an append that could not be registered, invalidating the table repairs the registry.\<close>

lemma invalidate_after_append:
  assumes ok: "runtime_ok f data_dir rt" and f': "f' = f(table_path data_dir name := x)"
  shows "runtime_ok f' data_dir (table_index_invalidate (rt\<lparr>rt_force_failure := b\<rparr>) name)"
proof (rule invalidate_ok)
  show "\<forall>e\<in>set (rt_registry (rt\<lparr>rt_force_failure := b\<rparr>)).
      ti_loaded e \<and> ti_table_name e \<noteq> name \<longrightarrow> indexes_file f' data_dir e"
    using ok unfolding f' by (auto simp: runtime_ok_def intro: indexes_other_file)
qed (use ok in \<open>simp_all add: runtime_ok_def\<close>)

lemma runtime_ok_empty: "oom al = [] \<Longrightarrow>
    runtime_ok f data_dir \<lparr>rt_registry = [], rt_force_failure = b, rt_alloc = al\<rparr>"
  by (simp add: runtime_ok_def)

end
