(* ===== verification/Executor.thy ===== *)
theory Executor
  imports Table_Index_Props Parser
begin

text \<open>
  Statement execution, \<open>src/execution/executor.c\<close>: INSERT and SELECT over the schema, the
  CSV storage and the table indexes. The state is the file system and the index registry; a
  SELECT also returns the bytes it prints to \<open>out\<close>. \<^term>\<open>None\<close> is undefined behaviour:
  a read or write past an array, or one inside the tree.
\<close>

record exec_result =
  er_ok :: bool
  er_affected_rows :: int
  er_message :: string

record db =
  db_fs :: fs
  db_rt :: runtime

definition exec_error :: "string \<Rightarrow> exec_result" where
  "exec_error m = \<lparr>er_ok = False, er_affected_rows = 0, er_message = snprintf 256 m\<rparr>"

section \<open>INSERT\<close>

definition contains_newline :: "string \<Rightarrow> bool" where
  "contains_newline v = (LF \<in> set v \<or> CR \<in> set v)"

fun validate_insert_loop :: "schema \<Rightarrow> string_list \<Rightarrow> string_list \<Rightarrow> string option" where
  "validate_insert_loop sch (c # cs) (v # vs) =
     (if c = ''id'' then Some ''explicit id column is not allowed''
      else if schema_find_column sch c < 0
      then Some (snprintf 256 (''unknown column in INSERT: '' @ c))
      else if contains_newline v then Some ''newline in value is not supported''
      else validate_insert_loop sch cs vs)"
| "validate_insert_loop sch cs vs = None"

definition validate_insert_columns :: "insert_statement \<Rightarrow> schema \<Rightarrow> string option" where
  "validate_insert_columns st sch =
     (if length (ins_columns st) \<noteq> length (ins_values st)
      then Some ''column count and value count do not match''
      else validate_insert_loop sch (ins_columns st) (ins_values st))"

text \<open>The assignment loop: which columns are assigned, and the row built so far.\<close>

fun build_row_loop ::
  "schema \<Rightarrow> string_list \<Rightarrow> string_list \<Rightarrow> bool list \<Rightarrow> string_list \<Rightarrow> string + string_list" where
  "build_row_loop sch (c # cs) (v # vs) assigned row =
     (let i = schema_find_column sch c in
      if i < 0 then Inl (snprintf 256 (''unknown column in INSERT: '' @ c))
      else if assigned ! nat i then Inl (snprintf 256 (''duplicate column in INSERT: '' @ c))
      else build_row_loop sch cs vs (assigned[nat i := True]) (row[nat i := v]))"
| "build_row_loop sch cs vs assigned row = Inr row"

definition build_insert_row :: "insert_statement \<Rightarrow> schema \<Rightarrow> string + string_list" where
  "build_insert_row st sch =
     (let n = length (sc_columns sch) in
      build_row_loop sch (ins_columns st) (ins_values st) (replicate n False) (replicate n []))"

definition execute_insert ::
  "insert_statement \<Rightarrow> string \<Rightarrow> string \<Rightarrow> db \<Rightarrow> (exec_result \<times> db) option" where
  "execute_insert st schema_dir data_dir s =
     (case load_schema (db_fs s) schema_dir data_dir (ins_table st) of
        Inl m \<Rightarrow> Some (exec_error m, s)
      | Inr sch \<Rightarrow>
          (case validate_insert_columns st sch of
             Some m \<Rightarrow> Some (exec_error m, s)
           | None \<Rightarrow>
               (case table_index_get_next_id (db_rt s) (db_fs s) sch data_dir of
                  None \<Rightarrow> None
                | Some (Inl m, rt) \<Rightarrow> Some (exec_error m, s\<lparr>db_rt := rt\<rparr>)
                | Some (Inr next_id, rt) \<Rightarrow>
                    (case build_insert_row st sch of
                       Inl m \<Rightarrow> Some (exec_error m, s\<lparr>db_rt := rt\<rparr>)
                     | Inr row \<Rightarrow>
                         (case append_row_csv (db_fs s) data_dir (sc_storage_name sch) row of
                            (r, f) \<Rightarrow>
                              if \<not> sr_ok r
                              then Some (exec_error (sr_message r), s\<lparr>db_fs := f, db_rt := rt\<rparr>)
                              else
                                (case table_index_register_row rt f sch data_dir next_id
                                        (sr_row_offset r) of
                                   None \<Rightarrow> None
                                 | Some (Some m, rt') \<Rightarrow>
                                     Some (exec_error m,
                                       \<lparr>db_fs = f, db_rt = table_index_invalidate rt'
                                                              (sc_storage_name sch)\<rparr>)
                                 | Some (None, rt') \<Rightarrow>
                                     Some (\<lparr>er_ok = True, er_affected_rows = sr_affected_rows r,
                                            er_message = sr_message r\<rparr>,
                                       \<lparr>db_fs = f, db_rt = rt'\<rparr>)))))))"

section \<open>The columns of a SELECT\<close>

definition INTERNAL_ID_SELECT_INDEX :: int where
  "INTERNAL_ID_SELECT_INDEX = -1"

text \<open>
  The loop over the selected columns from position \<open>i\<close>: the headers and the array
  \<open>selected_indexes\<close>, which was allocated with one slot per schema column.
\<close>

fun select_columns_loop ::
  "schema \<Rightarrow> string_list \<Rightarrow> nat \<Rightarrow> string_list \<Rightarrow> int list
     \<Rightarrow> (string + string_list \<times> int list) option" where
  "select_columns_loop sch [] i headers arr = Some (Inr (headers, arr))"
| "select_columns_loop sch (c # cs) i headers arr =
     (if c = ''id'' then
        (if i < length arr
         then select_columns_loop sch cs (Suc i) (string_list_push headers ''id'')
                (arr[i := INTERNAL_ID_SELECT_INDEX])
         else None)
      else
        let k = schema_find_column sch c in
        if k < 0 then Some (Inl (snprintf 256 (''unknown column in SELECT: '' @ c)))
        else if i < length arr
        then select_columns_loop sch cs (Suc i) (string_list_push headers c) (arr[i := k])
        else None)"

text \<open>The headers, the array and the number of selected columns.\<close>

definition build_select_indexes ::
  "select_statement \<Rightarrow> schema \<Rightarrow> (string + string_list \<times> int list \<times> nat) option" where
  "build_select_indexes st sch =
     (let n = length (sc_columns sch) in
      if select_all st then Some (Inr (sc_columns sch, map int [0..<n], n))
      else
        (case select_columns_loop sch (sel_columns st) 0 [] (replicate n 0) of
           None \<Rightarrow> None
         | Some (Inl m) \<Rightarrow> Some (Inl m)
         | Some (Inr (headers, arr)) \<Rightarrow> Some (Inr (headers, arr, length (sel_columns st)))))"

definition resolve_where_index :: "select_statement \<Rightarrow> schema \<Rightarrow> string + int" where
  "resolve_where_index st sch =
     (if \<not> has_where st then Inr (-1)
      else if where_column st = ''id'' then Inr (-1)
      else
        let k = schema_find_column sch (where_column st) in
        if k < 0 then Inl (snprintf 256 (''unknown column in WHERE: '' @ where_column st))
        else Inr k)"

definition row_matches_where :: "select_statement \<Rightarrow> string_list \<Rightarrow> int \<Rightarrow> bool option" where
  "row_matches_where st flds where_index =
     (if \<not> has_where st then Some True
      else if 0 \<le> where_index \<and> nat where_index < length flds
      then Some (flds ! nat where_index = where_value st)
      else None)"

text \<open>The loop of \<open>select_row_buffer_push\<close> over the first \<open>selected_count\<close> indexes.\<close>

fun select_cells :: "string_list \<Rightarrow> int \<Rightarrow> int list \<Rightarrow> string_list option" where
  "select_cells flds internal_id [] = Some []"
| "select_cells flds internal_id (k # ks) =
     (case select_cells flds internal_id ks of
        None \<Rightarrow> None
      | Some cells \<Rightarrow>
          if k = INTERNAL_ID_SELECT_INDEX then Some (snprintf 32 (show_int internal_id) # cells)
          else if 0 \<le> k \<and> nat k < length flds then Some (flds ! nat k # cells)
          else None)"

definition select_row_buffer_push ::
  "string_list list \<Rightarrow> string_list \<Rightarrow> int list \<Rightarrow> nat \<Rightarrow> int \<Rightarrow> string_list list option" where
  "select_row_buffer_push rows flds arr count internal_id =
     (if length arr < count then None
      else map_option (\<lambda>row. rows @ [row]) (select_cells flds internal_id (take count arr)))"

section \<open>Printing the result\<close>

fun widen :: "nat list \<Rightarrow> string_list \<Rightarrow> nat list" where
  "widen (w # ws) (c # cs) =
     (if w < utf8_display_width c then utf8_display_width c else w) # widen ws cs"
| "widen ws cs = ws"

definition compute_table_widths :: "string_list \<Rightarrow> string_list list \<Rightarrow> nat list" where
  "compute_table_widths headers rows = foldl widen (map utf8_display_width headers) rows"

fun border_cells :: "nat list \<Rightarrow> string" where
  "border_cells [] = []"
| "border_cells (w # ws) = replicate (w + 2) CHR ''-'' @ CHR ''+'' # border_cells ws"

definition print_table_border :: "nat list \<Rightarrow> string" where
  "print_table_border widths = CHR ''+'' # border_cells widths @ [LF]"

fun row_cells :: "string_list \<Rightarrow> nat list \<Rightarrow> string" where
  "row_cells (c # cs) (w # ws) =
     SP # c @ replicate (w - utf8_display_width c) SP @ SP # CHR ''|'' # row_cells cs ws"
| "row_cells cs ws = []"

definition print_table_row :: "string_list \<Rightarrow> nat list \<Rightarrow> string" where
  "print_table_row row widths = CHR ''|'' # row_cells row widths @ [LF]"

definition print_result_table :: "string_list \<Rightarrow> string_list list \<Rightarrow> string" where
  "print_result_table headers rows =
     (let widths = compute_table_widths headers rows in
      print_table_border widths @ print_table_row headers widths @ print_table_border widths
      @ concat (map (\<lambda>row. print_table_row row widths) rows) @ print_table_border widths)"

section \<open>SELECT\<close>

definition select_done :: "nat \<Rightarrow> exec_result" where
  "select_done n = \<lparr>er_ok = True, er_affected_rows = int n,
     er_message = snprintf 256 (''SELECT '' @ show_int (int n))\<rparr>"

definition execute_index_select ::
  "select_statement \<Rightarrow> schema \<Rightarrow> string \<Rightarrow> string_list \<Rightarrow> int list \<Rightarrow> nat \<Rightarrow> db
     \<Rightarrow> (exec_result \<times> string \<times> db) option" where
  "execute_index_select st sch data_dir headers arr count s =
     (case parse_int_strict (where_value st) of
        None \<Rightarrow> Some (exec_error ''WHERE id value must be an integer'', [], s)
      | Some where_id \<Rightarrow>
          (case table_index_find_row (db_rt s) (db_fs s) sch data_dir where_id of
             None \<Rightarrow> None
           | Some (Inl m, rt) \<Rightarrow> Some (exec_error m, [], s\<lparr>db_rt := rt\<rparr>)
           | Some (Inr None, rt) \<Rightarrow>
               Some (select_done 0, print_result_table headers [], s\<lparr>db_rt := rt\<rparr>)
           | Some (Inr (Some off), rt) \<Rightarrow>
               let r = read_row_at_offset_csv (db_fs s) data_dir (sc_storage_name sch) off in
               if \<not> rd_ok r then Some (exec_error (rd_message r), [], s\<lparr>db_rt := rt\<rparr>)
               else if length (rd_fields r) \<noteq> length (sc_columns sch)
               then Some (exec_error ''CSV row does not match schema column count'', [],
                          s\<lparr>db_rt := rt\<rparr>)
               else
                 (case select_row_buffer_push [] (rd_fields r) arr count where_id of
                    None \<Rightarrow> None
                  | Some rows \<Rightarrow>
                      Some (select_done 1, print_result_table headers rows, s\<lparr>db_rt := rt\<rparr>))))"

text \<open>The loop over the data lines, with the next internal id and the rows selected so far.\<close>

function select_loop ::
  "select_statement \<Rightarrow> schema \<Rightarrow> int list \<Rightarrow> nat \<Rightarrow> int \<Rightarrow> string \<Rightarrow> int \<Rightarrow> string_list list
     \<Rightarrow> (string + string_list list) option" where
  "select_loop st sch arr count where_index rest next_id rows =
     (if rest = [] then Some (Inr rows)
      else
        let chunk = fgets_chunk rest; line = line_text chunk; rest' = drop (length chunk) rest in
        if line = [] then select_loop st sch arr count where_index rest' next_id rows
        else
          (case csv_parse_line line of
             Inl m \<Rightarrow> Some (Inl m)
           | Inr flds \<Rightarrow>
               if length flds \<noteq> length (sc_columns sch)
               then Some (Inl ''CSV row does not match schema column count'')
               else
                 (case row_matches_where st flds where_index of
                    None \<Rightarrow> None
                  | Some False \<Rightarrow>
                      select_loop st sch arr count where_index rest' (next_id + 1) rows
                  | Some True \<Rightarrow>
                      (case select_row_buffer_push rows flds arr count next_id of
                         None \<Rightarrow> None
                       | Some rows' \<Rightarrow>
                           select_loop st sch arr count where_index rest' (next_id + 1) rows'))))"
  by pat_completeness auto
termination
  by (relation "measure (\<lambda>(st, sch, arr, count, w, rest, n, rows). length rest)")
    (auto intro!: diff_less fgets_chunk_pos simp del: length_greater_0_conv)

declare select_loop.simps [simp del]

definition execute_select ::
  "select_statement \<Rightarrow> string \<Rightarrow> string \<Rightarrow> db \<Rightarrow> (exec_result \<times> string \<times> db) option" where
  "execute_select st schema_dir data_dir s =
     (case load_schema (db_fs s) schema_dir data_dir (sel_table st) of
        Inl m \<Rightarrow> Some (exec_error m, [], s)
      | Inr sch \<Rightarrow>
          (case build_select_indexes st sch of
             None \<Rightarrow> None
           | Some (Inl m) \<Rightarrow> Some (exec_error m, [], s)
           | Some (Inr (headers, arr, count)) \<Rightarrow>
               if count = 0 then Some (exec_error [], [], s)
               else
                 (case resolve_where_index st sch of
                    Inl m \<Rightarrow> Some (exec_error m, [], s)
                  | Inr where_index \<Rightarrow>
                      if has_where st \<and> where_column st = ''id''
                      then execute_index_select st sch data_dir headers arr count s
                      else
                        let path = table_path data_dir (sc_storage_name sch) in
                        (case open_read (db_fs s) path of
                           Inl r \<Rightarrow>
                             Some (exec_error (format_system_error 256
                                     ''failed to open table data file'' path r), [], s)
                         | Inr content \<Rightarrow>
                             if content = [] then Some (exec_error ''table data file is empty'', [], s)
                             else
                               (case select_loop st sch arr count where_index
                                       (drop (length (fgets_chunk content)) content) 1 [] of
                                  None \<Rightarrow> None
                                | Some (Inl m) \<Rightarrow> Some (exec_error m, [], s)
                                | Some (Inr rows) \<Rightarrow>
                                    Some (select_done (length rows),
                                          print_result_table headers rows, s))))))"

fun execute_statement ::
  "statement \<Rightarrow> string \<Rightarrow> string \<Rightarrow> db \<Rightarrow> (exec_result \<times> string \<times> db) option" where
  "execute_statement (INSERT st) schema_dir data_dir s =
     map_option (\<lambda>(r, s'). (r, [], s')) (execute_insert st schema_dir data_dir s)"
| "execute_statement (SELECT st) schema_dir data_dir s = execute_select st schema_dir data_dir s"

definition execution_runtime_reset :: "db \<Rightarrow> db" where
  "execution_runtime_reset s = s\<lparr>db_rt := table_index_registry_reset (db_rt s)\<rparr>"

end
