(* ===== verification/Executor_Props.thy ===== *)
theory Executor_Props
  imports Executor
begin

text \<open>
  What statements do to tables. A table is abstractly the list of its rows (the fields of its
  CSV lines in file order); INSERT appends one row, SELECT prints the projection of the rows
  that match, with the position of a row as its id, and both keep the indexes consistent
  with the files.
\<close>

section \<open>Tables as lists of rows\<close>

definition line_fields :: "nat \<times> string \<Rightarrow> string_list" where
  "line_fields l = (case csv_parse_line (snd l) of Inl m \<Rightarrow> [] | Inr flds \<Rightarrow> flds)"

definition table_rows :: "fs \<Rightarrow> string \<Rightarrow> schema \<Rightarrow> string_list list" where
  "table_rows f data_dir sch = map line_fields (file_rows f data_dir (sc_storage_name sch))"

text \<open>Every row can be parsed and has one field per column.\<close>

definition table_ok :: "fs \<Rightarrow> string \<Rightarrow> schema \<Rightarrow> bool" where
  "table_ok f data_dir sch =
     (readable f data_dir (sc_storage_name sch)
      \<and> list_all (\<lambda>row. length row = length (sc_columns sch)) (table_rows f data_dir sch))"

fun numbered :: "int \<Rightarrow> 'a list \<Rightarrow> (int \<times> 'a) list" where
  "numbered n [] = []"
| "numbered n (x # xs) = (n, x) # numbered (n + 1) xs"

lemma parses_fields: "parses l \<Longrightarrow> csv_parse_line (snd l) = Inr (line_fields l)"
  by (auto simp: parses_def line_fields_def split: sum.splits)

lemma table_ok_content:
  assumes "table_ok f data_dir sch"
  obtains content where "f (table_path data_dir (sc_storage_name sch)) = Regular content"
    and "content \<noteq> []" and "list_all parses (data_lines content)"
    and "table_rows f data_dir sch = map line_fields (data_lines content)"
    and "list_all (\<lambda>row. length row = length (sc_columns sch)) (map line_fields (data_lines content))"
  using assms
  by (auto simp: table_ok_def readable_def table_rows_def file_rows_def split: fnode.splits)

section \<open>INSERT\<close>

text \<open>The row an INSERT builds, column by column.\<close>

definition insert_values :: "insert_statement \<Rightarrow> schema \<Rightarrow> string_list" where
  "insert_values st sch =
     map (\<lambda>j. case map_of (zip (map (schema_find_column sch) (ins_columns st)) (ins_values st)) (int j)
              of None \<Rightarrow> [] | Some v \<Rightarrow> v) [0..<length (sc_columns sch)]"

lemma build_row_loop_values:
  assumes "length cs = length vs" and "length row = n" and "length assigned = n"
    and "list_all (\<lambda>c. 0 \<le> schema_find_column sch c) cs" and "n = length (sc_columns sch)"
    and "distinct (map (schema_find_column sch) cs)"
    and "\<forall>c\<in>set cs. \<not> assigned ! nat (schema_find_column sch c)"
  shows "build_row_loop sch cs vs assigned row =
    Inr (map (\<lambda>j. case map_of (zip (map (schema_find_column sch) cs) vs) (int j)
                  of None \<Rightarrow> row ! j | Some v \<Rightarrow> v) [0..<n])"
  using assms
proof (induction cs vs arbitrary: assigned row rule: list_induct2)
  case Nil
  have "map ((!) row) [0..<n] = row" using Nil(1) map_nth [of row] by simp
  then show ?case by simp
next
  case (Cons c cs v vs)
  define i where "i = schema_find_column sch c"
  from Cons.prems have i: "0 \<le> i" "nat i < n" using schema_find_column_found by (auto simp: i_def)
  have fresh: "\<not> (assigned[nat i := True]) ! nat (schema_find_column sch d)" if "d \<in> set cs" for d
  proof -
    have "schema_find_column sch d \<in> schema_find_column sch ` set cs" using that by (rule imageI)
    moreover have "i \<notin> schema_find_column sch ` set cs" using Cons.prems(5) by (simp add: i_def)
    ultimately have "schema_find_column sch d \<noteq> i" by metis
    moreover have "0 \<le> schema_find_column sch d" using Cons.prems(3) that by (auto simp: list_all_iff)
    ultimately have "nat (schema_find_column sch d) \<noteq> nat i" using i(1) by simp
    then show ?thesis using Cons.prems(6) that by (simp add: nth_list_update)
  qed
  have "build_row_loop sch (c # cs) (v # vs) assigned row
      = build_row_loop sch cs vs (assigned[nat i := True]) (row[nat i := v])"
    using Cons.prems i by (simp add: i_def [symmetric] Let_def)
  also have "\<dots> = Inr (map (\<lambda>j. case map_of (zip (map (schema_find_column sch) cs) vs) (int j)
                  of None \<Rightarrow> row[nat i := v] ! j | Some v \<Rightarrow> v) [0..<n])"
    using Cons.prems fresh by (intro Cons.IH) auto
  also have "\<dots> = Inr (map (\<lambda>j. case map_of (zip (map (schema_find_column sch) (c # cs)) (v # vs)) (int j)
                  of None \<Rightarrow> row ! j | Some v \<Rightarrow> v) [0..<n])"
  proof -
    have "map_of (zip (map (schema_find_column sch) cs) vs) i = None"
      using Cons.prems(5) Cons.hyps by (auto simp: map_of_eq_None_iff i_def dest: set_zip_leftD)
    then show ?thesis
      using i Cons.prems(1) by (auto simp: i_def [symmetric] nth_list_update split: option.splits)
  qed
  finally show ?case .
qed

lemma validate_loop_None:
  "length cs = length vs \<Longrightarrow> validate_insert_loop sch cs vs = None \<Longrightarrow>
     list_all (\<lambda>c. 0 \<le> schema_find_column sch c) cs \<and> (\<forall>v\<in>set vs. LF \<notin> set v \<and> CR \<notin> set v)"
  by (induction cs vs rule: list_induct2) (auto simp: contains_newline_def split: if_splits)

text \<open>The INSERT statements that fit the schema.\<close>

definition insert_ok :: "insert_statement \<Rightarrow> schema \<Rightarrow> bool" where
  "insert_ok st sch =
     (validate_insert_columns st sch = None
      \<and> distinct (map (schema_find_column sch) (ins_columns st))
      \<and> list_all (\<lambda>v. NUL \<notin> set v) (ins_values st)
      \<and> length (csv_row (insert_values st sch)) \<le> LINE_SIZE - 1)"

lemma build_insert_row_values:
  assumes "insert_ok st sch"
  shows "build_insert_row st sch = Inr (insert_values st sch)"
proof -
  from assms have v: "length (ins_columns st) = length (ins_values st)"
    "validate_insert_loop sch (ins_columns st) (ins_values st) = None"
    by (auto simp: insert_ok_def validate_insert_columns_def split: if_splits)
  from validate_loop_None [OF v] have ok: "list_all (\<lambda>c. 0 \<le> schema_find_column sch c) (ins_columns st)"
    by simp
  define n where "n = length (sc_columns sch)"
  have "build_row_loop sch (ins_columns st) (ins_values st) (replicate n False) (replicate n []) =
      Inr (map (\<lambda>j. case map_of (zip (map (schema_find_column sch) (ins_columns st)) (ins_values st)) (int j)
                  of None \<Rightarrow> replicate n [] ! j | Some v \<Rightarrow> v) [0..<n])"
  proof (rule build_row_loop_values [OF v(1) _ _ ok n_def])
    show "\<forall>c\<in>set (ins_columns st). \<not> replicate n False ! nat (schema_find_column sch c)"
      using ok schema_find_column_found by (auto simp: n_def list_all_iff)
  qed (use assms in \<open>simp_all add: insert_ok_def\<close>)
  also have "\<dots> = Inr (insert_values st sch)"
    by (auto simp: insert_values_def n_def split: option.splits)
  finally show ?thesis by (simp add: build_insert_row_def Let_def n_def)
qed

lemma insert_values_storable:
  assumes "insert_ok st sch" and "sc_columns sch \<noteq> []"
  shows "storable (insert_values st sch)"
proof -
  from assms have v: "length (ins_columns st) = length (ins_values st)"
    "validate_insert_loop sch (ins_columns st) (ins_values st) = None"
    by (auto simp: insert_ok_def validate_insert_columns_def split: if_splits)
  have "v = [] \<or> v \<in> set (ins_values st)" if "v \<in> set (insert_values st sch)" for v
    using that by (auto simp: insert_values_def dest!: map_of_SomeD set_zip_rightD split: option.splits)
  then have "LF \<notin> set v \<and> CR \<notin> set v \<and> NUL \<notin> set v" if "v \<in> set (insert_values st sch)" for v
    using that validate_loop_None [OF v] assms(1) by (fastforce simp: insert_ok_def list_all_iff)
  moreover have "insert_values st sch \<noteq> []" using assms(2) by (simp add: insert_values_def)
  ultimately show ?thesis using assms(1) by (simp add: storable_def insert_ok_def)
qed

lemma length_insert_values: "length (insert_values st sch) = length (sc_columns sch)"
  by (simp add: insert_values_def)

text \<open>The state after a successful INSERT.\<close>

lemma table_rows_append:
  assumes "f (table_path data_dir (sc_storage_name sch)) = Regular content" and "content \<noteq> []"
    and "storable vs"
  shows "table_rows (f(table_path data_dir (sc_storage_name sch) := Regular (appended content vs))) data_dir sch
    = table_rows f data_dir sch @ [map stored vs]"
proof -
  have "vs \<noteq> []" using assms(3) by (simp add: storable_def)
  then show ?thesis
    using file_rows_append [of f data_dir "sc_storage_name sch", OF assms refl]
    by (simp add: table_rows_def line_fields_def csv_parse_row)
qed

lemma execute_insert_ok:
  assumes ok: "runtime_ok (db_fs s) data_dir (db_rt s)"
    and sch: "load_schema (db_fs s) schema_dir data_dir (ins_table st) = Inr sch"
    and tab: "table_ok (db_fs s) data_dir sch" and ins: "insert_ok st sch"
    and force: "\<not> rt_force_failure (db_rt s)"
  shows "\<exists>s'. execute_insert st schema_dir data_dir s
         = Some (\<lparr>er_ok = True, er_affected_rows = 1, er_message = ''INSERT 1''\<rparr>, s')
       \<and> runtime_ok (db_fs s') data_dir (db_rt s') \<and> \<not> rt_force_failure (db_rt s')
       \<and> table_rows (db_fs s') data_dir sch
           = table_rows (db_fs s) data_dir sch @ [map stored (insert_values st sch)]
       \<and> table_ok (db_fs s') data_dir sch
       \<and> db_fs s' = (db_fs s)(table_path data_dir (sc_storage_name sch)
                       := db_fs s' (table_path data_dir (sc_storage_name sch)))
       \<and> load_schema (db_fs s') schema_dir data_dir = load_schema (db_fs s) schema_dir data_dir
       \<and> (\<forall>content. db_fs s (table_path data_dir (sc_storage_name sch)) = Regular content \<longrightarrow>
            db_fs s' (table_path data_dir (sc_storage_name sch))
              = Regular (appended content (insert_values st sch)))"
proof -
  define f name vs where "f = db_fs s" and "name = sc_storage_name sch" and "vs = insert_values st sch"
  from load_schema_ok [OF sch] have cols: "sc_columns sch \<noteq> []" by (simp add: schema_ok_def)
  from insert_values_storable [OF ins cols] have stor: "storable vs" by (simp add: vs_def)
  from table_ok_content [OF tab] obtain content where
    c: "f (table_path data_dir name) = Regular content" "content \<noteq> []"
    by (auto simp: f_def name_def)
  have rd: "readable f data_dir name" using tab by (simp add: table_ok_def f_def name_def)
  define f' where "f' = f(table_path data_dir name := Regular (appended content vs))"
  from get_next_id_ok [OF ok, of sch] rd obtain rt i where
    g: "table_index_get_next_id (db_rt s) f sch data_dir
        = Some (Inr (1 + int (length (file_rows f data_dir name))), rt)"
    "runtime_ok f data_dir rt" "loaded_at rt i name" "\<not> rt_force_failure rt"
    using force by (auto simp: f_def name_def)
  from register_row_ok [of f data_dir rt i name sch, OF g(2,3) name_def [symmetric] c stor f'_def refl refl g(4)]
  obtain rt' where r: "table_index_register_row rt f' sch data_dir
      (1 + int (length (file_rows f data_dir name))) (int (length (content @ line_separator content)))
      = Some (None, rt')" "runtime_ok f' data_dir rt'" "\<not> rt_force_failure rt'" by blast
  have "validate_insert_columns st sch = None" using ins by (simp add: insert_ok_def)
  then have "execute_insert st schema_dir data_dir s
      = Some (\<lparr>er_ok = True, er_affected_rows = 1, er_message = ''INSERT 1''\<rparr>, \<lparr>db_fs = f', db_rt = rt'\<rparr>)"
    using sch g(1) r(1) build_insert_row_values [OF ins]
      append_row_csv_regular [of f data_dir name content vs, OF c(1)]
    by (simp add: execute_insert_def f_def [symmetric] name_def [symmetric] vs_def [symmetric]
        f'_def [symmetric])
  moreover have rows: "table_rows f' data_dir sch = table_rows f data_dir sch @ [map stored vs]"
    unfolding f'_def name_def by (rule table_rows_append) (use c stor in \<open>simp_all add: name_def\<close>)
  moreover have "table_ok f' data_dir sch"
    using tab rows rd readable_append [of f data_dir name, OF c stor f'_def]
    by (simp add: table_ok_def f_def [symmetric] name_def [symmetric] vs_def length_insert_values)
  moreover have "load_schema f' schema_dir data_dir = load_schema f schema_dir data_dir"
    unfolding f'_def using load_schema_append [of f data_dir name, OF c] by blast
  ultimately show ?thesis
    using r c(1) by (intro exI [of _ "\<lparr>db_fs = f', db_rt = rt'\<rparr>"])
      (simp add: f_def [symmetric] name_def [symmetric] vs_def [symmetric], simp add: f'_def)
qed

end
