(* ===== verification/Select_Props.thy ===== *)
theory Select_Props
  imports Executor_Props
begin

text \<open>
  SELECT computes the projection of the matching rows, whether it scans the file or goes
  through the index, and writes past the array of selected columns when a statement names
  more columns than the table has.
\<close>

section \<open>What a SELECT denotes\<close>

definition column_index :: "schema \<Rightarrow> string \<Rightarrow> int" where
  "column_index sch c = (if c = ''id'' then INTERNAL_ID_SELECT_INDEX else schema_find_column sch c)"

definition cell :: "schema \<Rightarrow> int \<Rightarrow> string_list \<Rightarrow> string \<Rightarrow> string" where
  "cell sch n row c =
     (if c = ''id'' then snprintf 32 (show_int n) else row ! nat (schema_find_column sch c))"

definition select_headers :: "select_statement \<Rightarrow> schema \<Rightarrow> string_list" where
  "select_headers st sch = (if select_all st then sc_columns sch else sel_columns st)"

definition project :: "select_statement \<Rightarrow> schema \<Rightarrow> int \<times> string_list \<Rightarrow> string_list" where
  "project st sch r = (if select_all st then snd r else map (cell sch (fst r) (snd r)) (sel_columns st))"

definition selected :: "select_statement \<Rightarrow> schema \<Rightarrow> int \<times> string_list \<Rightarrow> bool" where
  "selected st sch r =
     (\<not> has_where st
      \<or> (if where_column st = ''id'' then parse_int_strict (where_value st) = Some (fst r)
         else snd r ! nat (schema_find_column sch (where_column st)) = where_value st))"

definition answer :: "select_statement \<Rightarrow> schema \<Rightarrow> string_list list \<Rightarrow> string_list list" where
  "answer st sch rows = map (project st sch) (filter (selected st sch) (numbered 1 rows))"

definition known_columns :: "schema \<Rightarrow> string_list \<Rightarrow> bool" where
  "known_columns sch cs = list_all (\<lambda>c. c = ''id'' \<or> c \<in> set (sc_columns sch)) cs"

definition select_ok :: "select_statement \<Rightarrow> schema \<Rightarrow> bool" where
  "select_ok st sch =
     ((select_all st \<or> sel_columns st \<noteq> [] \<and> known_columns sch (sel_columns st)
                       \<and> length (sel_columns st) \<le> length (sc_columns sch))
      \<and> (has_where st \<longrightarrow> (if where_column st = ''id'' then parse_int_strict (where_value st) \<noteq> None
                           else where_column st \<in> set (sc_columns sch))))"

section \<open>The array of selected columns\<close>

lemma find_known: "c \<in> set (sc_columns sch) \<Longrightarrow>
    0 \<le> schema_find_column sch c \<and> nat (schema_find_column sch c) < length (sc_columns sch)"
  using schema_find_column_absent [of sch c] schema_find_column_found [of sch c] by fastforce

lemma select_columns_loop_ok:
  assumes "known_columns sch cs" and "i + length cs \<le> length arr"
  shows "\<exists>arr'. select_columns_loop sch cs i headers arr = Some (Inr (headers @ cs, arr'))
           \<and> length arr' = length arr
           \<and> take (i + length cs) arr' = take i arr @ map (column_index sch) cs"
  using assms
proof (induction cs arbitrary: i headers arr)
  case (Cons c cs)
  define k where "k = column_index sch c"
  from Cons.prems have i: "i < length arr" and c: "c = ''id'' \<or> c \<in> set (sc_columns sch)"
    and cs: "known_columns sch cs" by (auto simp: known_columns_def)
  have step: "select_columns_loop sch (c # cs) i headers arr
      = select_columns_loop sch cs (Suc i) (headers @ [c]) (arr[i := k])"
    using i c find_known [of c sch]
    by (auto simp: k_def column_index_def string_list_push_def Let_def)
  have "Suc i + length cs \<le> length (arr[i := k])" using Cons.prems(2) by simp
  from Cons.IH [OF cs this, of "headers @ [c]"] obtain arr' where
    "select_columns_loop sch cs (Suc i) (headers @ [c]) (arr[i := k]) = Some (Inr (headers @ c # cs, arr'))"
    "length arr' = length arr"
    "take (Suc i + length cs) arr' = take (Suc i) (arr[i := k]) @ map (column_index sch) cs" by auto
  moreover have "take (Suc i) (arr[i := k]) = take i arr @ [k]"
    using i by (simp add: take_Suc_conv_app_nth)
  ultimately show ?case using step by (simp add: k_def)
qed simp

lemma select_columns_loop_overflow:
  assumes "known_columns sch cs" and "i \<le> length arr" and "length arr < i + length cs"
  shows "select_columns_loop sch cs i headers arr = None"
  using assms
proof (induction cs arbitrary: i headers arr)
  case (Cons c cs)
  then show ?case
    using find_known [of c sch]
    by (cases "i < length arr") (auto simp: known_columns_def Let_def)
qed simp

definition select_array :: "select_statement \<Rightarrow> schema \<Rightarrow> int list \<Rightarrow> nat \<Rightarrow> bool" where
  "select_array st sch arr count =
     (count \<le> length arr
      \<and> take count arr = (if select_all st then map int [0..<length (sc_columns sch)]
                          else map (column_index sch) (sel_columns st)))"

lemma build_select_indexes_ok:
  assumes "select_ok st sch" and "sc_columns sch \<noteq> []"
  shows "\<exists>arr count. build_select_indexes st sch = Some (Inr (select_headers st sch, arr, count))
           \<and> count \<noteq> 0 \<and> select_array st sch arr count"
proof (cases "select_all st")
  case True
  with assms show ?thesis
    by (simp add: build_select_indexes_def select_headers_def select_array_def Let_def)
next
  case False
  with assms(1) have k: "known_columns sch (sel_columns st)" "sel_columns st \<noteq> []"
    "0 + length (sel_columns st) \<le> length (replicate (length (sc_columns sch)) (0::int))"
    by (auto simp: select_ok_def)
  from select_columns_loop_ok [OF k(1,3), of "[]"] False k(2,3) show ?thesis
    by (auto simp: build_select_indexes_def select_headers_def select_array_def Let_def)
qed

lemma select_cells_indexes:
  assumes "length row = length (sc_columns sch)" and "known_columns sch cs"
  shows "select_cells row n (map (column_index sch) cs) = Some (map (cell sch n row) cs)"
  using assms(2)
proof (induction cs)
  case (Cons c cs)
  then show ?case
    using find_known [of c sch] assms(1)
    by (auto simp: known_columns_def column_index_def cell_def INTERNAL_ID_SELECT_INDEX_def)
qed simp

lemma select_cells_all:
  assumes "m + length xs \<le> length row" and "drop m row = xs @ ys"
  shows "select_cells row n (map int [m..<m + length xs]) = Some xs"
  using assms
proof (induction xs arbitrary: m)
  case (Cons x xs)
  have u: "[m..<Suc (m + length xs)] = m # [Suc m..<Suc (m + length xs)]"
    by (rule upt_conv_Cons) simp
  from Cons.prems(2) have "row ! m = x" "drop (Suc m) row = xs @ ys" "m < length row"
    using Cons.prems(1) by (auto simp: nth_via_drop drop_Suc tl_drop [symmetric])
  with Cons.IH [of "Suc m"] Cons.prems(1) show ?case
    by (simp add: u INTERNAL_ID_SELECT_INDEX_def del: upt_Suc)
qed simp

lemma select_push_ok:
  assumes "select_ok st sch" and "length row = length (sc_columns sch)"
    and "select_array st sch arr count"
  shows "select_row_buffer_push rows row arr count n = Some (rows @ [project st sch (n, row)])"
proof (cases "select_all st")
  case True
  from select_cells_all [of 0 row row "[]" n]
  have "select_cells row n (map int [0..<length row]) = Some row" by simp
  with True assms show ?thesis by (simp add: select_row_buffer_push_def project_def select_array_def)
next
  case False
  with assms select_cells_indexes [of row sch "sel_columns st" n] show ?thesis
    by (simp add: select_row_buffer_push_def project_def select_array_def select_ok_def)
qed

section \<open>The scan\<close>

fun select_lines ::
  "select_statement \<Rightarrow> schema \<Rightarrow> int list \<Rightarrow> nat \<Rightarrow> int \<Rightarrow> (nat \<times> string) list \<Rightarrow> int
     \<Rightarrow> string_list list \<Rightarrow> (string + string_list list) option" where
  "select_lines st sch arr count w [] n rows = Some (Inr rows)"
| "select_lines st sch arr count w (l # ls) n rows =
     (case csv_parse_line (snd l) of
        Inl m \<Rightarrow> Some (Inl m)
      | Inr flds \<Rightarrow>
          if length flds \<noteq> length (sc_columns sch)
          then Some (Inl ''CSV row does not match schema column count'')
          else
            (case row_matches_where st flds w of
               None \<Rightarrow> None
             | Some False \<Rightarrow> select_lines st sch arr count w ls (n + 1) rows
             | Some True \<Rightarrow>
                 (case select_row_buffer_push rows flds arr count n of
                    None \<Rightarrow> None
                  | Some rows' \<Rightarrow> select_lines st sch arr count w ls (n + 1) rows')))"

lemma select_loop_lines:
  "select_loop st sch arr count w rest n rows
     = select_lines st sch arr count w (line_list off rest) n rows"
proof (induction st sch arr count w rest n rows arbitrary: off rule: select_loop.induct)
  case (1 st sch arr count w rest n rows)
  show ?case
  proof (cases "rest = []")
    case False
    note ih = "1.IH" [OF False refl refl refl]
    show ?thesis
    proof (cases "line_text (fgets_chunk rest) = []")
      case True
      show ?thesis
        using ih(1) [OF True] False True
        by (simp add: select_loop.simps [of st sch arr count w rest] line_list.simps [of off rest] Let_def)
    next
      case line: False
      show ?thesis
        using ih(2-3) [OF line] False line
        by (simp add: select_loop.simps [of st sch arr count w rest] line_list.simps [of off rest] Let_def
            split: sum.splits option.splits bool.splits)
    qed
  qed (simp add: select_loop.simps)
qed

definition scan_where :: "select_statement \<Rightarrow> schema \<Rightarrow> int \<Rightarrow> bool" where
  "scan_where st sch w =
     (has_where st \<longrightarrow> where_column st \<noteq> ''id'' \<and> w = schema_find_column sch (where_column st))"

lemma row_matches_selected:
  assumes "select_ok st sch" and "scan_where st sch w" and "length row = length (sc_columns sch)"
  shows "row_matches_where st row w = Some (selected st sch (n, row))"
  using assms find_known [of "where_column st" sch]
  by (auto simp: row_matches_where_def selected_def scan_where_def select_ok_def)

lemma select_lines_ok:
  assumes "select_ok st sch" and "scan_where st sch w" and "select_array st sch arr count"
    and "list_all parses ls"
    and "list_all (\<lambda>row. length row = length (sc_columns sch)) (map line_fields ls)"
  shows "select_lines st sch arr count w ls n rows = Some (Inr (rows
           @ map (project st sch) (filter (selected st sch) (numbered n (map line_fields ls)))))"
  using assms(4,5)
proof (induction ls arbitrary: n rows)
  case (Cons l ls)
  then have l: "csv_parse_line (snd l) = Inr (line_fields l)"
    "length (line_fields l) = length (sc_columns sch)" by (simp_all add: parses_fields)
  show ?case
    using Cons l(1) l(2) row_matches_selected [OF assms(1,2) l(2), of n]
      select_push_ok [OF assms(1) l(2) assms(3), of rows n]
    by (cases "selected st sch (n, line_fields l)") simp_all
qed simp

section \<open>The index path\<close>

lemma numbered_filter:
  "filter (\<lambda>r. fst r = k) (numbered n xs)
     = (if n \<le> k \<and> k < n + int (length xs) then [(k, xs ! nat (k - n))] else [])"
proof (induction xs arbitrary: n)
  case (Cons x xs)
  show ?case
  proof (cases "k = n")
    case False
    then have "nat (k - n) = Suc (nat (k - (n + 1)))" if "n \<le> k" using that by simp
    with False Cons show ?thesis by auto
  qed (use Cons in simp)
qed simp

lemma index_answer:
  assumes "has_where st" and "where_column st = ''id''" and "parse_int_strict (where_value st) = Some k"
  shows "answer st sch rows
    = (if 1 \<le> k \<and> k \<le> int (length rows) then [project st sch (k, rows ! nat (k - 1))] else [])"
proof -
  have "selected st sch = (\<lambda>r. fst r = k)"
    using assms by (auto simp: selected_def fun_eq_iff)
  moreover have "1 \<le> k \<and> k < 1 + int (length rows) \<longleftrightarrow> 1 \<le> k \<and> k \<le> int (length rows)" by linarith
  ultimately show ?thesis by (simp add: answer_def numbered_filter)
qed

text \<open>Reading the row of an index entry.\<close>

lemma read_indexed_row:
  assumes c: "f (table_path data_dir name) = Regular content"
    and par: "list_all parses (data_lines content)" and j: "j < length (data_lines content)"
  shows "read_row_at_offset_csv f data_dir name (int (fst (data_lines content ! j)))
    = \<lparr>rd_ok = True, rd_fields = line_fields (data_lines content ! j), rd_message = []\<rparr>"
proof -
  define l where "l = data_lines content ! j"
  have l: "(fst l, snd l) \<in> set (data_lines content)" using j by (simp add: l_def)
  with par have "csv_parse_line (snd l) = Inr (line_fields l)" by (auto simp: list_all_iff parses_fields)
  with read_row_at_line [of f data_dir name, OF c l] show ?thesis by (simp add: l_def)
qed

lemma execute_index_select_ok:
  assumes ok: "runtime_ok (db_fs s) data_dir (db_rt s)" and tab: "table_ok (db_fs s) data_dir sch"
    and sel: "select_ok st sch" and arr: "select_array st sch arr count"
    and wh: "has_where st" "where_column st = ''id''"
  shows "\<exists>rt'. execute_index_select st sch data_dir headers arr count s
      = Some (select_done (length (answer st sch (table_rows (db_fs s) data_dir sch))),
              print_result_table headers (answer st sch (table_rows (db_fs s) data_dir sch)),
              s\<lparr>db_rt := rt'\<rparr>)
    \<and> runtime_ok (db_fs s) data_dir rt' \<and> rt_force_failure rt' = rt_force_failure (db_rt s)"
proof -
  define f name rows where "f = db_fs s" and "name = sc_storage_name sch"
    and "rows = table_rows f data_dir sch"
  from sel wh obtain k where k: "parse_int_strict (where_value st) = Some k"
    by (auto simp: select_ok_def)
  from table_ok_content [OF tab] obtain content where
    c: "f (table_path data_dir name) = Regular content" "content \<noteq> []"
    and rows: "rows = map line_fields (data_lines content)"
    and par: "list_all parses (data_lines content)"
    and len: "list_all (\<lambda>row. length row = length (sc_columns sch)) rows"
    by (auto simp: f_def name_def rows_def)
  have fr: "file_rows f data_dir name = data_lines content" using c by (simp add: file_rows_def)
  have rd: "readable f data_dir name" using tab by (simp add: table_ok_def f_def name_def)
  from find_row_ok [OF ok, of sch k, folded f_def, folded name_def, unfolded fr, OF rd]
  obtain rt' where
    fd: "table_index_find_row (db_rt s) f sch data_dir k =
       Some (Inr (if 1 \<le> k \<and> k \<le> int (length (data_lines content))
                  then Some (int (fst (data_lines content ! nat (k - 1)))) else None), rt')"
    "runtime_ok f data_dir rt'" "rt_force_failure rt' = rt_force_failure (db_rt s)"
    by blast
  have "execute_index_select st sch data_dir headers arr count s
      = Some (select_done (length (answer st sch rows)), print_result_table headers (answer st sch rows),
              s\<lparr>db_rt := rt'\<rparr>)"
  proof (cases "1 \<le> k \<and> k \<le> int (length (data_lines content))")
    case True
    then have j: "nat (k - 1) < length rows" by (simp add: rows nat_less_iff)
    with len have "length (rows ! nat (k - 1)) = length (sc_columns sch)" by (simp add: list_all_length)
    then show ?thesis
      using k fd(1) True j read_indexed_row [of f data_dir name, OF c(1) par, of "nat (k - 1)"]
        select_push_ok [OF sel _ arr, of "rows ! nat (k - 1)" "[]" k] index_answer [OF wh k, of sch rows]
      by (simp add: execute_index_select_def f_def [symmetric] name_def [symmetric] rows)
  qed (use fd k index_answer [OF wh k, of sch rows] in
      \<open>auto simp: execute_index_select_def f_def [symmetric] rows\<close>)
  with fd(2,3) show ?thesis unfolding f_def [symmetric] rows_def [symmetric] by blast
qed

section \<open>SELECT\<close>

lemma execute_select_ok:
  assumes ok: "runtime_ok (db_fs s) data_dir (db_rt s)"
    and sch: "load_schema (db_fs s) schema_dir data_dir (sel_table st) = Inr sch"
    and tab: "table_ok (db_fs s) data_dir sch" and sel: "select_ok st sch"
  shows "\<exists>rt'. execute_select st schema_dir data_dir s
      = Some (select_done (length (answer st sch (table_rows (db_fs s) data_dir sch))),
              print_result_table (select_headers st sch)
                (answer st sch (table_rows (db_fs s) data_dir sch)),
              s\<lparr>db_rt := rt'\<rparr>)
    \<and> runtime_ok (db_fs s) data_dir rt' \<and> rt_force_failure rt' = rt_force_failure (db_rt s)"
proof -
  from load_schema_ok [OF sch] have cols: "sc_columns sch \<noteq> []" by (simp add: schema_ok_def)
  from build_select_indexes_ok [OF sel cols] obtain arr count where
    b: "build_select_indexes st sch = Some (Inr (select_headers st sch, arr, count))" "count \<noteq> 0"
    and arr: "select_array st sch arr count" by blast
  show ?thesis
  proof (cases "has_where st \<and> where_column st = ''id''")
    case True
    then have "resolve_where_index st sch = Inr (-1)" by (simp add: resolve_where_index_def)
    with execute_index_select_ok [OF ok tab sel arr, of "select_headers st sch"] True b sch
    show ?thesis by (auto simp: execute_select_def)
  next
    case False
    define w where "w = (if has_where st then schema_find_column sch (where_column st) else -1)"
    have rw: "resolve_where_index st sch = Inr w"
      using sel False find_known [of "where_column st" sch]
      by (auto simp: resolve_where_index_def w_def select_ok_def)
    have sw: "scan_where st sch w" using False by (auto simp: scan_where_def w_def)
    from table_ok_content [OF tab] obtain content where
      c: "db_fs s (table_path data_dir (sc_storage_name sch)) = Regular content" "content \<noteq> []"
      "list_all parses (data_lines content)"
      "table_rows (db_fs s) data_dir sch = map line_fields (data_lines content)"
      "list_all (\<lambda>row. length row = length (sc_columns sch)) (map line_fields (data_lines content))"
      by blast
    have loop: "select_loop st sch arr count w (drop (length (fgets_chunk content)) content) 1 []
        = Some (Inr (answer st sch (table_rows (db_fs s) data_dir sch)))"
      using select_lines_ok [OF sel sw arr c(3,5), of 1 "[]"]
      by (simp add: select_loop_lines [of _ _ _ _ _ _ _ _ "length (fgets_chunk content)"]
          data_lines_def [symmetric] answer_def c(4))
    show ?thesis
      using b sch rw loop c(1,2) False ok
      by (intro exI [of _ "db_rt s"]) (auto simp: execute_select_def Let_def open_read_def)
  qed
qed

end
