(* ===== verification/Result_Table.thy ===== *)
theory Result_Table
  imports Executor
begin

text \<open>
  The printed result table of \<open>src/execution/executor.c\<close>: every line has the same display
  width, whatever bytes (valid UTF-8 or not) the cells hold.
\<close>

section \<open>Display width of concatenations\<close>

lemma continuation_bit: "continuation b \<Longrightarrow> bit b 7"
proof -
  assume "continuation b"
  then have "bit (b AND 0xC0) 7 = bit (0x80 :: 32 word) 7" by (simp add: continuation_def)
  then show ?thesis by (simp add: bit_simps)
qed

lemma not_continuation_ascii: "n < 128 \<Longrightarrow> \<not> continuation (word_of_nat n)"
proof
  assume n: "n < 128" and "continuation (word_of_nat n)"
  then have "bit (word_of_nat n :: 32 word) 7" by (simp add: continuation_bit)
  then have "bit n 7" by (simp add: bit_simps)
  with n show False by (simp add: bit_iff_odd)
qed

lemma text_byte_same: "i < length s \<Longrightarrow> text_byte (s @ t) i = text_byte s i"
  by (simp add: text_byte_def nth_append)

lemma not_continuation_end: "length s \<le> i \<Longrightarrow> \<not> continuation (text_byte s i)"
  using not_continuation_ascii [of 0] by (simp add: text_byte_def)

lemma not_continuation_next:
  "byte c < 128 \<Longrightarrow> \<not> continuation (text_byte (s @ c # t) (length s))"
  by (simp add: text_byte_def not_continuation_ascii)

lemma continuation_same:
  assumes "byte c < 128" and "s \<noteq> []"
  shows "continuation (text_byte (s @ c # t) 1) \<longleftrightarrow> continuation (text_byte s 1)"
    and "continuation (text_byte s 1) \<Longrightarrow>
       continuation (text_byte (s @ c # t) 2) \<longleftrightarrow> continuation (text_byte s 2)"
    and "continuation (text_byte s 1) \<Longrightarrow> continuation (text_byte s 2) \<Longrightarrow>
       continuation (text_byte (s @ c # t) 3) \<longleftrightarrow> continuation (text_byte s 3)"
    and "continuation (text_byte s i) \<Longrightarrow> text_byte (s @ c # t) i = text_byte s i"
proof -
  have step: "continuation (text_byte (s @ c # t) i) \<longleftrightarrow> continuation (text_byte s i)"
    if "i \<le> length s" for i
    using that not_continuation_next [OF assms(1)] not_continuation_end [of s i]
    by (cases "i < length s") (auto simp: text_byte_same)
  have len: "i < length s" if "continuation (text_byte s i)" for i
    using that not_continuation_end [of s i] by (metis leI)
  show "continuation (text_byte (s @ c # t) 1) \<longleftrightarrow> continuation (text_byte s 1)"
    using assms(2) by (intro step) (cases s; simp)
  show "continuation (text_byte s 1) \<Longrightarrow>
       continuation (text_byte (s @ c # t) 2) \<longleftrightarrow> continuation (text_byte s 2)"
    using len [of 1] by (intro step) simp
  show "continuation (text_byte s 1) \<Longrightarrow> continuation (text_byte s 2) \<Longrightarrow>
       continuation (text_byte (s @ c # t) 3) \<longleftrightarrow> continuation (text_byte s 3)"
    using len [of 2] by (intro step) simp
  show "continuation (text_byte s i) \<Longrightarrow> text_byte (s @ c # t) i = text_byte s i"
    using len [of i] by (intro text_byte_same)
qed

lemma decode_prefix:
  assumes "byte c < 128" and "s \<noteq> []"
  shows "utf8_decode_codepoint (s @ c # t) = utf8_decode_codepoint s"
proof -
  note same = continuation_same [OF assms, where t = t]
  have b0: "text_byte (s @ c # t) 0 = text_byte s 0"
    using assms(2) by (intro text_byte_same) simp
  show ?thesis
  proof (cases "continuation (text_byte s 1)")
    case False
    with same(1) b0 show ?thesis by (simp add: utf8_decode_codepoint_def Let_def)
  next
    case 1: True
    note b1 = same(4) [OF 1]
    show ?thesis
    proof (cases "continuation (text_byte s 2)")
      case False
      with same(2) [OF 1] b0 b1 1 show ?thesis by (simp add: utf8_decode_codepoint_def Let_def)
    next
      case 2: True
      note b2 = same(4) [OF 2]
      show ?thesis
      proof (cases "continuation (text_byte s 3)")
        case False
        with same(3) [OF 1 2] b0 b1 b2 1 2 show ?thesis
          by (simp add: utf8_decode_codepoint_def Let_def)
      next
        case 3: True
        note b3 = same(4) [OF 3]
        with b0 b1 b2 1 2 3 show ?thesis by (simp add: utf8_decode_codepoint_def Let_def)
      qed
    qed
  qed
qed

lemma decode_length:
  assumes "s \<noteq> []"
  shows "snd (snd (utf8_decode_codepoint s)) \<le> length s"
proof -
  have len: "i < length s" if "continuation (text_byte s i)" for i
    using that not_continuation_end [of s i] by (metis leI)
  have "1 \<le> length s" using assms by (cases s) auto
  then show ?thesis
    using len [of 1] len [of 2] len [of 3]
    by (auto simp: utf8_decode_codepoint_def Let_def)
qed

lemma width_append:
  assumes "byte c < 128"
  shows "utf8_display_width (s @ c # t) = utf8_display_width s + utf8_display_width (c # t)"
proof (induction s rule: utf8_display_width.induct)
  case (1 s)
  show ?case
  proof (cases "s = []")
    case False
    obtain ok cp n where d: "utf8_decode_codepoint s = (ok, cp, n)" by (metis prod.exhaust)
    have "n \<le> length s" using decode_length [OF False] d by simp
    with "1.IH" [OF False d [symmetric] refl] decode_prefix [OF assms False, of t] d False show ?thesis
      by (simp add: utf8_display_width.simps [of s] utf8_display_width.simps [of "s @ c # t"])
  qed (simp add: utf8_display_width.simps [of "[]"])
qed

definition printable_ascii :: "char \<Rightarrow> bool" where
  "printable_ascii c = (0 < byte c \<and> byte c < 128)"

lemma unicode_width_ascii:
  assumes "0 < n" and "n < 128"
  shows "unicode_display_width (word_of_nat n) = 1"
proof -
  have u: "unat (word_of_nat n :: 32 word) = n" using assms by (simp add: unat_of_nat take_bit_nat_eq_self)
  have "(word_of_nat n :: 32 word) \<noteq> 0" using u assms(1) by (metis unat_0 less_irrefl)
  moreover have "\<not> in_range (word_of_nat n) (lo, hi)" if "128 \<le> unat lo" for lo hi
    using that u assms(2) by (simp add: in_range_def word_le_nat_alt)
  ultimately show ?thesis
    by (simp add: unicode_display_width_def zero_width_ranges_def double_width_ranges_def)
qed

lemma width_ascii_cons:
  assumes "printable_ascii c"
  shows "utf8_display_width (c # s) = 1 + utf8_display_width s"
proof -
  have b: "text_byte (c # s) 0 = word_of_nat (byte c)" by (simp add: text_byte_def)
  have "unat (word_of_nat (byte c) :: 32 word) = byte c"
    unfolding unat_of_nat by (rule mod_less, rule less_trans [OF byte_lt_256 [of c]]) simp
  then have "(word_of_nat (byte c) :: 32 word) < 0x80"
    using assms by (simp add: word_less_nat_alt printable_ascii_def)
  with b have "utf8_decode_codepoint (c # s) = (True, word_of_nat (byte c), 1)"
    by (simp add: utf8_decode_codepoint_def Let_def)
  with assms show ?thesis
    by (simp add: utf8_display_width.simps [of "c # s"] unicode_width_ascii printable_ascii_def)
qed

lemma width_Nil [simp]: "utf8_display_width [] = 0"
  by (simp add: utf8_display_width.simps)

lemma width_ascii: "list_all printable_ascii s \<Longrightarrow> utf8_display_width (s @ t) = length s + utf8_display_width t"
  by (induction s) (auto simp: width_ascii_cons)

lemma table_chars_ascii [simp]:
  "printable_ascii SP" "printable_ascii CHR ''|''" "printable_ascii CHR ''+''"
  "printable_ascii CHR ''-''"
  by (simp_all add: printable_ascii_def byte_def)

section \<open>The lines of the table\<close>

definition table_width :: "nat list \<Rightarrow> nat" where
  "table_width ws = 1 + sum_list (map (\<lambda>w. w + 3) ws)"

lemma width_border_cells: "utf8_display_width (border_cells ws) = sum_list (map (\<lambda>w. w + 3) ws)"
proof (induction ws)
  case (Cons w ws)
  have "list_all printable_ascii (replicate (w + 2) CHR ''-'')"
    by (simp add: list_all_iff del: replicate_Suc)
  from width_ascii [OF this] Cons show ?case by (simp add: width_ascii_cons)
qed simp

lemma width_row_cells:
  assumes "list_all2 (\<lambda>c w. utf8_display_width c \<le> w) row ws"
  shows "utf8_display_width (row_cells row ws) = sum_list (map (\<lambda>w. w + 3) ws)"
  using assms
proof (induction row ws rule: list_all2_induct)
  case (Cons c cs w ws)
  define t where "t = SP # CHR ''|'' # row_cells cs ws"
  define pad where "pad = replicate (w - utf8_display_width c) SP"
  have t: "utf8_display_width t = 2 + sum_list (map (\<lambda>w. w + 3) ws)"
    using Cons.IH by (simp add: t_def width_ascii_cons)
  have pt: "utf8_display_width (pad @ t) = length pad + utf8_display_width t"
    by (rule width_ascii) (simp add: pad_def list_all_iff)
  have "\<exists>r. pad @ t = SP # r"
    by (cases "w - utf8_display_width c") (simp_all add: pad_def t_def)
  then obtain r where r: "pad @ t = SP # r" by blast
  have "utf8_display_width (c @ pad @ t) = utf8_display_width c + utf8_display_width (pad @ t)"
    unfolding r by (rule width_append) (simp add: byte_def)
  moreover have "row_cells (c # cs) (w # ws) = SP # c @ pad @ t" by (simp add: t_def pad_def)
  ultimately show ?case using pt t Cons.hyps(1) by (simp add: width_ascii_cons pad_def)
qed simp

lemma widen_le:
  "length row = length ws \<Longrightarrow> list_all2 (\<lambda>c w. utf8_display_width c \<le> w) row (widen ws row)
     \<and> list_all2 (\<le>) ws (widen ws row) \<and> length (widen ws row) = length ws"
  by (induction row ws rule: list_induct2) auto

lemma foldl_widen:
  assumes "list_all (\<lambda>row. length row = length ws) rows"
  shows "list_all2 (\<le>) ws (foldl widen ws rows)
    \<and> (\<forall>row\<in>set rows. list_all2 (\<lambda>c w. utf8_display_width c \<le> w) row (foldl widen ws rows))"
  using assms
proof (induction rows arbitrary: ws)
  case Nil
  then show ?case by (simp add: list.rel_refl)
next
  case (Cons row rows)
  define ws' where "ws' = widen ws row"
  from Cons.prems widen_le [of row ws]
  have w: "list_all2 (\<lambda>c w. utf8_display_width c \<le> w) row ws'" "list_all2 (\<le>) ws ws'"
    "length ws' = length ws" by (simp_all add: ws'_def)
  from Cons w(3) have ih: "list_all2 (\<le>) ws' (foldl widen ws' rows)"
    "\<forall>row\<in>set rows. list_all2 (\<lambda>c w. utf8_display_width c \<le> w) row (foldl widen ws' rows)"
    by auto
  have "list_all2 (\<le>) ws (foldl widen ws' rows)"
    by (rule list_all2_trans [OF _ w(2) ih(1)]) simp
  moreover have "list_all2 (\<lambda>c w. utf8_display_width c \<le> w) row (foldl widen ws' rows)"
    by (rule list_all2_trans [OF _ w(1) ih(1)]) simp
  ultimately show ?case using ih by (simp add: ws'_def)
qed

definition table_lines :: "string_list \<Rightarrow> string_list list \<Rightarrow> string list" where
  "table_lines headers rows =
     (let ws = compute_table_widths headers rows;
          border = CHR ''+'' # border_cells ws; line = (\<lambda>row. CHR ''|'' # row_cells row ws) in
      [border, line headers, border] @ map line rows @ [border])"

lemma print_result_table_lines:
  "print_result_table headers rows = concat (map (\<lambda>l. l @ [LF]) (table_lines headers rows))"
  by (simp add: print_result_table_def table_lines_def Let_def print_table_border_def
      print_table_row_def comp_def)

lemma table_lines_width:
  assumes "list_all (\<lambda>row. length row = length headers) rows"
  shows "list_all (\<lambda>l. utf8_display_width l = table_width (compute_table_widths headers rows))
           (table_lines headers rows)"
proof -
  define ws where "ws = compute_table_widths headers rows"
  from foldl_widen [of "map utf8_display_width headers" rows] assms
  have f: "list_all2 (\<le>) (map utf8_display_width headers) ws"
    "\<forall>row\<in>set rows. list_all2 (\<lambda>c w. utf8_display_width c \<le> w) row ws"
    by (simp_all add: ws_def compute_table_widths_def)
  then have "list_all2 (\<lambda>c w. utf8_display_width c \<le> w) headers ws" by (simp add: list_all2_map1)
  with f(2) show ?thesis
    unfolding table_lines_def Let_def ws_def [symmetric]
    by (auto simp: list_all_iff table_width_def width_ascii_cons width_border_cells width_row_cells)
qed

end
