(* ===== verification/Executor_Safety.thy ===== *)
theory Executor_Safety
  imports Select_Props
begin

text \<open>
  When a statement meets undefined behaviour. From trees that are well formed every INSERT returns,
  whatever the files hold, and a SELECT returns unless it names more columns than its table has, all
  of them known up to the first one too many; and the trees stay well formed.
\<close>

section \<open>The registry\<close>

definition trees_ok :: "runtime \<Rightarrow> bool" where
  "trees_ok rt = (oom (rt_alloc rt) = [] \<and> (\<forall>e\<in>set (rt_registry rt). bptree_inv (ti_tree e)))"

lemma trees_ok_store:
  assumes "\<forall>e\<in>set reg. bptree_inv (ti_tree e)" and "oom al = []" and "bptree_inv (ti_tree e)"
  shows "trees_ok (rt\<lparr>rt_registry := reg[i := e], rt_alloc := al\<rparr>)"
  using assms set_update_subset_insert [of reg i e] by (auto simp: trees_ok_def)

lemma get_or_create_trees:
  assumes "get_or_create_table_index (rt_registry rt) name = (i, reg)" and "trees_ok rt"
  shows "i < length reg" and "\<forall>e\<in>set reg. bptree_inv (ti_tree e)"
  using assms
  by (auto simp: get_or_create_table_index_def new_entry_def trees_ok_def bpt.inv_empty split: option.splits
      dest: find_table_index_Some)

lemma ensure_loaded_safe:
  assumes "trees_ok rt"
  shows "\<exists>res rt'. ensure_loaded rt f sch data_dir = Some (res, rt') \<and> trees_ok rt'
    \<and> (\<forall>i. res = Inr i \<longrightarrow> i < length (rt_registry rt'))"
proof -
  let ?name = "sc_storage_name sch"
  obtain i reg where g: "get_or_create_table_index (rt_registry rt) ?name = (i, reg)" by fastforce
  note reg = get_or_create_trees [OF g assms]
  from assms have al: "oom (rt_alloc rt) = []" by (simp add: trees_ok_def)
  show ?thesis
  proof (cases "ti_loaded (reg ! i)")
    case True
    with g reg al show ?thesis by (simp add: ensure_loaded_def trees_ok_def)
  next
    case False
    from scan_rebuild [OF al, of f data_dir ?name] obtain r t n al' where
      s: "scan_rows_csv f data_dir ?name rebuild_row (bptree_init, 1, rt_alloc rt) = Some (r, (t, n, al'))"
      "oom al' = []" "r = None \<longrightarrow> bptree_inv t" by (metis option.distinct(1))
    have "trees_ok (rt\<lparr>rt_registry := reg[i := reset_entry (reg ! i)], rt_alloc := al'\<rparr>)"
      by (rule trees_ok_store [OF reg(2) s(2)]) (simp add: reset_entry_def bpt.inv_empty)
    moreover have "trees_ok (rt\<lparr>rt_registry := reg[i := (reg ! i)\<lparr>ti_loaded := True, ti_tree := t,
        ti_next_id := n\<rparr>], rt_alloc := al'\<rparr>)" if "r = None"
      by (rule trees_ok_store [OF reg(2) s(2)]) (use s(3) that in simp)
    ultimately show ?thesis
      using g reg s(1) False by (cases r) (simp_all add: ensure_loaded_def)
  qed
qed

lemma invalidate_safe: "trees_ok rt \<Longrightarrow> trees_ok (table_index_invalidate rt name)"
  by (auto simp: table_index_invalidate_def trees_ok_def reset_entry_def bpt.inv_empty split: option.splits
      dest!: subsetD [OF set_update_subset_insert])

lemma get_next_id_safe:
  "trees_ok rt \<Longrightarrow> \<exists>res rt'. table_index_get_next_id rt f sch data_dir = Some (res, rt') \<and> trees_ok rt'"
  using ensure_loaded_safe [of rt f sch data_dir]
  by (auto simp: table_index_get_next_id_def split: sum.split)

lemma find_row_safe:
  "trees_ok rt \<Longrightarrow> \<exists>res rt'. table_index_find_row rt f sch data_dir k = Some (res, rt') \<and> trees_ok rt'"
  using ensure_loaded_safe [of rt f sch data_dir]
  by (auto simp: table_index_find_row_def split: sum.split)

lemma bptree_insert_safe:
  assumes "bptree_inv t" and "oom al = []"
  shows "\<exists>res t' al'. bptree_insert al t k v = Some (res, t', al') \<and> bptree_inv t' \<and> oom al' = []"
  using bpt.put_new [OF assms, of k v] bpt.put_dup [OF assms, of k v] assms
  by (cases "k \<in> fst ` set (tree_entries t)") fastforce+

lemma register_row_safe:
  assumes "trees_ok rt"
  shows "\<exists>res rt'. table_index_register_row rt f sch data_dir k off = Some (res, rt') \<and> trees_ok rt'"
proof (cases "rt_force_failure rt")
  case True
  with assms show ?thesis by (simp add: table_index_register_row_def trees_ok_def)
next
  case False
  from ensure_loaded_safe [OF assms, of f sch data_dir] obtain res rt' where
    e: "ensure_loaded rt f sch data_dir = Some (res, rt')" "trees_ok rt'"
    "\<forall>i. res = Inr i \<longrightarrow> i < length (rt_registry rt')" by blast
  show ?thesis
  proof (cases res)
    case (Inr i)
    from e(2,3) Inr have t: "oom (rt_alloc rt') = []" "bptree_inv (ti_tree (rt_registry rt' ! i))"
      "\<forall>e\<in>set (rt_registry rt'). bptree_inv (ti_tree e)" by (simp_all add: trees_ok_def)
    from bptree_insert_safe [OF t(2,1), of k off] obtain m tr al where
      b: "bptree_insert (rt_alloc rt') (ti_tree (rt_registry rt' ! i)) k off = Some (m, tr, al)"
      "bptree_inv tr" "oom al = []" by blast
    show ?thesis
      using False e(1) Inr b trees_ok_store [OF t(3) b(3)]
      by (cases m) (simp_all add: table_index_register_row_def Let_def)
  qed (use False e in \<open>simp add: table_index_register_row_def\<close>)
qed

section \<open>INSERT\<close>

lemma execute_insert_safe:
  assumes "trees_ok (db_rt s)"
  shows "\<exists>r s'. execute_insert st schema_dir data_dir s = Some (r, s') \<and> trees_ok (db_rt s')"
proof (cases "load_schema (db_fs s) schema_dir data_dir (ins_table st)")
  case (Inr sch)
  from get_next_id_safe [OF assms, of "db_fs s" sch data_dir] obtain res rt where
    n: "table_index_get_next_id (db_rt s) (db_fs s) sch data_dir = Some (res, rt)" "trees_ok rt" by blast
  have reg: "\<exists>m rt'. table_index_register_row rt f sch data_dir k off = Some (m, rt') \<and> trees_ok rt'
      \<and> trees_ok (table_index_invalidate rt' (sc_storage_name sch))" for f k off
    using register_row_safe [OF n(2), of f sch data_dir k off] invalidate_safe by blast
  show ?thesis
  proof (cases "validate_insert_columns st sch")
    case None
    show ?thesis
    proof (cases res)
      case id: (Inr next_id)
      show ?thesis
      proof (cases "build_insert_row st sch")
        case row: (Inr row)
        obtain r f where a: "append_row_csv (db_fs s) data_dir (sc_storage_name sch) row = (r, f)" by fastforce
        from reg [of f next_id "sr_row_offset r"] obtain m rt' where
          "table_index_register_row rt f sch data_dir next_id (sr_row_offset r) = Some (m, rt')"
          "trees_ok rt'" "trees_ok (table_index_invalidate rt' (sc_storage_name sch))" by blast
        with Inr None n id row a show ?thesis
          by (cases m) (simp_all add: execute_insert_def)
      qed (use Inr None n id in \<open>simp add: execute_insert_def\<close>)
    qed (use Inr None n in \<open>simp add: execute_insert_def\<close>)
  qed (use Inr assms in \<open>simp add: execute_insert_def\<close>)
qed (use assms in \<open>simp add: execute_insert_def\<close>)

section \<open>SELECT\<close>

text \<open>The statement fills the array of selected columns, and goes on.\<close>

definition too_wide :: "select_statement \<Rightarrow> schema \<Rightarrow> bool" where
  "too_wide st sch =
     (\<not> select_all st \<and> length (sc_columns sch) < length (sel_columns st)
      \<and> known_columns sch (take (Suc (length (sc_columns sch))) (sel_columns st)))"

definition index_ok :: "schema \<Rightarrow> int \<Rightarrow> bool" where
  "index_ok sch k = (k = INTERNAL_ID_SELECT_INDEX \<or> 0 \<le> k \<and> nat k < length (sc_columns sch))"

lemma select_columns_loop_safe:
  assumes "list_all (index_ok sch) arr" and "i \<le> length arr"
  shows "case select_columns_loop sch cs i headers arr of
      None \<Rightarrow> length arr < i + length cs \<and> known_columns sch (take (Suc (length arr - i)) cs)
    | Some (Inl m) \<Rightarrow> True
    | Some (Inr (hs, arr')) \<Rightarrow> list_all (index_ok sch) arr' \<and> length arr' = length arr \<and> i + length cs \<le> length arr"
  using assms
proof (induction cs arbitrary: i headers arr)
  case (Cons c cs)
  define k where "k = column_index sch c"
  show ?case
  proof (cases "c = ''id'' \<or> 0 \<le> schema_find_column sch c")
    case True
    then have known: "c = ''id'' \<or> c \<in> set (sc_columns sch)" and k: "index_ok sch k"
      using schema_find_column_absent [of sch c] schema_find_column_found [of sch c]
      by (auto simp: index_ok_def k_def column_index_def)
    show ?thesis
    proof (cases "i < length arr")
      case True
      have step: "select_columns_loop sch (c # cs) i headers arr
          = select_columns_loop sch cs (Suc i) (headers @ [c]) (arr[i := k])"
        using True known find_known [of c sch]
        by (auto simp: k_def column_index_def string_list_push_def Let_def)
      have "list_all (index_ok sch) (arr[i := k])"
        using Cons.prems(1) k set_update_subset_insert [of arr i k] by (auto simp: list_all_iff)
      from Cons.IH [OF this, of "Suc i" "headers @ [c]"] True known show ?thesis
        unfolding step
        by (auto simp: Suc_diff_Suc known_columns_def split: option.splits sum.splits)
    next
      case False
      then have "select_columns_loop sch (c # cs) i headers arr = None"
        using known find_known [of c sch] by (auto simp: Let_def)
      with False Cons.prems(2) known show ?thesis by (simp add: known_columns_def)
    qed
  qed (auto simp: Let_def)
qed simp

lemma build_select_indexes_safe:
  assumes "sc_columns sch \<noteq> []"
  shows "case build_select_indexes st sch of
      None \<Rightarrow> too_wide st sch
    | Some (Inl m) \<Rightarrow> True
    | Some (Inr (headers, arr, n)) \<Rightarrow> list_all (index_ok sch) (take n arr) \<and> n \<le> length arr"
proof (cases "select_all st")
  case True
  then show ?thesis by (simp add: build_select_indexes_def Let_def list_all_iff index_ok_def)
next
  case False
  have "list_all (index_ok sch) (replicate (length (sc_columns sch)) 0)"
    using assms by (simp add: list_all_iff index_ok_def)
  from select_columns_loop_safe [OF this, of 0 "sel_columns st" "[]"] False show ?thesis
    by (auto simp: build_select_indexes_def Let_def too_wide_def list_all_iff
        split: option.splits sum.splits dest: in_set_takeD)
qed

lemma select_cells_safe:
  "list_all (index_ok sch) ks \<Longrightarrow> length flds = length (sc_columns sch) \<Longrightarrow> select_cells flds k ks \<noteq> None"
  by (induction ks) (auto simp: index_ok_def)

lemma select_push_safe:
  assumes "list_all (index_ok sch) (take n arr)" and "n \<le> length arr" and "length flds = length (sc_columns sch)"
  shows "\<exists>rows'. select_row_buffer_push rows flds arr n k = Some rows'"
  using select_cells_safe [OF assms(1,3)] assms(2) by (auto simp: select_row_buffer_push_def)

lemma select_loop_safe:
  assumes "list_all (index_ok sch) (take n arr)" and "n \<le> length arr"
    and "has_where st \<longrightarrow> 0 \<le> w \<and> nat w < length (sc_columns sch)"
  shows "select_loop st sch arr n w rest k rows \<noteq> None"
  using assms
proof (induction st sch arr n w rest k rows rule: select_loop.induct)
  case (1 st sch arr n w rest k rows)
  show ?case
  proof (cases "rest = [] \<or> line_text (fgets_chunk rest) = []")
    case True
    show ?thesis
    proof (cases "rest = []")
      case True
      then show ?thesis by (subst select_loop.simps) simp
    next
      case False
      with True 1(1) [OF False refl refl refl _ 1(4-6)] show ?thesis
        by (subst select_loop.simps) (simp add: Let_def)
    qed
  next
    case False
    then have ne: "rest \<noteq> []" "line_text (fgets_chunk rest) \<noteq> []" by auto
    note unfold = select_loop.simps [of st sch arr n w rest] Let_def
    show ?thesis
    proof (cases "csv_parse_line (line_text (fgets_chunk rest))")
      case (Inr flds)
      show ?thesis
      proof (cases "length flds = length (sc_columns sch)")
        case True
        from select_push_safe [OF 1(4,5) True, of rows k] obtain rows' where
          p: "select_row_buffer_push rows flds arr n k = Some rows'" by blast
        have "row_matches_where st flds w \<noteq> None" using 1(6) True by (auto simp: row_matches_where_def)
        then obtain b where b: "row_matches_where st flds w = Some b" by blast
        show ?thesis
          using 1(3) [OF ne(1) refl refl refl ne(2) Inr _ b _ 1(4-6)]
            1(2) [OF ne(1) refl refl refl ne(2) Inr _ b _ p 1(4-6)] ne Inr True b p
          by (cases b) (simp_all add: unfold)
      qed (use ne Inr in \<open>simp add: unfold\<close>)
    qed (use ne in \<open>simp add: unfold\<close>)
  qed
qed

lemma execute_index_select_safe:
  assumes "trees_ok (db_rt s)" and "list_all (index_ok sch) (take n arr)" and "n \<le> length arr"
  shows "\<exists>r out s'. execute_index_select st sch data_dir headers arr n s = Some (r, out, s') \<and> trees_ok (db_rt s')"
proof (cases "parse_int_strict (where_value st)")
  case (Some k)
  from find_row_safe [OF assms(1), of "db_fs s" sch data_dir k] obtain res rt where
    f: "table_index_find_row (db_rt s) (db_fs s) sch data_dir k = Some (res, rt)" "trees_ok rt" by blast
  show ?thesis
  proof (cases "\<exists>off. res = Inr (Some off)")
    case True
    then obtain off where off: "res = Inr (Some off)" by blast
    define r where "r = read_row_at_offset_csv (db_fs s) data_dir (sc_storage_name sch) off"
    show ?thesis
      using Some f off select_push_safe [OF assms(2,3), of "rd_fields r" "[]" k]
      by (cases "rd_ok r \<and> length (rd_fields r) = length (sc_columns sch)")
        (auto simp: execute_index_select_def Let_def r_def [symmetric])
  next
    case False
    with Some f show ?thesis
      by (auto simp: execute_index_select_def split: sum.split option.split)
  qed
qed (use assms(1) in \<open>simp add: execute_index_select_def\<close>)

lemma execute_select_safe:
  assumes "trees_ok (db_rt s)"
  shows "case execute_select st schema_dir data_dir s of
      None \<Rightarrow> \<exists>sch. load_schema (db_fs s) schema_dir data_dir (sel_table st) = Inr sch \<and> too_wide st sch
    | Some (r, out, s') \<Rightarrow> trees_ok (db_rt s')"
proof (cases "load_schema (db_fs s) schema_dir data_dir (sel_table st)")
  case (Inr sch)
  from load_schema_ok [OF Inr] have "sc_columns sch \<noteq> []" by (simp add: schema_ok_def)
  note built = build_select_indexes_safe [OF this, of st]
  show ?thesis
  proof (cases "build_select_indexes st sch")
    case None
    with Inr built show ?thesis by (simp add: execute_select_def)
  next
    case (Some x)
    show ?thesis
    proof (cases x)
      case (Inl m)
      with Inr Some assms show ?thesis by (simp add: execute_select_def)
    next
      case sel: (Inr y)
      obtain headers arr n where y: "y = (headers, arr, n)" by (metis prod_cases3)
      from built Some sel y have arr: "list_all (index_ok sch) (take n arr)" "n \<le> length arr" by auto
      show ?thesis
      proof (cases "n = 0 \<or> (\<exists>m. resolve_where_index st sch = Inl m)")
        case True
        with Inr Some sel y assms show ?thesis by (auto simp: execute_select_def)
      next
        case False
        then obtain w where w: "n \<noteq> 0" "resolve_where_index st sch = Inr w" by (cases "resolve_where_index st sch") auto
        show ?thesis
        proof (cases "has_where st \<and> where_column st = ''id''")
          case True
          with execute_index_select_safe [OF assms arr, of st data_dir headers] Inr Some sel y w
          show ?thesis by (auto simp: execute_select_def)
        next
          case scan: False
          with w(2) schema_find_column_found [of sch "where_column st"]
          have "has_where st \<longrightarrow> 0 \<le> w \<and> nat w < length (sc_columns sch)"
            by (auto simp: resolve_where_index_def Let_def split: if_splits)
          note loop = select_loop_safe [OF arr this]
          show ?thesis
          proof (cases "open_read (db_fs s) (table_path data_dir (sc_storage_name sch))")
            case opened: (Inr content)
            from loop obtain res where "select_loop st sch arr n w
                (drop (length (fgets_chunk content)) content) 1 [] = Some res" by blast
            with Inr Some sel y w scan assms opened show ?thesis
              by (cases res) (auto simp: execute_select_def Let_def)
          qed (use Inr Some sel y w scan assms in \<open>auto simp: execute_select_def Let_def\<close>)
        qed
      qed
    qed
  qed
qed (use assms in \<open>simp add: execute_select_def\<close>)

end
