(* ===== verification/Database_Props.thy ===== *)
theory Database_Props
  imports Select_Props Result_Table
begin

text \<open>
  The properties of the storage and execution layers: schemas, table indexes, INSERT, SELECT
  and the printed table, with a small concrete database as their witness.
\<close>

section \<open>A concrete database\<close>

definition demo_meta :: string where
  "demo_meta = ''table=users'' @ [LF] @ ''columns=name,age'' @ [LF]"

definition demo_csv :: string where
  "demo_csv = ''name,age'' @ [LF] @ ''Ann,7'' @ [LF]"

definition demo_fs :: fs where
  "demo_fs = (\<lambda>p. if p = ''schema/users.meta'' then Regular demo_meta
     else if p = ''data/users.csv'' then Regular demo_csv else Absent ''No such file or directory'')"

definition demo_schema :: schema where
  "demo_schema =
     \<lparr>sc_table_name = Some ''users'', sc_storage_name = ''users'', sc_columns = [''name'', ''age'']\<rparr>"

definition fresh_runtime :: runtime where
  "fresh_runtime = \<lparr>rt_registry = [], rt_force_failure = False, rt_alloc = \<lparr>next_addr = 0, oom = []\<rparr>\<rparr>"

definition demo_db :: db where
  "demo_db = \<lparr>db_fs = demo_fs, db_rt = fresh_runtime\<rparr>"

lemmas eval_lines = line_text_def c_str_def strip_line_endings_def fgets_chunk_def LINE_SIZE_def
lemmas eval_csv = csv_parse_line_def string_list_push_def append_character_def field_text_def
  trim_whitespace_def isspace_def byte_def

lemma demo_lines: "text_lines demo_meta = [''table=users'', ''columns=name,age'']"
  by (simp add: demo_meta_def text_lines.simps eval_lines)

lemma demo_load: "load_schema demo_fs ''schema'' ''data'' ''users'' = Inr demo_schema"
  by (simp add: load_schema_def find_schema_path_def demo_fs_def open_read_def demo_lines
      split_meta_line_def parse_columns_value_def eval_csv extract_storage_name_def basename_def
      has_meta_extension_def demo_schema_def schema_has_reserved_id_column_def
      schema_find_column_def string_list_index_of_def validate_csv_header_def demo_csv_def
      eval_lines Let_def)

lemma demo_rows: "data_lines demo_csv = [(9, ''Ann,7'')]"
  by (simp add: demo_csv_def data_lines_def line_list.simps eval_lines)

lemma demo_path: "table_path ''data'' ''users'' = ''data/users.csv''"
  by (simp add: table_path_def)

lemma demo_content: "demo_fs (table_path ''data'' ''users'') = Regular demo_csv" "demo_csv \<noteq> []"
  by (simp_all add: demo_path demo_fs_def demo_csv_def)

lemma demo_readable: "readable demo_fs ''data'' ''users''"
  by (simp add: readable_def demo_content demo_rows parses_def eval_csv)

lemma demo_table: "table_ok demo_fs ''data'' demo_schema"
  and demo_table_rows: "table_rows demo_fs ''data'' demo_schema = [[''Ann'', ''7'']]"
  using demo_readable
  by (simp_all add: table_ok_def table_rows_def file_rows_def demo_schema_def demo_content demo_rows
      line_fields_def eval_csv)

lemma fresh_ok: "runtime_ok f data_dir fresh_runtime"
  by (simp add: runtime_ok_def fresh_runtime_def)

lemma demo_find: "schema_find_column demo_schema ''name'' = 0" "schema_find_column demo_schema ''age'' = 1"
  "schema_find_column demo_schema ''id'' = -1"
  by (simp_all add: schema_find_column_def demo_schema_def string_list_index_of_def)

definition demo_insert :: insert_statement where
  "demo_insert = \<lparr>ins_table = ''users'', ins_columns = [''age''], ins_values = [''9'']\<rparr>"

lemma demo_insert_values: "insert_values demo_insert demo_schema = [[], ''9'']"
  by (simp add: insert_values_def demo_insert_def demo_find demo_schema_def
      upt_rec [of 0] upt_rec [of 1] schema_find_column_def string_list_index_of_def)

lemma demo_insert_ok: "insert_ok demo_insert demo_schema"
  unfolding insert_ok_def demo_insert_values
  by (simp add: demo_insert_def validate_insert_columns_def demo_find contains_newline_def
      csv_escape_field_def needs_quotes_def LINE_SIZE_def)

definition demo_select :: select_statement where
  "demo_select = \<lparr>sel_table = ''users'', sel_columns = [''id'', ''name''], select_all = False,
     has_where = True, where_column = ''id'', where_value = ''1''\<rparr>"

lemma demo_select_ok: "select_ok demo_select demo_schema"
proof -
  have "parse_int_strict (show_int 1) = Some 1"
    by (rule parse_int_strict_show_int) (simp_all add: INT_MIN_def INT_MAX_def)
  moreover have "show_int 1 = ''1''"
    by (simp add: show_int_def dec_digits.simps char_eval)
  ultimately show ?thesis
    by (simp add: select_ok_def demo_select_def known_columns_def demo_schema_def)
qed

lemma demo_simps:
  "db_fs demo_db = demo_fs" "db_rt demo_db = fresh_runtime" "\<not> rt_force_failure fresh_runtime"
  "ins_table demo_insert = ''users''" "sel_table demo_select = ''users''"
  by (simp_all add: demo_db_def fresh_runtime_def demo_insert_def demo_select_def)

section \<open>Properties of schemas and indexes\<close>

text \<open>
  C13: a schema that \<open>load_schema\<close> accepts has at least one column, does not use the
  reserved name \<open>id\<close>, belongs to the requested table under its declared or its file name,
  and its columns are exactly the header of an existing, non-empty CSV file.
\<close>

theorem load_schema_sound:
  assumes "load_schema f schema_dir data_dir table = Inr sch"
  shows "sc_columns sch \<noteq> [] \<and> ''id'' \<notin> set (sc_columns sch)
    \<and> (sc_table_name sch = Some table \<or> sc_storage_name sch = table)
    \<and> (\<exists>content. f (table_path data_dir (sc_storage_name sch)) = Regular content \<and> content \<noteq> []
         \<and> csv_parse_line (line_text (fgets_chunk content)) = Inr (sc_columns sch))"
  using load_schema_ok [OF assms]
  by (auto simp: schema_ok_def header_matches_def split: fnode.splits)

theorem load_schema_sound_witness:
  "sc_columns demo_schema \<noteq> [] \<and> ''id'' \<notin> set (sc_columns demo_schema)
    \<and> (sc_table_name demo_schema = Some ''users'' \<or> sc_storage_name demo_schema = ''users'')
    \<and> (\<exists>content. demo_fs (table_path ''data'' (sc_storage_name demo_schema)) = Regular content
         \<and> content \<noteq> []
         \<and> csv_parse_line (line_text (fgets_chunk content)) = Inr (sc_columns demo_schema))"
  by (rule load_schema_sound [OF demo_load])

text \<open>
  C14: looking up an id never runs into undefined behaviour and keeps every loaded index
  consistent with its file. When the table file can be read to its end, the lookup finds
  exactly the ids 1 to the number of rows, each with the offset of that row; when it cannot,
  the lookup reports an error.
\<close>

theorem find_row_correct:
  assumes "runtime_ok f data_dir rt"
  shows "\<exists>res rt'. table_index_find_row rt f sch data_dir k = Some (res, rt')
    \<and> runtime_ok f data_dir rt'
    \<and> (if readable f data_dir (sc_storage_name sch)
       then let rows = file_rows f data_dir (sc_storage_name sch) in
            res = Inr (if 1 \<le> k \<and> k \<le> int (length rows)
                       then Some (int (fst (rows ! nat (k - 1)))) else None)
       else \<exists>m. res = Inl m)"
proof (cases "readable f data_dir (sc_storage_name sch)")
  case True
  with find_row_ok [OF assms True, of k] show ?thesis by (auto simp: Let_def)
next
  case False
  with ensure_loaded_ok [OF assms, of sch] show ?thesis by (auto simp: table_index_find_row_def)
qed

theorem find_row_correct_witness:
  "\<exists>res rt'. table_index_find_row fresh_runtime demo_fs demo_schema ''data'' 1 = Some (res, rt')
    \<and> runtime_ok demo_fs ''data'' rt'
    \<and> (if readable demo_fs ''data'' (sc_storage_name demo_schema)
       then let rows = file_rows demo_fs ''data'' (sc_storage_name demo_schema) in
            res = Inr (if 1 \<le> (1::int) \<and> 1 \<le> int (length rows)
                       then Some (int (fst (rows ! nat (1 - 1)))) else None)
       else \<exists>m. res = Inl m)"
  by (rule find_row_correct) (rule fresh_ok)

text \<open>
  C15: keeping an index up to date is the same as rebuilding it. After a row is appended and
  registered under the next id, every lookup through the updated registry gives what a
  lookup gives that rebuilds the index from the extended file.
\<close>

theorem register_equals_rebuild:
  assumes "runtime_ok f data_dir rt" and "readable f data_dir (sc_storage_name sch)"
    and "storable row" and "\<not> rt_force_failure rt"
    and "table_index_get_next_id rt f sch data_dir = Some (Inr k, rt1)"
    and "append_row_csv f data_dir (sc_storage_name sch) row = (r, f')"
  shows "\<exists>rt2. table_index_register_row rt1 f' sch data_dir k (sr_row_offset r) = Some (None, rt2)
    \<and> map_option fst (table_index_find_row rt2 f' sch data_dir j)
        = map_option fst (table_index_find_row fresh_runtime f' sch data_dir j)"
proof -
  define name where "name = sc_storage_name sch"
  from assms(2) obtain content where c: "f (table_path data_dir name) = Regular content" "content \<noteq> []"
    by (auto simp: readable_def name_def split: fnode.splits)
  from assms(6) append_row_csv_regular [of f data_dir name content row, OF c(1)]
  have r: "sr_row_offset r = int (length (content @ line_separator content))"
    and f': "f' = f(table_path data_dir name := Regular (appended content row))"
    by (auto simp: name_def)
  from get_next_id_ok [OF assms(1,2)] assms(5) obtain i where
    g: "k = 1 + int (length (file_rows f data_dir name))" "runtime_ok f data_dir rt1"
    "loaded_at rt1 i name" "rt_force_failure rt1 = rt_force_failure rt"
    by (auto simp: name_def)
  have "\<not> rt_force_failure rt1" using g(4) assms(4) by simp
  from register_row_ok [of f data_dir rt1 i name sch, OF g(2,3) name_def [symmetric] c assms(3)
      f' g(1) r this]
  obtain rt2 where rt2: "table_index_register_row rt1 f' sch data_dir k (sr_row_offset r) = Some (None, rt2)"
    "runtime_ok f' data_dir rt2" by blast
  have rd: "readable f' data_dir (sc_storage_name sch)"
    using readable_append [of f data_dir name, OF c assms(3) f'] assms(2) by (simp add: name_def)
  from find_row_ok [OF rt2(2) rd, of j] find_row_ok [OF fresh_ok rd, of j] rt2(1) show ?thesis
    by (intro exI [of _ rt2]) auto
qed

definition next_runtime :: runtime where
  "next_runtime = snd (the (table_index_get_next_id fresh_runtime demo_fs demo_schema ''data''))"

definition eve_result :: storage_result where
  "eve_result = fst (append_row_csv demo_fs ''data'' ''users'' [''Eve'', ''3''])"

definition eve_fs :: fs where
  "eve_fs = snd (append_row_csv demo_fs ''data'' ''users'' [''Eve'', ''3''])"

lemma demo_next_id:
  "table_index_get_next_id fresh_runtime demo_fs demo_schema ''data'' = Some (Inr 2, next_runtime)"
proof -
  have "readable demo_fs ''data'' (sc_storage_name demo_schema)"
    using demo_readable by (simp add: demo_schema_def)
  from get_next_id_ok [OF fresh_ok this] show ?thesis
    by (auto simp: next_runtime_def demo_schema_def file_rows_def demo_content demo_rows)
qed

theorem register_equals_rebuild_witness:
  "\<exists>rt2. table_index_register_row next_runtime eve_fs demo_schema ''data'' 2 (sr_row_offset eve_result)
        = Some (None, rt2)
    \<and> map_option fst (table_index_find_row rt2 eve_fs demo_schema ''data'' 2)
        = map_option fst (table_index_find_row fresh_runtime eve_fs demo_schema ''data'' 2)"
  by (rule register_equals_rebuild [OF fresh_ok _ _ _ demo_next_id])
    (use demo_readable in \<open>simp_all add: demo_schema_def storable_def csv_escape_field_def LINE_SIZE_def
       needs_quotes_def fresh_runtime_def eve_fs_def eve_result_def\<close>)

section \<open>Properties of INSERT and SELECT\<close>

text \<open>
  C16: an INSERT that fits the schema (known columns, none twice, no line breaks, a row of at
  most 4095 bytes) answers "INSERT 1" and appends exactly one row to the table: for every
  column the given value, or an empty one, as the CSV format stores it. Nothing else changes
  in the file system, every schema loads as before, and all indexes stay consistent.
\<close>

theorem execute_insert_correct:
  assumes "runtime_ok (db_fs s) data_dir (db_rt s)"
    and "load_schema (db_fs s) schema_dir data_dir (ins_table st) = Inr sch"
    and "table_ok (db_fs s) data_dir sch" and "insert_ok st sch"
    and "\<not> rt_force_failure (db_rt s)"
  shows "\<exists>s'. execute_insert st schema_dir data_dir s
         = Some (\<lparr>er_ok = True, er_affected_rows = 1, er_message = ''INSERT 1''\<rparr>, s')
       \<and> table_rows (db_fs s') data_dir sch
           = table_rows (db_fs s) data_dir sch @ [map stored (insert_values st sch)]
       \<and> table_ok (db_fs s') data_dir sch
       \<and> db_fs s' = (db_fs s)(table_path data_dir (sc_storage_name sch)
                       := db_fs s' (table_path data_dir (sc_storage_name sch)))
       \<and> load_schema (db_fs s') schema_dir data_dir = load_schema (db_fs s) schema_dir data_dir
       \<and> runtime_ok (db_fs s') data_dir (db_rt s') \<and> \<not> rt_force_failure (db_rt s')"
  using execute_insert_ok [OF assms] by blast

theorem execute_insert_correct_witness:
  "\<exists>s'. execute_insert demo_insert ''schema'' ''data'' demo_db
         = Some (\<lparr>er_ok = True, er_affected_rows = 1, er_message = ''INSERT 1''\<rparr>, s')
       \<and> table_rows (db_fs s') ''data'' demo_schema
           = table_rows (db_fs demo_db) ''data'' demo_schema
             @ [map stored (insert_values demo_insert demo_schema)]
       \<and> table_ok (db_fs s') ''data'' demo_schema
       \<and> db_fs s' = (db_fs demo_db)(table_path ''data'' (sc_storage_name demo_schema)
                       := db_fs s' (table_path ''data'' (sc_storage_name demo_schema)))
       \<and> load_schema (db_fs s') ''schema'' ''data'' = load_schema (db_fs demo_db) ''schema'' ''data''
       \<and> runtime_ok (db_fs s') ''data'' (db_rt s') \<and> \<not> rt_force_failure (db_rt s')"
  by (rule execute_insert_correct)
    (simp_all add: demo_simps fresh_ok demo_load demo_table demo_insert_ok)

text \<open>
  C17: a SELECT over a table whose file is well formed prints the header of the requested
  columns and, in file order, the projection of exactly the rows that match the condition,
  where \<open>id\<close> is the position of the row; it reports their number and changes no file. The
  scan and the index path of \<open>WHERE id = n\<close> both meet this one specification.
\<close>

theorem execute_select_correct:
  assumes "runtime_ok (db_fs s) data_dir (db_rt s)"
    and "load_schema (db_fs s) schema_dir data_dir (sel_table st) = Inr sch"
    and "table_ok (db_fs s) data_dir sch" and "select_ok st sch"
  shows "\<exists>rt'. execute_select st schema_dir data_dir s
      = Some (select_done (length (answer st sch (table_rows (db_fs s) data_dir sch))),
              print_result_table (select_headers st sch)
                (answer st sch (table_rows (db_fs s) data_dir sch)),
              s\<lparr>db_rt := rt'\<rparr>)
    \<and> runtime_ok (db_fs s) data_dir rt'"
  using execute_select_ok [OF assms] by blast

theorem execute_select_correct_witness:
  "\<exists>rt'. execute_select demo_select ''schema'' ''data'' demo_db
      = Some (select_done (length (answer demo_select demo_schema
                (table_rows (db_fs demo_db) ''data'' demo_schema))),
              print_result_table (select_headers demo_select demo_schema)
                (answer demo_select demo_schema (table_rows (db_fs demo_db) ''data'' demo_schema)),
              demo_db\<lparr>db_rt := rt'\<rparr>)
    \<and> runtime_ok (db_fs demo_db) ''data'' rt'"
  by (rule execute_select_correct)
    (simp_all add: demo_simps fresh_ok demo_load demo_table demo_select_ok)

text \<open>
  C18: the array of selected columns has one slot per schema column, but the loop writes one
  entry per column of the statement: a SELECT that names more (known) columns than the table
  has, for instance \<open>id\<close> and every column, writes past the end of the array.
\<close>

theorem select_too_many_columns:
  assumes "load_schema (db_fs s) schema_dir data_dir (sel_table st) = Inr sch"
    and "\<not> select_all st" and "known_columns sch (sel_columns st)"
    and "length (sc_columns sch) < length (sel_columns st)"
  shows "execute_select st schema_dir data_dir s = None"
  using assms select_columns_loop_overflow [of sch "sel_columns st" 0
      "replicate (length (sc_columns sch)) 0" "[]"]
  by (simp add: execute_select_def build_select_indexes_def Let_def)

definition wide_select :: select_statement where
  "wide_select = \<lparr>sel_table = ''users'', sel_columns = [''id'', ''name'', ''age''],
     select_all = False, has_where = False, where_column = [], where_value = []\<rparr>"

theorem select_too_many_columns_witness:
  "execute_select wide_select ''schema'' ''data'' demo_db = None"
  by (rule select_too_many_columns [where sch = demo_schema])
    (simp_all add: wide_select_def demo_db_def demo_load known_columns_def, simp_all add: demo_schema_def)

text \<open>
  C19: every line of a printed result table (the three borders, the header and one line per
  row) has the same display width, for any bytes in the cells, so the columns line up.
\<close>

theorem result_table_aligned:
  assumes "list_all (\<lambda>row. length row = length headers) rows"
  shows "\<exists>lines. print_result_table headers rows = concat (map (\<lambda>l. l @ [LF]) lines)
    \<and> length lines = length rows + 4
    \<and> list_all (\<lambda>l. utf8_display_width l
                      = table_width (compute_table_widths headers rows)) lines"
  using print_result_table_lines table_lines_width [OF assms]
  by (intro exI [of _ "table_lines headers rows"]) (simp add: table_lines_def Let_def)

theorem result_table_aligned_witness:
  "\<exists>lines. print_result_table [''name'', ''age''] [[''Ann'', ''7'']] = concat (map (\<lambda>l. l @ [LF]) lines)
    \<and> length lines = length [[''Ann'', ''7'']] + 4
    \<and> list_all (\<lambda>l. utf8_display_width l
         = table_width (compute_table_widths [''name'', ''age''] [[''Ann'', ''7'']])) lines"
  by (rule result_table_aligned) simp

end
