(* ===== verification/Task_Queue.thy ===== *)
theory Task_Queue
  imports Prelude
begin

text \<open>
  The bounded queue between the accept thread and the workers, \<open>src/server/task_queue.c\<close>: an
  array used as a ring buffer. Every operation runs with the queue's mutex held, so each is one
  atomic step here; \<open>server_task_queue_pop\<close> is one turn of its loop, whose result
  \<open>Pop_Wait\<close> means that the caller goes to sleep on the condition variable. An access outside
  the array, or a remainder by a zero capacity, is \<^term>\<open>None\<close>.

  The contract of a closable FIFO queue is the locale \<open>fifo\<close>: what a run of operations
  delivers is proved from the contract alone, and the interpretation at the end discharges it
  for the ring buffer.
\<close>

section \<open>The ring buffer\<close>

record server_task =
  client_socket :: int

record task_queue =
  tq_items :: "server_task list"
  tq_capacity :: int
  tq_count :: int
  tq_head :: int
  tq_tail :: int
  tq_closed :: bool

datatype 'a pop_result = Pop_Wait | Pop_Closed | Pop_Task 'a

text \<open>
  The arguments say whether the allocation, the mutex and the condition variable can be
  initialised; \<open>calloc\<close> refuses a negative capacity, which it sees as a huge size.
\<close>

definition server_task_queue_init :: "bool \<Rightarrow> bool \<Rightarrow> bool \<Rightarrow> int \<Rightarrow> string + task_queue" where
  "server_task_queue_init alloc_ok mutex_ok cond_ok capacity =
     (if capacity < 0 \<or> \<not> alloc_ok then Inl ''out of memory while creating task queue''
      else if \<not> mutex_ok then Inl ''failed to initialize task queue mutex''
      else if \<not> cond_ok then Inl ''failed to initialize task queue condition''
      else Inr \<lparr>tq_items = replicate (nat capacity) \<lparr>client_socket = 0\<rparr>, tq_capacity = capacity,
                tq_count = 0, tq_head = 0, tq_tail = 0, tq_closed = False\<rparr>)"

definition in_items :: "task_queue \<Rightarrow> int \<Rightarrow> bool" where
  "in_items q i = (0 \<le> i \<and> i < int (length (tq_items q)) \<and> 0 < tq_capacity q)"

definition server_task_queue_try_push :: "task_queue \<Rightarrow> server_task \<Rightarrow> (bool \<times> task_queue) option" where
  "server_task_queue_try_push q task =
     (if \<not> tq_closed q \<and> tq_count q < tq_capacity q then
        if in_items q (tq_tail q)
        then Some (True, q\<lparr>tq_items := (tq_items q)[nat (tq_tail q) := task],
                           tq_tail := (tq_tail q + 1) mod tq_capacity q,
                           tq_count := tq_count q + 1\<rparr>)
        else None
      else Some (False, q))"

definition server_task_queue_pop :: "task_queue \<Rightarrow> (server_task pop_result \<times> task_queue) option" where
  "server_task_queue_pop q =
     (if tq_count q = 0 \<and> \<not> tq_closed q then Some (Pop_Wait, q)
      else if tq_count q = 0 \<and> tq_closed q then Some (Pop_Closed, q)
      else if in_items q (tq_head q)
      then Some (Pop_Task (tq_items q ! nat (tq_head q)),
                 q\<lparr>tq_head := (tq_head q + 1) mod tq_capacity q, tq_count := tq_count q - 1\<rparr>)
      else None)"

definition server_task_queue_close :: "task_queue \<Rightarrow> task_queue" where
  "server_task_queue_close q = q\<lparr>tq_closed := True\<rparr>"

definition server_task_queue_depth :: "task_queue \<Rightarrow> int" where
  "server_task_queue_depth q = tq_count q"

section \<open>The contract of a closable queue\<close>

datatype 'a queue_op = Push 'a | Pop | Close

text \<open>A run of operations: the accepted and the delivered elements, and the last queue.\<close>

fun run_ops ::
  "('q \<Rightarrow> 'a \<Rightarrow> (bool \<times> 'q) option) \<Rightarrow> ('q \<Rightarrow> ('a pop_result \<times> 'q) option) \<Rightarrow> ('q \<Rightarrow> 'q)
     \<Rightarrow> 'a queue_op list \<Rightarrow> 'q \<Rightarrow> ('a list \<times> 'a list \<times> 'q) option" where
  "run_ops push pop close [] q = Some ([], [], q)"
| "run_ops push pop close (Push x # ops) q =
     (case push q x of
        None \<Rightarrow> None
      | Some (ok, q') \<Rightarrow>
          map_option (\<lambda>(acc, del, r). ((if ok then [x] else []) @ acc, del, r))
            (run_ops push pop close ops q'))"
| "run_ops push pop close (Pop # ops) q =
     (case pop q of
        None \<Rightarrow> None
      | Some (res, q') \<Rightarrow>
          map_option (\<lambda>(acc, del, r). (acc, (case res of Pop_Task x \<Rightarrow> [x] | _ \<Rightarrow> []) @ del, r))
            (run_ops push pop close ops q'))"
| "run_ops push pop close (Close # ops) q = run_ops push pop close ops (close q)"

locale fifo =
  fixes push :: "'q \<Rightarrow> 'a \<Rightarrow> (bool \<times> 'q) option"
    and pop :: "'q \<Rightarrow> ('a pop_result \<times> 'q) option"
    and close :: "'q \<Rightarrow> 'q"
    and inv :: "'q \<Rightarrow> bool" and contents :: "'q \<Rightarrow> 'a list"
    and closed :: "'q \<Rightarrow> bool" and bound :: "'q \<Rightarrow> int"
  assumes push_law: "inv q \<Longrightarrow> \<exists>q'. push q x
      = Some (\<not> closed q \<and> int (length (contents q)) < bound q, q')
    \<and> inv q' \<and> closed q' = closed q \<and> bound q' = bound q
    \<and> contents q' = contents q @ (if \<not> closed q \<and> int (length (contents q)) < bound q
                                  then [x] else [])"
    and pop_law: "inv q \<Longrightarrow> \<exists>res q'. pop q = Some (res, q')
    \<and> inv q' \<and> closed q' = closed q \<and> bound q' = bound q
    \<and> (case contents q of [] \<Rightarrow> res = (if closed q then Pop_Closed else Pop_Wait) \<and> q' = q
         | x # xs \<Rightarrow> res = Pop_Task x \<and> contents q' = xs)"
    and close_law: "inv q \<Longrightarrow> inv (close q) \<and> contents (close q) = contents q
      \<and> closed (close q) \<and> bound (close q) = bound q"
    and bound_law: "inv q \<Longrightarrow> int (length (contents q)) \<le> bound q"
begin

lemma pop_cases:
  assumes "inv q" and "pop q = Some (res, q')"
  shows "inv q' \<and> closed q' = closed q \<and> bound q' = bound q"
    and "res = Pop_Wait \<Longrightarrow> contents q = [] \<and> \<not> closed q \<and> q' = q"
    and "res = Pop_Closed \<Longrightarrow> contents q = [] \<and> closed q \<and> q' = q"
    and "res = Pop_Task x \<Longrightarrow> contents q = x # contents q'"
  using pop_law [OF assms(1)] assms(2) by (auto split: list.splits if_splits)

lemma push_cases:
  assumes "inv q" and "push q x = Some (ok, q')"
  shows "inv q' \<and> closed q' = closed q \<and> bound q' = bound q"
    and "ok \<longleftrightarrow> \<not> closed q \<and> int (length (contents q)) < bound q"
    and "contents q' = contents q @ (if ok then [x] else [])"
  using push_law [OF assms(1), of x] assms(2) by (auto split: if_splits)

text \<open>Every run is defined, delivers in order of acceptance, and stays within the bound.\<close>

lemma run_fifo:
  assumes "inv q"
  shows "\<exists>acc del q'. run_ops push pop close ops q = Some (acc, del, q') \<and> inv q'
    \<and> bound q' = bound q \<and> contents q @ acc = del @ contents q'
    \<and> int (length (contents q')) \<le> bound q
    \<and> (closed q \<longrightarrow> closed q' \<and> acc = [])"
  using assms
proof (induction ops arbitrary: q)
  case Nil
  then show ?case using bound_law by simp
next
  case (Cons op ops)
  show ?case
  proof (cases op)
    case (Push x)
    from push_law [OF Cons.prems, of x] obtain ok q1 where
      q1: "push q x = Some (ok, q1)" by blast
    note c = push_cases [OF Cons.prems q1]
    from c(1) Cons.IH [of q1] obtain acc del q' where
      r: "run_ops push pop close ops q1 = Some (acc, del, q')" "inv q'" "bound q' = bound q1"
        "contents q1 @ acc = del @ contents q'" "int (length (contents q')) \<le> bound q1"
        "closed q1 \<longrightarrow> closed q' \<and> acc = []" by blast
    then show ?thesis using Push q1 c by auto
  next
    case Pop
    from pop_law [OF Cons.prems] obtain res q1 where q1: "pop q = Some (res, q1)" by blast
    note c = pop_cases [OF Cons.prems q1]
    from c(1) Cons.IH [of q1] obtain acc del q' where
      r: "run_ops push pop close ops q1 = Some (acc, del, q')" "inv q'" "bound q' = bound q1"
        "contents q1 @ acc = del @ contents q'" "int (length (contents q')) \<le> bound q1"
        "closed q1 \<longrightarrow> closed q' \<and> acc = []" by blast
    then show ?thesis using Pop q1 c by (cases res) auto
  next
    case Close
    note c = close_law [OF Cons.prems]
    from c Cons.IH [of "close q"] show ?thesis using Close by auto
  qed
qed

end

section \<open>The queued tasks, oldest first\<close>

definition queue_ok :: "task_queue \<Rightarrow> bool" where
  "queue_ok q =
     (int (length (tq_items q)) = tq_capacity q
      \<and> 0 \<le> tq_count q \<and> tq_count q \<le> tq_capacity q
      \<and> (if tq_capacity q = 0 then tq_head q = 0 \<and> tq_tail q = 0
         else 0 \<le> tq_head q \<and> tq_head q < tq_capacity q
              \<and> tq_tail q = (tq_head q + tq_count q) mod tq_capacity q))"

definition slot :: "task_queue \<Rightarrow> nat \<Rightarrow> nat" where
  "slot q i = nat ((tq_head q + int i) mod tq_capacity q)"

definition queued :: "task_queue \<Rightarrow> server_task list" where
  "queued q = map (\<lambda>i. tq_items q ! slot q i) [0..<nat (tq_count q)]"

lemma length_queued: "queue_ok q \<Longrightarrow> int (length (queued q)) = tq_count q"
  by (simp add: queued_def queue_ok_def)

lemma slot_lt: "queue_ok q \<Longrightarrow> 0 < tq_capacity q \<Longrightarrow> slot q i < length (tq_items q)"
  using pos_mod_bound [of "tq_capacity q" "tq_head q + int i"]
  by (simp add: slot_def queue_ok_def nat_less_iff)

text \<open>Two queued tasks never share a slot, and the tail slot is free.\<close>

lemma slot_inj:
  assumes "queue_ok q" and "int i < tq_capacity q" and "int j < tq_capacity q"
    and "slot q i = slot q j"
  shows "i = j"
proof -
  define n where "n = tq_capacity q"
  have n: "0 < n" using assms(2) by (simp add: n_def)
  have "nat ((tq_head q + int i) mod n) = nat ((tq_head q + int j) mod n)"
    using assms(4) by (simp add: slot_def n_def)
  then have "(tq_head q + int i) mod n = (tq_head q + int j) mod n"
    using n by (simp add: nat_eq_iff pos_mod_sign)
  then have "n dvd (tq_head q + int i) - (tq_head q + int j)" by (simp add: mod_eq_dvd_iff)
  then have "n dvd int i - int j" by simp
  moreover have "\<bar>int i - int j\<bar> < n" using assms(2,3) by (simp add: n_def abs_if)
  ultimately have "int i - int j = 0"
    using dvd_imp_le_int [of "int i - int j" n] n by (cases "int i - int j = 0") auto
  then show ?thesis by simp
qed

lemma init_queue:
  assumes "server_task_queue_init a m c capacity = Inr q"
  shows "queue_ok q \<and> queued q = [] \<and> \<not> tq_closed q \<and> tq_capacity q = capacity"
  using assms by (auto simp: server_task_queue_init_def queue_ok_def queued_def split: if_splits)

lemma queue_capacity_pos: "queue_ok q \<Longrightarrow> tq_count q < tq_capacity q \<Longrightarrow> 0 < tq_capacity q"
  by (simp add: queue_ok_def)

lemma try_push_ok:
  assumes "queue_ok q"
  shows "\<exists>q'. server_task_queue_try_push q t
      = Some (\<not> tq_closed q \<and> int (length (queued q)) < tq_capacity q, q')
    \<and> queue_ok q' \<and> tq_closed q' = tq_closed q \<and> tq_capacity q' = tq_capacity q
    \<and> queued q' = queued q @ (if \<not> tq_closed q \<and> int (length (queued q)) < tq_capacity q
                              then [t] else [])"
proof (cases "\<not> tq_closed q \<and> tq_count q < tq_capacity q")
  case True
  define n c where "n = tq_capacity q" and "c = nat (tq_count q)"
  have n: "0 < n" "int c = tq_count q" "int c < n"
    using True assms by (auto simp: n_def c_def queue_ok_def)
  have tail: "tq_tail q = (tq_head q + int c) mod n" "nat (tq_tail q) = slot q c"
    using assms n by (auto simp: queue_ok_def n_def slot_def)
  define q' where "q' = q\<lparr>tq_items := (tq_items q)[nat (tq_tail q) := t],
      tq_tail := (tq_tail q + 1) mod n, tq_count := tq_count q + 1\<rparr>"
  have ii: "in_items q (tq_tail q)"
    using assms n pos_mod_bound [of n "tq_head q + int c"]
    by (simp add: in_items_def queue_ok_def n_def tail)
  have push: "server_task_queue_try_push q t = Some (True, q')"
    using True ii by (simp add: server_task_queue_try_push_def q'_def n_def)
  have ok: "queue_ok q'"
    using assms n True
    by (auto simp: queue_ok_def q'_def n_def mod_simps algebra_simps)
  have slots: "slot q' i = slot q i" for i by (simp add: slot_def q'_def)
  have cnt: "nat (tq_count q') = Suc c"
    using n by (simp add: q'_def nat_add_distrib)
  have old: "tq_items q' ! slot q i = tq_items q ! slot q i" if "i < c" for i
  proof -
    have "slot q i \<noteq> slot q c" using slot_inj [OF assms, of i c] that n by (auto simp: n_def)
    then show ?thesis by (simp add: q'_def tail(2) nth_list_update_neq)
  qed
  have new: "tq_items q' ! slot q c = t"
    using slot_lt [OF assms] n by (simp add: q'_def tail(2) n_def)
  have "queued q' = queued q @ [t]"
    using old new by (simp add: queued_def cnt slots c_def [symmetric])
  then show ?thesis
    using push ok True length_queued [OF assms] by (intro exI [of _ q']) (simp add: q'_def)
next
  case False
  then show ?thesis
    using assms length_queued [OF assms]
    by (intro exI [of _ q]) (auto simp: server_task_queue_try_push_def)
qed

lemma pop_ok:
  assumes "queue_ok q"
  shows "\<exists>res q'. server_task_queue_pop q = Some (res, q')
    \<and> queue_ok q' \<and> tq_closed q' = tq_closed q \<and> tq_capacity q' = tq_capacity q
    \<and> (case queued q of [] \<Rightarrow> res = (if tq_closed q then Pop_Closed else Pop_Wait) \<and> q' = q
         | t # ts \<Rightarrow> res = Pop_Task t \<and> queued q' = ts)"
proof (cases "tq_count q = 0")
  case True
  then show ?thesis
    using assms by (auto simp: server_task_queue_pop_def queued_def)
next
  case False
  define n c where "n = tq_capacity q" and "c = nat (tq_count q - 1)"
  have n: "0 < n" "tq_count q = int (Suc c)"
    using False assms by (auto simp: n_def c_def queue_ok_def)
  have head: "0 \<le> tq_head q" "tq_head q < n" using assms n by (auto simp: queue_ok_def n_def)
  define q' where "q' = q\<lparr>tq_head := (tq_head q + 1) mod n, tq_count := tq_count q - 1\<rparr>"
  have "in_items q (tq_head q)" using head n assms by (simp add: in_items_def queue_ok_def n_def)
  then have pop: "server_task_queue_pop q = Some (Pop_Task (tq_items q ! nat (tq_head q)), q')"
    using False by (simp add: server_task_queue_pop_def q'_def n_def)
  have ok: "queue_ok q'"
    using assms n head by (auto simp: queue_ok_def q'_def n_def mod_simps algebra_simps)
  have s0: "slot q 0 = nat (tq_head q)" using head by (simp add: slot_def n_def)
  have slots: "slot q' i = slot q (Suc i)" for i
    by (simp add: slot_def q'_def n_def mod_simps algebra_simps)
  have "nat (tq_count q) = Suc c" using n(2) by simp
  moreover have "[0..<Suc c] = 0 # map Suc [0..<c]" by (simp only: map_Suc_upt) (simp add: upt_conv_Cons del: upt_Suc)
  ultimately have "queued q = tq_items q ! slot q 0 # map (\<lambda>i. tq_items q ! slot q (Suc i)) [0..<c]"
    by (simp add: queued_def comp_def del: upt_Suc)
  moreover have "queued q' = map (\<lambda>i. tq_items q ! slot q (Suc i)) [0..<c]"
  proof -
    have "tq_count q' = int c" "tq_items q' = tq_items q" using n by (simp_all add: q'_def)
    then show ?thesis by (simp add: queued_def slots)
  qed
  ultimately show ?thesis using pop ok s0 by (simp add: q'_def)
qed

lemma close_ok:
  assumes "queue_ok q"
  shows "queue_ok (server_task_queue_close q)" and "queued (server_task_queue_close q) = queued q"
    and "tq_closed (server_task_queue_close q)"
    and "tq_capacity (server_task_queue_close q) = tq_capacity q"
  using assms by (simp_all add: server_task_queue_close_def queue_ok_def queued_def slot_def)

interpretation tq: fifo server_task_queue_try_push server_task_queue_pop server_task_queue_close
  queue_ok queued tq_closed tq_capacity
proof unfold_locales
  fix q :: task_queue and t :: server_task
  assume ok: "queue_ok q"
  from ok show "\<exists>q'. server_task_queue_try_push q t
      = Some (\<not> tq_closed q \<and> int (length (queued q)) < tq_capacity q, q')
    \<and> queue_ok q' \<and> tq_closed q' = tq_closed q \<and> tq_capacity q' = tq_capacity q
    \<and> queued q' = queued q @ (if \<not> tq_closed q \<and> int (length (queued q)) < tq_capacity q
                              then [t] else [])"
    by (rule try_push_ok)
  from ok show "\<exists>res q'. server_task_queue_pop q = Some (res, q')
    \<and> queue_ok q' \<and> tq_closed q' = tq_closed q \<and> tq_capacity q' = tq_capacity q
    \<and> (case queued q of [] \<Rightarrow> res = (if tq_closed q then Pop_Closed else Pop_Wait) \<and> q' = q
         | t # ts \<Rightarrow> res = Pop_Task t \<and> queued q' = ts)"
    by (rule pop_ok)
  from ok show "queue_ok (server_task_queue_close q) \<and> queued (server_task_queue_close q) = queued q
      \<and> tq_closed (server_task_queue_close q)
      \<and> tq_capacity (server_task_queue_close q) = tq_capacity q"
    using close_ok by simp
  from ok show "int (length (queued q)) \<le> tq_capacity q"
    using length_queued by (simp add: queue_ok_def)
qed

section \<open>The queue as a whole\<close>

text \<open>
  C20: the ring buffer is a bounded first-in first-out queue. From a new queue, every sequence
  of pushes, pops and closings runs without an access outside the array; the delivered tasks
  followed by the queued ones are exactly the accepted ones in their order; and the reported
  depth is the number of queued tasks, which never exceeds the capacity.
\<close>

theorem task_queue_fifo:
  assumes "server_task_queue_init alloc_ok mutex_ok cond_ok capacity = Inr q"
  shows "\<exists>acc del q'. run_ops server_task_queue_try_push server_task_queue_pop
        server_task_queue_close ops q = Some (acc, del, q')
    \<and> acc = del @ queued q'
    \<and> server_task_queue_depth q' = int (length acc) - int (length del)
    \<and> server_task_queue_depth q' \<le> capacity"
proof -
  from init_queue [OF assms] have q: "queue_ok q" "queued q = []" "tq_capacity q = capacity" by simp_all
  from tq.run_fifo [OF q(1), of ops] q(2,3) show ?thesis
    by (auto simp: server_task_queue_depth_def length_queued [symmetric])
qed

theorem task_queue_fifo_witness:
  "\<exists>acc del q'. run_ops server_task_queue_try_push server_task_queue_pop server_task_queue_close
      [Push \<lparr>client_socket = 4\<rparr>, Push \<lparr>client_socket = 5\<rparr>, Pop, Push \<lparr>client_socket = 6\<rparr>, Close, Pop]
      \<lparr>tq_items = [\<lparr>client_socket = 0\<rparr>, \<lparr>client_socket = 0\<rparr>], tq_capacity = 2,
       tq_count = 0, tq_head = 0, tq_tail = 0, tq_closed = False\<rparr> = Some (acc, del, q')
    \<and> acc = del @ queued q'
    \<and> server_task_queue_depth q' = int (length acc) - int (length del)
    \<and> server_task_queue_depth q' \<le> 2"
  by (rule task_queue_fifo [of True True True])
    (simp add: server_task_queue_init_def numeral_2_eq_2)

end
