(* ===== verification/Worker_Pool.thy ===== *)
theory Worker_Pool
  imports Task_Queue "HOL-Library.Multiset"
begin

text \<open>
  The workers and the accept thread around the task queue: \<open>src/server/worker_pool.c\<close>,
  \<open>server_worker_main\<close> and the queueing part of \<open>server_accept_main\<close> in
  \<open>src/server/server.c\<close>, and the waiting inside \<open>server_task_queue_pop\<close>. The threads interleave
  as the steps of \<open>pool_step\<close>; a step is what a thread does with the queue's mutex held. A
  condition variable may wake a sleeper for no reason, and a signal wakes one sleeper when
  there is one.
\<close>

section \<open>Threads and steps\<close>

text \<open>
  A worker is inside \<open>pop\<close> awake or asleep, handles a connection and waits for its peer, can finish
  that connection, or has returned. \<open>recv\<close> and \<open>send\<close> have no time limit: while the peer neither
  sends its request, nor takes the response, nor closes, the handler does not return.
\<close>

datatype worker = Popping | Asleep | Handling server_task | Finishing server_task | Exited

record pool =
  pl_queue :: task_queue
  pl_workers :: "worker list"
  pl_accepted :: "server_task list"
  pl_refused :: "server_task list"
  pl_delivered :: "server_task list"
  pl_done :: "server_task list"

text \<open>
  The pool object: the allocated array of thread handles with its length, and the threads created,
  of which \<open>pool->count\<close> is the number.
\<close>

record worker_pool =
  wp_threads :: "nat option"
  wp_workers :: "worker list"

definition no_pool :: worker_pool where
  "no_pool = \<lparr>wp_threads = None, wp_workers = []\<rparr>"

text \<open>
  \<open>server_worker_pool_start\<close>: the argument says which calls of \<open>pthread_create\<close> succeed. When one
  fails, the array and the threads created so far remain, and the threads are joined. The error, if
  any, and the pool.
\<close>

definition server_worker_pool_start ::
  "bool \<Rightarrow> (nat \<Rightarrow> bool) \<Rightarrow> nat \<Rightarrow> string option \<times> worker_pool" where
  "server_worker_pool_start alloc_ok create_ok worker_count =
     (if \<not> alloc_ok then (Some ''out of memory while creating worker pool'', no_pool)
      else
        (case List.find (\<lambda>i. \<not> create_ok i) [0..<worker_count] of
           Some i \<Rightarrow> (Some ''failed to create worker thread'',
                      \<lparr>wp_threads = Some worker_count, wp_workers = replicate i Popping\<rparr>)
         | None \<Rightarrow> (None, \<lparr>wp_threads = Some worker_count, wp_workers = replicate worker_count Popping\<rparr>)))"

definition server_worker_pool_destroy :: "worker_pool \<Rightarrow> worker_pool" where
  "server_worker_pool_destroy p = no_pool"

text \<open>\<open>server_worker_pool_join\<close> returns once every thread has returned.\<close>

definition server_worker_pool_join :: "worker list \<Rightarrow> bool" where
  "server_worker_pool_join ws = list_all (\<lambda>w. w = Exited) ws"

definition wake :: "worker \<Rightarrow> worker" where
  "wake w = (if w = Asleep then Popping else w)"

text \<open>What worker \<open>i\<close> does next.\<close>

inductive worker_step :: "nat \<Rightarrow> pool \<Rightarrow> pool \<Rightarrow> bool" for i where
  take: "i < length (pl_workers s) \<Longrightarrow> pl_workers s ! i = Popping \<Longrightarrow>
    server_task_queue_pop (pl_queue s) = Some (Pop_Task t, q) \<Longrightarrow>
    worker_step i s (s\<lparr>pl_queue := q, pl_workers := (pl_workers s)[i := Handling t],
                       pl_delivered := pl_delivered s @ [t]\<rparr>)"
| sleep: "i < length (pl_workers s) \<Longrightarrow> pl_workers s ! i = Popping \<Longrightarrow>
    server_task_queue_pop (pl_queue s) = Some (Pop_Wait, q) \<Longrightarrow>
    worker_step i s (s\<lparr>pl_queue := q, pl_workers := (pl_workers s)[i := Asleep]\<rparr>)"
| leave: "i < length (pl_workers s) \<Longrightarrow> pl_workers s ! i = Popping \<Longrightarrow>
    server_task_queue_pop (pl_queue s) = Some (Pop_Closed, q) \<Longrightarrow>
    worker_step i s (s\<lparr>pl_queue := q, pl_workers := (pl_workers s)[i := Exited]\<rparr>)"
| spurious: "i < length (pl_workers s) \<Longrightarrow> pl_workers s ! i = Asleep \<Longrightarrow>
    worker_step i s (s\<lparr>pl_workers := (pl_workers s)[i := Popping]\<rparr>)"
| handled: "i < length (pl_workers s) \<Longrightarrow> pl_workers s ! i = Finishing t \<Longrightarrow>
    worker_step i s (s\<lparr>pl_workers := (pl_workers s)[i := Popping], pl_done := pl_done s @ [t]\<rparr>)"

text \<open>
  A step of the environment: the peer of the connection of worker \<open>i\<close> has done its part, so the
  handler does not block any more. Nothing makes a peer take this step.
\<close>

inductive peer_step :: "nat \<Rightarrow> pool \<Rightarrow> pool \<Rightarrow> bool" for i where
  served: "i < length (pl_workers s) \<Longrightarrow> pl_workers s ! i = Handling t \<Longrightarrow>
    peer_step i s (s\<lparr>pl_workers := (pl_workers s)[i := Finishing t]\<rparr>)"

text \<open>The accept thread offers a connection; the signal of a successful push wakes a sleeper.\<close>

inductive accept_step :: "server_task \<Rightarrow> pool \<Rightarrow> pool \<Rightarrow> bool" for t where
  push_idle: "server_task_queue_try_push (pl_queue s) t = Some (True, q) \<Longrightarrow>
    Asleep \<notin> set (pl_workers s) \<Longrightarrow>
    accept_step t s (s\<lparr>pl_queue := q, pl_accepted := pl_accepted s @ [t]\<rparr>)"
| push_wake: "server_task_queue_try_push (pl_queue s) t = Some (True, q) \<Longrightarrow>
    i < length (pl_workers s) \<Longrightarrow> pl_workers s ! i = Asleep \<Longrightarrow>
    accept_step t s (s\<lparr>pl_queue := q, pl_workers := (pl_workers s)[i := Popping],
                       pl_accepted := pl_accepted s @ [t]\<rparr>)"
| push_full: "server_task_queue_try_push (pl_queue s) t = Some (False, q) \<Longrightarrow>
    accept_step t s (s\<lparr>pl_queue := q, pl_refused := pl_refused s @ [t]\<rparr>)"

text \<open>\<open>server_task_queue_close\<close> broadcasts to all sleepers.\<close>

definition shutdown_pool :: "pool \<Rightarrow> pool" where
  "shutdown_pool s = s\<lparr>pl_queue := server_task_queue_close (pl_queue s),
                       pl_workers := map wake (pl_workers s)\<rparr>"

inductive pool_step :: "pool \<Rightarrow> pool \<Rightarrow> bool" where
  worker: "worker_step i s s' \<Longrightarrow> pool_step s s'"
| peer: "peer_step i s s' \<Longrightarrow> pool_step s s'"
| accept: "accept_step t s s' \<Longrightarrow> pool_step s s'"
| close: "pool_step s (shutdown_pool s)"

inductive_cases worker_stepE: "worker_step i s s'"
inductive_cases peer_stepE: "peer_step i s s'"
inductive_cases accept_stepE: "accept_step t s s'"
inductive_cases pool_stepE: "pool_step s s'"

definition start_pool :: "task_queue \<Rightarrow> worker list \<Rightarrow> pool" where
  "start_pool q ws = \<lparr>pl_queue = q, pl_workers = ws, pl_accepted = [], pl_refused = [],
                      pl_delivered = [], pl_done = []\<rparr>"

inductive reachable :: "task_queue \<Rightarrow> worker list \<Rightarrow> pool \<Rightarrow> bool" for q ws where
  start: "reachable q ws (start_pool q ws)"
| step: "reachable q ws s \<Longrightarrow> pool_step s s' \<Longrightarrow> reachable q ws s'"

section \<open>The invariant\<close>

fun handling :: "worker list \<Rightarrow> server_task list" where
  "handling [] = []"
| "handling (Handling t # ws) = t # handling ws"
| "handling (Finishing t # ws) = t # handling ws"
| "handling (w # ws) = handling ws"

definition awake :: "worker list \<Rightarrow> nat" where
  "awake ws = length (filter (\<lambda>w. w = Popping) ws)"

definition pool_ok :: "pool \<Rightarrow> bool" where
  "pool_ok s =
     (queue_ok (pl_queue s)
      \<and> pl_accepted s = pl_delivered s @ queued (pl_queue s)
      \<and> mset (pl_delivered s) = mset (pl_done s) + mset (handling (pl_workers s))
      \<and> (Asleep \<in> set (pl_workers s) \<longrightarrow>
           \<not> tq_closed (pl_queue s) \<and> length (queued (pl_queue s)) \<le> awake (pl_workers s))
      \<and> (Exited \<in> set (pl_workers s) \<longrightarrow> tq_closed (pl_queue s) \<and> queued (pl_queue s) = []))"

text \<open>How replacing one worker changes the counts.\<close>

lemma awake_update:
  "i < length ws \<Longrightarrow>
     awake (ws[i := w]) + (if ws ! i = Popping then 1 else 0) = awake ws + (if w = Popping then 1 else 0)"
proof (induction ws arbitrary: i)
  case (Cons v ws)
  show ?case
  proof (cases i)
    case (Suc j)
    with Cons.prems Cons.IH [of j] show ?thesis by (auto simp: awake_def)
  qed (simp add: awake_def)
qed simp

lemma handling_update:
  "i < length ws \<Longrightarrow>
     mset (handling (ws[i := w])) + mset (handling [ws ! i]) = mset (handling ws) + mset (handling [w])"
proof (induction ws arbitrary: i)
  case (Cons v ws)
  have split: "mset (handling (x # xs)) = mset (handling [x]) + mset (handling xs)" for x xs
    by (cases x) auto
  show ?case
  proof (cases i)
    case 0
    then show ?thesis using split [of v ws] split [of w ws] by simp
  next
    case (Suc j)
    with Cons.prems have "j < length ws" by simp
    from Cons.IH [OF this] show ?thesis
      using split [of v ws] split [of v "ws[j := w]"] Suc by (simp add: ac_simps)
  qed
qed simp

lemma handling_wake [simp]: "handling (map wake ws) = handling ws"
  by (induction ws rule: handling.induct) (auto simp: wake_def)

lemma in_set_updateD: "x \<in> set (ws[i := w]) \<Longrightarrow> x = w \<or> x \<in> set ws"
  by (meson in_mono insert_iff set_update_subset_insert)

text \<open>Every step preserves the invariant.\<close>

lemma worker_step_ok:
  assumes "worker_step i s s'" and "pool_ok s"
  shows "pool_ok s'"
proof -
  from assms(2) have ok: "queue_ok (pl_queue s)" "pl_accepted s = pl_delivered s @ queued (pl_queue s)"
    "mset (pl_delivered s) = mset (pl_done s) + mset (handling (pl_workers s))"
    and sl: "Asleep \<in> set (pl_workers s) \<Longrightarrow>
      \<not> tq_closed (pl_queue s) \<and> length (queued (pl_queue s)) \<le> awake (pl_workers s)"
    and ex: "Exited \<in> set (pl_workers s) \<Longrightarrow> tq_closed (pl_queue s) \<and> queued (pl_queue s) = []"
    by (simp_all add: pool_ok_def)
  note in_set_updateD [of _ "pl_workers s", dest]
  from assms(1) show ?thesis
  proof cases
    case (take t q)
    note p = tq.pop_cases(1,4) [OF ok(1) take(4)]
    show ?thesis
      using p ok sl ex take awake_update [OF take(2), of "Handling t"]
        handling_update [OF take(2), of "Handling t"]
      by (auto simp: pool_ok_def)
  next
    case (sleep q)
    note p = tq.pop_cases(1,2) [OF ok(1) sleep(4)]
    show ?thesis
      using p ok sl ex sleep handling_update [OF sleep(2), of Asleep]
      by (auto simp: pool_ok_def)
  next
    case (leave q)
    note p = tq.pop_cases(1,3) [OF ok(1) leave(4)]
    show ?thesis
      using p ok sl ex leave handling_update [OF leave(2), of Exited]
      by (auto simp: pool_ok_def)
  next
    case spurious
    show ?thesis
      using ok sl ex spurious awake_update [OF spurious(2), of Popping]
        handling_update [OF spurious(2), of Popping] nth_mem [OF spurious(2)]
      by (auto simp: pool_ok_def)
  next
    case (handled t)
    show ?thesis
      using ok sl ex handled awake_update [OF handled(2), of Popping]
        handling_update [OF handled(2), of Popping]
      by (auto simp: pool_ok_def)
  qed
qed

lemma peer_step_ok:
  assumes "peer_step i s s'" and "pool_ok s"
  shows "pool_ok s'"
  using assms(1)
proof cases
  case (served t)
  show ?thesis
    using assms(2) served awake_update [OF served(2), of "Finishing t"]
      handling_update [OF served(2), of "Finishing t"]
    by (auto simp: pool_ok_def dest!: in_set_updateD)
qed

lemma accept_step_ok:
  assumes "accept_step t s s'" and "pool_ok s"
  shows "pool_ok s'"
proof -
  from assms(2) have ok: "queue_ok (pl_queue s)" "pl_accepted s = pl_delivered s @ queued (pl_queue s)"
    "mset (pl_delivered s) = mset (pl_done s) + mset (handling (pl_workers s))"
    and sl: "Asleep \<in> set (pl_workers s) \<Longrightarrow>
      \<not> tq_closed (pl_queue s) \<and> length (queued (pl_queue s)) \<le> awake (pl_workers s)"
    and ex: "Exited \<in> set (pl_workers s) \<Longrightarrow> tq_closed (pl_queue s) \<and> queued (pl_queue s) = []"
    by (simp_all add: pool_ok_def)
  note in_set_updateD [of _ "pl_workers s", dest]
  from assms(1) show ?thesis
  proof cases
    case (push_idle q)
    note p = tq.push_cases [OF ok(1) push_idle(2)]
    show ?thesis using p ok ex push_idle by (auto simp: pool_ok_def)
  next
    case (push_wake q i)
    note p = tq.push_cases [OF ok(1) push_wake(2)]
    show ?thesis
      using p ok sl ex push_wake awake_update [OF push_wake(3), of Popping]
        handling_update [OF push_wake(3), of Popping] nth_mem [OF push_wake(3)]
      by (auto simp: pool_ok_def)
  next
    case (push_full q)
    note p = tq.push_cases [OF ok(1) push_full(2)]
    show ?thesis using p ok sl ex push_full by (auto simp: pool_ok_def)
  qed
qed

lemma shutdown_pool_ok: "pool_ok s \<Longrightarrow> pool_ok (shutdown_pool s)"
  using tq.close_law [of "pl_queue s"]
  by (auto simp: pool_ok_def shutdown_pool_def wake_def split: if_splits)

lemma pool_step_ok: "pool_step s s' \<Longrightarrow> pool_ok s \<Longrightarrow> pool_ok s'"
  by (auto elim!: pool_stepE intro: worker_step_ok peer_step_ok accept_step_ok shutdown_pool_ok)

lemma start_pool_ok:
  assumes "server_task_queue_init a m c capacity = Inr q"
    and "server_worker_pool_start al cr n = (None, p)"
  shows "pool_ok (start_pool q (wp_workers p))" and "length (wp_workers p) = n" and "\<not> tq_closed q"
proof -
  have ws: "wp_workers p = replicate n Popping"
    using assms(2) by (auto simp: server_worker_pool_start_def split: if_splits option.splits)
  have "handling (replicate k Popping) = []" for k by (induction k) auto
  then show "pool_ok (start_pool q (wp_workers p))" "length (wp_workers p) = n" "\<not> tq_closed q"
    using init_queue [OF assms(1)] by (auto simp: pool_ok_def start_pool_def ws)
qed

lemma reachable_ok: "reachable q ws s \<Longrightarrow> pool_ok (start_pool q ws) \<Longrightarrow> pool_ok s"
  by (induction rule: reachable.induct) (auto intro: pool_step_ok)

section \<open>Shutdown\<close>

fun worker_work :: "worker \<Rightarrow> nat" where
  "worker_work Popping = 1"
| "worker_work Asleep = 2"
| "worker_work (Handling t) = 3"
| "worker_work (Finishing t) = 2"
| "worker_work Exited = 0"

text \<open>The steps that the workers of a closed pool and their peers can still take.\<close>

definition pool_work :: "pool \<Rightarrow> nat" where
  "pool_work s = sum_list (map worker_work (pl_workers s)) + 3 * length (queued (pl_queue s))"

lemma work_update:
  "i < length ws \<Longrightarrow> sum_list (map worker_work (ws[i := w])) + worker_work (ws ! i)
     = sum_list (map worker_work ws) + worker_work w"
proof (induction ws arbitrary: i)
  case (Cons v ws)
  then show ?case by (cases i) (auto simp: algebra_simps)
qed simp

lemma worker_step_work:
  assumes "worker_step i s s'" and "pool_ok s" and "tq_closed (pl_queue s)"
  shows "pool_work s' < pool_work s \<and> tq_closed (pl_queue s') \<and> length (pl_workers s') = length (pl_workers s)"
proof -
  from assms(2) have q: "queue_ok (pl_queue s)" by (simp add: pool_ok_def)
  from assms(1) show ?thesis
  proof cases
    case (take t q)
    with tq.pop_cases(1,4) [OF q take(4)] assms(3) work_update [OF take(2), of "Handling t"]
    show ?thesis by (auto simp: pool_work_def)
  next
    case (sleep q)
    with tq.pop_cases(2) [OF q sleep(4)] assms(3) show ?thesis by simp
  next
    case (leave q)
    with tq.pop_cases(1,3) [OF q leave(4)] assms(3) work_update [OF leave(2), of Exited]
    show ?thesis by (auto simp: pool_work_def)
  next
    case spurious
    with assms(3) work_update [OF spurious(2), of Popping] show ?thesis by (auto simp: pool_work_def)
  next
    case (handled t)
    with assms(3) work_update [OF handled(2), of Popping] show ?thesis by (auto simp: pool_work_def)
  qed
qed

lemma peer_step_work:
  assumes "peer_step i s s'"
  shows "pool_work s' < pool_work s \<and> pl_queue s' = pl_queue s \<and> length (pl_workers s') = length (pl_workers s)"
  using assms
proof cases
  case (served t)
  with work_update [OF served(2), of "Finishing t"] show ?thesis by (simp add: pool_work_def)
qed

text \<open>A worker that has not returned and does not wait for a peer can always move.\<close>

definition waits_for_peer :: "worker \<Rightarrow> bool" where
  "waits_for_peer w = (case w of Handling t \<Rightarrow> True | _ \<Rightarrow> False)"

lemma worker_progress:
  assumes "pool_ok s" and "i < length (pl_workers s)" and "pl_workers s ! i \<noteq> Exited"
    and "\<not> waits_for_peer (pl_workers s ! i)"
  shows "\<exists>s'. worker_step i s s'"
proof -
  from assms(1) have q: "queue_ok (pl_queue s)" by (simp add: pool_ok_def)
  from tq.pop_law [OF q] obtain res q' where p: "server_task_queue_pop (pl_queue s) = Some (res, q')"
    by blast
  show ?thesis
  proof (cases "pl_workers s ! i")
    case Popping
    with p assms(2) show ?thesis
      by (cases res) (blast intro: worker_step.intros)+
  qed (use assms in \<open>auto simp: waits_for_peer_def intro: worker_step.intros\<close>)
qed

text \<open>A worker that waits for its peer stays where it is while only threads of the server move.\<close>

lemma worker_step_waiting:
  assumes "worker_step i s s'" and "pl_workers s ! j = Handling t" and "j < length (pl_workers s)"
  shows "pl_workers s' ! j = Handling t" and "length (pl_workers s') = length (pl_workers s)"
  using assms(1) by (cases; use assms(2,3) in \<open>cases "i = j"; simp\<close>)+

section \<open>Properties of the server's threads\<close>

definition small_queue :: task_queue where
  "small_queue = \<lparr>tq_items = [\<lparr>client_socket = 0\<rparr>], tq_capacity = 1,
     tq_count = 0, tq_head = 0, tq_tail = 0, tq_closed = False\<rparr>"

lemma small_queue: "server_task_queue_init True True True 1 = Inr small_queue"
  by (simp add: server_task_queue_init_def small_queue_def)

lemma small_pool:
  "server_worker_pool_start True (\<lambda>i. True) 1 = (None, \<lparr>wp_threads = Some 1, wp_workers = [Popping]\<rparr>)"
  by (simp add: server_worker_pool_start_def)

text \<open>The first worker falls asleep, and then the pool is shut down.\<close>

definition sleeping_pool :: pool where
  "sleeping_pool = (start_pool small_queue [Popping])\<lparr>pl_workers := [Asleep]\<rparr>"

lemma reach_sleeping: "reachable small_queue [Popping] sleeping_pool"
proof -
  have "worker_step 0 (start_pool small_queue [Popping])
      ((start_pool small_queue [Popping])\<lparr>pl_queue := small_queue,
         pl_workers := (pl_workers (start_pool small_queue [Popping]))[0 := Asleep]\<rparr>)"
    by (rule worker_step.sleep)
      (simp_all add: start_pool_def server_task_queue_pop_def small_queue_def)
  then have "worker_step 0 (start_pool small_queue [Popping]) sleeping_pool"
    by (simp add: start_pool_def sleeping_pool_def)
  then show ?thesis by (rule reachable.step [OF reachable.start pool_step.worker])
qed

text \<open>
  C21: no wakeup is lost. While a worker sleeps on the condition variable the queue is open and
  holds at most as many connections as there are workers awake inside \<open>pop\<close>, so no connection
  waits for a sleeper.
\<close>

theorem no_lost_wakeup:
  assumes "server_task_queue_init a m c capacity = Inr q"
    and "server_worker_pool_start al cr n = (None, p)" and "reachable q (wp_workers p) s"
    and "Asleep \<in> set (pl_workers s)"
  shows "\<not> tq_closed (pl_queue s)
    \<and> server_task_queue_depth (pl_queue s) \<le> int (awake (pl_workers s))"
proof -
  have ok: "pool_ok s"
    using reachable_ok [OF assms(3) start_pool_ok(1) [OF assms(1,2)]] .
  then show ?thesis
    using assms(4) length_queued [of "pl_queue s"]
    by (auto simp: pool_ok_def server_task_queue_depth_def)
qed

theorem no_lost_wakeup_witness:
  "\<not> tq_closed (pl_queue sleeping_pool)
    \<and> server_task_queue_depth (pl_queue sleeping_pool) \<le> int (awake (pl_workers sleeping_pool))"
  using no_lost_wakeup [OF small_queue small_pool, of sleeping_pool] reach_sleeping
  by (simp add: sleeping_pool_def)

text \<open>
  C22: when creating a worker thread fails after at least one was created,
  \<open>server_worker_pool_start\<close> does not come back on its own: it joins the created workers, which
  wait on the still open and empty queue; the caller that could close the queue is the one
  that is blocked, so no run of the workers lets the join return (only a signal handler that
  shuts the server down could).
\<close>

theorem failed_start_hangs:
  assumes "server_task_queue_init a m c capacity = Inr q"
    and "server_worker_pool_start al cr n = (Some msg, p)" and "wp_workers p \<noteq> []"
    and "(\<lambda>s s'. \<exists>i. worker_step i s s')\<^sup>*\<^sup>* (start_pool q (wp_workers p)) s"
  shows "\<not> server_worker_pool_join (pl_workers s)"
proof -
  define ws where "ws = wp_workers p"
  obtain k where ws: "ws = replicate k Popping"
    using assms(2,3) by (auto simp: ws_def server_worker_pool_start_def no_pool_def split: if_splits option.splits)
  have "handling (replicate k Popping) = []" for k by (induction k) auto
  then have "pool_ok (start_pool q ws)" "\<not> tq_closed q"
    using init_queue [OF assms(1)] by (auto simp: pool_ok_def start_pool_def ws)
  with assms(4) [folded ws_def] have "pool_ok s \<and> \<not> tq_closed (pl_queue s) \<and> length (pl_workers s) = length ws"
  proof (induction rule: rtranclp_induct)
    case base
    then show ?case by (simp add: start_pool_def)
  next
    case (step s s')
    then have s: "pool_ok s" "\<not> tq_closed (pl_queue s)" "length (pl_workers s) = length ws" by auto
    from step(2) obtain i where w: "worker_step i s s'" by blast
    from s(1) have q: "queue_ok (pl_queue s)" by (simp add: pool_ok_def)
    from w have "\<not> tq_closed (pl_queue s') \<and> length (pl_workers s') = length ws"
      using s tq.pop_cases(1) [OF q] by cases auto
    with worker_step_ok [OF w s(1)] show ?case by simp
  qed
  then have "Exited \<notin> set (pl_workers s)" "pl_workers s \<noteq> []"
    using assms(3) [folded ws_def] by (auto simp: pool_ok_def)
  then show ?thesis by (cases "pl_workers s") (auto simp: server_worker_pool_join_def)
qed

theorem failed_start_hangs_witness:
  "\<not> server_worker_pool_join (pl_workers (start_pool small_queue [Popping]))"
proof -
  have "server_worker_pool_start True (\<lambda>i. i \<noteq> 1) 2
      = (Some ''failed to create worker thread'', \<lparr>wp_threads = Some 2, wp_workers = [Popping]\<rparr>)"
    by (simp add: server_worker_pool_start_def numeral_2_eq_2)
  from failed_start_hangs [OF small_queue this, of "start_pool small_queue [Popping]"] show ?thesis by simp
qed

end
