(* ===== verification/Engine_Locks.thy ===== *)
theory Engine_Locks
  imports Prelude
begin

text \<open>
  The table locks, \<open>src/engine/engine_lock_manager.c\<close>: a linked list of entries, newest first,
  each with the key of a table and a mutex. \<open>engine_lock_manager_acquire\<close> has two parts that
  other threads can come between: finding or creating the entry with the manager's mutex held,
  and then locking the entry's own mutex, which may block. An entry is known by its address;
  entries are freed only when the manager is destroyed.
\<close>

section \<open>The lock manager\<close>

record lock_entry =
  le_addr :: nat
  le_key :: string
  le_owner :: "nat option"

type_synonym lock_manager = "lock_entry list"

fun find_entry :: "lock_manager \<Rightarrow> string \<Rightarrow> lock_entry option" where
  "find_entry [] key = None"
| "find_entry (e # es) key = (if le_key e = key then Some e else find_entry es key)"

definition engine_lock_manager_init :: "bool \<Rightarrow> string + lock_manager" where
  "engine_lock_manager_init mutex_ok =
     (if mutex_ok then Inr [] else Inl ''failed to initialize engine lock manager mutex'')"

definition engine_lock_manager_destroy :: "lock_manager \<Rightarrow> lock_manager" where
  "engine_lock_manager_destroy m = []"

text \<open>
  What the system answers to one call of \<open>acquire\<close>: the address of a new entry, if it can be
  allocated, and whether its key can be copied and its mutex initialised.
\<close>

record lock_resources =
  lr_entry :: "nat option"
  lr_key :: bool
  lr_mutex :: bool

definition acquire_entry :: "lock_resources \<Rightarrow> lock_manager \<Rightarrow> string \<Rightarrow> (string + nat) \<times> lock_manager" where
  "acquire_entry res m key =
     (case find_entry m key of
        Some e \<Rightarrow> (Inr (le_addr e), m)
      | None \<Rightarrow>
          (case lr_entry res of
             None \<Rightarrow> (Inl ''out of memory while creating table lock'', m)
           | Some a \<Rightarrow>
               if \<not> lr_key res then (Inl ''out of memory while copying table lock key'', m)
               else if \<not> lr_mutex res then (Inl ''failed to initialize table lock mutex'', m)
               else (Inr a, \<lparr>le_addr = a, le_key = key, le_owner = None\<rparr> # m)))"

text \<open>Locking the mutex of the entry at an address: \<^term>\<open>None\<close> while another thread holds it.\<close>

fun lock_entry_mutex :: "nat \<Rightarrow> nat \<Rightarrow> lock_manager \<Rightarrow> lock_manager option" where
  "lock_entry_mutex t a [] = None"
| "lock_entry_mutex t a (e # es) =
     (if le_addr e = a
      then if le_owner e = None then Some (e\<lparr>le_owner := Some t\<rparr> # es) else None
      else map_option ((#) e) (lock_entry_mutex t a es))"

text \<open>\<open>engine_lock_manager_release\<close> on a handle: an empty handle releases nothing.\<close>

fun unlock_entry_mutex :: "nat \<Rightarrow> lock_manager \<Rightarrow> lock_manager" where
  "unlock_entry_mutex a [] = []"
| "unlock_entry_mutex a (e # es) =
     (if le_addr e = a then e\<lparr>le_owner := None\<rparr> # es else e # unlock_entry_mutex a es)"

definition engine_lock_manager_release :: "nat option \<Rightarrow> lock_manager \<Rightarrow> nat option \<times> lock_manager" where
  "engine_lock_manager_release handle m =
     (case handle of None \<Rightarrow> (None, m) | Some a \<Rightarrow> (None, unlock_entry_mutex a m))"

section \<open>Threads that use the locks\<close>

text \<open>
  A thread has no handle, waits for the mutex of an entry it looked up under a key, or holds
  it. The thread's key is kept to state what the locks are for.
\<close>

datatype locker = Outside | Waiting string nat | Holding string nat

type_synonym lock_state = "lock_manager \<times> (nat \<Rightarrow> locker)"

text \<open>\<open>calloc\<close> returns an address that no entry has.\<close>

definition fresh_resources :: "lock_resources \<Rightarrow> lock_manager \<Rightarrow> bool" where
  "fresh_resources res m = (case lr_entry res of None \<Rightarrow> True | Some a \<Rightarrow> a \<notin> le_addr ` set m)"

inductive lock_step :: "nat \<Rightarrow> lock_state \<Rightarrow> lock_state \<Rightarrow> bool" for t where
  enter: "ls t = Outside \<Longrightarrow> fresh_resources res m \<Longrightarrow> acquire_entry res m key = (Inr a, m') \<Longrightarrow>
    lock_step t (m, ls) (m', ls(t := Waiting key a))"
| refused: "ls t = Outside \<Longrightarrow> fresh_resources res m \<Longrightarrow> acquire_entry res m key = (Inl msg, m') \<Longrightarrow>
    lock_step t (m, ls) (m', ls)"
| lock: "ls t = Waiting key a \<Longrightarrow> lock_entry_mutex t a m = Some m' \<Longrightarrow>
    lock_step t (m, ls) (m', ls(t := Holding key a))"
| release: "ls t = Holding key a \<Longrightarrow> engine_lock_manager_release (Some a) m = (h, m') \<Longrightarrow>
    lock_step t (m, ls) (m', ls(t := Outside))"

inductive_cases lock_stepE: "lock_step t s s'"

inductive lock_reachable :: "lock_state \<Rightarrow> bool" where
  start: "lock_reachable ([], \<lambda>t. Outside)"
| step: "lock_reachable s \<Longrightarrow> lock_step t s s' \<Longrightarrow> lock_reachable s'"

section \<open>The invariant\<close>

definition entry_for :: "lock_manager \<Rightarrow> string \<Rightarrow> nat \<Rightarrow> bool" where
  "entry_for m key a = (\<exists>e\<in>set m. le_key e = key \<and> le_addr e = a)"

definition locks_ok :: "lock_state \<Rightarrow> bool" where
  "locks_ok s =
     (distinct (map le_key (fst s)) \<and> distinct (map le_addr (fst s))
      \<and> (\<forall>t key a. snd s t = Waiting key a \<longrightarrow> entry_for (fst s) key a)
      \<and> (\<forall>t key a. snd s t = Holding key a \<longrightarrow>
           (\<exists>e\<in>set (fst s). le_key e = key \<and> le_addr e = a \<and> le_owner e = Some t))
      \<and> (\<forall>e\<in>set (fst s). \<forall>t. le_owner e = Some t \<longrightarrow> snd s t = Holding (le_key e) (le_addr e)))"

lemma find_entry_Some: "find_entry m key = Some e \<Longrightarrow> e \<in> set m \<and> le_key e = key"
  by (induction m) (auto split: if_splits)

lemma find_entry_None: "find_entry m key = None \<longleftrightarrow> key \<notin> le_key ` set m"
  by (induction m) auto

lemma acquire_entry_cases:
  assumes "acquire_entry res m key = (r, m')"
  shows "(\<exists>msg. r = Inl msg \<and> m' = m)
    \<or> (\<exists>e\<in>set m. le_key e = key \<and> r = Inr (le_addr e) \<and> m' = m)
    \<or> (\<exists>a. lr_entry res = Some a \<and> r = Inr a \<and> key \<notin> le_key ` set m
         \<and> m' = \<lparr>le_addr = a, le_key = key, le_owner = None\<rparr> # m)"
  using assms
  by (auto simp: acquire_entry_def find_entry_None dest: find_entry_Some
      split: option.splits if_splits)

lemma lock_entry_mutex_Some:
  "lock_entry_mutex t a m = Some m' \<Longrightarrow>
     \<exists>us e vs. m = us @ e # vs \<and> le_addr e = a \<and> le_owner e = None
       \<and> m' = us @ e\<lparr>le_owner := Some t\<rparr> # vs"
proof (induction t a m arbitrary: m' rule: lock_entry_mutex.induct)
  case (2 t a e es)
  show ?case
  proof (cases "le_addr e = a")
    case True
    with "2.prems" show ?thesis by (intro exI [of _ "[]"]) (auto split: if_splits)
  next
    case False
    with "2.prems" obtain es' where es': "lock_entry_mutex t a es = Some es'" "m' = e # es'" by auto
    from "2.IH" [OF False es'(1)] obtain us e' vs where
      "es = us @ e' # vs" "le_addr e' = a" "le_owner e' = None"
      "es' = us @ e'\<lparr>le_owner := Some t\<rparr> # vs" by blast
    with es'(2) show ?thesis by (intro exI [of _ "e # us"]) auto
  qed
qed simp

lemma lock_entry_mutex_None:
  "lock_entry_mutex t a m = None \<Longrightarrow> a \<in> le_addr ` set m \<Longrightarrow>
     \<exists>e\<in>set m. le_addr e = a \<and> le_owner e \<noteq> None"
  by (induction t a m rule: lock_entry_mutex.induct) (auto split: if_splits)

lemma unlock_entry_mutex_split:
  "a \<in> le_addr ` set m \<Longrightarrow>
     \<exists>us e vs. m = us @ e # vs \<and> le_addr e = a
       \<and> unlock_entry_mutex a m = us @ e\<lparr>le_owner := None\<rparr> # vs"
proof (induction a m rule: unlock_entry_mutex.induct)
  case (2 a e es)
  show ?case
  proof (cases "le_addr e = a")
    case True
    then show ?thesis by (intro exI [of _ "[]"]) auto
  next
    case False
    with 2 obtain us e' vs where "es = us @ e' # vs" "le_addr e' = a"
      "unlock_entry_mutex a es = us @ e'\<lparr>le_owner := None\<rparr> # vs" by auto
    with False show ?thesis by (intro exI [of _ "e # us"]) auto
  qed
qed simp

lemma locks_ok_distinct:
  "locks_ok (m, ls) \<Longrightarrow> distinct (map le_key m) \<and> distinct (map le_addr m)"
  by (simp add: locks_ok_def)

lemma locks_ok_waiting: "locks_ok (m, ls) \<Longrightarrow> ls t = Waiting key a \<Longrightarrow> entry_for m key a"
  unfolding locks_ok_def by simp

lemma locks_ok_holding:
  "locks_ok (m, ls) \<Longrightarrow> ls t = Holding key a \<Longrightarrow>
     \<exists>e\<in>set m. le_key e = key \<and> le_addr e = a \<and> le_owner e = Some t"
  unfolding locks_ok_def by simp

lemma locks_ok_owner:
  "locks_ok (m, ls) \<Longrightarrow> e \<in> set m \<Longrightarrow> le_owner e = Some t \<Longrightarrow> ls t = Holding (le_key e) (le_addr e)"
  unfolding locks_ok_def by simp

lemma locks_okI:
  assumes "distinct (map le_key m)" and "distinct (map le_addr m)"
    and "\<And>t key a. ls t = Waiting key a \<Longrightarrow> entry_for m key a"
    and "\<And>t key a. ls t = Holding key a \<Longrightarrow>
      \<exists>e\<in>set m. le_key e = key \<and> le_addr e = a \<and> le_owner e = Some t"
    and "\<And>e t. e \<in> set m \<Longrightarrow> le_owner e = Some t \<Longrightarrow> ls t = Holding (le_key e) (le_addr e)"
  shows "locks_ok (m, ls)"
  using assms unfolding locks_ok_def by simp

text \<open>Replacing an entry by one with the same key and address.\<close>

lemma entry_for_replace:
  "le_key e' = le_key e \<Longrightarrow> le_addr e' = le_addr e \<Longrightarrow>
     entry_for (us @ e' # vs) = entry_for (us @ e # vs)"
  by (intro ext) (auto simp: entry_for_def)

lemma locks_ok_enter:
  assumes ok: "locks_ok (m, ls)" and out: "ls t = Outside"
    and fresh: "fresh_resources res m" and acq: "acquire_entry res m key = (Inr a, m')"
  shows "locks_ok (m', ls(t := Waiting key a))"
  using acquire_entry_cases [OF acq]
proof (elim disjE)
  assume "\<exists>e\<in>set m. le_key e = key \<and> Inr a = Inr (le_addr e) \<and> m' = m"
  then have ef: "entry_for m key a" and m': "m' = m" by (auto simp: entry_for_def)
  show ?thesis
    unfolding m'
  proof (rule locks_okI)
    fix e u assume "e \<in> set m" "le_owner e = Some u"
    from locks_ok_owner [OF ok this] out
    show "(ls(t := Waiting key a)) u = Holding (le_key e) (le_addr e)" by auto
  qed (use ok ef locks_ok_distinct locks_ok_waiting locks_ok_holding in \<open>auto split: if_splits\<close>)
next
  assume "\<exists>a'. lr_entry res = Some a' \<and> Inr a = Inr a' \<and> key \<notin> le_key ` set m
         \<and> m' = \<lparr>le_addr = a', le_key = key, le_owner = None\<rparr> # m"
  then have new: "lr_entry res = Some a" "key \<notin> le_key ` set m"
    and m': "m' = \<lparr>le_addr = a, le_key = key, le_owner = None\<rparr> # m" by auto
  have a: "a \<notin> le_addr ` set m" using fresh new(1) by (simp add: fresh_resources_def)
  show ?thesis
  proof (rule locks_okI)
    show "distinct (map le_key m')" "distinct (map le_addr m')"
      using locks_ok_distinct [OF ok] a new(2) by (auto simp: m')
    fix u k b assume "(ls(t := Waiting key a)) u = Waiting k b"
    then have "entry_for m k b \<or> k = key \<and> b = a"
      using locks_ok_waiting [OF ok] by (auto split: if_splits)
    then show "entry_for m' k b" by (auto simp: entry_for_def m')
  next
    fix u k b assume "(ls(t := Waiting key a)) u = Holding k b"
    then have "ls u = Holding k b" by (auto split: if_splits)
    from locks_ok_holding [OF ok this]
    show "\<exists>e\<in>set m'. le_key e = k \<and> le_addr e = b \<and> le_owner e = Some u" by (auto simp: m')
  next
    fix e u assume "e \<in> set m'" and o: "le_owner e = Some u"
    then have "e \<in> set m" by (auto simp: m')
    from locks_ok_owner [OF ok this o] out
    show "(ls(t := Waiting key a)) u = Holding (le_key e) (le_addr e)" by auto
  qed
qed simp

lemma locks_ok_lock:
  assumes ok: "locks_ok (m, ls)" and wait: "ls t = Waiting key a"
    and lk: "lock_entry_mutex t a m = Some m'"
  shows "locks_ok (m', ls(t := Holding key a))"
proof -
  from lock_entry_mutex_Some [OF lk] obtain us e vs where
    m: "m = us @ e # vs" "le_addr e = a" "le_owner e = None"
      "m' = us @ e\<lparr>le_owner := Some t\<rparr> # vs" by blast
  have dist: "distinct (map le_key m)" "distinct (map le_addr m)" using locks_ok_distinct [OF ok] by auto
  from locks_ok_waiting [OF ok wait] have key: "le_key e = key"
    using dist(2) m(1,2) by (auto simp: entry_for_def image_iff)
  have ef: "entry_for m' = entry_for m" unfolding m(1,4) by (rule entry_for_replace) auto
  have hold: "\<exists>e\<in>set m'. le_key e = k \<and> le_addr e = b \<and> le_owner e = Some u"
    if "ls u = Holding k b" for u k b
  proof -
    from locks_ok_holding [OF ok that] m show ?thesis by auto
  qed
  have own: "(ls(t := Holding key a)) u = Holding (le_key e') (le_addr e')"
    if "e' \<in> set m'" "le_owner e' = Some u" for u e'
  proof (cases "e' = e\<lparr>le_owner := Some t\<rparr>")
    case True
    then show ?thesis using that(2) key m(2) by simp
  next
    case False
    then have "e' \<in> set m" using that(1) m(1,4) by auto
    from locks_ok_owner [OF ok this that(2)] show ?thesis using wait by auto
  qed
  show ?thesis
  proof (rule locks_okI)
    show "distinct (map le_key m')" "distinct (map le_addr m')" using dist m(1,4) by auto
    fix u k b assume "(ls(t := Holding key a)) u = Waiting k b"
    then show "entry_for m' k b" using locks_ok_waiting [OF ok] by (auto simp: ef split: if_splits)
  next
    fix u k b assume h: "(ls(t := Holding key a)) u = Holding k b"
    show "\<exists>e\<in>set m'. le_key e = k \<and> le_addr e = b \<and> le_owner e = Some u"
    proof (cases "u = t")
      case True
      with h key m(2,4) show ?thesis by auto
    next
      case False
      with h hold show ?thesis by simp
    qed
  qed (rule own)
qed

lemma locks_ok_release:
  assumes ok: "locks_ok (m, ls)" and hold: "ls t = Holding key a"
    and rel: "engine_lock_manager_release (Some a) m = (h, m')"
  shows "locks_ok (m', ls(t := Outside))"
proof -
  from locks_ok_holding [OF ok hold] obtain e0 where
    e0: "e0 \<in> set m" "le_key e0 = key" "le_addr e0 = a" "le_owner e0 = Some t" by blast
  then have "a \<in> le_addr ` set m" by auto
  from unlock_entry_mutex_split [OF this] obtain us e vs where
    m: "m = us @ e # vs" "le_addr e = a" "m' = us @ e\<lparr>le_owner := None\<rparr> # vs"
    using rel by (auto simp: engine_lock_manager_release_def)
  have dist: "distinct (map le_addr m)" using ok by (simp add: locks_ok_def)
  have e: "e = e0" using dist e0(1,3) m(1,2) by (auto simp: image_iff)
  have ef: "entry_for m' = entry_for m" unfolding m(1,3) by (rule entry_for_replace) auto
  have hold': "\<exists>e\<in>set m'. le_key e = k \<and> le_addr e = b \<and> le_owner e = Some u"
    if "ls u = Holding k b" "u \<noteq> t" for u k b
  proof -
    from locks_ok_holding [OF ok that(1)] obtain e' where
      e': "e' \<in> set m" "le_key e' = k" "le_addr e' = b" "le_owner e' = Some u" by blast
    then have "e' \<noteq> e" using e0(4) e that(2) by auto
    then show ?thesis using e' m by auto
  qed
  have own: "u \<noteq> t \<and> ls u = Holding (le_key e') (le_addr e')"
    if "e' \<in> set m'" "le_owner e' = Some u" for u e'
  proof -
    from that have e': "e' \<in> set us \<or> e' \<in> set vs" using m(3) by auto
    then have "e' \<in> set m" using m(1) by auto
    from locks_ok_owner [OF ok this that(2)] have l: "ls u = Holding (le_key e') (le_addr e')" .
    have "le_addr e' \<noteq> a" using e' dist m(1,2) by (auto simp: image_iff)
    then show ?thesis using l hold by auto
  qed
  show ?thesis
  proof (rule locks_okI)
    show "distinct (map le_key m')" "distinct (map le_addr m')"
      using locks_ok_distinct [OF ok] m(1,3) by auto
    fix u k b assume "(ls(t := Outside)) u = Waiting k b"
    then show "entry_for m' k b" using locks_ok_waiting [OF ok] by (auto simp: ef split: if_splits)
  next
    fix u k b assume "(ls(t := Outside)) u = Holding k b"
    then show "\<exists>e\<in>set m'. le_key e = k \<and> le_addr e = b \<and> le_owner e = Some u"
      using hold' by (auto split: if_splits)
  next
    fix e' u assume "e' \<in> set m'" and "le_owner e' = Some u"
    from own [OF this] show "(ls(t := Outside)) u = Holding (le_key e') (le_addr e')" by simp
  qed
qed

lemma lock_step_ok: "lock_step t s s' \<Longrightarrow> locks_ok s \<Longrightarrow> locks_ok s'"
proof (induction rule: lock_step.induct)
  case (refused ls res m key msg m')
  with acquire_entry_cases [OF refused(3)] show ?case by auto
qed (auto intro: locks_ok_enter locks_ok_lock locks_ok_release)

lemma lock_reachable_ok: "lock_reachable s \<Longrightarrow> locks_ok s"
proof (induction rule: lock_reachable.induct)
  case start
  show ?case by (simp add: locks_ok_def)
qed (rule lock_step_ok)

section \<open>What one call relies on\<close>

text \<open>
  The contract a user of the locks relies on: which keys are held before and after each call.
  The lemma \<open>cycle\<close> is what the engine adapter needs; the interpretation discharges the laws
  for the lock manager.
\<close>

locale table_locks =
  fixes inv :: "'m \<Rightarrow> bool" and held :: "'m \<Rightarrow> string set"
    and fresh :: "'r \<Rightarrow> 'm \<Rightarrow> bool"
    and names :: "'m \<Rightarrow> string \<Rightarrow> nat \<Rightarrow> bool"
    and acquire :: "'r \<Rightarrow> 'm \<Rightarrow> string \<Rightarrow> (string + nat) \<times> 'm"
    and lock :: "nat \<Rightarrow> nat \<Rightarrow> 'm \<Rightarrow> 'm option"
    and release :: "nat option \<Rightarrow> 'm \<Rightarrow> nat option \<times> 'm"
  assumes acquire_law: "inv m \<Longrightarrow> fresh res m \<Longrightarrow> acquire res m key = (r, m') \<Longrightarrow>
      inv m' \<and> held m' = held m \<and> (\<forall>a. r = Inr a \<longrightarrow> names m' key a)"
    and lock_law: "inv m \<Longrightarrow> names m key a \<Longrightarrow>
      (if key \<in> held m then lock t a m = None
       else \<exists>m'. lock t a m = Some m' \<and> inv m' \<and> names m' key a \<and> held m' = insert key (held m))"
    and release_law: "inv m \<Longrightarrow> names m key a \<Longrightarrow>
      inv (snd (release (Some a) m)) \<and> held (snd (release (Some a) m)) = held m - {key}"
begin

text \<open>Acquiring a free key, locking and releasing it leaves the same keys held.\<close>

lemma cycle:
  assumes "inv m" and "fresh res m" and "acquire res m key = (Inr a, m1)" and "key \<notin> held m"
  shows "\<exists>m2. lock t a m1 = Some m2 \<and> held m2 = insert key (held m)
    \<and> inv (snd (release (Some a) m2)) \<and> held (snd (release (Some a) m2)) = held m"
proof -
  from acquire_law [OF assms(1-3)] have m1: "inv m1" "held m1 = held m" "names m1 key a" by auto
  with lock_law [OF m1(1,3), of t] assms(4) obtain m2 where
    m2: "lock t a m1 = Some m2" "inv m2" "names m2 key a" "held m2 = insert key (held m)"
    by auto
  from release_law [OF m2(2,3)] m2 assms(4) show ?thesis by auto
qed

text \<open>A key that is held cannot be locked again.\<close>

lemma blocked:
  assumes "inv m" and "fresh res m" and "acquire res m key = (Inr a, m1)" and "key \<in> held m"
  shows "lock t a m1 = None"
proof -
  from acquire_law [OF assms(1-3)] have "inv m1" "held m1 = held m" "names m1 key a" by auto
  with lock_law [of m1 key a t] assms(4) show ?thesis by auto
qed

end

definition manager_ok :: "lock_manager \<Rightarrow> bool" where
  "manager_ok m = (distinct (map le_key m) \<and> distinct (map le_addr m))"

definition held_keys :: "lock_manager \<Rightarrow> string set" where
  "held_keys m = le_key ` {e \<in> set m. le_owner e \<noteq> None}"

lemma held_keys_split:
  "held_keys (us @ e # vs)
     = held_keys us \<union> held_keys vs \<union> (if le_owner e = None then {} else {le_key e})"
  by (auto simp: held_keys_def)

lemma held_keys_sub: "held_keys m \<subseteq> le_key ` set m"
  by (auto simp: held_keys_def)

lemma acquire_entry_law:
  assumes "manager_ok m" and "fresh_resources res m" and "acquire_entry res m key = (r, m')"
  shows "manager_ok m' \<and> held_keys m' = held_keys m \<and> (\<forall>a. r = Inr a \<longrightarrow> entry_for m' key a)"
  using acquire_entry_cases [OF assms(3)] assms(1,2)
  by (auto simp: manager_ok_def held_keys_def entry_for_def fresh_resources_def)

lemma lock_entry_law:
  assumes "manager_ok m" and "entry_for m key a"
  shows "if key \<in> held_keys m then lock_entry_mutex t a m = None
    else \<exists>m'. lock_entry_mutex t a m = Some m' \<and> manager_ok m' \<and> entry_for m' key a
      \<and> held_keys m' = insert key (held_keys m)"
proof -
  from assms(2) obtain e where e: "e \<in> set m" "le_key e = key" "le_addr e = a"
    by (auto simp: entry_for_def)
  have key: "e' = e" if "e' \<in> set m" "le_key e' = key \<or> le_addr e' = a" for e'
    using assms(1) e that by (auto simp: manager_ok_def distinct_map inj_on_def)
  show ?thesis
  proof (cases "lock_entry_mutex t a m")
    case None
    have "a \<in> le_addr ` set m" using e(1,3) by (rule rev_image_eqI [OF _ sym])
    from lock_entry_mutex_None [OF None this] obtain e' where
      "e' \<in> set m" "le_addr e' = a" "le_owner e' \<noteq> None" by blast
    with key [of e'] have "le_owner e \<noteq> None" by simp
    then have "key \<in> held_keys m" using e by (auto simp: held_keys_def)
    with None show ?thesis by simp
  next
    case (Some m')
    from lock_entry_mutex_Some [OF this] obtain us e' vs where
      m: "m = us @ e' # vs" "le_addr e' = a" "le_owner e' = None"
        "m' = us @ e'\<lparr>le_owner := Some t\<rparr> # vs" by blast
    have e': "e' = e" using key m(1,2) by simp
    have "key \<notin> held_keys m" using key e' m(3) by (auto simp: held_keys_def)
    moreover have "held_keys m' = insert key (held_keys m)"
      using e(2) e' m(3) by (simp add: m(1,4) held_keys_split)
    moreover have "manager_ok m'" using assms(1) by (simp add: m(1,4) manager_ok_def)
    moreover have "entry_for m' key a" using e(2,3) e' by (simp add: m(4) entry_for_def)
    ultimately show ?thesis using Some by auto
  qed
qed

lemma release_entry_law:
  assumes "manager_ok m" and "entry_for m key a"
  shows "manager_ok (snd (engine_lock_manager_release (Some a) m))
    \<and> held_keys (snd (engine_lock_manager_release (Some a) m)) = held_keys m - {key}"
proof -
  from assms(2) obtain e where e: "e \<in> set m" "le_key e = key" "le_addr e = a"
    by (auto simp: entry_for_def)
  then have "a \<in> le_addr ` set m" by auto
  from unlock_entry_mutex_split [OF this] obtain us e' vs where
    m: "m = us @ e' # vs" "le_addr e' = a"
      "unlock_entry_mutex a m = us @ e'\<lparr>le_owner := None\<rparr> # vs" by blast
  have e': "e' = e"
    using assms(1) e m(1,2) by (auto simp: manager_ok_def distinct_map inj_on_def)
  have "key \<notin> le_key ` set us" "key \<notin> le_key ` set vs"
    using assms(1) e(2) e' m(1) by (simp_all add: manager_ok_def)
  then have "key \<notin> held_keys us" "key \<notin> held_keys vs" using held_keys_sub by blast+
  then have "held_keys (us @ e\<lparr>le_owner := None\<rparr> # vs) = held_keys m - {key}"
    using e(2) e' by (auto simp: m(1) held_keys_split)
  moreover have "manager_ok (us @ e\<lparr>le_owner := None\<rparr> # vs)"
    using assms(1) e' by (simp add: m(1) manager_ok_def)
  ultimately show ?thesis
    using m(3) e' by (simp add: engine_lock_manager_release_def)
qed

interpretation tl: table_locks manager_ok held_keys fresh_resources entry_for acquire_entry
  lock_entry_mutex engine_lock_manager_release
  by unfold_locales (rule acquire_entry_law lock_entry_law release_entry_law; assumption)+

section \<open>Properties of the table locks\<close>

text \<open>
  C23: statements on one table exclude each other. In every interleaving of threads that acquire
  and release table locks, at most one thread holds the lock of a given storage name, and the
  manager never has two entries for one name.
\<close>

theorem table_mutual_exclusion:
  assumes "lock_reachable (m, ls)" and "ls t = Holding key a" and "ls u = Holding key b"
  shows "t = u \<and> distinct (map le_key m)"
proof -
  note ok = lock_reachable_ok [OF assms(1)]
  from locks_ok_holding [OF ok assms(2)] locks_ok_holding [OF ok assms(3)] obtain e e' where
    e: "e \<in> set m" "le_key e = key" "le_owner e = Some t"
    and e': "e' \<in> set m" "le_key e' = key" "le_owner e' = Some u" by blast
  have "e = e'" using locks_ok_distinct [OF ok] e(1,2) e'(1,2) by (auto simp: distinct_map inj_on_def)
  with e(3) e'(3) locks_ok_distinct [OF ok] show ?thesis by auto
qed

text \<open>Thread 1 looks up and locks the table \<open>users\<close>, and thread 2 waits for it.\<close>

definition users_held :: lock_state where
  "users_held = ([\<lparr>le_addr = 64, le_key = ''users'', le_owner = Some 1\<rparr>],
     (\<lambda>t. if t = 1 then Holding ''users'' 64 else if t = 2 then Waiting ''users'' 64 else Outside))"

lemma users_held_reachable: "lock_reachable users_held"
proof -
  define free where "free = \<lparr>le_addr = 64, le_key = ''users'', le_owner = None :: nat option\<rparr>"
  define out :: "nat \<Rightarrow> locker" where "out = (\<lambda>t. Outside)"
  define res where "res = \<lparr>lr_entry = Some 64, lr_key = True, lr_mutex = True\<rparr>"
  have 1: "lock_step 1 ([], out) ([free], out(1 := Waiting ''users'' 64))"
    by (rule lock_step.enter [of _ _ res])
      (simp_all add: out_def res_def fresh_resources_def acquire_entry_def free_def)
  have 2: "lock_step 1 ([free], out(1 := Waiting ''users'' 64))
      ([free\<lparr>le_owner := Some 1\<rparr>], (out(1 := Waiting ''users'' 64))(1 := Holding ''users'' 64))"
    by (rule lock_step.lock) (simp_all add: free_def)
  have 3: "lock_step 2 ([free\<lparr>le_owner := Some 1\<rparr>], out(1 := Holding ''users'' 64))
      ([free\<lparr>le_owner := Some 1\<rparr>], (out(1 := Holding ''users'' 64))(2 := Waiting ''users'' 64))"
    by (rule lock_step.enter [of _ _ "res\<lparr>lr_entry := None\<rparr>"])
      (simp_all add: out_def fresh_resources_def acquire_entry_def free_def)
  have "lock_reachable ([], out)" unfolding out_def by (rule lock_reachable.start)
  from lock_reachable.step [OF lock_reachable.step [OF this 1] 2]
  have "lock_reachable ([free\<lparr>le_owner := Some 1\<rparr>], out(1 := Holding ''users'' 64))" by simp
  from lock_reachable.step [OF this 3]
  have "lock_reachable ([free\<lparr>le_owner := Some 1\<rparr>], (out(1 := Holding ''users'' 64))(2 := Waiting ''users'' 64))" .
  moreover have "users_held = ([free\<lparr>le_owner := Some 1\<rparr>],
      (out(1 := Holding ''users'' 64))(2 := Waiting ''users'' 64))"
    by (auto simp: users_held_def free_def out_def)
  ultimately show ?thesis by simp
qed

theorem table_mutual_exclusion_witness:
  "(1::nat) = 1 \<and> distinct (map le_key (fst users_held))"
  by (rule table_mutual_exclusion [of "fst users_held" "snd users_held" 1 "''users''" 64 1 64])
    (use users_held_reachable in \<open>simp_all add: users_held_def\<close>)

text \<open>A thread waits only for a thread that holds the same key.\<close>

lemma waiting_progress:
  assumes ok: "locks_ok (m, ls)" and w: "ls t = Waiting key a"
  shows "(\<exists>m'. lock_entry_mutex t a m = Some m') \<or> (\<exists>u b. u \<noteq> t \<and> ls u = Holding key b)"
proof (cases "key \<in> held_keys m")
  case True
  then obtain e u where "e \<in> set m" "le_key e = key" "le_owner e = Some u"
    by (auto simp: held_keys_def)
  with locks_ok_owner [OF ok, of e u] w have "u \<noteq> t \<and> ls u = Holding key (le_addr e)" by auto
  then show ?thesis by blast
next
  case False
  have "manager_ok m" using locks_ok_distinct [OF ok] by (simp add: manager_ok_def)
  from lock_entry_law [OF this locks_ok_waiting [OF ok w], of t] False show ?thesis by auto
qed

text \<open>
  A thread that waits for a table can lock it at once unless another thread holds that same
  table, and a thread that holds a table can release it.
\<close>

lemma locks_progress:
  assumes "lock_reachable (m, ls)"
  shows "case ls t of Outside \<Rightarrow> True
    | Waiting key a \<Rightarrow> (\<exists>s'. lock_step t (m, ls) s') \<or> (\<exists>u b. u \<noteq> t \<and> ls u = Holding key b)
    | Holding key a \<Rightarrow> \<exists>s'. lock_step t (m, ls) s'"
proof (cases "ls t")
  case (Waiting key a)
  from waiting_progress [OF lock_reachable_ok [OF assms] this] Waiting show ?thesis
    by (auto intro: lock_step.lock)
next
  case (Holding key a)
  from lock_step.release [of ls t key a m, OF this surjective_pairing] show ?thesis using Holding by auto
qed simp

end
