(* ===== verification/Engine_Adapter.thy ===== *)
theory Engine_Adapter
  imports Database_Props Sql_Frontend Engine_Locks
begin

text \<open>
  The engine adapter, \<open>src/engine/sql_engine_adapter.c\<close>, and the service layer above it,
  \<open>src/service/db_service.c\<close>: one SQL text is checked, lexed, parsed, locked by its table's
  storage name, executed, and its result is captured with an error code.

  The state is the database, the lock manager and the two test hooks. What the system decides
  comes in \<open>adapter_env\<close>: the calling thread, the resources of a new lock, whether
  \<open>tmpfile\<close> succeeds, and \<open>ae_overlap\<close>, the bytes that remain when \<open>snprintf\<close> copies a buffer
  onto itself, which the C standard leaves undefined. The two timings are not modelled.
\<close>

section \<open>Error codes\<close>

datatype sql_engine_error_code =
    SQL_ENGINE_ERROR_NONE
  | SQL_ENGINE_ERROR_INVALID_JSON
  | SQL_ENGINE_ERROR_MISSING_SQL_FIELD
  | SQL_ENGINE_ERROR_INVALID_CONTENT_TYPE
  | SQL_ENGINE_ERROR_CONTENT_LENGTH_REQUIRED
  | SQL_ENGINE_ERROR_INVALID_CONTENT_LENGTH
  | SQL_ENGINE_ERROR_PAYLOAD_TOO_LARGE
  | SQL_ENGINE_ERROR_HEADER_TOO_LARGE
  | SQL_ENGINE_ERROR_CHUNKED_NOT_SUPPORTED
  | SQL_ENGINE_ERROR_METHOD_NOT_ALLOWED
  | SQL_ENGINE_ERROR_NOT_FOUND
  | SQL_ENGINE_ERROR_SQL_LEX_ERROR
  | SQL_ENGINE_ERROR_SQL_PARSE_ERROR
  | SQL_ENGINE_ERROR_UNSUPPORTED_SQL
  | SQL_ENGINE_ERROR_INVALID_SQL_ARGUMENT
  | SQL_ENGINE_ERROR_ENGINE_EXECUTION_ERROR
  | SQL_ENGINE_ERROR_SCHEMA_LOAD_ERROR
  | SQL_ENGINE_ERROR_STORAGE_IO_ERROR
  | SQL_ENGINE_ERROR_INDEX_REBUILD_ERROR
  | SQL_ENGINE_ERROR_QUEUE_FULL
  | SQL_ENGINE_ERROR_INTERNAL_ERROR

definition sql_engine_error_code_name :: "sql_engine_error_code \<Rightarrow> string" where
  "sql_engine_error_code_name code =
     (case code of
        SQL_ENGINE_ERROR_NONE \<Rightarrow> ''NONE''
      | SQL_ENGINE_ERROR_INVALID_JSON \<Rightarrow> ''INVALID_JSON''
      | SQL_ENGINE_ERROR_MISSING_SQL_FIELD \<Rightarrow> ''MISSING_SQL_FIELD''
      | SQL_ENGINE_ERROR_INVALID_CONTENT_TYPE \<Rightarrow> ''INVALID_CONTENT_TYPE''
      | SQL_ENGINE_ERROR_CONTENT_LENGTH_REQUIRED \<Rightarrow> ''CONTENT_LENGTH_REQUIRED''
      | SQL_ENGINE_ERROR_INVALID_CONTENT_LENGTH \<Rightarrow> ''INVALID_CONTENT_LENGTH''
      | SQL_ENGINE_ERROR_PAYLOAD_TOO_LARGE \<Rightarrow> ''PAYLOAD_TOO_LARGE''
      | SQL_ENGINE_ERROR_HEADER_TOO_LARGE \<Rightarrow> ''HEADER_TOO_LARGE''
      | SQL_ENGINE_ERROR_CHUNKED_NOT_SUPPORTED \<Rightarrow> ''CHUNKED_NOT_SUPPORTED''
      | SQL_ENGINE_ERROR_METHOD_NOT_ALLOWED \<Rightarrow> ''METHOD_NOT_ALLOWED''
      | SQL_ENGINE_ERROR_NOT_FOUND \<Rightarrow> ''NOT_FOUND''
      | SQL_ENGINE_ERROR_SQL_LEX_ERROR \<Rightarrow> ''SQL_LEX_ERROR''
      | SQL_ENGINE_ERROR_SQL_PARSE_ERROR \<Rightarrow> ''SQL_PARSE_ERROR''
      | SQL_ENGINE_ERROR_UNSUPPORTED_SQL \<Rightarrow> ''UNSUPPORTED_SQL''
      | SQL_ENGINE_ERROR_INVALID_SQL_ARGUMENT \<Rightarrow> ''INVALID_SQL_ARGUMENT''
      | SQL_ENGINE_ERROR_ENGINE_EXECUTION_ERROR \<Rightarrow> ''ENGINE_EXECUTION_ERROR''
      | SQL_ENGINE_ERROR_SCHEMA_LOAD_ERROR \<Rightarrow> ''SCHEMA_LOAD_ERROR''
      | SQL_ENGINE_ERROR_STORAGE_IO_ERROR \<Rightarrow> ''STORAGE_IO_ERROR''
      | SQL_ENGINE_ERROR_INDEX_REBUILD_ERROR \<Rightarrow> ''INDEX_REBUILD_ERROR''
      | SQL_ENGINE_ERROR_QUEUE_FULL \<Rightarrow> ''QUEUE_FULL''
      | SQL_ENGINE_ERROR_INTERNAL_ERROR \<Rightarrow> ''INTERNAL_ERROR'')"

section \<open>Configuration, result and state\<close>

record adapter_config =
  ac_schema_dir :: string
  ac_data_dir :: string
  ac_sql_length_limit :: nat

record adapter_result =
  ar_ok :: bool
  ar_statement_type :: string
  ar_affected_rows :: int
  ar_summary :: string
  ar_output :: "string option"
  ar_error_code :: sql_engine_error_code
  ar_error_message :: string

record engine =
  en_db :: db
  en_locks :: lock_manager
  en_forced :: sql_engine_error_code
  en_delay :: int

record adapter_env =
  ae_thread :: nat
  ae_lock :: lock_resources
  ae_tmpfile :: bool
  ae_overlap :: "string \<Rightarrow> string"

text \<open>The result after \<open>memset\<close>, and after \<open>set_error\<close> on it.\<close>

definition empty_result :: adapter_result where
  "empty_result = \<lparr>ar_ok = False, ar_statement_type = [], ar_affected_rows = 0, ar_summary = [],
     ar_output = None, ar_error_code = SQL_ENGINE_ERROR_NONE, ar_error_message = []\<rparr>"

definition set_error :: "adapter_result \<Rightarrow> sql_engine_error_code \<Rightarrow> string \<Rightarrow> adapter_result" where
  "set_error r code message =
     r\<lparr>ar_ok := False, ar_error_code := code, ar_error_message := snprintf 256 message\<rparr>"

section \<open>Helpers\<close>

fun statement_type_name :: "statement \<Rightarrow> string" where
  "statement_type_name (INSERT st) = ''insert''"
| "statement_type_name (SELECT st) = ''select''"

fun statement_table_name :: "statement \<Rightarrow> string" where
  "statement_table_name (INSERT st) = ins_table st"
| "statement_table_name (SELECT st) = sel_table st"

fun is_blank_sql :: "string \<Rightarrow> bool" where
  "is_blank_sql [] = True"
| "is_blank_sql (c # cs) =
     (if c \<noteq> SP \<and> c \<noteq> TAB \<and> c \<noteq> CR \<and> c \<noteq> LF then False else is_blank_sql cs)"

definition consume_forced_next_error :: "engine \<Rightarrow> sql_engine_error_code \<times> engine" where
  "consume_forced_next_error e = (en_forced e, e\<lparr>en_forced := SQL_ENGINE_ERROR_NONE\<rparr>)"

definition forced_error_message :: "sql_engine_error_code \<Rightarrow> string" where
  "forced_error_message code =
     (case code of
        SQL_ENGINE_ERROR_ENGINE_EXECUTION_ERROR \<Rightarrow> ''forced engine execution failure''
      | SQL_ENGINE_ERROR_INTERNAL_ERROR \<Rightarrow> ''forced internal adapter failure''
      | SQL_ENGINE_ERROR_INDEX_REBUILD_ERROR \<Rightarrow> ''forced index rebuild failure''
      | SQL_ENGINE_ERROR_SCHEMA_LOAD_ERROR \<Rightarrow> ''forced schema load failure''
      | _ \<Rightarrow> ''forced adapter failure'')"

text \<open>The loop over the stream's blocks of 1024 bytes; reads and reallocations succeed.\<close>

function read_blocks :: "string \<Rightarrow> string \<Rightarrow> string" where
  "read_blocks stream buffer =
     (if stream = [] then buffer else read_blocks (drop 1024 stream) (buffer @ take 1024 stream))"
  by pat_completeness auto
termination by (relation "measure (length \<circ> fst)") auto

declare read_blocks.simps [simp del]

definition read_stream_to_string :: "string \<Rightarrow> string" where
  "read_stream_to_string stream = read_blocks stream []"

definition classify_execution_error :: "statement \<Rightarrow> string \<Rightarrow> sql_engine_error_code" where
  "classify_execution_error st m =
     (if list_ex (strstr m)
           [''WHERE id value must be an integer'', ''explicit id column is not allowed'',
            ''unknown column in INSERT'', ''unknown column in SELECT'', ''unknown column in WHERE'',
            ''column count and value count do not match'', ''duplicate column in INSERT'',
            ''newline in value is not supported'']
      then SQL_ENGINE_ERROR_INVALID_SQL_ARGUMENT
      else if list_ex (strstr m)
           [''failed to open table data file'', ''table data file is empty'',
            ''failed to open table file'']
      then SQL_ENGINE_ERROR_STORAGE_IO_ERROR
      else if (case st of SELECT s \<Rightarrow> has_where s \<and> where_column s = ''id'' | INSERT i \<Rightarrow> False)
              \<or> strstr m ''forced index registration failure''
      then SQL_ENGINE_ERROR_INDEX_REBUILD_ERROR
      else SQL_ENGINE_ERROR_ENGINE_EXECUTION_ERROR)"

definition classify_schema_load_error :: "string \<Rightarrow> sql_engine_error_code" where
  "classify_schema_load_error m =
     (if list_ex (strstr m)
           [''failed to open table data file'', ''table data file is empty'',
            ''failed to open schema meta file'']
      then SQL_ENGINE_ERROR_STORAGE_IO_ERROR
      else SQL_ENGINE_ERROR_SCHEMA_LOAD_ERROR)"

definition classify_parse_error :: "string \<Rightarrow> sql_engine_error_code" where
  "classify_parse_error m =
     (if strstr m ''only INSERT and SELECT are supported''
         \<or> strstr m ''AND/OR conditions are not supported''
      then SQL_ENGINE_ERROR_UNSUPPORTED_SQL
      else SQL_ENGINE_ERROR_SQL_PARSE_ERROR)"

section \<open>Executing one SQL text\<close>

text \<open>The checks and the front end, before the schema: a result for the caller or a statement.\<close>

definition adapter_front ::
  "adapter_env \<Rightarrow> adapter_config \<Rightarrow> string option \<Rightarrow> (adapter_result + statement) option" where
  "adapter_front env cfg sql_text =
     (case sql_text of
        None \<Rightarrow> Some (Inl (set_error empty_result SQL_ENGINE_ERROR_INVALID_SQL_ARGUMENT
                         ''SQL statement must not be blank''))
      | Some s \<Rightarrow>
          if is_blank_sql s
          then Some (Inl (set_error empty_result SQL_ENGINE_ERROR_INVALID_SQL_ARGUMENT
                       ''SQL statement must not be blank''))
          else if 0 < ac_sql_length_limit cfg \<and> ac_sql_length_limit cfg < length s
          then Some (Inl (set_error empty_result SQL_ENGINE_ERROR_PAYLOAD_TOO_LARGE
                       ''SQL statement exceeds configured length limit''))
          else
            (case lex_sql s of
               Inl m \<Rightarrow> Some (Inl (set_error empty_result SQL_ENGINE_ERROR_SQL_LEX_ERROR
                                (ae_overlap env m)))
             | Inr tokens \<Rightarrow>
                 (case parse_statement tokens of
                    None \<Rightarrow> None
                  | Some (Inl m) \<Rightarrow> Some (Inl (set_error empty_result (classify_parse_error m) m))
                  | Some (Inr st) \<Rightarrow> Some (Inr st))))"

text \<open>What runs while the table lock is held.\<close>

definition adapter_run ::
  "adapter_env \<Rightarrow> adapter_config \<Rightarrow> statement \<Rightarrow> engine \<Rightarrow> (adapter_result \<times> engine) option" where
  "adapter_run env cfg st e0 =
     (case consume_forced_next_error e0 of
        (forced, e) \<Rightarrow>
          if forced \<noteq> SQL_ENGINE_ERROR_NONE
          then Some (set_error empty_result forced (forced_error_message forced), e)
          else if \<not> ae_tmpfile env
          then Some (set_error empty_result SQL_ENGINE_ERROR_INTERNAL_ERROR
                       ''failed to create SQL output buffer'', e)
          else
            (case execute_statement st (ac_schema_dir cfg) (ac_data_dir cfg) (en_db e) of
               None \<Rightarrow> None
             | Some (r, stream, d) \<Rightarrow>
                 if \<not> er_ok r
                 then Some (set_error empty_result (classify_execution_error st (er_message r))
                              (er_message r), e\<lparr>en_db := d\<rparr>)
                 else Some (empty_result\<lparr>ar_ok := True,
                              ar_statement_type := snprintf 16 (statement_type_name st),
                              ar_affected_rows := er_affected_rows r,
                              ar_summary := snprintf 256 (er_message r),
                              ar_output := Some (case st of INSERT i \<Rightarrow> []
                                                 | SELECT s \<Rightarrow> read_stream_to_string stream)\<rparr>,
                            e\<lparr>en_db := d\<rparr>)))"

text \<open>
  One call: it returns, or it waits for the table lock in the state in which the entry exists,
  or it runs into undefined behaviour.
\<close>

datatype adapter_outcome = Returns adapter_result engine | Waits engine | Undefined

definition sql_engine_adapter_execute ::
  "adapter_env \<Rightarrow> adapter_config \<Rightarrow> string option \<Rightarrow> engine \<Rightarrow> adapter_outcome" where
  "sql_engine_adapter_execute env cfg sql_text e =
     (case adapter_front env cfg sql_text of
        None \<Rightarrow> Undefined
      | Some (Inl r) \<Rightarrow> Returns r e
      | Some (Inr st) \<Rightarrow>
          (case load_schema (db_fs (en_db e)) (ac_schema_dir cfg) (ac_data_dir cfg)
                  (statement_table_name st) of
             Inl m \<Rightarrow> Returns (set_error empty_result (classify_schema_load_error m) m) e
           | Inr sch \<Rightarrow>
               (case acquire_entry (ae_lock env) (en_locks e) (sc_storage_name sch) of
                  (Inl m, ls) \<Rightarrow>
                    Returns (set_error empty_result SQL_ENGINE_ERROR_INTERNAL_ERROR
                               (ae_overlap env (snprintf 256 m))) (e\<lparr>en_locks := ls\<rparr>)
                | (Inr a, ls) \<Rightarrow>
                    (case lock_entry_mutex (ae_thread env) a ls of
                       None \<Rightarrow> Waits (e\<lparr>en_locks := ls\<rparr>)
                     | Some ls' \<Rightarrow>
                         (case adapter_run env cfg st (e\<lparr>en_locks := ls'\<rparr>) of
                            None \<Rightarrow> Undefined
                          | Some (r, e') \<Rightarrow>
                              Returns r (e'\<lparr>en_locks :=
                                snd (engine_lock_manager_release (Some a) (en_locks e'))\<rparr>))))))"

definition db_service_execute_sql ::
  "adapter_env \<Rightarrow> adapter_config \<Rightarrow> string option \<Rightarrow> engine \<Rightarrow> adapter_outcome" where
  "db_service_execute_sql = sql_engine_adapter_execute"

definition sql_engine_adapter_test_force_next_error :: "sql_engine_error_code \<Rightarrow> engine \<Rightarrow> engine" where
  "sql_engine_adapter_test_force_next_error code e = e\<lparr>en_forced := code\<rparr>"

definition sql_engine_adapter_test_set_delay_after_lock_ms :: "int \<Rightarrow> engine \<Rightarrow> engine" where
  "sql_engine_adapter_test_set_delay_after_lock_ms delay_ms e =
     e\<lparr>en_delay := (if delay_ms < 0 then 0 else delay_ms)\<rparr>"

definition sql_engine_adapter_test_clear_hooks :: "engine \<Rightarrow> engine" where
  "sql_engine_adapter_test_clear_hooks e = e\<lparr>en_forced := SQL_ENGINE_ERROR_NONE, en_delay := 0\<rparr>"

end
