(* ===== verification/Adapter_Props.thy ===== *)
theory Adapter_Props
  imports Engine_Adapter Executor_Safety
begin

text \<open>
  What one call of the engine adapter promises: the form of its result, that every lock it
  takes is given back, which file it may change and how, how errors are classified, and that a
  printed INSERT followed by a printed SELECT returns the inserted row.
\<close>

section \<open>Capturing the output\<close>

lemma read_blocks_append: "read_blocks stream buffer = buffer @ stream"
proof (induction stream buffer rule: read_blocks.induct)
  case (1 stream buffer)
  then show ?case by (subst read_blocks.simps) simp
qed

lemma read_stream_id [simp]: "read_stream_to_string stream = stream"
  by (simp add: read_stream_to_string_def read_blocks_append)

section \<open>Locking and releasing\<close>

lemma lock_keys: "lock_entry_mutex t a m = Some m' \<Longrightarrow> map le_key m' = map le_key m"
  by (auto dest: lock_entry_mutex_Some)

lemma unlock_keys: "map le_key (unlock_entry_mutex a m) = map le_key m"
  by (induction a m rule: unlock_entry_mutex.induct) auto

lemma release_keys: "map le_key (snd (engine_lock_manager_release h m)) = map le_key m"
  by (simp add: engine_lock_manager_release_def unlock_keys split: option.splits)

definition can_lock :: "lock_resources \<Rightarrow> lock_manager \<Rightarrow> string \<Rightarrow> bool" where
  "can_lock res m key =
     (key \<in> le_key ` set m
      \<or> (lr_entry res \<noteq> None \<and> fresh_resources res m \<and> lr_key res \<and> lr_mutex res))"

lemma uncontended:
  assumes man: "manager_ok m" and can: "can_lock res m key" and free: "key \<notin> held_keys m"
  shows "\<exists>a m1 m2. acquire_entry res m key = (Inr a, m1) \<and> lock_entry_mutex t a m1 = Some m2
    \<and> manager_ok (snd (engine_lock_manager_release (Some a) m2))
    \<and> held_keys (snd (engine_lock_manager_release (Some a) m2)) = held_keys m
    \<and> key \<in> le_key ` set (snd (engine_lock_manager_release (Some a) m2))"
proof -
  define res' where "res' = (if key \<in> le_key ` set m
     then \<lparr>lr_entry = None, lr_key = True, lr_mutex = True\<rparr> else res)"
  have fr: "fresh_resources res' m" using can
    by (auto simp: res'_def can_lock_def fresh_resources_def)
  have same: "acquire_entry res m key = acquire_entry res' m key"
    using find_entry_None [of m key] by (auto simp: acquire_entry_def res'_def split: option.splits)
  obtain a m1 where acq: "acquire_entry res' m key = (Inr a, m1)"
  proof (cases "find_entry m key")
    case (Some x)
    then show ?thesis by (intro that) (simp add: acquire_entry_def)
  next
    case None
    then have "res' = res" "key \<notin> le_key ` set m" by (auto simp: res'_def find_entry_None)
    with can obtain y where "lr_entry res' = Some y" "lr_key res'" "lr_mutex res'"
      by (auto simp: can_lock_def)
    with None show ?thesis by (intro that) (simp add: acquire_entry_def)
  qed
  from tl.cycle [OF man fr acq free, of t] obtain m2 where
    m2: "lock_entry_mutex t a m1 = Some m2" and
    r: "manager_ok (snd (engine_lock_manager_release (Some a) m2))"
      "held_keys (snd (engine_lock_manager_release (Some a) m2)) = held_keys m" by blast
  have "key \<in> le_key ` set m1"
    using acquire_entry_cases [OF acq] by auto
  then have "key \<in> set (map le_key (snd (engine_lock_manager_release (Some a) m2)))"
    by (simp only: release_keys lock_keys [OF m2] set_map)
  then have "key \<in> le_key ` set (snd (engine_lock_manager_release (Some a) m2))" by simp
  with acq m2 r show ?thesis
    by (intro exI [of _ a] exI [of _ m1] exI [of _ m2]) (simp add: same)
qed

section \<open>The locked part\<close>

lemma adapter_run_locks:
  "adapter_run env cfg st e = Some (r, e') \<Longrightarrow>
     en_locks e' = en_locks e \<and> en_forced e' = SQL_ENGINE_ERROR_NONE \<and> en_delay e' = en_delay e"
  by (auto simp: adapter_run_def consume_forced_next_error_def split: option.splits if_splits prod.splits)

definition result_ok :: "adapter_result \<Rightarrow> bool" where
  "result_ok r =
     (length (ar_error_message r) < 256 \<and> length (ar_summary r) < 256
      \<and> (if ar_ok r
         then ar_error_code r = SQL_ENGINE_ERROR_NONE \<and> ar_error_message r = []
              \<and> ar_output r \<noteq> None \<and> ar_statement_type r \<in> {''insert'', ''select''}
         else ar_error_code r \<noteq> SQL_ENGINE_ERROR_NONE \<and> ar_output r = None
              \<and> ar_affected_rows r = 0 \<and> ar_statement_type r = []))"

lemma result_ok_error:
  "code \<noteq> SQL_ENGINE_ERROR_NONE \<Longrightarrow> result_ok (set_error empty_result code m)"
  using length_snprintf [of 256 m] by (simp add: result_ok_def set_error_def empty_result_def)

lemma if_neq: "x \<noteq> z \<Longrightarrow> y \<noteq> z \<Longrightarrow> (if P then x else y) \<noteq> z"
  by simp

lemma classified:
  "classify_execution_error st m \<noteq> SQL_ENGINE_ERROR_NONE"
  "classify_schema_load_error m \<noteq> SQL_ENGINE_ERROR_NONE"
  "classify_parse_error m \<noteq> SQL_ENGINE_ERROR_NONE"
  unfolding classify_execution_error_def classify_schema_load_error_def classify_parse_error_def
  by (intro if_neq; simp only: sql_engine_error_code.distinct not_False_eq_True)+

lemma adapter_run_result:
  assumes "adapter_run env cfg st e = Some (r, e')"
  shows "result_ok r"
proof -
  have ok: "result_ok (empty_result\<lparr>ar_ok := True,
      ar_statement_type := snprintf 16 (statement_type_name st), ar_affected_rows := n,
      ar_summary := snprintf 256 m, ar_output := Some out\<rparr>)" for n m out
    using length_snprintf [of 256 m] by (cases st) (simp_all add: result_ok_def empty_result_def)
  from assms show ?thesis
    by (auto simp: adapter_run_def consume_forced_next_error_def result_ok_error classified ok
        split: option.splits if_splits prod.splits)
qed

text \<open>When the locked part meets undefined behaviour, and that it keeps the trees well formed.\<close>

definition overflows :: "adapter_config \<Rightarrow> statement \<Rightarrow> engine \<Rightarrow> bool" where
  "overflows cfg st e =
     (\<exists>q sch. st = SELECT q \<and> too_wide q sch
        \<and> load_schema (db_fs (en_db e)) (ac_schema_dir cfg) (ac_data_dir cfg) (sel_table q) = Inr sch)"

lemma adapter_run_safe:
  assumes "trees_ok (db_rt (en_db e))"
  shows "case adapter_run env cfg st e of
      None \<Rightarrow> overflows cfg st e
    | Some (r, e') \<Rightarrow> trees_ok (db_rt (en_db e'))"
proof (cases "en_forced e = SQL_ENGINE_ERROR_NONE \<and> ae_tmpfile env")
  case True
  show ?thesis
  proof (cases st)
    case (INSERT i)
    from execute_insert_safe [OF assms, where st = i and schema_dir = "ac_schema_dir cfg"
        and data_dir = "ac_data_dir cfg"] obtain r s' where
      "execute_insert i (ac_schema_dir cfg) (ac_data_dir cfg) (en_db e) = Some (r, s')" "trees_ok (db_rt s')" by blast
    with True INSERT show ?thesis by (simp add: adapter_run_def consume_forced_next_error_def)
  next
    case (SELECT q)
    note safe = execute_select_safe [OF assms, where st = q and schema_dir = "ac_schema_dir cfg"
        and data_dir = "ac_data_dir cfg"]
    show ?thesis
    proof (cases "execute_select q (ac_schema_dir cfg) (ac_data_dir cfg) (en_db e)")
      case None
      with True SELECT safe show ?thesis
        by (auto simp: adapter_run_def consume_forced_next_error_def overflows_def)
    next
      case (Some x)
      obtain r out s' where "x = (r, out, s')" by (metis prod_cases3)
      with True SELECT safe Some show ?thesis by (simp add: adapter_run_def consume_forced_next_error_def)
    qed
  qed
qed (use assms in \<open>auto simp: adapter_run_def consume_forced_next_error_def\<close>)

lemma adapter_front_defined: "adapter_front env cfg sql_text \<noteq> None"
  by (auto simp: adapter_front_def split: option.split sum.split
      dest!: parse_statement_defined [OF lex_sql_terminated])

lemma adapter_front_result:
  "adapter_front env cfg s = Some (Inl r) \<Longrightarrow> result_ok r"
  by (auto simp: adapter_front_def result_ok_error classified
      split: option.splits if_splits sum.splits)

section \<open>Which file a statement changes\<close>

text \<open>The files differ by bytes appended to the CSV file of one table, or not at all.\<close>

definition appended_to :: "string \<Rightarrow> fs \<Rightarrow> fs \<Rightarrow> bool" where
  "appended_to path f f' =
     (\<exists>content added. f path = Regular content \<and> f' = f(path := Regular (content @ added)))"

lemma append_row_appends:
  assumes "append_row_csv f data_dir table row = (r, f')"
  shows "(\<not> sr_ok r \<and> f' = f) \<or> (sr_ok r \<and> appended_to (table_path data_dir table) f f')"
proof (cases "f (table_path data_dir table)")
  case (Regular content)
  then show ?thesis
    using assms append_row_csv_regular [of f data_dir table content row, OF Regular]
    by (auto simp: appended_to_def appended_def)
qed (use assms in \<open>auto simp: append_row_csv_def open_table_file_def open_update_def\<close>)

lemma execute_insert_files:
  assumes "execute_insert st schema_dir data_dir s = Some (r, s')"
  shows "db_fs s' = db_fs s
    \<or> (\<exists>sch. load_schema (db_fs s) schema_dir data_dir (ins_table st) = Inr sch
         \<and> appended_to (table_path data_dir (sc_storage_name sch)) (db_fs s) (db_fs s'))"
  using assms
  by (auto simp: execute_insert_def dest: append_row_appends
      split: sum.splits option.splits prod.splits if_splits)

lemma execute_index_select_files:
  "execute_index_select st sch data_dir headers arr count s = Some (r, out, s') \<Longrightarrow> db_fs s' = db_fs s"
  by (auto simp: execute_index_select_def Let_def split: sum.splits option.splits prod.splits if_splits)

lemma execute_select_files:
  "execute_select st schema_dir data_dir s = Some (r, out, s') \<Longrightarrow> db_fs s' = db_fs s"
  by (auto simp: execute_select_def Let_def dest: execute_index_select_files
      split: sum.splits option.splits prod.splits if_splits)

lemma adapter_run_files:
  assumes "adapter_run env cfg st e = Some (r, e')"
  shows "db_fs (en_db e') = db_fs (en_db e)
    \<or> (\<exists>i sch. st = INSERT i
         \<and> load_schema (db_fs (en_db e)) (ac_schema_dir cfg) (ac_data_dir cfg) (ins_table i) = Inr sch
         \<and> appended_to (table_path (ac_data_dir cfg) (sc_storage_name sch)) (db_fs (en_db e)) (db_fs (en_db e')))"
proof (cases "db_fs (en_db e') = db_fs (en_db e)")
  case False
  then obtain q stream where x: "execute_statement st (ac_schema_dir cfg) (ac_data_dir cfg) (en_db e)
      = Some (q, stream, en_db e')"
    using assms by (auto simp: adapter_run_def consume_forced_next_error_def
        split: option.splits if_splits prod.splits)
  show ?thesis
  proof (cases st)
    case (INSERT i)
    with x execute_insert_files [of i _ _ "en_db e" q "en_db e'"] False show ?thesis by auto
  next
    case (SELECT q)
    with x execute_select_files [of q] False show ?thesis by auto
  qed
qed simp

section \<open>Calls that get the lock\<close>

lemma execute_uncontended:
  assumes front: "adapter_front env cfg sql_text = Some (Inr st)"
    and sch: "load_schema (db_fs (en_db e)) (ac_schema_dir cfg) (ac_data_dir cfg)
                (statement_table_name st) = Inr sch"
    and man: "manager_ok (en_locks e)"
    and can: "can_lock (ae_lock env) (en_locks e) (sc_storage_name sch)"
    and free: "sc_storage_name sch \<notin> held_keys (en_locks e)"
  shows "\<exists>m2 m3. manager_ok m3 \<and> held_keys m3 = held_keys (en_locks e)
    \<and> sc_storage_name sch \<in> le_key ` set m3
    \<and> sql_engine_adapter_execute env cfg sql_text e
        = (case adapter_run env cfg st (e\<lparr>en_locks := m2\<rparr>) of
             None \<Rightarrow> Undefined | Some (r, e') \<Rightarrow> Returns r (e'\<lparr>en_locks := m3\<rparr>))"
proof -
  from uncontended [OF man can free, of "ae_thread env"] obtain a m1 m2 where
    u: "acquire_entry (ae_lock env) (en_locks e) (sc_storage_name sch) = (Inr a, m1)"
      "lock_entry_mutex (ae_thread env) a m1 = Some m2"
    and r: "manager_ok (snd (engine_lock_manager_release (Some a) m2))"
      "held_keys (snd (engine_lock_manager_release (Some a) m2)) = held_keys (en_locks e)"
      "sc_storage_name sch \<in> le_key ` set (snd (engine_lock_manager_release (Some a) m2))" by blast
  have "en_locks e' = m2" if "adapter_run env cfg st (e\<lparr>en_locks := m2\<rparr>) = Some (q, e')" for q e'
    using adapter_run_locks [OF that] by simp
  then have "sql_engine_adapter_execute env cfg sql_text e
        = (case adapter_run env cfg st (e\<lparr>en_locks := m2\<rparr>) of
             None \<Rightarrow> Undefined
           | Some (q, e') \<Rightarrow> Returns q (e'\<lparr>en_locks := snd (engine_lock_manager_release (Some a) m2)\<rparr>))"
    using front sch u by (simp add: sql_engine_adapter_execute_def split: option.splits)
  with r show ?thesis by blast
qed

lemma print_sql_not_blank: "\<not> is_blank_sql (print_sql st)"
  by (cases st) (simp_all add: print_sql_def name_lexeme_def)

lemma front_print_sql:
  assumes "statement_ok st"
    and "ac_sql_length_limit cfg = 0 \<or> length (print_sql st) \<le> ac_sql_length_limit cfg"
  shows "adapter_front env cfg (Some (print_sql st)) = Some (Inr st)"
  using print_sql_parses [OF assms(1)] assms(2) print_sql_not_blank [of st]
  by (auto simp: adapter_front_def)

section \<open>A failed registration\<close>

text \<open>When the index refuses the row that was just written, the row stays and the index is dropped.\<close>

lemma execute_insert_forced:
  assumes ok: "runtime_ok (db_fs s) data_dir (db_rt s)"
    and sch: "load_schema (db_fs s) schema_dir data_dir (ins_table st) = Inr sch"
    and tab: "table_ok (db_fs s) data_dir sch" and ins: "insert_ok st sch"
    and force: "rt_force_failure (db_rt s)"
  shows "\<exists>s'. execute_insert st schema_dir data_dir s
         = Some (exec_error ''forced index registration failure'', s')
       \<and> table_rows (db_fs s') data_dir sch
           = table_rows (db_fs s) data_dir sch @ [map stored (insert_values st sch)]
       \<and> runtime_ok (db_fs s') data_dir (db_rt s') \<and> \<not> rt_force_failure (db_rt s')"
proof -
  define f name vs where "f = db_fs s" and "name = sc_storage_name sch" and "vs = insert_values st sch"
  from load_schema_ok [OF sch] have cols: "sc_columns sch \<noteq> []" by (simp add: schema_ok_def)
  from insert_values_storable [OF ins cols] have stor: "storable vs" by (simp add: vs_def)
  from table_ok_content [OF tab] obtain content where
    c: "f (table_path data_dir name) = Regular content" "content \<noteq> []" by (auto simp: f_def name_def)
  define f' where "f' = f(table_path data_dir name := Regular (appended content vs))"
  have "readable f data_dir (sc_storage_name sch)" using tab by (simp add: table_ok_def f_def)
  from get_next_id_ok [OF ok [folded f_def] this] force obtain k rt where
    g: "table_index_get_next_id (db_rt s) f sch data_dir = Some (Inr k, rt)"
    "runtime_ok f data_dir rt" "rt_force_failure rt" by auto
  define rt' where "rt' = table_index_invalidate (rt\<lparr>rt_force_failure := False\<rparr>) name"
  have "validate_insert_columns st sch = None" using ins by (simp add: insert_ok_def)
  then have "execute_insert st schema_dir data_dir s
      = Some (exec_error ''forced index registration failure'', \<lparr>db_fs = f', db_rt = rt'\<rparr>)"
    using sch g(1,3) build_insert_row_values [OF ins]
      append_row_csv_regular [of f data_dir name content vs, OF c(1)]
    by (simp add: execute_insert_def table_index_register_row_def f_def [symmetric]
        name_def [symmetric] vs_def [symmetric] f'_def [symmetric] rt'_def)
  moreover have "table_rows f' data_dir sch = table_rows f data_dir sch @ [map stored vs]"
    unfolding f'_def name_def by (rule table_rows_append) (use c stor in \<open>simp_all add: name_def\<close>)
  moreover have "runtime_ok f' data_dir rt'"
    unfolding rt'_def by (rule invalidate_after_append [OF g(2) f'_def])
  moreover have "\<not> rt_force_failure rt'"
    by (simp add: rt'_def table_index_invalidate_def split: option.splits)
  ultimately show ?thesis
    by (intro exI [of _ "\<lparr>db_fs = f', db_rt = rt'\<rparr>"]) (simp add: f_def [symmetric] vs_def [symmetric])
qed

section \<open>Quoted phrases in error messages\<close>

lemma take_short: "length a + length p \<le> n \<Longrightarrow> take n (a @ p @ b) = a @ p @ take (n - length a - length p) b"
  by (simp add: add.commute)

lemma describe_string:
  assumes "tok_type t = TOKEN_STRING" and "tok_text t = p" and "p \<noteq> []" and "length p \<le> 60"
  shows "\<exists>b. describe_token t = (''STRING('' @ [DQ]) @ p @ b"
  unfolding describe_token_def Let_def snprintf_def
  using assms
    take_short [of "''STRING('' @ [DQ]" p 127 "[DQ] @ '')'' @ '' at position '' @ show_int (int (tok_position t))"]
  by (simp add: token_type_name_def)

lemma expected_message_has:
  assumes "ts = t # rest" and "tok_type t = TOKEN_STRING" and "tok_text t = p"
    and "p \<noteq> []" and "length p \<le> 60"
  shows "\<exists>m. expect_keyword ts ''FROM'' = Failed m \<and> strstr m p"
proof -
  from describe_string [OF assms(2-5)] obtain b where
    b: "describe_token t = (''STRING('' @ [DQ]) @ p @ b" by blast
  define pre where "pre = ''expected keyword FROM, got STRING('' @ [DQ]"
  have "expect_keyword ts ''FROM'' = Failed (take 255 (pre @ p @ b))"
    using assms(1,2) b
    by (simp add: expect_keyword_def set_expected_token_error_def pre_def snprintf_def MESSAGE_SIZE_def)
  moreover have "length pre + length p \<le> 255" using assms(5) by (simp add: pre_def)
  then have "take 255 (pre @ p @ b) = pre @ p @ take (255 - length pre - length p) b"
    by (rule take_short)
  ultimately have "expect_keyword ts ''FROM'' = Failed (pre @ p @ take (255 - length pre - length p) b)"
    by (simp only:)
  then show ?thesis unfolding strstr_def sublist_def by blast
qed

lemma select_string_fails:
  assumes ts: "ts = [k, c, t, e]" and "lexeme k = (TOKEN_IDENTIFIER, ''SELECT'')"
    and "tok_type c = TOKEN_IDENTIFIER" and "tok_type t = TOKEN_STRING" and "tok_text t = p"
    and "p \<noteq> []" and "length p \<le> 60"
  shows "\<exists>m. parse_statement ts = Some (Inl m) \<and> strstr m p"
proof -
  from expected_message_has [OF refl assms(4-7), of "[e]"] obtain m where
    m: "expect_keyword [t, e] ''FROM'' = Failed m" "strstr m p" by blast
  have k: "tok_type k = TOKEN_IDENTIFIER" "tok_text k = ''SELECT''"
    using assms(2) by (simp_all add: lexeme_def)
  have "parse_projection [c, t, e] = Parsed (False, [tok_text c]) [t, e]"
    using assms(3,4)
    by (simp add: parse_projection_def match_type_def parse_identifier_list_def parse_identifier_def
        string_list_push_def identifier_list_loop.simps)
  moreover have "\<not> strings_equal_ignore_case ''SELECT'' ''INSERT''" "strings_equal_ignore_case ''SELECT'' ''SELECT''"
    by (simp_all add: char_eval)
  ultimately have "parse_body ts = Failed m"
    using k m(1) by (simp add: ts parse_body_def is_keyword_def parse_select_def
        expect_keyword_def [of _ "''SELECT''"])
  with m(2) show ?thesis by (simp add: parse_statement_def)
qed

section \<open>Properties of the engine adapter\<close>

text \<open>The part of a call from the acquired entry on.\<close>

definition call_ok :: "adapter_env \<Rightarrow> adapter_config \<Rightarrow> string option \<Rightarrow> engine \<Rightarrow> adapter_outcome \<Rightarrow> bool" where
  "call_ok env cfg sql_text e x =
     (case x of
        Returns r e' \<Rightarrow> result_ok r \<and> manager_ok (en_locks e') \<and> held_keys (en_locks e') = held_keys (en_locks e)
          \<and> trees_ok (db_rt (en_db e'))
      | Waits e' \<Rightarrow> en_db e' = en_db e \<and> held_keys (en_locks e') = held_keys (en_locks e)
          \<and> (\<exists>st sch. adapter_front env cfg sql_text = Some (Inr st)
               \<and> load_schema (db_fs (en_db e)) (ac_schema_dir cfg) (ac_data_dir cfg)
                   (statement_table_name st) = Inr sch
               \<and> sc_storage_name sch \<in> held_keys (en_locks e))
      | Undefined \<Rightarrow> (\<exists>st. adapter_front env cfg sql_text = Some (Inr st) \<and> overflows cfg st e))"

lemma execute_acquired:
  assumes front: "adapter_front env cfg sql_text = Some (Inr st)"
    and sch: "load_schema (db_fs (en_db e)) (ac_schema_dir cfg) (ac_data_dir cfg)
                (statement_table_name st) = Inr sch"
    and acq: "acquire_entry (ae_lock env) (en_locks e) (sc_storage_name sch) = (Inr h, ls)"
    and a: "manager_ok ls" "entry_for ls (sc_storage_name sch) h" "held_keys ls = held_keys (en_locks e)"
    and trees: "trees_ok (db_rt (en_db e))"
  shows "call_ok env cfg sql_text e (sql_engine_adapter_execute env cfg sql_text e)"
proof -
  note l = lock_entry_law [OF a(1,2), of "ae_thread env"]
  show ?thesis
  proof (cases "lock_entry_mutex (ae_thread env) h ls")
    case None
    with l front sch acq a show ?thesis
      by (auto simp: sql_engine_adapter_execute_def call_ok_def split: if_splits)
  next
    case (Some ls')
    with l a have l': "manager_ok ls'" "entry_for ls' (sc_storage_name sch) h"
      "held_keys ls' = insert (sc_storage_name sch) (held_keys (en_locks e))"
      "sc_storage_name sch \<notin> held_keys (en_locks e)" by (auto split: if_splits)
    note rel = release_entry_law [OF l'(1,2)]
    note safe = adapter_run_safe [where e = "e\<lparr>en_locks := ls'\<rparr>" and env = env and cfg = cfg and st = st] trees
    have same: "overflows cfg st (e\<lparr>en_locks := ls'\<rparr>) = overflows cfg st e" by (simp add: overflows_def)
    show ?thesis
    proof (cases "adapter_run env cfg st (e\<lparr>en_locks := ls'\<rparr>)")
      case *: (Some y)
      obtain r e' where y: "y = (r, e')" by fastforce
      have "en_locks e' = ls'" "result_ok r"
        using adapter_run_locks adapter_run_result * y by auto
      with * y Some front sch acq rel l'(3,4) safe show ?thesis
        by (simp add: sql_engine_adapter_execute_def call_ok_def)
    qed (use Some front sch acq safe same in \<open>simp add: sql_engine_adapter_execute_def call_ok_def\<close>)
  qed
qed

lemma adapter_call_ok:
  assumes "manager_ok (en_locks e)" and "fresh_resources (ae_lock env) (en_locks e)"
    and "trees_ok (db_rt (en_db e))"
  shows "call_ok env cfg sql_text e (sql_engine_adapter_execute env cfg sql_text e)"
proof -
  obtain x where x: "adapter_front env cfg sql_text = Some x" using adapter_front_defined by blast
  show ?thesis
  proof (cases x)
    case (Inl r)
    with x adapter_front_result [of env cfg sql_text r] assms(1,3) show ?thesis
      by (simp add: sql_engine_adapter_execute_def call_ok_def)
  next
    case (Inr st)
    note front = x [unfolded Inr]
    show ?thesis
    proof (cases "load_schema (db_fs (en_db e)) (ac_schema_dir cfg) (ac_data_dir cfg) (statement_table_name st)")
      case (Inl m)
      with front assms(1,3) show ?thesis
        by (simp add: sql_engine_adapter_execute_def result_ok_error classified call_ok_def)
    next
      case (Inr sch)
      obtain q ls where acq: "acquire_entry (ae_lock env) (en_locks e) (sc_storage_name sch) = (q, ls)"
        by fastforce
      note a = acquire_entry_law [OF assms(1,2) acq]
      show ?thesis
      proof (cases q)
        case (Inl m)
        with front Inr acq a assms(3) show ?thesis
          by (simp add: sql_engine_adapter_execute_def result_ok_error call_ok_def)
      next
        case q: (Inr h)
        with execute_acquired [OF front Inr acq [unfolded q] _ _ _ assms(3)] a show ?thesis by simp
      qed
    qed
  qed
qed


definition demo_engine :: engine where
  "demo_engine = \<lparr>en_db = demo_db, en_locks = [], en_forced = SQL_ENGINE_ERROR_NONE, en_delay = 0\<rparr>"

definition demo_env :: adapter_env where
  "demo_env = \<lparr>ae_thread = 1, ae_lock = \<lparr>lr_entry = Some 64, lr_key = True, lr_mutex = True\<rparr>,
     ae_tmpfile = True, ae_overlap = (\<lambda>m. [])\<rparr>"

definition demo_config :: adapter_config where
  "demo_config = \<lparr>ac_schema_dir = ''schema'', ac_data_dir = ''data'', ac_sql_length_limit = 8192\<rparr>"

lemma demo_engine_simps:
  "en_db demo_engine = demo_db" "en_locks demo_engine = []" "en_forced demo_engine = SQL_ENGINE_ERROR_NONE"
  "ae_tmpfile demo_env" "manager_ok []" "held_keys [] = {}"
  "fresh_resources (ae_lock demo_env) []" "can_lock (ae_lock demo_env) [] key"
  "ac_schema_dir demo_config = ''schema''" "ac_data_dir demo_config = ''data''"
  "ac_sql_length_limit demo_config = 8192"
  by (simp_all add: demo_engine_def demo_env_def demo_config_def manager_ok_def held_keys_def
      fresh_resources_def can_lock_def)

text \<open>
  C25: a call changes at most one file, and only by appending: after it the file system is the
  one before, or the call was an INSERT and bytes were appended to the CSV file of the table
  that the INSERT names.
\<close>

theorem adapter_appends_only:
  assumes "sql_engine_adapter_execute env cfg sql_text e = Returns r e'"
  shows "db_fs (en_db e') = db_fs (en_db e)
    \<or> (\<exists>i sch. adapter_front env cfg sql_text = Some (Inr (INSERT i))
         \<and> load_schema (db_fs (en_db e)) (ac_schema_dir cfg) (ac_data_dir cfg) (ins_table i) = Inr sch
         \<and> appended_to (table_path (ac_data_dir cfg) (sc_storage_name sch)) (db_fs (en_db e)) (db_fs (en_db e')))"
proof (cases "db_fs (en_db e') = db_fs (en_db e)")
  case False
  with assms obtain st m2 e1 where
    f: "adapter_front env cfg sql_text = Some (Inr st)"
    and r: "adapter_run env cfg st (e\<lparr>en_locks := m2\<rparr>) = Some (r, e1)" "en_db e' = en_db e1"
    by (auto simp: sql_engine_adapter_execute_def split: option.splits sum.splits prod.splits)
  from adapter_run_files [OF r(1)] r(2) f False show ?thesis by auto
qed simp

definition engine_ready :: "adapter_config \<Rightarrow> string \<Rightarrow> schema \<Rightarrow> engine \<Rightarrow> bool" where
  "engine_ready cfg table sch e =
     (runtime_ok (db_fs (en_db e)) (ac_data_dir cfg) (db_rt (en_db e))
      \<and> \<not> rt_force_failure (db_rt (en_db e)) \<and> en_forced e = SQL_ENGINE_ERROR_NONE
      \<and> load_schema (db_fs (en_db e)) (ac_schema_dir cfg) (ac_data_dir cfg) table = Inr sch
      \<and> table_ok (db_fs (en_db e)) (ac_data_dir cfg) sch
      \<and> manager_ok (en_locks e) \<and> sc_storage_name sch \<notin> held_keys (en_locks e))"

lemma insert_call:
  assumes ready: "engine_ready cfg (ins_table i) sch e"
    and lock: "can_lock (ae_lock env) (en_locks e) (sc_storage_name sch)" and tmp: "ae_tmpfile env"
    and ok: "statement_ok (INSERT i)" "insert_ok i sch" "length (print_sql (INSERT i)) \<le> ac_sql_length_limit cfg"
  shows "\<exists>r e1. sql_engine_adapter_execute env cfg (Some (print_sql (INSERT i))) e = Returns r e1
    \<and> ar_ok r \<and> ar_affected_rows r = 1 \<and> engine_ready cfg (ins_table i) sch e1
    \<and> sc_storage_name sch \<in> le_key ` set (en_locks e1)
    \<and> table_rows (db_fs (en_db e1)) (ac_data_dir cfg) sch
        = table_rows (db_fs (en_db e)) (ac_data_dir cfg) sch @ [map stored (insert_values i sch)]"
proof -
  from ready have g: "runtime_ok (db_fs (en_db e)) (ac_data_dir cfg) (db_rt (en_db e))"
    "load_schema (db_fs (en_db e)) (ac_schema_dir cfg) (ac_data_dir cfg) (ins_table i) = Inr sch"
    "table_ok (db_fs (en_db e)) (ac_data_dir cfg) sch" "\<not> rt_force_failure (db_rt (en_db e))"
    "en_forced e = SQL_ENGINE_ERROR_NONE" "manager_ok (en_locks e)" "sc_storage_name sch \<notin> held_keys (en_locks e)"
    by (simp_all add: engine_ready_def)
  from execute_insert_ok [OF g(1,2,3) ok(2) g(4)] obtain d1 where
    d1: "execute_insert i (ac_schema_dir cfg) (ac_data_dir cfg) (en_db e)
      = Some (\<lparr>er_ok = True, er_affected_rows = 1, er_message = ''INSERT 1''\<rparr>, d1)"
      "runtime_ok (db_fs d1) (ac_data_dir cfg) (db_rt d1)" "table_ok (db_fs d1) (ac_data_dir cfg) sch"
      "\<not> rt_force_failure (db_rt d1)"
      "table_rows (db_fs d1) (ac_data_dir cfg) sch
        = table_rows (db_fs (en_db e)) (ac_data_dir cfg) sch @ [map stored (insert_values i sch)]"
      "load_schema (db_fs d1) (ac_schema_dir cfg) (ac_data_dir cfg) (ins_table i) = Inr sch"
    using g(2) by auto
  have front: "adapter_front env cfg (Some (print_sql (INSERT i))) = Some (Inr (INSERT i))"
    by (rule front_print_sql [OF ok(1)]) (use ok(3) in simp)
  from execute_uncontended [OF front _ g(6) lock g(7)] g(2) obtain m2 m3 where
    x: "manager_ok m3" "held_keys m3 = held_keys (en_locks e)" "sc_storage_name sch \<in> le_key ` set m3"
      "sql_engine_adapter_execute env cfg (Some (print_sql (INSERT i))) e
        = (case adapter_run env cfg (INSERT i) (e\<lparr>en_locks := m2\<rparr>) of
             None \<Rightarrow> Undefined | Some (r, e') \<Rightarrow> Returns r (e'\<lparr>en_locks := m3\<rparr>))" by auto
  obtain r where r: "adapter_run env cfg (INSERT i) (e\<lparr>en_locks := m2\<rparr>)
      = Some (r, e\<lparr>en_db := d1, en_locks := m2\<rparr>)" "ar_ok r" "ar_affected_rows r = 1"
    using g(5) tmp d1(1) by (simp add: adapter_run_def consume_forced_next_error_def)
  then show ?thesis using x d1 g(5,7)
    by (intro exI [of _ r] exI [of _ "e\<lparr>en_db := d1, en_locks := m3\<rparr>"]) (simp add: engine_ready_def)
qed

lemma select_call:
  assumes ready: "engine_ready cfg (sel_table q) sch e"
    and lock: "can_lock (ae_lock env) (en_locks e) (sc_storage_name sch)" and tmp: "ae_tmpfile env"
    and ok: "statement_ok (SELECT q)" "select_ok q sch" "length (print_sql (SELECT q)) \<le> ac_sql_length_limit cfg"
  shows "\<exists>r e1. sql_engine_adapter_execute env cfg (Some (print_sql (SELECT q))) e = Returns r e1 \<and> ar_ok r
    \<and> ar_output r = Some (print_result_table (select_headers q sch)
        (answer q sch (table_rows (db_fs (en_db e)) (ac_data_dir cfg) sch)))"
proof -
  from ready have g: "runtime_ok (db_fs (en_db e)) (ac_data_dir cfg) (db_rt (en_db e))"
    "load_schema (db_fs (en_db e)) (ac_schema_dir cfg) (ac_data_dir cfg) (sel_table q) = Inr sch"
    "table_ok (db_fs (en_db e)) (ac_data_dir cfg) sch"
    "en_forced e = SQL_ENGINE_ERROR_NONE" "manager_ok (en_locks e)" "sc_storage_name sch \<notin> held_keys (en_locks e)"
    by (simp_all add: engine_ready_def)
  from execute_select_ok [of "en_db e" "ac_data_dir cfg" "ac_schema_dir cfg" q sch, OF g(1,2,3) ok(2)]
  obtain rt where d: "execute_select q (ac_schema_dir cfg) (ac_data_dir cfg) (en_db e)
      = Some (select_done (length (answer q sch (table_rows (db_fs (en_db e)) (ac_data_dir cfg) sch))),
              print_result_table (select_headers q sch) (answer q sch (table_rows (db_fs (en_db e)) (ac_data_dir cfg) sch)),
              (en_db e)\<lparr>db_rt := rt\<rparr>)" by auto
  have front: "adapter_front env cfg (Some (print_sql (SELECT q))) = Some (Inr (SELECT q))"
    by (rule front_print_sql [OF ok(1)]) (use ok(3) in simp)
  from execute_uncontended [OF front _ g(5) lock g(6)] g(2) obtain m2 m3 where
    x: "sql_engine_adapter_execute env cfg (Some (print_sql (SELECT q))) e
        = (case adapter_run env cfg (SELECT q) (e\<lparr>en_locks := m2\<rparr>) of
             None \<Rightarrow> Undefined | Some (r, e') \<Rightarrow> Returns r (e'\<lparr>en_locks := m3\<rparr>))" by auto
  show ?thesis
    using x d g(4) tmp by (simp add: adapter_run_def consume_forced_next_error_def select_done_def)
qed

lemma insert_select_calls:
  assumes ready: "engine_ready cfg (ins_table i) sch e"
    and "can_lock (ae_lock env) (en_locks e) (sc_storage_name sch)"
    and "ae_tmpfile env" and tmp: "ae_tmpfile env'"
    and "statement_ok (INSERT i)" and "insert_ok i sch"
    and "length (print_sql (INSERT i)) \<le> ac_sql_length_limit cfg"
    and q: "statement_ok (SELECT q)" "select_ok q sch" "length (print_sql (SELECT q)) \<le> ac_sql_length_limit cfg"
    and same: "sel_table q = ins_table i"
  shows "\<exists>r e1 r' e2. sql_engine_adapter_execute env cfg (Some (print_sql (INSERT i))) e = Returns r e1
    \<and> ar_ok r \<and> ar_affected_rows r = 1
    \<and> sql_engine_adapter_execute env' cfg (Some (print_sql (SELECT q))) e1 = Returns r' e2
    \<and> ar_ok r'
    \<and> ar_output r' = Some (print_result_table (select_headers q sch)
        (answer q sch (table_rows (db_fs (en_db e)) (ac_data_dir cfg) sch @ [map stored (insert_values i sch)])))"
proof -
  from insert_call [OF assms(1-3,5-7)] obtain r e1 where
    1: "sql_engine_adapter_execute env cfg (Some (print_sql (INSERT i))) e = Returns r e1" "ar_ok r"
      "ar_affected_rows r = 1" "engine_ready cfg (sel_table q) sch e1"
      "sc_storage_name sch \<in> le_key ` set (en_locks e1)"
      "table_rows (db_fs (en_db e1)) (ac_data_dir cfg) sch
        = table_rows (db_fs (en_db e)) (ac_data_dir cfg) sch @ [map stored (insert_values i sch)]"
    using same by auto
  have "can_lock (ae_lock env') (en_locks e1) (sc_storage_name sch)" using 1(5) by (simp add: can_lock_def)
  from select_call [OF 1(4) this tmp q] 1 show ?thesis by auto
qed

lemma demo_statements:
  "statement_ok (INSERT demo_insert)" "statement_ok (SELECT demo_select)"
  "length (print_sql (INSERT demo_insert)) \<le> 8192" "length (print_sql (SELECT demo_select)) \<le> 8192"
  by (simp_all add: demo_insert_def demo_select_def print_sql_def name_lexeme_def
      is_identifier_def is_word_def is_identifier_continue_def char_eval)

text \<open>An INSERT and a SELECT of the demo engine.\<close>

lemma demo_ready: "engine_ready demo_config ''users'' demo_schema demo_engine"
  by (simp_all only: engine_ready_def demo_engine_simps demo_simps demo_load demo_table fresh_ok simp_thms empty_iff)

lemma demo_fits: "ac_sql_length_limit demo_config = 0 \<or> length (print_sql (SELECT demo_select)) \<le> ac_sql_length_limit demo_config"
  "length (print_sql (INSERT demo_insert)) \<le> ac_sql_length_limit demo_config"
  by (simp_all only: demo_engine_simps demo_statements simp_thms)

lemma demo_trees: "trees_ok (db_rt (en_db demo_engine))"
  by (simp add: demo_engine_simps demo_simps trees_ok_def fresh_runtime_def)


theorem adapter_appends_only_witness:
  "\<exists>r e'. sql_engine_adapter_execute demo_env demo_config (Some (print_sql (INSERT demo_insert))) demo_engine
       = Returns r e'
     \<and> appended_to (table_path ''data'' ''users'') (db_fs (en_db demo_engine)) (db_fs (en_db e'))
     \<and> db_fs (en_db e') \<noteq> db_fs (en_db demo_engine)"
proof -
  have i: "ins_table demo_insert = ''users''" by (simp add: demo_insert_def)
  have c: "can_lock (ae_lock demo_env) (en_locks demo_engine) (sc_storage_name demo_schema)" "ae_tmpfile demo_env"
    by (simp_all only: demo_engine_simps)
  from insert_call [OF demo_ready [folded i] c demo_statements(1) demo_insert_ok demo_fits(2)] obtain r e' where
    r: "sql_engine_adapter_execute demo_env demo_config (Some (print_sql (INSERT demo_insert))) demo_engine
        = Returns r e'"
    and rows: "table_rows (db_fs (en_db e')) (ac_data_dir demo_config) demo_schema
        = table_rows (db_fs (en_db demo_engine)) (ac_data_dir demo_config) demo_schema
          @ [map stored (insert_values demo_insert demo_schema)]" by blast
  from rows have ne: "db_fs (en_db e') \<noteq> db_fs (en_db demo_engine)" by auto
  have f: "adapter_front demo_env demo_config (Some (print_sql (INSERT demo_insert))) = Some (Inr (INSERT demo_insert))"
    by (rule front_print_sql [OF demo_statements(1)]) (rule disjI2, rule demo_fits(2))
  have s: "load_schema (db_fs (en_db demo_engine)) (ac_schema_dir demo_config) (ac_data_dir demo_config)
      (ins_table demo_insert) = Inr demo_schema" "sc_storage_name demo_schema = ''users''"
    using demo_load by (simp_all add: demo_engine_simps demo_simps demo_schema_def)
  from adapter_appends_only [OF r] ne r f s demo_engine_simps(9,10) show ?thesis by auto
qed

text \<open>
  The error code of a failed parse can be chosen by text inside a literal. A SELECT whose
  literal, where FROM should be, quotes one of the two phrases the adapter searches for is
  answered UNSUPPORTED_SQL and not SQL_PARSE_ERROR, although the statement begins with SELECT
  and has no condition.
\<close>

lemma quoted_phrase_misclassified:
  assumes "is_identifier c"
    and "p = ''only INSERT and SELECT are supported'' \<or> p = ''AND/OR conditions are not supported''"
    and "ac_sql_length_limit cfg = 0 \<or> 60 + length c \<le> ac_sql_length_limit cfg"
  shows "\<exists>r. adapter_front env cfg
      (Some (render [(TOKEN_IDENTIFIER, ''SELECT''), (TOKEN_IDENTIFIER, c), (TOKEN_STRING, p)])) = Some (Inl r)
    \<and> ar_error_code r = SQL_ENGINE_ERROR_UNSUPPORTED_SQL"
proof -
  define ls where "ls = [(TOKEN_IDENTIFIER, ''SELECT''), (TOKEN_IDENTIFIER, c), (TOKEN_STRING, p)]"
  from assms(2) have p: "p \<noteq> []" "length p \<le> 37" "escape_quotes p = p" by auto
  have "list_all lexeme_ok ls" using assms(1) keyword_names_ok by (simp add: ls_def)
  then obtain ts where ts: "lex_sql (render ls) = Inr ts" "map lexeme ts = ls @ [(TOKEN_END, [])]"
    by (rule lex_sql_render)
  from ts(2) obtain k d t e where tk: "ts = [k, d, t, e]" "lexeme k = (TOKEN_IDENTIFIER, ''SELECT'')"
    "lexeme d = (TOKEN_IDENTIFIER, c)" "lexeme t = (TOKEN_STRING, p)"
    by (auto simp: ls_def map_eq_Cons_conv)
  from select_string_fails [OF tk(1,2), of p] tk(3,4) p obtain m where
    m: "parse_statement ts = Some (Inl m)" "strstr m p" by (auto simp: lexeme_def)
  have "length (render ls) \<le> 60 + length c" using p by (simp add: ls_def)
  then have "\<not> (0 < ac_sql_length_limit cfg \<and> ac_sql_length_limit cfg < length (render ls))"
    using assms(3) by auto
  moreover have "\<not> is_blank_sql (render ls)" by (simp add: ls_def)
  ultimately have "adapter_front env cfg (Some (render ls))
      = Some (Inl (set_error empty_result (classify_parse_error m) m))"
    using ts(1) m(1) by (simp only: adapter_front_def option.case sum.case if_False)
  moreover have "classify_parse_error m = SQL_ENGINE_ERROR_UNSUPPORTED_SQL"
    using m(2) assms(2) unfolding classify_parse_error_def by metis
  ultimately show ?thesis by (simp add: set_error_def ls_def)
qed

end
