(* ===== verification/Registry_Access.thy ===== *)
theory Registry_Access
  imports Adapter_Props
begin

text \<open>
  The operations of \<open>src/index/table_index.c\<close> cut where other threads can come between: the lookup,
  which runs under the registry's mutex and may make \<open>realloc\<close> move the array; the test of the flag;
  the rebuild; and the use of the entry. The last three go through the pointer that the lookup
  returned, with the mutex released. A pointer is the address of the array and an index.
\<close>

section \<open>The array and its pointers\<close>

record index_array =
  ar_address :: nat
  ar_capacity :: nat
  ar_next :: nat

type_synonym entry_pointer = "nat \<times> nat"

text \<open>\<open>realloc\<close> to the next capacity; a first allocation has a fresh address.\<close>

definition grow_array :: "bool \<Rightarrow> index_array \<Rightarrow> index_array" where
  "grow_array moved a =
     a\<lparr>ar_capacity := (if ar_capacity a = 0 then 4 else ar_capacity a * 2),
       ar_address := (if moved \<or> ar_capacity a = 0 then ar_next a else ar_address a),
       ar_next := ar_next a + 1\<rparr>"

text \<open>The lookup of \<open>ensure_loaded\<close>, which gives a pointer to the table's entry.\<close>

definition lookup_entry :: "bool \<Rightarrow> string \<Rightarrow> index_array \<Rightarrow> runtime \<Rightarrow> entry_pointer \<times> index_array \<times> runtime" where
  "lookup_entry moved name a rt =
     (case get_or_create_table_index (rt_registry rt) name of
        (i, reg) \<Rightarrow>
          let a' = (if find_table_index (rt_registry rt) name = None \<and> length (rt_registry rt) = ar_capacity a
                    then grow_array moved a else a) in
          ((ar_address a', i), a', rt\<lparr>rt_registry := reg\<rparr>))"

text \<open>What remains of \<open>ensure_loaded\<close> when the entry is not loaded.\<close>

definition rebuild_entry :: "runtime \<Rightarrow> fs \<Rightarrow> schema \<Rightarrow> string \<Rightarrow> nat \<Rightarrow> (string option \<times> runtime) option" where
  "rebuild_entry rt f sch data_dir i =
     (case scan_rows_csv f data_dir (sc_storage_name sch) rebuild_row (bptree_init, 1, rt_alloc rt) of
        None \<Rightarrow> None
      | Some (Some m, (tree, next_id, al)) \<Rightarrow>
          Some (Some m, rt\<lparr>rt_registry := (rt_registry rt)[i := reset_entry (rt_registry rt ! i)], rt_alloc := al\<rparr>)
      | Some (None, (tree, next_id, al)) \<Rightarrow>
          Some (None, rt\<lparr>rt_registry := (rt_registry rt)[i := (rt_registry rt ! i)\<lparr>ti_loaded := True,
                           ti_tree := tree, ti_next_id := next_id\<rparr>], rt_alloc := al\<rparr>))"

text \<open>What remains of \<open>table_index_register_row\<close> when the entry is loaded.\<close>

definition register_at :: "runtime \<Rightarrow> nat \<Rightarrow> int \<Rightarrow> int \<Rightarrow> (string option \<times> runtime) option" where
  "register_at rt i row_id row_offset =
     (let e = rt_registry rt ! i in
      case bptree_insert (rt_alloc rt) (ti_tree e) row_id row_offset of
        None \<Rightarrow> None
      | Some (Some m, tree, al) \<Rightarrow>
          Some (Some m, rt\<lparr>rt_registry := (rt_registry rt)[i := e\<lparr>ti_tree := tree\<rparr>], rt_alloc := al\<rparr>)
      | Some (None, tree, al) \<Rightarrow>
          Some (None, rt\<lparr>rt_registry := (rt_registry rt)[i := e\<lparr>ti_tree := tree,
                           ti_next_id := (if ti_next_id e \<le> row_id then row_id + 1 else ti_next_id e)\<rparr>],
                         rt_alloc := al\<rparr>))"

text \<open>The parts in sequence are the operations of \<open>Table_Index\<close>.\<close>

lemma ensure_loaded_parts:
  "ensure_loaded rt f sch data_dir =
     (case lookup_entry moved (sc_storage_name sch) a rt of
        ((x, i), a', rt1) \<Rightarrow>
          if ti_loaded (rt_registry rt1 ! i) then Some (Inr i, rt1)
          else map_option (\<lambda>(m, rt2). (case m of None \<Rightarrow> Inr i | Some m \<Rightarrow> Inl m, rt2))
                 (rebuild_entry rt1 f sch data_dir i))"
  by (auto simp: ensure_loaded_def lookup_entry_def rebuild_entry_def Let_def split: option.splits prod.splits)

lemma register_row_parts:
  "table_index_register_row rt f sch data_dir row_id row_offset =
     (if rt_force_failure rt
      then Some (Some ''forced index registration failure'', rt\<lparr>rt_force_failure := False\<rparr>)
      else
        (case ensure_loaded rt f sch data_dir of
           None \<Rightarrow> None
         | Some (Inl m, rt') \<Rightarrow> Some (Some m, rt')
         | Some (Inr i, rt') \<Rightarrow> register_at rt' i row_id row_offset))"
  by (simp add: table_index_register_row_def register_at_def Let_def split: option.split sum.split)

lemma ensure_loaded_id:
  "loaded_at rt i (sc_storage_name sch) \<Longrightarrow> ensure_loaded rt f sch data_dir = Some (Inr i, rt)"
  by (simp add: ensure_loaded_def get_or_create_table_index_def loaded_at_def)

section \<open>The entries of other tables\<close>

definition entry_at :: "runtime \<Rightarrow> nat \<Rightarrow> string \<Rightarrow> bool" where
  "entry_at rt i name = (find_table_index (rt_registry rt) name = Some i)"

text \<open>An operation keeps the entries that it is not about, and their places.\<close>

definition keeps_entries :: "string \<Rightarrow> runtime \<Rightarrow> runtime \<Rightarrow> bool" where
  "keeps_entries own rt rt' =
     (\<forall>i name. entry_at rt i name \<longrightarrow>
        entry_at rt' i name \<and> (name \<noteq> own \<longrightarrow> rt_registry rt' ! i = rt_registry rt ! i))"

lemma entry_at_nth: "entry_at rt i name \<Longrightarrow> i < length (rt_registry rt) \<and> ti_table_name (rt_registry rt ! i) = name"
  unfolding entry_at_def by (rule find_table_index_Some)

lemma loaded_at_entry: "loaded_at rt i name \<longleftrightarrow> entry_at rt i name \<and> ti_loaded (rt_registry rt ! i)"
  using entry_at_nth by (auto simp: loaded_at_def entry_at_def)

lemma keeps_entries_refl: "keeps_entries own rt rt"
  by (simp add: keeps_entries_def)

lemma keeps_loaded: "keeps_entries own rt rt' \<Longrightarrow> name \<noteq> own \<Longrightarrow> loaded_at rt i name \<Longrightarrow> loaded_at rt' i name"
  by (auto simp: keeps_entries_def loaded_at_entry)

lemma keeps_entries_update:
  assumes "entry_at rt i own" and "ti_table_name e = own"
    and "rt_registry rt' = (rt_registry rt)[i := e]"
  shows "keeps_entries own rt rt'"
proof -
  note i = entry_at_nth [OF assms(1)]
  have "find_table_index (rt_registry rt') n = find_table_index (rt_registry rt) n" for n
    unfolding assms(3) by (rule find_table_index_update) (use i assms(2) in simp_all)
  moreover have "rt_registry rt' ! j = rt_registry rt ! j" if "entry_at rt j n" "n \<noteq> own" for j n
    using entry_at_nth [OF that(1)] i that(2) by (cases "j = i") (auto simp: assms(3))
  ultimately show ?thesis by (simp add: keeps_entries_def entry_at_def)
qed

section \<open>The lookup\<close>

text \<open>The capacity that a number of creations leaves.\<close>

fun capacity_after :: "nat \<Rightarrow> nat" where
  "capacity_after 0 = 0"
| "capacity_after (Suc n) =
     (if n = capacity_after n then (if n = 0 then 4 else n * 2) else capacity_after n)"

lemma capacity_after_four: "0 < n \<Longrightarrow> n \<le> 4 \<Longrightarrow> capacity_after n = 4"
  by (cases n; simp add: numeral_eq_Suc le_Suc_eq) auto

definition array_ok :: "index_array \<Rightarrow> runtime \<Rightarrow> bool" where
  "array_ok a rt = (ar_capacity a = capacity_after (length (rt_registry rt)))"

text \<open>At most four tables are known to the registry or wanted.\<close>

definition few_tables :: "string set \<Rightarrow> runtime \<Rightarrow> bool" where
  "few_tables wanted rt =
     (\<exists>names. length names \<le> 4 \<and> wanted \<union> ti_table_name ` set (rt_registry rt) \<subseteq> set names)"

lemma few_tables_new:
  assumes "few_tables wanted rt" and "name \<in> wanted" and "find_table_index (rt_registry rt) name = None"
    and "distinct (map ti_table_name (rt_registry rt))"
  shows "length (rt_registry rt) < 4"
proof -
  from assms(1) obtain names where n: "length names \<le> 4" "wanted \<union> ti_table_name ` set (rt_registry rt) \<subseteq> set names"
    by (auto simp: few_tables_def)
  have "card (insert name (ti_table_name ` set (rt_registry rt))) \<le> card (set names)"
    by (rule card_mono) (use n(2) assms(2) in auto)
  moreover have "card (insert name (ti_table_name ` set (rt_registry rt))) = Suc (length (rt_registry rt))"
    using assms(3) distinct_card [OF assms(4)] by (simp add: find_table_index_None)
  ultimately show ?thesis using n(1) card_length [of names] by simp
qed

lemma find_table_index_append:
  "find_table_index reg name = Some i \<Longrightarrow> find_table_index (reg @ more_entries) name = Some i"
  by (induction reg arbitrary: i) (auto split: if_splits)

lemma lookup_entry_ok:
  assumes l: "lookup_entry moved name a rt = ((x, i), a', rt')"
    and ok: "runtime_ok f data_dir rt" and ar: "array_ok a rt"
  shows "x = ar_address a' \<and> entry_at rt' i name"
    and "keeps_entries own rt rt'" and "runtime_ok f data_dir rt'" and "array_ok a' rt'"
    and "rt_force_failure rt' = rt_force_failure rt"
    and "ti_table_name ` set (rt_registry rt') = insert name (ti_table_name ` set (rt_registry rt))"
    and "entry_at rt i name \<Longrightarrow> rt' = rt"
    and "few_tables wanted rt \<Longrightarrow> name \<in> wanted \<Longrightarrow> rt_registry rt \<noteq> [] \<Longrightarrow> ar_address a' = ar_address a"
proof -
  obtain reg where g: "get_or_create_table_index (rt_registry rt) name = (i, reg)" and r: "rt' = rt\<lparr>rt_registry := reg\<rparr>"
    and a': "a' = (if find_table_index (rt_registry rt) name = None \<and> length (rt_registry rt) = ar_capacity a
                    then grow_array moved a else a)" and x: "x = ar_address a'"
    using l by (auto simp: lookup_entry_def Let_def split: prod.splits)
  note reg = runtime_ok_get_or_create [OF ok g]
  show "x = ar_address a' \<and> entry_at rt' i name" using x reg(4) by (simp add: entry_at_def r)
  show "runtime_ok f data_dir rt'" using reg(3,5) ok by (simp add: runtime_ok_def r)
  show "rt_force_failure rt' = rt_force_failure rt" by (simp add: r)
  show "entry_at rt i name \<Longrightarrow> rt' = rt" using g by (simp add: r entry_at_def get_or_create_table_index_def)
  have cases: "reg = rt_registry rt \<and> find_table_index (rt_registry rt) name \<noteq> None
    \<or> reg = rt_registry rt @ [new_entry name] \<and> find_table_index (rt_registry rt) name = None"
    using g by (auto simp: get_or_create_table_index_def split: option.splits)
  then show "keeps_entries own rt rt'"
    using find_table_index_append find_table_index_Some
    by (fastforce simp: keeps_entries_def entry_at_def r nth_append)
  show "ti_table_name ` set (rt_registry rt') = insert name (ti_table_name ` set (rt_registry rt))"
    using cases by (auto simp: r new_entry_def find_table_index_None)
  show "array_ok a' rt'" using cases ar by (auto simp: array_ok_def a' r grow_array_def)
  show "ar_address a' = ar_address a"
    if "few_tables wanted rt" "name \<in> wanted" "rt_registry rt \<noteq> []"
    using few_tables_new [OF that(1,2)] that(3) ok ar capacity_after_four [of "length (rt_registry rt)"]
    by (auto simp: a' array_ok_def runtime_ok_def)
qed

section \<open>The steps through the pointer\<close>

lemma runtime_ok_put:
  assumes ok: "runtime_ok f data_dir rt" and at: "entry_at rt i name" and al: "oom al = []"
    and e: "ti_table_name e = name" "ti_loaded e \<Longrightarrow> indexes_file f data_dir e"
  shows "runtime_ok f data_dir (rt\<lparr>rt_registry := (rt_registry rt)[i := e], rt_alloc := al\<rparr>)"
proof -
  have "get_or_create_table_index (rt_registry rt) name = (i, rt_registry rt)"
    using at by (simp add: entry_at_def get_or_create_table_index_def)
  from runtime_ok_store(1) [OF ok this al e] show ?thesis by blast
qed

lemma rebuild_entry_ok:
  assumes ok: "runtime_ok f data_dir rt" and at: "entry_at rt i (sc_storage_name sch)"
    and rd: "readable f data_dir (sc_storage_name sch)"
  shows "\<exists>rt'. rebuild_entry rt f sch data_dir i = Some (None, rt') \<and> runtime_ok f data_dir rt'
    \<and> loaded_at rt' i (sc_storage_name sch) \<and> keeps_entries (sc_storage_name sch) rt rt'
    \<and> rt_force_failure rt' = rt_force_failure rt
    \<and> map ti_table_name (rt_registry rt') = map ti_table_name (rt_registry rt)"
proof -
  let ?name = "sc_storage_name sch"
  from ok have "oom (rt_alloc rt) = []" by (simp add: runtime_ok_def)
  from scan_rebuild [OF this, of f data_dir ?name] rd obtain t n al where
    s: "scan_rows_csv f data_dir ?name rebuild_row (bptree_init, 1, rt_alloc rt) = Some (None, (t, n, al))"
      "oom al = []" and t: "bptree_inv t" "n = 1 + int (length (file_rows f data_dir ?name))"
      "tree_entries t = row_items 1 (file_rows f data_dir ?name)" by auto
  note i = entry_at_nth [OF at]
  define e where "e = (rt_registry rt ! i)\<lparr>ti_loaded := True, ti_tree := t, ti_next_id := n\<rparr>"
  define rt' where "rt' = rt\<lparr>rt_registry := (rt_registry rt)[i := e], rt_alloc := al\<rparr>"
  have e: "ti_table_name e = ?name" "ti_loaded e" "indexes_file f data_dir e"
    using i t rd by (simp_all add: e_def indexes_file_def)
  have k: "keeps_entries ?name rt rt'" by (rule keeps_entries_update [OF at e(1)]) (simp add: rt'_def)
  then have "entry_at rt' i ?name" using at by (simp add: keeps_entries_def)
  moreover have "rt_registry rt' ! i = e" using i by (simp add: rt'_def)
  ultimately have "loaded_at rt' i ?name" using e(2) by (simp add: loaded_at_entry)
  moreover have "runtime_ok f data_dir rt'" unfolding rt'_def by (rule runtime_ok_put [OF ok at s(2) e(1,3)])
  moreover have "rebuild_entry rt f sch data_dir i = Some (None, rt')"
    by (simp add: rebuild_entry_def s rt'_def e_def)
  moreover have "map ti_table_name (rt_registry rt') = map ti_table_name (rt_registry rt)"
    using map_name_update [of e "rt_registry rt" i] e(1) i by (simp add: rt'_def)
  ultimately show ?thesis using k by (simp add: rt'_def)
qed

lemma register_at_frame:
  assumes "entry_at rt i name" and "register_at rt i n off = Some (res, rt')"
  shows "keeps_entries name rt rt' \<and> map ti_table_name (rt_registry rt') = map ti_table_name (rt_registry rt)"
proof -
  from assms(2) obtain e where e: "rt_registry rt' = (rt_registry rt)[i := e]"
    "ti_table_name e = ti_table_name (rt_registry rt ! i)"
    by (auto simp: register_at_def Let_def split: option.splits prod.splits)
  with keeps_entries_update [OF assms(1) _ e(1)] entry_at_nth [OF assms(1)] map_name_update [OF e(2)]
  show ?thesis by simp
qed

text \<open>With a loaded entry the operations are their last parts.\<close>

lemma next_id_loaded:
  assumes "runtime_ok f data_dir rt" and "loaded_at rt i name"
  shows "ti_next_id (rt_registry rt ! i) = 1 + int (length (file_rows f data_dir name))"
  using loaded_indexes [OF assms] assms(2) by (simp add: indexes_file_def loaded_at_def)

lemma register_loaded:
  "loaded_at rt i (sc_storage_name sch) \<Longrightarrow> \<not> rt_force_failure rt \<Longrightarrow>
     register_at rt i n off = table_index_register_row rt f sch data_dir n off"
  by (simp add: register_row_parts ensure_loaded_id)

lemma find_row_loaded:
  "loaded_at rt i (sc_storage_name sch) \<Longrightarrow>
     table_index_find_row rt f sch data_dir k = Some (Inr (bptree_search (ti_tree (rt_registry rt ! i)) k), rt)"
  by (simp add: table_index_find_row_def ensure_loaded_id)

end
