(* ===== verification/Statement_Interleaving.thy ===== *)
theory Statement_Interleaving
  imports Registry_Access
begin

text \<open>
  Calls of the engine adapter on several threads. \<open>sql_engine_adapter_execute\<close> loads the schema
  without a lock, looks up and locks the table's mutex, executes and unlocks; \<open>execute_insert\<close> and
  \<open>execute_select\<close> are split here where other threads can come between: after the schema, after the
  next id, after the row was appended, and inside every operation of the index registry: after its
  lookup, which gives a pointer into the array of entries, after the test of the entry's flag, and
  after the rebuild. A thread keeps its pointer from the lookup to the use of the entry while others
  may make the array move; a step through a pointer to the old array is undefined. The test hooks are
  off and temporary files are available.
\<close>

section \<open>The parts of a statement\<close>

text \<open>\<open>execute_insert\<close> up to the next id.\<close>

definition insert_begin :: "insert_statement \<Rightarrow> string \<Rightarrow> string \<Rightarrow> db \<Rightarrow> exec_result + schema" where
  "insert_begin st schema_dir data_dir s =
     (case load_schema (db_fs s) schema_dir data_dir (ins_table st) of
        Inl m \<Rightarrow> Inl (exec_error m)
      | Inr sch \<Rightarrow>
          (case validate_insert_columns st sch of
             Some m \<Rightarrow> Inl (exec_error m)
           | None \<Rightarrow> Inr sch))"

definition insert_append ::
  "schema \<Rightarrow> string_list \<Rightarrow> string \<Rightarrow> db \<Rightarrow> (exec_result + storage_result) \<times> db" where
  "insert_append sch row data_dir s =
     (case append_row_csv (db_fs s) data_dir (sc_storage_name sch) row of
        (r, f) \<Rightarrow> (if \<not> sr_ok r then Inl (exec_error (sr_message r)) else Inr r, s\<lparr>db_fs := f\<rparr>))"

text \<open>\<open>execute_insert\<close> after the registration, which failed with a message or not.\<close>

definition insert_end :: "schema \<Rightarrow> storage_result \<Rightarrow> string option \<Rightarrow> db \<Rightarrow> exec_result \<times> db" where
  "insert_end sch r failed s =
     (case failed of
        Some m \<Rightarrow> (exec_error m, s\<lparr>db_rt := table_index_invalidate (db_rt s) (sc_storage_name sch)\<rparr>)
      | None \<Rightarrow>
          (\<lparr>er_ok = True, er_affected_rows = sr_affected_rows r, er_message = sr_message r\<rparr>, s))"

text \<open>\<open>execute_select\<close> after its schema.\<close>

definition select_rest ::
  "select_statement \<Rightarrow> schema \<Rightarrow> string \<Rightarrow> db \<Rightarrow> (exec_result \<times> string \<times> db) option" where
  "select_rest st sch data_dir s =
     (case build_select_indexes st sch of
        None \<Rightarrow> None
      | Some (Inl m) \<Rightarrow> Some (exec_error m, [], s)
      | Some (Inr (headers, arr, count)) \<Rightarrow>
          if count = 0 then Some (exec_error [], [], s)
          else
            (case resolve_where_index st sch of
               Inl m \<Rightarrow> Some (exec_error m, [], s)
             | Inr where_index \<Rightarrow>
                 if has_where st \<and> where_column st = ''id''
                 then execute_index_select st sch data_dir headers arr count s
                 else
                   let path = table_path data_dir (sc_storage_name sch) in
                   (case open_read (db_fs s) path of
                      Inl r \<Rightarrow>
                        Some (exec_error (format_system_error 256
                                ''failed to open table data file'' path r), [], s)
                    | Inr content \<Rightarrow>
                        if content = [] then Some (exec_error ''table data file is empty'', [], s)
                        else
                          (case select_loop st sch arr count where_index
                                  (drop (length (fgets_chunk content)) content) 1 [] of
                             None \<Rightarrow> None
                           | Some (Inl m) \<Rightarrow> Some (exec_error m, [], s)
                           | Some (Inr rows) \<Rightarrow>
                               Some (select_done (length rows), print_result_table headers rows, s)))))"

text \<open>The lookup that a SELECT by id asks the index for, if it gets there.\<close>

definition index_query :: "select_statement \<Rightarrow> schema \<Rightarrow> (string_list \<times> int list \<times> nat \<times> int) option" where
  "index_query st sch =
     (case build_select_indexes st sch of
        Some (Inr (headers, arr, count)) \<Rightarrow>
          if count \<noteq> 0 \<and> \<not> isl (resolve_where_index st sch) \<and> has_where st \<and> where_column st = ''id''
          then map_option (\<lambda>k. (headers, arr, count, k)) (parse_int_strict (where_value st))
          else None
      | _ \<Rightarrow> None)"

text \<open>\<open>execute_index_select\<close> after the lookup.\<close>

definition index_row ::
  "schema \<Rightarrow> string \<Rightarrow> string_list \<Rightarrow> int list \<Rightarrow> nat \<Rightarrow> int \<Rightarrow> int option \<Rightarrow> fs \<Rightarrow> (exec_result \<times> string) option" where
  "index_row sch data_dir headers arr count k found f =
     (case found of
        None \<Rightarrow> Some (select_done 0, print_result_table headers [])
      | Some off \<Rightarrow>
          let r = read_row_at_offset_csv f data_dir (sc_storage_name sch) off in
          if \<not> rd_ok r then Some (exec_error (rd_message r), [])
          else if length (rd_fields r) \<noteq> length (sc_columns sch)
          then Some (exec_error ''CSV row does not match schema column count'', [])
          else map_option (\<lambda>rows. (select_done 1, print_result_table headers rows))
                 (select_row_buffer_push [] (rd_fields r) arr count k))"

text \<open>The parts in sequence are the functions of the executor.\<close>

lemma execute_insert_parts:
  "execute_insert st schema_dir data_dir s =
     (case insert_begin st schema_dir data_dir s of
        Inl r \<Rightarrow> Some (r, s)
      | Inr sch \<Rightarrow>
          (case table_index_get_next_id (db_rt s) (db_fs s) sch data_dir of
             None \<Rightarrow> None
           | Some (Inl m, rt) \<Rightarrow> Some (exec_error m, s\<lparr>db_rt := rt\<rparr>)
           | Some (Inr next_id, rt) \<Rightarrow>
               (case build_insert_row st sch of
                  Inl m \<Rightarrow> Some (exec_error m, s\<lparr>db_rt := rt\<rparr>)
                | Inr row \<Rightarrow>
                    (case insert_append sch row data_dir (s\<lparr>db_rt := rt\<rparr>) of
                       (Inl r, s2) \<Rightarrow> Some (r, s2)
                     | (Inr r, s2) \<Rightarrow>
                         map_option (\<lambda>(failed, rt'). insert_end sch r failed (s2\<lparr>db_rt := rt'\<rparr>))
                           (table_index_register_row (db_rt s2) (db_fs s2) sch data_dir next_id (sr_row_offset r))))))"
  by (cases s) (auto simp: execute_insert_def insert_begin_def insert_append_def insert_end_def
      split: sum.splits option.splits prod.splits)

lemma execute_select_parts:
  "execute_select st schema_dir data_dir s =
     (case load_schema (db_fs s) schema_dir data_dir (sel_table st) of
        Inl m \<Rightarrow> Some (exec_error m, [], s)
      | Inr sch \<Rightarrow> select_rest st sch data_dir s)"
  unfolding execute_select_def select_rest_def by (simp split: sum.split)

lemma index_query_Some:
  "index_query st sch = Some (headers, arr, count, k) \<longleftrightarrow>
     build_select_indexes st sch = Some (Inr (headers, arr, count)) \<and> count \<noteq> 0
     \<and> (\<exists>w. resolve_where_index st sch = Inr w) \<and> has_where st \<and> where_column st = ''id''
     \<and> parse_int_strict (where_value st) = Some k"
  by (cases "resolve_where_index st sch")
    (auto simp: index_query_def split: option.splits sum.splits if_splits prod.splits)

lemma index_select_parts:
  assumes "parse_int_strict (where_value st) = Some k"
  shows "execute_index_select st sch data_dir headers arr count s =
     (case table_index_find_row (db_rt s) (db_fs s) sch data_dir k of
        None \<Rightarrow> None
      | Some (Inl m, rt) \<Rightarrow> Some (exec_error m, [], s\<lparr>db_rt := rt\<rparr>)
      | Some (Inr found, rt) \<Rightarrow>
          map_option (\<lambda>(r, out). (r, out, s\<lparr>db_rt := rt\<rparr>))
            (index_row sch data_dir headers arr count k found (db_fs s)))"
proof (cases "table_index_find_row (db_rt s) (db_fs s) sch data_dir k")
  case (Some res)
  obtain found rt where res: "res = (found, rt)" by fastforce
  show ?thesis
  proof (cases found)
    case (Inr off)
    show ?thesis
      by (cases off) (simp_all add: execute_index_select_def index_row_def assms Some res Inr Let_def split: option.split)
  qed (simp add: execute_index_select_def assms Some res)
qed (simp add: execute_index_select_def assms)

lemma select_rest_index:
  "index_query st sch = Some (headers, arr, count, k) \<Longrightarrow>
     select_rest st sch data_dir s = execute_index_select st sch data_dir headers arr count s"
  by (auto simp: index_query_Some select_rest_def)

lemma select_rest_scan:
  assumes "index_query st sch = None" and r: "select_rest st sch data_dir s = Some (r, out, s')"
  shows "s' = s"
proof (cases "has_where st \<and> where_column st = ''id''")
  case True
  with assms show ?thesis
    by (auto simp: index_query_def select_rest_def execute_index_select_def split: option.splits sum.splits if_splits)
next
  case False
  with r show ?thesis
    by (auto simp: select_rest_def Let_def split: option.splits sum.splits if_splits)
qed

section \<open>Threads\<close>

type_synonym answer_of = "exec_result \<times> string"

text \<open>What a thread wants of the registry: the next id, to register its row, or to find a row.\<close>

datatype registry_call = Next_Id | Register int string_list storage_result
  | Find string_list "int list" nat int

text \<open>
  What a thread has done of its call: nothing, the schema is loaded, the table is locked; it is about
  to call the registry, it has looked its entry up, it has found the entry not loaded, it has found or
  made it loaded; the next id is known, the row is appended, the schema of a SELECT is loaded, the
  statement is executed, the lock is released; or the call was refused before the lock, or has run into
  undefined behaviour.
\<close>

datatype phase = Ready | Keyed schema | Running
  | Calls registry_call schema | Loads registry_call schema entry_pointer
  | Rebuilds registry_call schema entry_pointer | Uses registry_call schema entry_pointer
  | Numbered schema int string_list | Appended schema int string_list storage_result
  | Chosen schema | Executed answer_of | Released answer_of | Refused_Call string | Broken

text \<open>A pointer to an array that was moved, or past its entries.\<close>

definition dangling :: "index_array \<Rightarrow> runtime \<Rightarrow> entry_pointer \<Rightarrow> bool" where
  "dangling a rt p = (fst p \<noteq> ar_address a \<or> length (rt_registry rt) \<le> snd p)"

definition registry_failed :: "registry_call \<Rightarrow> schema \<Rightarrow> string \<Rightarrow> db \<Rightarrow> exec_result \<times> db" where
  "registry_failed op sch m s =
     (case op of Register n row r \<Rightarrow> insert_end sch r (Some m) s | _ \<Rightarrow> (exec_error m, s))"

definition executed_with :: "index_array \<Rightarrow> exec_result \<times> db \<Rightarrow> phase \<times> index_array \<times> db" where
  "executed_with a res = (Executed (fst res, []), a, snd res)"

text \<open>The next step of a call that holds its lock. \<open>moved\<close> tells whether \<open>realloc\<close> moves the array.\<close>

fun advance ::
  "string \<Rightarrow> string \<Rightarrow> bool \<Rightarrow> statement \<Rightarrow> phase \<Rightarrow> index_array \<Rightarrow> db \<Rightarrow> phase \<times> index_array \<times> db" where
  "advance schema_dir data_dir moved st Running a s =
     (case st of
        INSERT i \<Rightarrow>
          (case insert_begin i schema_dir data_dir s of
             Inl r \<Rightarrow> (Executed (r, []), a, s)
           | Inr sch \<Rightarrow> (Calls Next_Id sch, a, s))
      | SELECT q \<Rightarrow>
          (case load_schema (db_fs s) schema_dir data_dir (sel_table q) of
             Inl m \<Rightarrow> (Executed (exec_error m, []), a, s)
           | Inr sch \<Rightarrow> (Chosen sch, a, s)))"
| "advance schema_dir data_dir moved st (Chosen sch) a s =
     (case st of
        INSERT i \<Rightarrow> (Chosen sch, a, s)
      | SELECT q \<Rightarrow>
          (case index_query q sch of
             Some (headers, arr, count, k) \<Rightarrow> (Calls (Find headers arr count k) sch, a, s)
           | None \<Rightarrow>
               (case select_rest q sch data_dir s of
                  None \<Rightarrow> (Broken, a, s)
                | Some (res, out, s') \<Rightarrow> (Executed (res, out), a, s'))))"
| "advance schema_dir data_dir moved st (Calls op sch) a s =
     (case lookup_entry moved (sc_storage_name sch) a (db_rt s) of
        (p, a', rt) \<Rightarrow> (Loads op sch p, a', s\<lparr>db_rt := rt\<rparr>))"
| "advance schema_dir data_dir moved st (Loads op sch p) a s =
     (if dangling a (db_rt s) p then (Broken, a, s)
      else if ti_loaded (rt_registry (db_rt s) ! snd p) then (Uses op sch p, a, s)
      else (Rebuilds op sch p, a, s))"
| "advance schema_dir data_dir moved st (Rebuilds op sch p) a s =
     (if dangling a (db_rt s) p then (Broken, a, s)
      else
        (case rebuild_entry (db_rt s) (db_fs s) sch data_dir (snd p) of
           None \<Rightarrow> (Broken, a, s)
         | Some (Some m, rt) \<Rightarrow> executed_with a (registry_failed op sch m (s\<lparr>db_rt := rt\<rparr>))
         | Some (None, rt) \<Rightarrow> (Uses op sch p, a, s\<lparr>db_rt := rt\<rparr>)))"
| "advance schema_dir data_dir moved st (Uses Next_Id sch p) a s =
     (if dangling a (db_rt s) p then (Broken, a, s)
      else
        (case st of
           SELECT q \<Rightarrow> (Uses Next_Id sch p, a, s)
         | INSERT i \<Rightarrow>
             (case build_insert_row i sch of
                Inl m \<Rightarrow> (Executed (exec_error m, []), a, s)
              | Inr row \<Rightarrow> (Numbered sch (ti_next_id (rt_registry (db_rt s) ! snd p)) row, a, s))))"
| "advance schema_dir data_dir moved st (Numbered sch next_id row) a s =
     (case insert_append sch row data_dir s of
        (Inl r, s') \<Rightarrow> (Executed (r, []), a, s')
      | (Inr r, s') \<Rightarrow> (Appended sch next_id row r, a, s'))"
| "advance schema_dir data_dir moved st (Appended sch next_id row r) a s =
     (if rt_force_failure (db_rt s)
      then executed_with a (insert_end sch r (Some ''forced index registration failure'')
             (s\<lparr>db_rt := (db_rt s)\<lparr>rt_force_failure := False\<rparr>\<rparr>))
      else (Calls (Register next_id row r) sch, a, s))"
| "advance schema_dir data_dir moved st (Uses (Register next_id row r) sch p) a s =
     (if dangling a (db_rt s) p then (Broken, a, s)
      else
        (case register_at (db_rt s) (snd p) next_id (sr_row_offset r) of
           None \<Rightarrow> (Broken, a, s)
         | Some (failed, rt) \<Rightarrow> executed_with a (insert_end sch r failed (s\<lparr>db_rt := rt\<rparr>))))"
| "advance schema_dir data_dir moved st (Uses (Find headers arr count k) sch p) a s =
     (if dangling a (db_rt s) p then (Broken, a, s)
      else
        (case index_row sch data_dir headers arr count k
                (bptree_search (ti_tree (rt_registry (db_rt s) ! snd p)) k) (db_fs s) of
           None \<Rightarrow> (Broken, a, s)
         | Some res \<Rightarrow> (Executed res, a, s)))"
| "advance schema_dir data_dir moved st ph a s = (ph, a, s)"

fun locked_phase :: "phase \<Rightarrow> bool" where
  "locked_phase Running = True"
| "locked_phase (Calls op sch) = True"
| "locked_phase (Loads op sch p) = True"
| "locked_phase (Rebuilds op sch p) = True"
| "locked_phase (Uses op sch p) = True"
| "locked_phase (Numbered sch n row) = True"
| "locked_phase (Appended sch n row r) = True"
| "locked_phase (Chosen sch) = True"
| "locked_phase ph = False"

text \<open>
  The state of the threads. \<open>sh_order\<close> records the threads and their results in the order in which
  their statements were executed; no step depends on it.
\<close>

record shared =
  sh_db :: db
  sh_array :: index_array
  sh_locks :: lock_state
  sh_phase :: "nat \<Rightarrow> phase"
  sh_order :: "(nat \<times> answer_of) list"

definition executed_by :: "nat \<Rightarrow> phase \<Rightarrow> (nat \<times> answer_of) list" where
  "executed_by t ph = (case ph of Executed r \<Rightarrow> [(t, r)] | _ \<Rightarrow> [])"

inductive call_step :: "string \<Rightarrow> string \<Rightarrow> (nat \<Rightarrow> statement) \<Rightarrow> nat \<Rightarrow> shared \<Rightarrow> shared \<Rightarrow> bool"
  for schema_dir data_dir stmts t where
  schema: "sh_phase s t = Ready \<Longrightarrow>
    load_schema (db_fs (sh_db s)) schema_dir data_dir (statement_table_name (stmts t)) = Inr sch \<Longrightarrow>
    call_step schema_dir data_dir stmts t s (s\<lparr>sh_phase := (sh_phase s)(t := Keyed sch)\<rparr>)"
| no_schema: "sh_phase s t = Ready \<Longrightarrow>
    load_schema (db_fs (sh_db s)) schema_dir data_dir (statement_table_name (stmts t)) = Inl m \<Longrightarrow>
    call_step schema_dir data_dir stmts t s (s\<lparr>sh_phase := (sh_phase s)(t := Refused_Call m)\<rparr>)"
| enter: "sh_phase s t = Keyed sch \<Longrightarrow> sh_locks s = (m, ls) \<Longrightarrow> ls t = Outside \<Longrightarrow>
    fresh_resources res m \<Longrightarrow> acquire_entry res m (sc_storage_name sch) = (Inr a, m') \<Longrightarrow>
    call_step schema_dir data_dir stmts t s
      (s\<lparr>sh_locks := (m', ls(t := Waiting (sc_storage_name sch) a))\<rparr>)"
| no_entry: "sh_phase s t = Keyed sch \<Longrightarrow> sh_locks s = (m, ls) \<Longrightarrow> ls t = Outside \<Longrightarrow>
    fresh_resources res m \<Longrightarrow> acquire_entry res m (sc_storage_name sch) = (Inl msg, m') \<Longrightarrow>
    call_step schema_dir data_dir stmts t s
      (s\<lparr>sh_locks := (m', ls), sh_phase := (sh_phase s)(t := Refused_Call msg)\<rparr>)"
| lock: "sh_phase s t = Keyed sch \<Longrightarrow> sh_locks s = (m, ls) \<Longrightarrow> ls t = Waiting key a \<Longrightarrow>
    lock_entry_mutex t a m = Some m' \<Longrightarrow>
    call_step schema_dir data_dir stmts t s
      (s\<lparr>sh_locks := (m', ls(t := Holding key a)), sh_phase := (sh_phase s)(t := Running)\<rparr>)"
| execute: "locked_phase (sh_phase s t) \<Longrightarrow>
    advance schema_dir data_dir moved (stmts t) (sh_phase s t) (sh_array s) (sh_db s) = (ph, a, d) \<Longrightarrow>
    call_step schema_dir data_dir stmts t s
      (s\<lparr>sh_db := d, sh_array := a, sh_phase := (sh_phase s)(t := ph), sh_order := sh_order s @ executed_by t ph\<rparr>)"
| release: "sh_phase s t = Executed r \<Longrightarrow> sh_locks s = (m, ls) \<Longrightarrow> ls t = Holding key a \<Longrightarrow>
    engine_lock_manager_release (Some a) m = (h, m') \<Longrightarrow>
    call_step schema_dir data_dir stmts t s
      (s\<lparr>sh_locks := (m', ls(t := Outside)), sh_phase := (sh_phase s)(t := Released r)\<rparr>)"

inductive_cases call_stepE: "call_step schema_dir data_dir stmts t s s'"

definition start_calls :: "index_array \<Rightarrow> db \<Rightarrow> shared" where
  "start_calls a d =
     \<lparr>sh_db = d, sh_array = a, sh_locks = ([], \<lambda>t. Outside), sh_phase = (\<lambda>t. Ready), sh_order = []\<rparr>"

text \<open>At the start the array is the one that creating the registry's entries has left, anywhere.\<close>

inductive interleaved :: "string \<Rightarrow> string \<Rightarrow> (nat \<Rightarrow> statement) \<Rightarrow> db \<Rightarrow> shared \<Rightarrow> bool"
  for schema_dir data_dir stmts d where
  start: "array_ok a (db_rt d) \<Longrightarrow> interleaved schema_dir data_dir stmts d (start_calls a d)"
| step: "interleaved schema_dir data_dir stmts d s \<Longrightarrow> call_step schema_dir data_dir stmts t s s' \<Longrightarrow>
    interleaved schema_dir data_dir stmts d s'"

text \<open>The serial execution of a list of statements: their results and the database.\<close>

fun run_serial :: "string \<Rightarrow> string \<Rightarrow> statement list \<Rightarrow> db \<Rightarrow> (answer_of list \<times> db) option" where
  "run_serial schema_dir data_dir [] d = Some ([], d)"
| "run_serial schema_dir data_dir (st # sts) d =
     (case execute_statement st schema_dir data_dir d of
        None \<Rightarrow> None
      | Some (r, out, d') \<Rightarrow>
          map_option (\<lambda>(rs, d''). ((r, out) # rs, d'')) (run_serial schema_dir data_dir sts d'))"

lemma run_serial_append:
  "run_serial schema_dir data_dir (sts @ [st]) d =
     (case run_serial schema_dir data_dir sts d of
        None \<Rightarrow> None
      | Some (rs, d') \<Rightarrow>
          (case execute_statement st schema_dir data_dir d' of
             None \<Rightarrow> None
           | Some (r, out, d'') \<Rightarrow> Some (rs @ [(r, out)], d'')))"
  by (induction sts arbitrary: d) (auto split: option.splits prod.splits)

end
