(* ===== verification/Interleaving_Simulation.thy ===== *)
theory Interleaving_Simulation
  imports Statement_Interleaving
begin

text \<open>
  The simulation between the interleaved calls of \<open>Statement_Interleaving\<close> and the serial execution
  of their statements. The invariant says of each thread's phase what it relies on: that the pointer
  it keeps still points to the entry of its table, that the entry is loaded, which id it will use and
  where its row is. A step of one thread keeps what the others rely on, as long as at most four tables
  are in use, because then the array never moves under a pointer.
\<close>

section \<open>What an operation on one table depends on\<close>

lemma ensure_loaded_cong:
  "f (table_path data_dir (sc_storage_name sch)) = g (table_path data_dir (sc_storage_name sch)) \<Longrightarrow>
     ensure_loaded rt f sch data_dir = ensure_loaded rt g sch data_dir"
proof -
  assume a: "f (table_path data_dir (sc_storage_name sch)) = g (table_path data_dir (sc_storage_name sch))"
  then have "scan_rows_csv f data_dir (sc_storage_name sch) visitor ctx
      = scan_rows_csv g data_dir (sc_storage_name sch) visitor ctx"
    for visitor :: "(bptree \<times> int \<times> allocator) visitor" and ctx
    by (simp add: scan_rows_csv_def open_table_file_def open_read_def)
  then show ?thesis by (simp only: ensure_loaded_def)
qed

lemma rebuild_entry_cong:
  "f (table_path data_dir (sc_storage_name sch)) = g (table_path data_dir (sc_storage_name sch)) \<Longrightarrow>
     rebuild_entry rt f sch data_dir i = rebuild_entry rt g sch data_dir i"
proof -
  assume a: "f (table_path data_dir (sc_storage_name sch)) = g (table_path data_dir (sc_storage_name sch))"
  then have "scan_rows_csv f data_dir (sc_storage_name sch) visitor ctx
      = scan_rows_csv g data_dir (sc_storage_name sch) visitor ctx"
    for visitor :: "(bptree \<times> int \<times> allocator) visitor" and ctx
    by (simp add: scan_rows_csv_def open_table_file_def open_read_def)
  then show ?thesis by (simp only: rebuild_entry_def)
qed

lemma index_row_cong:
  "f (table_path data_dir (sc_storage_name sch)) = g (table_path data_dir (sc_storage_name sch)) \<Longrightarrow>
     index_row sch data_dir headers arr count k found f = index_row sch data_dir headers arr count k found g"
proof -
  assume "f (table_path data_dir (sc_storage_name sch)) = g (table_path data_dir (sc_storage_name sch))"
  then have "read_row_at_offset_csv f data_dir (sc_storage_name sch) off
      = read_row_at_offset_csv g data_dir (sc_storage_name sch) off" for off
    by (simp add: read_row_at_offset_csv_def open_table_file_def open_read_def)
  then show ?thesis by (simp only: index_row_def)
qed

text \<open>A SELECT gives the same answer and the same indexes in two file systems that agree on its table.\<close>

definition with_files :: "fs \<Rightarrow> (exec_result \<times> string \<times> db) option \<Rightarrow> (exec_result \<times> string \<times> db) option" where
  "with_files f x = map_option (\<lambda>(r, out, d). (r, out, d\<lparr>db_fs := f\<rparr>)) x"

lemma index_select_cong:
  assumes "f (table_path data_dir (sc_storage_name sch)) = g (table_path data_dir (sc_storage_name sch))"
  shows "execute_index_select st sch data_dir headers arr count \<lparr>db_fs = f, db_rt = rt\<rparr>
    = with_files f (execute_index_select st sch data_dir headers arr count \<lparr>db_fs = g, db_rt = rt\<rparr>)"
proof -
  have "table_index_find_row rt f sch data_dir k = table_index_find_row rt g sch data_dir k" for k
    by (simp add: table_index_find_row_def ensure_loaded_cong [of f data_dir sch g, OF assms])
  moreover have "read_row_at_offset_csv f data_dir (sc_storage_name sch) off
      = read_row_at_offset_csv g data_dir (sc_storage_name sch) off" for off
    using assms by (simp add: read_row_at_offset_csv_def open_table_file_def open_read_def)
  ultimately show ?thesis
    by (auto simp: execute_index_select_def with_files_def Let_def split: option.splits sum.splits prod.splits)
qed

lemma select_rest_cong:
  assumes "f (table_path data_dir (sc_storage_name sch)) = g (table_path data_dir (sc_storage_name sch))"
  shows "select_rest st sch data_dir \<lparr>db_fs = f, db_rt = rt\<rparr>
    = with_files f (select_rest st sch data_dir \<lparr>db_fs = g, db_rt = rt\<rparr>)"
proof -
  have "open_read f (table_path data_dir (sc_storage_name sch)) = open_read g (table_path data_dir (sc_storage_name sch))"
    using assms by (simp add: open_read_def)
  with index_select_cong [of f data_dir sch g, OF assms] show ?thesis
    by (auto simp: select_rest_def with_files_def Let_def split: option.split sum.split prod.split)
qed

section \<open>The serial state beside the interleaved one\<close>

definition table_file :: "string \<Rightarrow> schema \<Rightarrow> string" where
  "table_file data_dir sch = table_path data_dir (sc_storage_name sch)"

lemma table_file_inject [simp]:
  "table_file data_dir a = table_file data_dir b \<longleftrightarrow> sc_storage_name a = sc_storage_name b"
  by (simp add: table_file_def table_path_inject)

text \<open>A statement that its schema and its table's file allow.\<close>

definition statement_fits :: "string \<Rightarrow> string \<Rightarrow> db \<Rightarrow> statement \<Rightarrow> schema \<Rightarrow> bool" where
  "statement_fits schema_dir data_dir d st sch =
     (load_schema (db_fs d) schema_dir data_dir (statement_table_name st) = Inr sch
      \<and> table_ok (db_fs d) data_dir sch
      \<and> (case st of INSERT i \<Rightarrow> insert_ok i sch | SELECT q \<Rightarrow> select_ok q sch))"

definition good_db :: "string \<Rightarrow> db \<Rightarrow> bool" where
  "good_db data_dir d = (runtime_ok (db_fs d) data_dir (db_rt d) \<and> \<not> rt_force_failure (db_rt d))"

lemma table_ok_same:
  "sc_storage_name a = sc_storage_name b \<Longrightarrow> sc_columns a = sc_columns b \<Longrightarrow>
     table_ok f data_dir a = table_ok f data_dir b"
  by (simp add: table_ok_def table_rows_def)

lemma loaded_columns:
  assumes "load_schema f schema_dir data_dir x = Inr a" and "load_schema f schema_dir data_dir y = Inr b"
    and "sc_storage_name a = sc_storage_name b"
  shows "sc_columns a = sc_columns b"
  using load_schema_ok [OF assms(1)] load_schema_ok [OF assms(2)] assms(3)
  by (auto simp: schema_ok_def header_matches_def split: fnode.splits)

text \<open>Executing one statement that fits keeps every other one fitting.\<close>

lemma insert_serial:
  assumes g: "good_db data_dir d" and f: "statement_fits schema_dir data_dir d (INSERT i) sch"
  shows "\<exists>d' content. execute_insert i schema_dir data_dir d
      = Some (\<lparr>er_ok = True, er_affected_rows = 1, er_message = ''INSERT 1''\<rparr>, d') \<and> good_db data_dir d'
    \<and> db_fs d (table_file data_dir sch) = Regular content
    \<and> db_fs d' = (db_fs d)(table_file data_dir sch := Regular (appended content (insert_values i sch)))
    \<and> (\<forall>st sch'. statement_fits schema_dir data_dir d st sch' \<longrightarrow> statement_fits schema_dir data_dir d' st sch')"
proof -
  from f have l: "load_schema (db_fs d) schema_dir data_dir (ins_table i) = Inr sch"
    and tab: "table_ok (db_fs d) data_dir sch" and ok: "insert_ok i sch"
    by (auto simp: statement_fits_def)
  from g have rt: "runtime_ok (db_fs d) data_dir (db_rt d)" "\<not> rt_force_failure (db_rt d)"
    by (auto simp: good_db_def)
  from table_ok_content [OF tab] obtain content where
    c: "db_fs d (table_path data_dir (sc_storage_name sch)) = Regular content" by blast
  from execute_insert_ok [OF rt(1) l tab ok rt(2)] c obtain d' where
    e: "execute_insert i schema_dir data_dir d
        = Some (\<lparr>er_ok = True, er_affected_rows = 1, er_message = ''INSERT 1''\<rparr>, d')" "good_db data_dir d'"
    and t': "table_ok (db_fs d') data_dir sch"
    and fs: "db_fs d' = (db_fs d)(table_file data_dir sch := Regular (appended content (insert_values i sch)))"
    and ls: "load_schema (db_fs d') schema_dir data_dir = load_schema (db_fs d) schema_dir data_dir"
    by (auto simp: good_db_def table_file_def)
  have "statement_fits schema_dir data_dir d' st sch'" if fit: "statement_fits schema_dir data_dir d st sch'" for st sch'
  proof -
    from fit have l': "load_schema (db_fs d) schema_dir data_dir (statement_table_name st) = Inr sch'"
      and tb: "table_ok (db_fs d) data_dir sch'" by (auto simp: statement_fits_def)
    have "table_ok (db_fs d') data_dir sch'"
    proof (cases "sc_storage_name sch' = sc_storage_name sch")
      case True
      from table_ok_same [OF True loaded_columns [OF l' l True]] t' show ?thesis by blast
    next
      case False
      then show ?thesis using tb
        by (simp add: fs table_ok_def readable_def table_rows_def file_rows_def table_file_def table_path_inject)
    qed
    with fit show ?thesis by (simp add: statement_fits_def ls)
  qed
  with e fs c show ?thesis by (auto simp: table_file_def)
qed

lemma select_serial:
  assumes g: "good_db data_dir d" and f: "statement_fits schema_dir data_dir d (SELECT q) sch"
  shows "\<exists>rt'. execute_select q schema_dir data_dir d
      = Some (select_done (length (answer q sch (table_rows (db_fs d) data_dir sch))),
              print_result_table (select_headers q sch) (answer q sch (table_rows (db_fs d) data_dir sch)),
              d\<lparr>db_rt := rt'\<rparr>) \<and> good_db data_dir (d\<lparr>db_rt := rt'\<rparr>)"
  using execute_select_ok [of d data_dir schema_dir q sch] g f by (auto simp: good_db_def statement_fits_def)

text \<open>
  The indexes of the interleaved state and the files of the serial one: \<open>view\<close> is the database a
  thread works on as far as its own table is concerned.
\<close>

definition view :: "db \<Rightarrow> db \<Rightarrow> db" where
  "view v d = \<lparr>db_fs = db_fs v, db_rt = db_rt d\<rparr>"

definition numbered_in :: "string \<Rightarrow> db \<Rightarrow> db \<Rightarrow> schema \<Rightarrow> int \<Rightarrow> bool" where
  "numbered_in data_dir v d sch n =
     (n = 1 + int (length (file_rows (db_fs v) data_dir (sc_storage_name sch)))
      \<and> (\<exists>i. loaded_at (db_rt d) i (sc_storage_name sch)))"

definition holds :: "shared \<Rightarrow> nat \<Rightarrow> schema \<Rightarrow> bool" where
  "holds s t sch = (\<exists>a. snd (sh_locks s) t = Holding (sc_storage_name sch) a)"

lemma holds_exclusive:
  assumes "locks_ok (sh_locks s)" and "holds s t a" and "holds s u b"
    and "sc_storage_name a = sc_storage_name b"
  shows "t = u"
proof -
  obtain m ls where sl: "sh_locks s = (m, ls)" by fastforce
  from assms(2,3) sl obtain x y where h: "ls t = Holding (sc_storage_name a) x" "ls u = Holding (sc_storage_name b) y"
    by (auto simp: holds_def)
  from locks_ok_holding [OF assms(1) [unfolded sl] h(1)] locks_ok_holding [OF assms(1) [unfolded sl] h(2)]
    locks_ok_distinct [OF assms(1) [unfolded sl]] assms(4)
  show ?thesis by (metis distinct_map inj_onD option.inject)
qed

section \<open>The invariant\<close>

definition appended_at :: "string \<Rightarrow> db \<Rightarrow> db \<Rightarrow> schema \<Rightarrow> string_list \<Rightarrow> storage_result \<Rightarrow> bool" where
  "appended_at data_dir v d sch row r =
     (\<exists>content. db_fs v (table_file data_dir sch) = Regular content
      \<and> db_fs d (table_file data_dir sch) = Regular (appended content row)
      \<and> r = \<lparr>sr_ok = True, sr_affected_rows = 1,
              sr_row_offset = int (length (content @ line_separator content)), sr_message = ''INSERT 1''\<rparr>)"

definition insert_at :: "string \<Rightarrow> statement \<Rightarrow> schema \<Rightarrow> db \<Rightarrow> db \<Rightarrow> int \<Rightarrow> string_list \<Rightarrow> bool" where
  "insert_at data_dir st sch v d n row =
     ((\<exists>i. st = INSERT i \<and> row = insert_values i sch) \<and> numbered_in data_dir v d sch n)"

text \<open>What a call of the registry is for.\<close>

definition op_ok :: "string \<Rightarrow> statement \<Rightarrow> schema \<Rightarrow> db \<Rightarrow> db \<Rightarrow> registry_call \<Rightarrow> bool" where
  "op_ok data_dir st sch v d op =
     (case op of
        Next_Id \<Rightarrow> (\<exists>i. st = INSERT i)
      | Register n row r \<Rightarrow> insert_at data_dir st sch v d n row \<and> appended_at data_dir v d sch row r
      | Find headers arr count k \<Rightarrow> (\<exists>q. st = SELECT q \<and> index_query q sch = Some (headers, arr, count, k)))"

definition registers :: "registry_call \<Rightarrow> bool" where
  "registers op = (case op of Register n row r \<Rightarrow> True | _ \<Rightarrow> False)"

text \<open>The pointer of a thread points to the entry of its table in the present array.\<close>

definition pointer_ok :: "index_array \<Rightarrow> runtime \<Rightarrow> schema \<Rightarrow> entry_pointer \<Rightarrow> bool" where
  "pointer_ok a rt sch p = (fst p = ar_address a \<and> entry_at rt (snd p) (sc_storage_name sch))"

text \<open>What the phase of a thread says about the two states.\<close>

fun phase_ok :: "string \<Rightarrow> statement \<Rightarrow> schema \<Rightarrow> shared \<Rightarrow> db \<Rightarrow> nat \<Rightarrow> phase \<Rightarrow> bool" where
  "phase_ok data_dir st sch s v t Ready = (snd (sh_locks s) t = Outside)"
| "phase_ok data_dir st sch s v t (Keyed k) =
     (k = sch \<and> (snd (sh_locks s) t = Outside \<or> (\<exists>a. snd (sh_locks s) t = Waiting (sc_storage_name sch) a)))"
| "phase_ok data_dir st sch s v t Running = holds s t sch"
| "phase_ok data_dir st sch s v t (Calls op k) =
     (k = sch \<and> holds s t sch \<and> op_ok data_dir st sch v (sh_db s) op)"
| "phase_ok data_dir st sch s v t (Loads op k p) =
     (k = sch \<and> holds s t sch \<and> op_ok data_dir st sch v (sh_db s) op
      \<and> pointer_ok (sh_array s) (db_rt (sh_db s)) sch p)"
| "phase_ok data_dir st sch s v t (Rebuilds op k p) =
     (k = sch \<and> holds s t sch \<and> op_ok data_dir st sch v (sh_db s) op \<and> \<not> registers op
      \<and> pointer_ok (sh_array s) (db_rt (sh_db s)) sch p)"
| "phase_ok data_dir st sch s v t (Uses op k p) =
     (k = sch \<and> holds s t sch \<and> op_ok data_dir st sch v (sh_db s) op
      \<and> pointer_ok (sh_array s) (db_rt (sh_db s)) sch p
      \<and> loaded_at (db_rt (sh_db s)) (snd p) (sc_storage_name sch))"
| "phase_ok data_dir st sch s v t (Numbered k n row) =
     (k = sch \<and> holds s t sch \<and> insert_at data_dir st sch v (sh_db s) n row)"
| "phase_ok data_dir st sch s v t (Appended k n row r) =
     (k = sch \<and> holds s t sch \<and> insert_at data_dir st sch v (sh_db s) n row
      \<and> appended_at data_dir v (sh_db s) sch row r)"
| "phase_ok data_dir st sch s v t (Chosen k) = (k = sch \<and> holds s t sch \<and> (\<exists>q. st = SELECT q))"
| "phase_ok data_dir st sch s v t (Executed r) = (holds s t sch \<and> (t, r) \<in> set (sh_order s))"
| "phase_ok data_dir st sch s v t (Released r) = (snd (sh_locks s) t = Outside \<and> (t, r) \<in> set (sh_order s))"
| "phase_ok data_dir st sch s v t (Refused_Call m) = (snd (sh_locks s) t = Outside)"
| "phase_ok data_dir st sch s v t Broken = False"

fun uncommitted :: "phase \<Rightarrow> bool" where
  "uncommitted (Appended k n row r) = True"
| "uncommitted (Calls op k) = registers op"
| "uncommitted (Loads op k p) = registers op"
| "uncommitted (Rebuilds op k p) = registers op"
| "uncommitted (Uses op k p) = registers op"
| "uncommitted ph = False"

text \<open>The tables that are in use: those of the registry and those of the calls.\<close>

definition simulates ::
  "string \<Rightarrow> string \<Rightarrow> (nat \<Rightarrow> statement) \<Rightarrow> (nat \<Rightarrow> schema) \<Rightarrow> db \<Rightarrow> shared \<Rightarrow> db \<Rightarrow> bool" where
  "simulates schema_dir data_dir stmts schm d0 s v =
     (run_serial schema_dir data_dir (map (stmts \<circ> fst) (sh_order s)) d0 = Some (map snd (sh_order s), v)
      \<and> good_db data_dir v \<and> good_db data_dir (view v (sh_db s))
      \<and> (\<forall>t. statement_fits schema_dir data_dir v (stmts t) (schm t))
      \<and> load_schema (db_fs (sh_db s)) schema_dir data_dir = load_schema (db_fs v) schema_dir data_dir
      \<and> locks_ok (sh_locks s)
      \<and> array_ok (sh_array s) (db_rt (sh_db s))
      \<and> few_tables (range (sc_storage_name \<circ> schm)) (db_rt (sh_db s))
      \<and> (\<forall>t. phase_ok data_dir (stmts t) (schm t) s v t (sh_phase s t))
      \<and> (\<forall>p. (\<forall>t. uncommitted (sh_phase s t) \<longrightarrow> p \<noteq> table_file data_dir (schm t)) \<longrightarrow>
            db_fs (sh_db s) p = db_fs v p))"

lemma view_simps [simp]: "db_fs (view v d) = db_fs v" "db_rt (view v d) = db_rt d"
  by (simp_all add: view_def)

lemma simulatesD:
  assumes "simulates schema_dir data_dir stmts schm d0 s v"
  shows "good_db data_dir v" and "good_db data_dir (view v (sh_db s))"
    and "statement_fits schema_dir data_dir v (stmts t) (schm t)"
    and "load_schema (db_fs (sh_db s)) schema_dir data_dir = load_schema (db_fs v) schema_dir data_dir"
    and "locks_ok (sh_locks s)" and "array_ok (sh_array s) (db_rt (sh_db s))"
    and "few_tables (range (sc_storage_name \<circ> schm)) (db_rt (sh_db s))"
    and "phase_ok data_dir (stmts t) (schm t) s v t (sh_phase s t)"
    and "runtime_ok (db_fs v) data_dir (db_rt (sh_db s))" and "\<not> rt_force_failure (db_rt (sh_db s))"
  using assms by (simp_all add: simulates_def good_db_def)

lemma simulates_start:
  assumes "good_db data_dir d" and "\<forall>t. statement_fits schema_dir data_dir d (stmts t) (schm t)"
    and "few_tables (range (sc_storage_name \<circ> schm)) (db_rt d)" and "array_ok a (db_rt d)"
  shows "simulates schema_dir data_dir stmts schm d (start_calls a d) d"
  using assms by (simp add: simulates_def start_calls_def view_def locks_ok_def good_db_def)

lemma locked_holds: "phase_ok data_dir st k s v u ph \<Longrightarrow> locked_phase ph \<Longrightarrow> holds s u k"
  by (cases ph) auto

lemma uncommitted_locked: "uncommitted ph \<Longrightarrow> locked_phase ph"
  by (cases ph) auto

text \<open>A thread that holds its table and has not appended yet sees the table's committed file.\<close>

lemma own_file:
  assumes sim: "simulates schema_dir data_dir stmts schm d0 s v"
    and h: "holds s t (schm t)" and nu: "\<not> uncommitted (sh_phase s t)"
  shows "db_fs (sh_db s) (table_file data_dir (schm t)) = db_fs v (table_file data_dir (schm t))"
proof -
  have "table_file data_dir (schm t) \<noteq> table_file data_dir (schm u)" if "uncommitted (sh_phase s u)" for u
  proof
    assume eq: "table_file data_dir (schm t) = table_file data_dir (schm u)"
    have "holds s u (schm u)" by (rule locked_holds [OF simulatesD(8) [OF sim] uncommitted_locked [OF that]])
    with holds_exclusive [OF simulatesD(5) [OF sim] _ h] eq have "t = u" by simp
    with that nu show False by simp
  qed
  with sim show ?thesis by (simp add: simulates_def)
qed

text \<open>
  How the phases of the other threads survive a step of thread \<open>t\<close>, which holds its table: the
  entries of other tables stay what and where they are, the array does not move once it has entries,
  and only the file of its own table changes.
\<close>

definition keeps_registry :: "schema \<Rightarrow> index_array \<Rightarrow> runtime \<Rightarrow> index_array \<Rightarrow> runtime \<Rightarrow> bool" where
  "keeps_registry sch a rt a' rt' =
     (keeps_entries (sc_storage_name sch) rt rt' \<and> array_ok a' rt'
      \<and> ti_table_name ` set (rt_registry rt') \<subseteq> insert (sc_storage_name sch) (ti_table_name ` set (rt_registry rt))
      \<and> (ar_address a' = ar_address a \<or> rt_registry rt = []))"

definition keeps_files :: "string \<Rightarrow> schema \<Rightarrow> db \<Rightarrow> db \<Rightarrow> db \<Rightarrow> db \<Rightarrow> bool" where
  "keeps_files data_dir sch v v' d d' =
     (\<forall>p. p \<noteq> table_file data_dir sch \<longrightarrow> db_fs v' p = db_fs v p \<and> db_fs d' p = db_fs d p)"

lemma keeps_registry_refl: "array_ok a rt \<Longrightarrow> keeps_registry sch a rt a rt"
  by (auto simp: keeps_registry_def keeps_entries_refl)

lemma keeps_registry_names:
  assumes "array_ok a rt" and "keeps_entries (sc_storage_name sch) rt rt'"
    and "map ti_table_name (rt_registry rt') = map ti_table_name (rt_registry rt)"
  shows "keeps_registry sch a rt a rt'"
proof -
  have "ti_table_name ` set (rt_registry rt') = ti_table_name ` set (rt_registry rt)"
    using arg_cong [OF assms(3), of set] by simp
  with assms map_eq_imp_length_eq [OF assms(3)] show ?thesis by (auto simp: keeps_registry_def array_ok_def)
qed

lemma keeps_pointer:
  assumes "keeps_registry sch a rt a' rt'" and "pointer_ok a rt k p"
  shows "pointer_ok a' rt' k p"
  using assms entry_at_nth [of rt "snd p" "sc_storage_name k"]
  by (auto simp: keeps_registry_def pointer_ok_def keeps_entries_def)

lemma phase_ok_other:
  assumes r: "keeps_registry sch (sh_array s) (db_rt (sh_db s)) (sh_array s') (db_rt (sh_db s'))"
    and f: "keeps_files data_dir sch v v' (sh_db s) (sh_db s')"
    and ph: "phase_ok data_dir st k' s v u (sh_phase s u)"
    and ne: "locked_phase (sh_phase s u) \<Longrightarrow> sc_storage_name k' \<noteq> sc_storage_name sch"
    and s': "sh_locks s' = sh_locks s" "set (sh_order s) \<subseteq> set (sh_order s')"
  shows "phase_ok data_dir st k' s' v' u (sh_phase s u)"
proof -
  have hd: "holds s' u k' = holds s u k'" by (simp add: holds_def s'(1))
  have ld: "loaded_at (db_rt (sh_db s')) j (sc_storage_name k')"
    if "loaded_at (db_rt (sh_db s)) j (sc_storage_name k')" "locked_phase (sh_phase s u)" for j
    using that ne keeps_loaded r by (auto simp: keeps_registry_def)
  have num: "insert_at data_dir st k' v' (sh_db s') n row"
    if "insert_at data_dir st k' v (sh_db s) n row" "locked_phase (sh_phase s u)" for n row
    using that ne ld f
    by (auto simp: insert_at_def numbered_in_def keeps_files_def file_rows_def table_file_def table_path_inject)
  have app: "appended_at data_dir v' (sh_db s') k' row r"
    if "appended_at data_dir v (sh_db s) k' row r" "locked_phase (sh_phase s u)" for row r
    using that ne f by (auto simp: appended_at_def keeps_files_def)
  have op: "op_ok data_dir st k' v' (sh_db s') op"
    if "op_ok data_dir st k' v (sh_db s) op" "locked_phase (sh_phase s u)" for op
    using that num app by (auto simp: op_ok_def split: registry_call.splits)
  show ?thesis
    using ph num app op ld hd s' keeps_pointer [OF r] by (cases "sh_phase s u") auto
qed

text \<open>One executed step of thread \<open>t\<close>, given what it does to its own table.\<close>

lemma simulates_execute:
  assumes sim: "simulates schema_dir data_dir stmts schm d0 s v" and lp: "locked_phase (sh_phase s t)"
    and s': "s' = s\<lparr>sh_db := d', sh_array := a', sh_phase := (sh_phase s)(t := ph),
      sh_order := sh_order s @ executed_by t ph\<rparr>"
    and reg: "keeps_registry (schm t) (sh_array s) (db_rt (sh_db s)) a' (db_rt d')"
    and keep: "keeps_files data_dir (schm t) v v' (sh_db s) d'"
    and load: "load_schema (db_fs d') schema_dir data_dir = load_schema (db_fs v') schema_dir data_dir"
    and good: "good_db data_dir v'" "good_db data_dir (view v' d')"
    and fits: "\<forall>u. statement_fits schema_dir data_dir v' (stmts u) (schm u)"
    and serial: "(case ph of Executed r \<Rightarrow> execute_statement (stmts t) schema_dir data_dir v = Some (fst r, snd r, v')
                  | _ \<Rightarrow> v' = v)"
    and own: "phase_ok data_dir (stmts t) (schm t) s' v' t ph"
    and ownf: "\<not> uncommitted ph \<Longrightarrow>
      db_fs d' (table_file data_dir (schm t)) = db_fs v' (table_file data_dir (schm t))"
  shows "simulates schema_dir data_dir stmts schm d0 s' v'"
proof -
  from sim have run: "run_serial schema_dir data_dir (map (stmts \<circ> fst) (sh_order s)) d0 = Some (map snd (sh_order s), v)"
    and files: "\<And>p. (\<forall>u. uncommitted (sh_phase s u) \<longrightarrow> p \<noteq> table_file data_dir (schm u)) \<Longrightarrow>
      db_fs (sh_db s) p = db_fs v p"
    by (simp_all add: simulates_def)
  note locks = simulatesD(5) [OF sim] and ph_ok = simulatesD(8) [OF sim]
  have run': "run_serial schema_dir data_dir (map (stmts \<circ> fst) (sh_order s')) d0 = Some (map snd (sh_order s'), v')"
    using run serial by (cases ph) (auto simp: s' executed_by_def run_serial_append)
  have ht: "holds s t (schm t)" using locked_holds [OF ph_ok lp] .
  have phs: "phase_ok data_dir (stmts u) (schm u) s' v' u (sh_phase s' u)" for u
  proof (cases "u = t")
    case False
    have ne: "sc_storage_name (schm u) \<noteq> sc_storage_name (schm t)" if "locked_phase (sh_phase s u)"
      using holds_exclusive [OF locks locked_holds [OF ph_ok that] ht] False by blast
    have "phase_ok data_dir (stmts u) (schm u) s' v' u (sh_phase s u)"
      by (rule phase_ok_other [where sch = "schm t", OF _ _ ph_ok ne]) (use reg keep in \<open>auto simp: s'\<close>)
    with False show ?thesis by (simp add: s')
  qed (use own in \<open>simp add: s'\<close>)
  have "db_fs (sh_db s') p = db_fs v' p"
    if np: "\<forall>u. uncommitted (sh_phase s' u) \<longrightarrow> p \<noteq> table_file data_dir (schm u)" for p
  proof (cases "p = table_file data_dir (schm t)")
    case True
    with np have "\<not> uncommitted ph" by (auto simp: s' dest: spec [of _ t])
    with ownf True show ?thesis by (simp add: s')
  next
    case False
    then have "\<forall>u. uncommitted (sh_phase s u) \<longrightarrow> p \<noteq> table_file data_dir (schm u)"
      using np by (auto simp: s' split: if_splits)
    from files [OF this] keep False show ?thesis by (auto simp: keeps_files_def s')
  qed
  moreover have "few_tables (range (sc_storage_name \<circ> schm)) (db_rt d')"
  proof -
    from simulatesD(7) [OF sim] obtain names where n: "length names \<le> 4"
      "range (sc_storage_name \<circ> schm) \<union> ti_table_name ` set (rt_registry (db_rt (sh_db s))) \<subseteq> set names"
      by (auto simp: few_tables_def)
    from reg have "ti_table_name ` set (rt_registry (db_rt d'))
        \<subseteq> insert (sc_storage_name (schm t)) (ti_table_name ` set (rt_registry (db_rt (sh_db s))))"
      by (simp add: keeps_registry_def)
    also have "\<dots> \<subseteq> set names" using n(2) by auto
    finally show ?thesis unfolding few_tables_def using n by (intro exI [of _ names]) simp
  qed
  ultimately show ?thesis using run' good fits load locks phs reg by (simp add: simulates_def s' keeps_registry_def)
qed

text \<open>A step that neither executes the statement nor writes a file.\<close>

lemma simulates_registry:
  assumes sim: "simulates schema_dir data_dir stmts schm d0 s v" and lp: "locked_phase (sh_phase s t)"
    and s': "s' = s\<lparr>sh_db := (sh_db s)\<lparr>db_rt := rt\<rparr>, sh_array := a', sh_phase := (sh_phase s)(t := ph),
      sh_order := sh_order s\<rparr>"
    and reg: "keeps_registry (schm t) (sh_array s) (db_rt (sh_db s)) a' rt"
    and ok: "runtime_ok (db_fs v) data_dir rt" and force: "rt_force_failure rt = rt_force_failure (db_rt (sh_db s))"
    and own: "phase_ok data_dir (stmts t) (schm t) s' v t ph"
    and nx: "\<forall>r. ph \<noteq> Executed r" and un: "uncommitted ph = uncommitted (sh_phase s t)"
  shows "simulates schema_dir data_dir stmts schm d0 s' v"
proof (rule simulates_execute [OF sim lp, where d' = "(sh_db s)\<lparr>db_rt := rt\<rparr>" and a' = a' and ph = ph])
  show "s' = s\<lparr>sh_db := (sh_db s)\<lparr>db_rt := rt\<rparr>, sh_array := a', sh_phase := (sh_phase s)(t := ph),
      sh_order := sh_order s @ executed_by t ph\<rparr>"
    using nx by (cases ph) (simp_all add: s' executed_by_def)
  show "case ph of Executed r \<Rightarrow> execute_statement (stmts t) schema_dir data_dir v = Some (fst r, snd r, v) | _ \<Rightarrow> v = v"
    using nx by (cases ph) simp_all
  show "db_fs ((sh_db s)\<lparr>db_rt := rt\<rparr>) (table_file data_dir (schm t)) = db_fs v (table_file data_dir (schm t))"
    if "\<not> uncommitted ph"
    using own_file [OF sim locked_holds [OF simulatesD(8) [OF sim] lp]] that un by simp
qed (use assms simulatesD [OF sim] in \<open>simp_all add: keeps_files_def good_db_def\<close>)

section \<open>The steps under the lock\<close>

lemma begin_simulates:
  assumes sim: "simulates schema_dir data_dir stmts schm d0 s v" and rn: "sh_phase s t = Running"
  shows "\<exists>ph. advance schema_dir data_dir moved (stmts t) Running (sh_array s) (sh_db s) = (ph, sh_array s, sh_db s)
    \<and> simulates schema_dir data_dir stmts schm d0 (s\<lparr>sh_phase := (sh_phase s)(t := ph)\<rparr>) v
    \<and> (ph = Calls Next_Id (schm t) \<or> ph = Chosen (schm t))"
proof -
  note sd = simulatesD [OF sim]
  from sd(3) [of t] sd(4) have l: "load_schema (db_fs (sh_db s)) schema_dir data_dir (statement_table_name (stmts t)) = Inr (schm t)"
    by (simp add: statement_fits_def)
  have h: "holds s t (schm t)" using sd(8) [of t] rn by simp
  define ph where "ph = (case stmts t of INSERT i \<Rightarrow> Calls Next_Id (schm t) | SELECT q \<Rightarrow> Chosen (schm t))"
  have "advance schema_dir data_dir moved (stmts t) Running (sh_array s) (sh_db s) = (ph, sh_array s, sh_db s)"
    using l sd(3) [of t] by (cases "stmts t") (auto simp: ph_def insert_begin_def statement_fits_def insert_ok_def)
  moreover have "simulates schema_dir data_dir stmts schm d0 (s\<lparr>sh_phase := (sh_phase s)(t := ph)\<rparr>) v"
  proof (rule simulates_registry [OF sim, where t = t and ph = ph and a' = "sh_array s" and rt = "db_rt (sh_db s)"])
    show "phase_ok data_dir (stmts t) (schm t) (s\<lparr>sh_phase := (sh_phase s)(t := ph)\<rparr>) v t ph"
      using h by (cases "stmts t") (auto simp: ph_def op_ok_def holds_def)
    show "uncommitted ph = uncommitted (sh_phase s t)"
      using rn by (cases "stmts t") (auto simp: ph_def registers_def)
    show "\<forall>r. ph \<noteq> Executed r" by (cases "stmts t") (simp_all add: ph_def)
  qed (use rn sd(6,9) keeps_registry_refl in simp_all)
  moreover have "ph = Calls Next_Id (schm t) \<or> ph = Chosen (schm t)" by (cases "stmts t") (simp_all add: ph_def)
  ultimately show ?thesis by blast
qed

text \<open>The lookup: the array moves only when it was empty.\<close>

lemma lookup_simulates:
  assumes sim: "simulates schema_dir data_dir stmts schm d0 s v" and ph: "sh_phase s t = Calls op k"
    and l: "lookup_entry moved (sc_storage_name k) (sh_array s) (db_rt (sh_db s)) = (p, a', rt)"
  shows "simulates schema_dir data_dir stmts schm d0
    (s\<lparr>sh_db := (sh_db s)\<lparr>db_rt := rt\<rparr>, sh_array := a', sh_phase := (sh_phase s)(t := Loads op k p)\<rparr>) v"
proof (rule simulates_registry [OF sim, where t = t and ph = "Loads op k p" and a' = a' and rt = rt])
  note sd = simulatesD [OF sim]
  from sd(8) [of t] ph have k: "k = schm t" "holds s t (schm t)" "op_ok data_dir (stmts t) (schm t) v (sh_db s) op"
    by auto
  obtain x i where p: "p = (x, i)" by fastforce
  note ok = lookup_entry_ok [OF l [unfolded p] sd(9,6)]
  have wanted: "sc_storage_name k \<in> range (sc_storage_name \<circ> schm)" by (simp add: k(1))
  show "keeps_registry (schm t) (sh_array s) (db_rt (sh_db s)) a' rt"
    using ok(2,4,6) ok(8) [OF sd(7) wanted] k(1) by (auto simp: keeps_registry_def)
  show "runtime_ok (db_fs v) data_dir rt" "rt_force_failure rt = rt_force_failure (db_rt (sh_db s))" by (rule ok(3,5))+
  have "loaded_at rt j (sc_storage_name (schm t))" if "loaded_at (db_rt (sh_db s)) j (sc_storage_name (schm t))" for j
    by (rule keeps_loaded [OF ok(2) _ that, of "sc_storage_name (schm t) @ ''x''"]) simp
  then have "op_ok data_dir (stmts t) (schm t) v ((sh_db s)\<lparr>db_rt := rt\<rparr>) op"
    using k(3) by (auto simp: op_ok_def insert_at_def numbered_in_def appended_at_def split: registry_call.splits)
  then show "phase_ok data_dir (stmts t) (schm t) (s\<lparr>sh_db := (sh_db s)\<lparr>db_rt := rt\<rparr>, sh_array := a',
      sh_phase := (sh_phase s)(t := Loads op k p)\<rparr>) v t (Loads op k p)"
    using k ok(1) by (simp add: pointer_ok_def holds_def p)
qed (use ph in simp_all)

lemma pointer_not_dangling: "pointer_ok a rt sch p \<Longrightarrow> \<not> dangling a rt p"
  using entry_at_nth by (fastforce simp: pointer_ok_def dangling_def)

lemma registers_loaded:
  assumes "op_ok data_dir st sch v d op" and "registers op" and "entry_at (db_rt d) i (sc_storage_name sch)"
  shows "loaded_at (db_rt d) i (sc_storage_name sch)"
  using assms
  by (auto simp: op_ok_def registers_def insert_at_def numbered_in_def loaded_at_entry entry_at_def
      split: registry_call.splits)

lemma load_simulates:
  assumes sim: "simulates schema_dir data_dir stmts schm d0 s v" and ph: "sh_phase s t = Loads op k p"
  shows "\<exists>ph'. advance schema_dir data_dir moved (stmts t) (Loads op k p) (sh_array s) (sh_db s)
        = (ph', sh_array s, sh_db s)
    \<and> simulates schema_dir data_dir stmts schm d0 (s\<lparr>sh_phase := (sh_phase s)(t := ph')\<rparr>) v
    \<and> (ph' = Uses op k p \<or> ph' = Rebuilds op k p)"
proof -
  note sd = simulatesD [OF sim]
  from sd(8) [of t] ph have k: "k = schm t" "holds s t (schm t)" "op_ok data_dir (stmts t) (schm t) v (sh_db s) op"
    "pointer_ok (sh_array s) (db_rt (sh_db s)) (schm t) p" by auto
  define ph' where "ph' = (if ti_loaded (rt_registry (db_rt (sh_db s)) ! snd p) then Uses op k p else Rebuilds op k p)"
  have "advance schema_dir data_dir moved (stmts t) (Loads op k p) (sh_array s) (sh_db s) = (ph', sh_array s, sh_db s)"
    using pointer_not_dangling [OF k(4)] by (simp add: ph'_def)
  moreover have "simulates schema_dir data_dir stmts schm d0 (s\<lparr>sh_phase := (sh_phase s)(t := ph')\<rparr>) v"
  proof (rule simulates_registry [OF sim, where t = t and ph = ph' and a' = "sh_array s" and rt = "db_rt (sh_db s)"])
    have "\<not> registers op" if "\<not> ti_loaded (rt_registry (db_rt (sh_db s)) ! snd p)"
      using registers_loaded [OF k(3)] k(4) that by (auto simp: pointer_ok_def loaded_at_entry)
    then show "phase_ok data_dir (stmts t) (schm t) (s\<lparr>sh_phase := (sh_phase s)(t := ph')\<rparr>) v t ph'"
      using k by (auto simp: ph'_def holds_def loaded_at_entry pointer_ok_def)
  qed (use ph sd(6,9) keeps_registry_refl in \<open>simp_all add: ph'_def\<close>)
  moreover have "ph' = Uses op k p \<or> ph' = Rebuilds op k p" by (simp add: ph'_def)
  ultimately show ?thesis by blast
qed

lemma rebuild_simulates:
  assumes sim: "simulates schema_dir data_dir stmts schm d0 s v" and ph: "sh_phase s t = Rebuilds op k p"
  shows "\<exists>rt. advance schema_dir data_dir moved (stmts t) (Rebuilds op k p) (sh_array s) (sh_db s)
        = (Uses op k p, sh_array s, (sh_db s)\<lparr>db_rt := rt\<rparr>)
    \<and> simulates schema_dir data_dir stmts schm d0
        (s\<lparr>sh_db := (sh_db s)\<lparr>db_rt := rt\<rparr>, sh_phase := (sh_phase s)(t := Uses op k p)\<rparr>) v"
proof -
  note sd = simulatesD [OF sim]
  from sd(8) [of t] ph have k: "k = schm t" "holds s t (schm t)" "op_ok data_dir (stmts t) (schm t) v (sh_db s) op"
    "\<not> registers op" "pointer_ok (sh_array s) (db_rt (sh_db s)) (schm t) p" by auto
  have at: "entry_at (db_rt (sh_db s)) (snd p) (sc_storage_name (schm t))" using k(5) by (simp add: pointer_ok_def)
  have rd: "readable (db_fs v) data_dir (sc_storage_name (schm t))"
    using sd(3) [of t] by (simp add: statement_fits_def table_ok_def)
  from rebuild_entry_ok [OF sd(9) at rd] obtain rt where
    r: "rebuild_entry (db_rt (sh_db s)) (db_fs v) (schm t) data_dir (snd p) = Some (None, rt)"
      "runtime_ok (db_fs v) data_dir rt" "loaded_at rt (snd p) (sc_storage_name (schm t))"
      "keeps_entries (sc_storage_name (schm t)) (db_rt (sh_db s)) rt"
      "rt_force_failure rt = rt_force_failure (db_rt (sh_db s))"
      "map ti_table_name (rt_registry rt) = map ti_table_name (rt_registry (db_rt (sh_db s)))" by blast
  note reg = keeps_registry_names [OF sd(6) r(4,6)]
  have own: "db_fs (sh_db s) (table_path data_dir (sc_storage_name (schm t)))
      = db_fs v (table_path data_dir (sc_storage_name (schm t)))"
    using own_file [OF sim k(2)] ph k(4) by (simp add: table_file_def)
  have "advance schema_dir data_dir moved (stmts t) (Rebuilds op k p) (sh_array s) (sh_db s)
        = (Uses op k p, sh_array s, (sh_db s)\<lparr>db_rt := rt\<rparr>)"
    using pointer_not_dangling [OF k(5)] r(1) k(1)
      rebuild_entry_cong [of "db_fs (sh_db s)" data_dir "schm t" "db_fs v", OF own] by simp
  moreover have "simulates schema_dir data_dir stmts schm d0
        (s\<lparr>sh_db := (sh_db s)\<lparr>db_rt := rt\<rparr>, sh_phase := (sh_phase s)(t := Uses op k p)\<rparr>) v"
  proof (rule simulates_registry [OF sim, where t = t and ph = "Uses op k p" and a' = "sh_array s" and rt = rt])
    have "op_ok data_dir (stmts t) (schm t) v ((sh_db s)\<lparr>db_rt := rt\<rparr>) op"
      using k(3,4) by (auto simp: op_ok_def registers_def split: registry_call.splits)
    then show "phase_ok data_dir (stmts t) (schm t) (s\<lparr>sh_db := (sh_db s)\<lparr>db_rt := rt\<rparr>,
        sh_phase := (sh_phase s)(t := Uses op k p)\<rparr>) v t (Uses op k p)"
      using k r(3) keeps_pointer [OF reg k(5)] by (simp add: holds_def)
  qed (use ph reg r(2,5) in simp_all)
  ultimately show ?thesis by blast
qed

lemma next_id_simulates:
  assumes sim: "simulates schema_dir data_dir stmts schm d0 s v" and ph: "sh_phase s t = Uses Next_Id k p"
  shows "\<exists>n row. advance schema_dir data_dir moved (stmts t) (Uses Next_Id k p) (sh_array s) (sh_db s)
        = (Numbered k n row, sh_array s, sh_db s)
    \<and> simulates schema_dir data_dir stmts schm d0 (s\<lparr>sh_phase := (sh_phase s)(t := Numbered k n row)\<rparr>) v"
proof -
  note sd = simulatesD [OF sim]
  from sd(8) [of t] ph obtain i where k: "k = schm t" "holds s t (schm t)" "stmts t = INSERT i"
    "pointer_ok (sh_array s) (db_rt (sh_db s)) (schm t) p"
    "loaded_at (db_rt (sh_db s)) (snd p) (sc_storage_name (schm t))" by (auto simp: op_ok_def)
  from sd(3) [of t] k(3) have ok: "insert_ok i (schm t)" by (simp add: statement_fits_def)
  define n where "n = 1 + int (length (file_rows (db_fs v) data_dir (sc_storage_name (schm t))))"
  have "advance schema_dir data_dir moved (stmts t) (Uses Next_Id k p) (sh_array s) (sh_db s)
        = (Numbered k n (insert_values i (schm t)), sh_array s, sh_db s)"
    using pointer_not_dangling [OF k(4)] build_insert_row_values [OF ok] next_id_loaded [OF sd(9) k(5)] k(1,3)
    by (simp add: n_def)
  moreover have "simulates schema_dir data_dir stmts schm d0
      (s\<lparr>sh_phase := (sh_phase s)(t := Numbered k n (insert_values i (schm t)))\<rparr>) v"
  proof (rule simulates_registry [OF sim, where t = t and ph = "Numbered k n (insert_values i (schm t))"
        and a' = "sh_array s" and rt = "db_rt (sh_db s)"])
    show "phase_ok data_dir (stmts t) (schm t) (s\<lparr>sh_phase := (sh_phase s)(t := Numbered k n (insert_values i (schm t)))\<rparr>)
        v t (Numbered k n (insert_values i (schm t)))"
      using k by (auto simp: insert_at_def numbered_in_def holds_def n_def)
  qed (use ph sd(6,9) keeps_registry_refl in \<open>simp_all add: registers_def\<close>)
  ultimately show ?thesis by blast
qed

lemma append_simulates:
  assumes sim: "simulates schema_dir data_dir stmts schm d0 s v" and ph: "sh_phase s t = Numbered k n row"
  shows "\<exists>f r. advance schema_dir data_dir moved (stmts t) (Numbered k n row) (sh_array s) (sh_db s)
        = (Appended k n row r, sh_array s, (sh_db s)\<lparr>db_fs := f\<rparr>)
    \<and> simulates schema_dir data_dir stmts schm d0
        (s\<lparr>sh_db := (sh_db s)\<lparr>db_fs := f\<rparr>, sh_phase := (sh_phase s)(t := Appended k n row r)\<rparr>) v"
proof -
  let ?name = "sc_storage_name (schm t)" and ?d = "sh_db s"
  note sd = simulatesD [OF sim]
  from sd(8) [of t] ph have k: "k = schm t" "holds s t (schm t)" "insert_at data_dir (stmts t) (schm t) v ?d n row"
    by auto
  from sd(3) [of t] have "table_ok (db_fs v) data_dir (schm t)" by (simp add: statement_fits_def)
  from table_ok_content [OF this] obtain content where
    c: "db_fs v (table_path data_dir ?name) = Regular content" "content \<noteq> []" by blast
  have own: "db_fs ?d (table_path data_dir ?name) = Regular content"
    using own_file [OF sim k(2)] ph c(1) by (simp add: table_file_def)
  define f where "f = (db_fs ?d)(table_file data_dir (schm t) := Regular (appended content row))"
  define r where "r = \<lparr>sr_ok = True, sr_affected_rows = 1,
      sr_row_offset = int (length (content @ line_separator content)), sr_message = ''INSERT 1''\<rparr>"
  define s1 where "s1 = s\<lparr>sh_db := ?d\<lparr>db_fs := f\<rparr>, sh_phase := (sh_phase s)(t := Appended k n row r)\<rparr>"
  have "advance schema_dir data_dir moved (stmts t) (Numbered k n row) (sh_array s) ?d
        = (Appended k n row r, sh_array s, ?d\<lparr>db_fs := f\<rparr>)"
    using append_row_csv_regular [of "db_fs ?d" data_dir ?name content row, OF own] k(1)
    by (simp add: insert_append_def table_file_def f_def r_def)
  moreover have "simulates schema_dir data_dir stmts schm d0 s1 v"
  proof (rule simulates_execute [OF sim, where t = t and d' = "?d\<lparr>db_fs := f\<rparr>" and a' = "sh_array s"
        and ph = "Appended k n row r"])
    show "load_schema (db_fs (?d\<lparr>db_fs := f\<rparr>)) schema_dir data_dir = load_schema (db_fs v) schema_dir data_dir"
      using load_schema_append [of "db_fs ?d" data_dir ?name, OF own c(2)] sd(4) by (auto simp: f_def table_file_def)
    show "phase_ok data_dir (stmts t) (schm t) s1 v t (Appended k n row r)"
      using k c(1) by (auto simp: s1_def holds_def insert_at_def numbered_in_def appended_at_def f_def r_def table_file_def)
  qed (use ph sd(1-3,6) keeps_registry_refl in
      \<open>auto simp: s1_def executed_by_def keeps_files_def f_def good_db_def registers_def\<close>)
  ultimately show ?thesis unfolding s1_def by blast
qed

lemma appended_simulates:
  assumes sim: "simulates schema_dir data_dir stmts schm d0 s v" and ph: "sh_phase s t = Appended k n row r"
  shows "advance schema_dir data_dir moved (stmts t) (Appended k n row r) (sh_array s) (sh_db s)
        = (Calls (Register n row r) k, sh_array s, sh_db s)
    \<and> simulates schema_dir data_dir stmts schm d0
        (s\<lparr>sh_phase := (sh_phase s)(t := Calls (Register n row r) k)\<rparr>) v"
proof -
  note sd = simulatesD [OF sim]
  have "simulates schema_dir data_dir stmts schm d0 (s\<lparr>sh_phase := (sh_phase s)(t := Calls (Register n row r) k)\<rparr>) v"
  proof (rule simulates_registry [OF sim, where t = t and ph = "Calls (Register n row r) k" and a' = "sh_array s"
        and rt = "db_rt (sh_db s)"])
    show "phase_ok data_dir (stmts t) (schm t) (s\<lparr>sh_phase := (sh_phase s)(t := Calls (Register n row r) k)\<rparr>) v t
        (Calls (Register n row r) k)"
      using sd(8) [of t] ph by (simp add: op_ok_def holds_def)
  qed (use ph sd(6,9) keeps_registry_refl in \<open>simp_all add: registers_def\<close>)
  with sd(10) show ?thesis by simp
qed

text \<open>The registration through the pointer completes the INSERT of the serial state.\<close>

lemma register_serial:
  assumes g: "good_db data_dir v" and fit: "statement_fits schema_dir data_dir v (INSERT i) sch"
    and rt: "runtime_ok (db_fs v) data_dir (db_rt d)" "\<not> rt_force_failure (db_rt d)"
    and at: "loaded_at (db_rt d) j (sc_storage_name sch)"
    and ins: "insert_at data_dir (INSERT i) sch v d n row" and app: "appended_at data_dir v d sch row r"
  shows "\<exists>v' rt. execute_insert i schema_dir data_dir v
        = Some (\<lparr>er_ok = True, er_affected_rows = sr_affected_rows r, er_message = sr_message r\<rparr>, v')
    \<and> good_db data_dir v'
    \<and> (\<forall>st k. statement_fits schema_dir data_dir v st k \<longrightarrow> statement_fits schema_dir data_dir v' st k)
    \<and> (\<forall>p. p \<noteq> table_file data_dir sch \<longrightarrow> db_fs v' p = db_fs v p)
    \<and> db_fs d (table_file data_dir sch) = db_fs v' (table_file data_dir sch)
    \<and> load_schema (db_fs v') schema_dir data_dir = load_schema (db_fs v) schema_dir data_dir
    \<and> register_at (db_rt d) j n (sr_row_offset r) = Some (None, rt)
    \<and> runtime_ok (db_fs v') data_dir rt \<and> \<not> rt_force_failure rt"
proof -
  let ?name = "sc_storage_name sch"
  from ins app obtain content where i: "row = insert_values i sch"
    and n: "n = 1 + int (length (file_rows (db_fs v) data_dir ?name))"
    and c: "db_fs v (table_path data_dir ?name) = Regular content"
      "db_fs d (table_path data_dir ?name) = Regular (appended content row)"
    and r: "r = \<lparr>sr_ok = True, sr_affected_rows = 1,
              sr_row_offset = int (length (content @ line_separator content)), sr_message = ''INSERT 1''\<rparr>"
    by (auto simp: insert_at_def numbered_in_def appended_at_def table_file_def)
  from insert_serial [OF g fit] c(1) i obtain v' where
    v': "execute_insert i schema_dir data_dir v
        = Some (\<lparr>er_ok = True, er_affected_rows = 1, er_message = ''INSERT 1''\<rparr>, v')" "good_db data_dir v'"
      "db_fs v' = (db_fs v)(table_path data_dir ?name := Regular (appended content row))"
      "\<forall>st k. statement_fits schema_dir data_dir v st k \<longrightarrow> statement_fits schema_dir data_dir v' st k"
    by (auto simp: table_file_def)
  from fit have tab: "table_ok (db_fs v) data_dir sch" and ok: "insert_ok i sch"
    and l: "load_schema (db_fs v) schema_dir data_dir (ins_table i) = Inr sch" by (auto simp: statement_fits_def)
  from table_ok_content [OF tab] c(1) have ne: "content \<noteq> []" by auto
  have stor: "storable row"
    using insert_values_storable [OF ok] load_schema_ok [OF l] i by (simp add: schema_ok_def)
  from register_row_ok [where sch = sch, OF rt(1) at refl c(1) ne stor v'(3) n refl rt(2)]
  obtain rt' where "register_at (db_rt d) j n (sr_row_offset r) = Some (None, rt')"
    "runtime_ok (db_fs v') data_dir rt'" "\<not> rt_force_failure rt'"
    using register_loaded [OF at rt(2), of n "sr_row_offset r" "db_fs v'" data_dir] by (auto simp: r)
  moreover have "load_schema (db_fs v') schema_dir data_dir = load_schema (db_fs v) schema_dir data_dir"
    using load_schema_append [of "db_fs v" data_dir ?name, OF c(1) ne] by (auto simp: v'(3))
  ultimately show ?thesis using v' c by (auto simp: r table_file_def)
qed

lemma register_simulates:
  assumes sim: "simulates schema_dir data_dir stmts schm d0 s v" and ph: "sh_phase s t = Uses (Register n row r) k p"
  shows "\<exists>res rt v'. advance schema_dir data_dir moved (stmts t) (Uses (Register n row r) k p) (sh_array s) (sh_db s)
        = (Executed res, sh_array s, (sh_db s)\<lparr>db_rt := rt\<rparr>)
    \<and> simulates schema_dir data_dir stmts schm d0 (s\<lparr>sh_db := (sh_db s)\<lparr>db_rt := rt\<rparr>,
        sh_phase := (sh_phase s)(t := Executed res), sh_order := sh_order s @ [(t, res)]\<rparr>) v'"
proof -
  let ?d = "sh_db s"
  note sd = simulatesD [OF sim]
  from sd(8) [of t] ph obtain i where k: "k = schm t" "holds s t (schm t)" "pointer_ok (sh_array s) (db_rt ?d) (schm t) p"
    and i: "stmts t = INSERT i" and at: "loaded_at (db_rt ?d) (snd p) (sc_storage_name (schm t))"
    and o: "insert_at data_dir (INSERT i) (schm t) v ?d n row" "appended_at data_dir v ?d (schm t) row r"
    by (auto simp: op_ok_def insert_at_def)
  define res where
    "res = (\<lparr>er_ok = True, er_affected_rows = sr_affected_rows r, er_message = sr_message r\<rparr>, [] :: char list)"
  from register_serial [OF sd(1) sd(3) [of t, unfolded i] sd(9,10) at o] obtain v' rt where
    v': "execute_insert i schema_dir data_dir v = Some (fst res, v')" "good_db data_dir v'"
      "\<forall>st k. statement_fits schema_dir data_dir v st k \<longrightarrow> statement_fits schema_dir data_dir v' st k"
      "\<forall>p. p \<noteq> table_file data_dir (schm t) \<longrightarrow> db_fs v' p = db_fs v p"
      "db_fs ?d (table_file data_dir (schm t)) = db_fs v' (table_file data_dir (schm t))"
      "load_schema (db_fs v') schema_dir data_dir = load_schema (db_fs v) schema_dir data_dir"
    and g: "register_at (db_rt ?d) (snd p) n (sr_row_offset r) = Some (None, rt)"
      "runtime_ok (db_fs v') data_dir rt" "\<not> rt_force_failure rt" by (auto simp: res_def)
  have "entry_at (db_rt ?d) (snd p) (sc_storage_name (schm t))" using k(3) by (simp add: pointer_ok_def)
  note fr = register_at_frame [OF this g(1)]
  define s1 where "s1 = s\<lparr>sh_db := ?d\<lparr>db_rt := rt\<rparr>, sh_phase := (sh_phase s)(t := Executed res),
      sh_order := sh_order s @ [(t, res)]\<rparr>"
  have "advance schema_dir data_dir moved (stmts t) (Uses (Register n row r) k p) (sh_array s) ?d
        = (Executed res, sh_array s, ?d\<lparr>db_rt := rt\<rparr>)"
    using pointer_not_dangling [OF k(3)] g(1) by (simp add: executed_with_def insert_end_def res_def)
  moreover have "simulates schema_dir data_dir stmts schm d0 s1 v'"
  proof (rule simulates_execute [OF sim, where t = t and d' = "?d\<lparr>db_rt := rt\<rparr>" and a' = "sh_array s"
        and ph = "Executed res"])
    show "keeps_registry (schm t) (sh_array s) (db_rt ?d) (sh_array s) (db_rt (?d\<lparr>db_rt := rt\<rparr>))"
      using keeps_registry_names [OF sd(6)] fr by simp
  qed (use ph sd(3,4) k(2) v' g(2,3) i in
      \<open>auto simp: s1_def executed_by_def keeps_files_def good_db_def holds_def res_def\<close>)
  ultimately show ?thesis unfolding s1_def by blast
qed

text \<open>What a SELECT answers is what it answers in the serial state.\<close>

lemma select_simulates:
  assumes sim: "simulates schema_dir data_dir stmts schm d0 s v" and lp: "locked_phase (sh_phase s t)"
    and nu: "\<not> uncommitted (sh_phase s t)" and q: "stmts t = SELECT q"
    and r: "select_rest q (schm t) data_dir (view v (sh_db s)) = Some (res, out, d)"
  shows "\<exists>v'. simulates schema_dir data_dir stmts schm d0 (s\<lparr>sh_phase := (sh_phase s)(t := Executed (res, out)),
        sh_order := sh_order s @ [(t, (res, out))]\<rparr>) v'"
proof -
  let ?d = "sh_db s"
  note sd = simulatesD [OF sim]
  have h: "holds s t (schm t)" by (rule locked_holds [OF sd(8) lp])
  have fit: "statement_fits schema_dir data_dir v (SELECT q) (schm t)"
    "statement_fits schema_dir data_dir (view v ?d) (SELECT q) (schm t)"
    using sd(3) [of t] q by (simp_all add: statement_fits_def)
  from select_serial [OF sd(1) fit(1)] select_serial [OF sd(2) fit(2)] obtain rt1 rt2 res1 out1 where
    e: "execute_select q schema_dir data_dir v = Some (res1, out1, v\<lparr>db_rt := rt1\<rparr>)" "good_db data_dir (v\<lparr>db_rt := rt1\<rparr>)"
      "execute_select q schema_dir data_dir (view v ?d) = Some (res1, out1, (view v ?d)\<lparr>db_rt := rt2\<rparr>)" by auto
  from fit(2) have "load_schema (db_fs (view v ?d)) schema_dir data_dir (sel_table q) = Inr (schm t)"
    by (simp add: statement_fits_def)
  with e(3) r have eq: "res1 = res" "out1 = out" by (simp_all add: execute_select_parts)
  define s1 where "s1 = s\<lparr>sh_phase := (sh_phase s)(t := Executed (res, out)), sh_order := sh_order s @ [(t, (res, out))]\<rparr>"
  have "simulates schema_dir data_dir stmts schm d0 s1 (v\<lparr>db_rt := rt1\<rparr>)"
  proof (rule simulates_execute [OF sim lp, where d' = ?d and a' = "sh_array s" and ph = "Executed (res, out)"])
    show "keeps_registry (schm t) (sh_array s) (db_rt ?d) (sh_array s) (db_rt ?d)" by (rule keeps_registry_refl [OF sd(6)])
    show "db_fs ?d (table_file data_dir (schm t)) = db_fs (v\<lparr>db_rt := rt1\<rparr>) (table_file data_dir (schm t))"
      using own_file [OF sim h nu] by simp
  qed (use sd(2-4) h e(1,2) eq q in
      \<open>simp_all add: s1_def executed_by_def keeps_files_def holds_def good_db_def statement_fits_def\<close>)
  then show ?thesis unfolding s1_def by blast
qed

lemma view_own:
  assumes sim: "simulates schema_dir data_dir stmts schm d0 s v" and lp: "locked_phase (sh_phase s t)"
    and nu: "\<not> uncommitted (sh_phase s t)"
  shows "db_fs (sh_db s) (table_path data_dir (sc_storage_name (schm t)))
    = db_fs v (table_path data_dir (sc_storage_name (schm t)))"
  using own_file [OF sim locked_holds [OF simulatesD(8) [OF sim] lp] nu] by (simp add: table_file_def)

lemma select_returns:
  assumes "good_db data_dir d" and "statement_fits schema_dir data_dir d (SELECT q) sch"
  obtains res out d' where "select_rest q sch data_dir d = Some (res, out, d')"
  using select_serial [OF assms] assms(2) by (auto simp: execute_select_parts statement_fits_def)

lemma find_simulates:
  assumes sim: "simulates schema_dir data_dir stmts schm d0 s v" and ph: "sh_phase s t = Uses (Find headers arr count key) k p"
  shows "\<exists>res v'. advance schema_dir data_dir moved (stmts t) (Uses (Find headers arr count key) k p) (sh_array s) (sh_db s)
        = (Executed res, sh_array s, sh_db s)
    \<and> simulates schema_dir data_dir stmts schm d0
        (s\<lparr>sh_phase := (sh_phase s)(t := Executed res), sh_order := sh_order s @ [(t, res)]\<rparr>) v'"
proof -
  let ?d = "sh_db s"
  note sd = simulatesD [OF sim]
  from sd(8) [of t] ph obtain q where k: "k = schm t" "pointer_ok (sh_array s) (db_rt ?d) (schm t) p"
    "stmts t = SELECT q" "index_query q (schm t) = Some (headers, arr, count, key)"
    and at: "loaded_at (db_rt ?d) (snd p) (sc_storage_name (schm t))" by (auto simp: op_ok_def)
  have lp: "locked_phase (sh_phase s t)" "\<not> uncommitted (sh_phase s t)" using ph by (simp_all add: registers_def)
  have fit: "statement_fits schema_dir data_dir (view v ?d) (SELECT q) (schm t)"
    using sd(3) [of t] k(3) by (simp add: statement_fits_def)
  from select_returns [OF sd(2) fit] obtain res out d' where
    r: "select_rest q (schm t) data_dir (view v ?d) = Some (res, out, d')" .
  define found where "found = bptree_search (ti_tree (rt_registry (db_rt ?d) ! snd p)) key"
  from k(4) have pk: "parse_int_strict (where_value q) = Some key" by (simp add: index_query_Some)
  have "select_rest q (schm t) data_dir (view v ?d) = map_option (\<lambda>(r, out). (r, out, view v ?d))
      (index_row (schm t) data_dir headers arr count key found (db_fs v))"
    by (simp add: select_rest_index [OF k(4)] index_select_parts [OF pk] find_row_loaded [OF at] found_def view_def)
  with r have "index_row (schm t) data_dir headers arr count key found (db_fs v) = Some (res, out)" by auto
  then have "index_row (schm t) data_dir headers arr count key found (db_fs ?d) = Some (res, out)"
    using index_row_cong [of "db_fs ?d" data_dir "schm t" "db_fs v", OF view_own [OF sim lp]] by simp
  then have "advance schema_dir data_dir moved (stmts t) (Uses (Find headers arr count key) k p) (sh_array s) ?d
      = (Executed (res, out), sh_array s, ?d)"
    using pointer_not_dangling [OF k(2)] k(1) by (simp add: found_def)
  with select_simulates [OF sim lp k(3) r] show ?thesis by blast
qed

lemma chosen_simulates:
  assumes sim: "simulates schema_dir data_dir stmts schm d0 s v" and ph: "sh_phase s t = Chosen k"
  shows "(\<exists>op. advance schema_dir data_dir moved (stmts t) (Chosen k) (sh_array s) (sh_db s)
          = (Calls op k, sh_array s, sh_db s) \<and> op \<noteq> Next_Id
        \<and> simulates schema_dir data_dir stmts schm d0 (s\<lparr>sh_phase := (sh_phase s)(t := Calls op k)\<rparr>) v)
    \<or> (\<exists>res v'. advance schema_dir data_dir moved (stmts t) (Chosen k) (sh_array s) (sh_db s)
          = (Executed res, sh_array s, sh_db s)
        \<and> simulates schema_dir data_dir stmts schm d0
            (s\<lparr>sh_phase := (sh_phase s)(t := Executed res), sh_order := sh_order s @ [(t, res)]\<rparr>) v')"
proof -
  let ?d = "sh_db s"
  note sd = simulatesD [OF sim]
  from sd(8) [of t] ph obtain q where k: "k = schm t" "holds s t (schm t)" "stmts t = SELECT q" by auto
  have lp: "locked_phase (sh_phase s t)" "\<not> uncommitted (sh_phase s t)" using ph by simp_all
  show ?thesis
  proof (cases "index_query q (schm t)")
    case None
    have fit: "statement_fits schema_dir data_dir (view v ?d) (SELECT q) (schm t)"
      using sd(3) [of t] k(3) by (simp add: statement_fits_def)
    from select_returns [OF sd(2) fit] obtain res out d' where
      r: "select_rest q (schm t) data_dir (view v ?d) = Some (res, out, d')" .
    have "d' = view v ?d" by (rule select_rest_scan [OF None r])
    with r select_rest_cong [of "db_fs ?d" data_dir "schm t" "db_fs v" q "db_rt ?d", OF view_own [OF sim lp]]
    have "select_rest q (schm t) data_dir ?d = Some (res, out, ?d)"
      by (cases "sh_db s") (simp add: with_files_def view_def)
    with None k have "advance schema_dir data_dir moved (stmts t) (Chosen k) (sh_array s) ?d
        = (Executed (res, out), sh_array s, ?d)" by simp
    with select_simulates [OF sim lp k(3) r] show ?thesis by blast
  next
    case (Some x)
    obtain headers arr count key where x: "x = (headers, arr, count, key)" by (metis prod_cases4)
    define op where "op = Find headers arr count key"
    have "simulates schema_dir data_dir stmts schm d0 (s\<lparr>sh_phase := (sh_phase s)(t := Calls op k)\<rparr>) v"
    proof (rule simulates_registry [OF sim lp(1), where ph = "Calls op k" and a' = "sh_array s" and rt = "db_rt ?d"])
      show "phase_ok data_dir (stmts t) (schm t) (s\<lparr>sh_phase := (sh_phase s)(t := Calls op k)\<rparr>) v t (Calls op k)"
        using k Some x by (auto simp: op_ok_def holds_def op_def)
    qed (use ph sd(6,9) keeps_registry_refl in \<open>simp_all add: registers_def op_def\<close>)
    with Some x k show ?thesis by (simp add: op_def)
  qed
qed

section \<open>Every step\<close>

text \<open>How far a step has come; every step of a call that holds its lock goes on.\<close>

fun steps_left :: "locker \<Rightarrow> phase \<Rightarrow> nat" where
  "steps_left l Ready = 15"
| "steps_left l (Keyed sch) = (if l = Outside then 14 else 13)"
| "steps_left l Running = 12"
| "steps_left l (Calls op sch) = (if op = Next_Id then 11 else 5)"
| "steps_left l (Loads op sch p) = (if op = Next_Id then 10 else 4)"
| "steps_left l (Rebuilds op sch p) = (if op = Next_Id then 9 else 3)"
| "steps_left l (Uses op sch p) = (if op = Next_Id then 8 else 2)"
| "steps_left l (Numbered sch n row) = 7"
| "steps_left l (Appended sch n row r) = 6"
| "steps_left l (Chosen sch) = 6"
| "steps_left l (Executed r) = 1"
| "steps_left l ph = 0"

lemma execute_step_simulates:
  assumes sim: "simulates schema_dir data_dir stmts schm d0 s v" and lp: "locked_phase (sh_phase s t)"
    and adv: "advance schema_dir data_dir moved (stmts t) (sh_phase s t) (sh_array s) (sh_db s) = (ph, a, d)"
    and s': "s' = s\<lparr>sh_db := d, sh_array := a, sh_phase := (sh_phase s)(t := ph),
      sh_order := sh_order s @ executed_by t ph\<rparr>"
  shows "(\<exists>v'. simulates schema_dir data_dir stmts schm d0 s' v') \<and> steps_left l ph < steps_left l (sh_phase s t)"
proof (cases "sh_phase s t")
  case Running
  from begin_simulates [where moved = moved, OF sim Running] adv Running show ?thesis
    by (auto simp: s' executed_by_def)
next
  case (Calls op k)
  obtain p a' rt where l: "lookup_entry moved (sc_storage_name k) (sh_array s) (db_rt (sh_db s)) = (p, a', rt)"
    by (metis prod_cases3)
  from lookup_simulates [OF sim Calls l] adv Calls l show ?thesis by (auto simp: s' executed_by_def)
next
  case (Loads op k p)
  from load_simulates [where moved = moved, OF sim Loads] adv Loads show ?thesis
    by (auto simp: s' executed_by_def simp del: advance.simps)
next
  case (Rebuilds op k p)
  from rebuild_simulates [where moved = moved, OF sim Rebuilds] adv Rebuilds show ?thesis
    by (auto simp: s' executed_by_def simp del: advance.simps)
next
  case (Uses op k p)
  show ?thesis
  proof (cases op)
    case Next_Id
    from next_id_simulates [where moved = moved, OF sim Uses [unfolded Next_Id]] adv Uses Next_Id show ?thesis
      by (auto simp: s' executed_by_def simp del: advance.simps)
  next
    case (Register n row r)
    from register_simulates [where moved = moved, OF sim Uses [unfolded Register]] adv Uses Register show ?thesis
      by (auto simp: s' executed_by_def simp del: advance.simps)
  next
    case (Find headers arr count key)
    from find_simulates [where moved = moved, OF sim Uses [unfolded Find]] adv Uses Find show ?thesis
      by (auto simp: s' executed_by_def simp del: advance.simps)
  qed
next
  case (Numbered k n row)
  from append_simulates [where moved = moved, OF sim Numbered] adv Numbered show ?thesis
    by (auto simp: s' executed_by_def simp del: advance.simps)
next
  case (Appended k n row r)
  from appended_simulates [where moved = moved, OF sim Appended] adv Appended show ?thesis
    by (auto simp: s' executed_by_def simp del: advance.simps)
next
  case (Chosen k)
  from chosen_simulates [where moved = moved, OF sim Chosen] adv Chosen show ?thesis
    by (auto simp: s' executed_by_def simp del: advance.simps)
qed (use lp in auto)

text \<open>Steps that do not touch the database.\<close>

lemma simulates_quiet:
  assumes sim: "simulates schema_dir data_dir stmts schm d0 s v"
    and s': "sh_db s' = sh_db s" "sh_array s' = sh_array s" "sh_order s' = sh_order s" "\<And>u. u \<noteq> t \<Longrightarrow> sh_phase s' u = sh_phase s u"
      "\<And>u. u \<noteq> t \<Longrightarrow> snd (sh_locks s') u = snd (sh_locks s) u"
    and locks: "locks_ok (sh_locks s')"
    and own: "phase_ok data_dir (stmts t) (schm t) s' v t (sh_phase s' t)"
    and nu: "\<not> uncommitted (sh_phase s t)"
  shows "simulates schema_dir data_dir stmts schm d0 s' v"
proof -
  have ph: "phase_ok data_dir (stmts u) (schm u) s' v u (sh_phase s' u)" for u
  proof (cases "u = t")
    case False
    have "phase_ok data_dir (stmts u) (schm u) s v u (sh_phase s u)" using sim by (simp add: simulates_def)
    then have "phase_ok data_dir (stmts u) (schm u) s' v u (sh_phase s u)"
      using s' False by (cases "sh_phase s u") (auto simp: holds_def)
    with s'(4) [OF False] show ?thesis by simp
  qed (use own in simp)
  have files: "db_fs (sh_db s') p = db_fs v p"
    if "\<forall>u. uncommitted (sh_phase s' u) \<longrightarrow> p \<noteq> table_file data_dir (schm u)" for p
  proof -
    have "\<forall>u. uncommitted (sh_phase s u) \<longrightarrow> p \<noteq> table_file data_dir (schm u)"
      using that nu s'(4) by metis
    with sim s'(1) show ?thesis by (simp add: simulates_def)
  qed
  show ?thesis using sim s' locks ph files by (simp add: simulates_def)
qed

lemma call_step_simulates:
  assumes step: "call_step schema_dir data_dir stmts t s s'"
    and sim: "simulates schema_dir data_dir stmts schm d0 s v"
  shows "\<exists>v'. simulates schema_dir data_dir stmts schm d0 s' v'"
proof -
  from sim have pk: "phase_ok data_dir (stmts t) (schm t) s v t (sh_phase s t)"
    and locks: "locks_ok (sh_locks s)"
    and ld: "load_schema (db_fs (sh_db s)) schema_dir data_dir (statement_table_name (stmts t)) = Inr (schm t)"
    by (auto simp: simulates_def statement_fits_def)
  note quiet = simulates_quiet [OF sim, of s' t]
  from step show ?thesis
  proof cases
    case (schema sch)
    then show ?thesis using pk ld locks
      by (intro exI [of _ v] quiet) auto
  next
    case (no_schema m)
    then show ?thesis using ld by simp
  next
    case (enter sch m ls res a m')
    from enter have "lock_step t (sh_locks s) (m', ls(t := Waiting (sc_storage_name sch) a))"
      by (auto intro: lock_step.enter)
    from lock_step_ok [OF this locks] enter pk show ?thesis
      by (intro exI [of _ v] quiet) auto
  next
    case (no_entry sch m ls res msg m')
    from no_entry have "lock_step t (sh_locks s) (m', ls)" by (auto intro: lock_step.refused)
    from lock_step_ok [OF this locks] no_entry show ?thesis
      by (intro exI [of _ v] quiet) auto
  next
    case (lock sch m ls key a m')
    from lock have "lock_step t (sh_locks s) (m', ls(t := Holding key a))" by (auto intro: lock_step.lock)
    from lock_step_ok [OF this locks] lock pk show ?thesis
      by (intro exI [of _ v] quiet) (auto simp: holds_def)
  next
    case (execute moved ph a d)
    from execute_step_simulates [OF sim execute(2,3,1)] show ?thesis by blast
  next
    case (release r m ls key a h m')
    from release have "lock_step t (sh_locks s) (m', ls(t := Outside))" by (auto intro: lock_step.release)
    from lock_step_ok [OF this locks] release pk show ?thesis
      by (intro exI [of _ v] quiet) auto
  qed
qed

lemma interleaved_simulates:
  assumes "interleaved schema_dir data_dir stmts d s"
    and "good_db data_dir d" and "\<forall>t. statement_fits schema_dir data_dir d (stmts t) (schm t)"
    and "few_tables (range (sc_storage_name \<circ> schm)) (db_rt d)"
  shows "\<exists>v. simulates schema_dir data_dir stmts schm d s v"
  using assms(1)
proof (induction rule: interleaved.induct)
  case (start a)
  from simulates_start [OF assms(2-4) start] show ?case by blast
qed (blast intro: call_step_simulates)

text \<open>A call executes its statement at most once.\<close>

definition executed_once :: "shared \<Rightarrow> bool" where
  "executed_once s = (distinct (map fst (sh_order s))
     \<and> (\<forall>t. t \<in> fst ` set (sh_order s) \<longrightarrow> (\<exists>r. sh_phase s t = Executed r \<or> sh_phase s t = Released r)))"

lemma call_step_once:
  assumes "call_step schema_dir data_dir stmts t s s'" and "executed_once s"
  shows "executed_once s'"
  using assms(1)
proof cases
  case (execute moved ph a d)
  have "t \<notin> fst ` set (sh_order s)"
  proof
    assume "t \<in> fst ` set (sh_order s)"
    with assms(2) obtain r where "sh_phase s t = Executed r \<or> sh_phase s t = Released r"
      by (auto simp: executed_once_def)
    with execute(2) show False by auto
  qed
  with execute(1) assms(2) show ?thesis
    by (cases ph) (auto simp: executed_once_def executed_by_def)
qed (use assms(2) in \<open>auto simp: executed_once_def\<close>)

lemma interleaved_once: "interleaved schema_dir data_dir stmts d s \<Longrightarrow> executed_once s"
proof (induction rule: interleaved.induct)
  case (start a)
  show ?case by (simp add: executed_once_def start_calls_def)
qed (rule call_step_once)

end
