(* ===== verification/Interleaving_Props.thy ===== *)
theory Interleaving_Props
  imports Interleaving_Simulation
begin

text \<open>
  What the callers of the engine adapter may rely on when several threads call it: every
  interleaving is equivalent to a serial execution, and no call waits for ever for another one
  that could have gone on.
\<close>

section \<open>Calls do not block each other for ever\<close>

definition finished :: "phase \<Rightarrow> bool" where
  "finished ph = (case ph of Released r \<Rightarrow> True | Refused_Call m \<Rightarrow> True | _ \<Rightarrow> False)"

definition can_step :: "string \<Rightarrow> string \<Rightarrow> (nat \<Rightarrow> statement) \<Rightarrow> nat \<Rightarrow> shared \<Rightarrow> bool" where
  "can_step schema_dir data_dir stmts t s = (\<exists>s'. call_step schema_dir data_dir stmts t s s')"

lemma holder_steps:
  assumes sim: "simulates schema_dir data_dir stmts schm d0 s v" and h: "holds s t (schm t)"
  shows "can_step schema_dir data_dir stmts t s"
proof -
  obtain m ls where sl: "sh_locks s = (m, ls)" by fastforce
  from h sl obtain a where a: "ls t = Holding (sc_storage_name (schm t)) a" by (auto simp: holds_def)
  from sim have "phase_ok data_dir (stmts t) (schm t) s v t (sh_phase s t)" by (simp add: simulates_def)
  with a sl have "locked_phase (sh_phase s t) \<or> (\<exists>r. sh_phase s t = Executed r)"
    by (cases "sh_phase s t") auto
  then show ?thesis
  proof
    assume "locked_phase (sh_phase s t)"
    moreover obtain ph b d where
      "advance schema_dir data_dir False (stmts t) (sh_phase s t) (sh_array s) (sh_db s) = (ph, b, d)"
      by (metis prod_cases3)
    ultimately show ?thesis unfolding can_step_def by (blast intro: call_step.execute)
  next
    assume "\<exists>r. sh_phase s t = Executed r"
    then obtain r where "sh_phase s t = Executed r" by blast
    from call_step.release [where t = t and s = s, OF this sl a surjective_pairing] show ?thesis
      unfolding can_step_def by blast
  qed
qed

lemma outside_steps:
  assumes "sh_phase s t = Keyed sch" and "sh_locks s = (m, ls)" and "ls t = Outside"
  shows "can_step schema_dir data_dir stmts t s"
proof -
  define res where "res = \<lparr>lr_entry = None, lr_key = True, lr_mutex = True\<rparr>"
  have fr: "fresh_resources res m" by (simp add: res_def fresh_resources_def)
  show ?thesis
  proof (cases "acquire_entry res m (sc_storage_name sch)")
    case (Pair r m')
    then show ?thesis
      using call_step.enter [where t = t and s = s, OF assms fr]
        call_step.no_entry [where t = t and s = s, OF assms fr]
      unfolding can_step_def by (cases r) blast+
  qed
qed

lemma unfinished_progress:
  assumes sim: "simulates schema_dir data_dir stmts schm d0 s v" and "\<not> finished (sh_phase s t)"
  shows "can_step schema_dir data_dir stmts t s
    \<or> (\<exists>u. u \<noteq> t \<and> sc_storage_name (schm u) = sc_storage_name (schm t) \<and> holds s u (schm u)
          \<and> can_step schema_dir data_dir stmts u s)"
proof (cases "holds s t (schm t)")
  case True
  from holder_steps [OF sim this] show ?thesis ..
next
  case False
  obtain m ls where sl: "sh_locks s = (m, ls)" by fastforce
  from sim have pk: "phase_ok data_dir (stmts u) (schm u) s v u (sh_phase s u)" for u
    by (simp add: simulates_def)
  from sim sl have ok: "locks_ok (m, ls)" by (simp add: simulates_def)
  show ?thesis
  proof (cases "sh_phase s t")
    case Ready
    from sim have "load_schema (db_fs (sh_db s)) schema_dir data_dir (statement_table_name (stmts t)) = Inr (schm t)"
      by (simp add: simulates_def statement_fits_def)
    from call_step.schema [where t = t and s = s and stmts = stmts, OF Ready this] show ?thesis
      unfolding can_step_def by blast
  next
    case (Keyed sch)
    with pk [of t] sl have sch: "sch = schm t"
      and ls: "ls t = Outside \<or> (\<exists>a. ls t = Waiting (sc_storage_name sch) a)" by auto
    from ls show ?thesis
    proof
      assume "ls t = Outside"
      from outside_steps [OF Keyed sl this] show ?thesis ..
    next
      assume "\<exists>a. ls t = Waiting (sc_storage_name sch) a"
      then obtain a where w: "ls t = Waiting (sc_storage_name sch) a" by blast
      from waiting_progress [OF ok w] show ?thesis
      proof
        assume "\<exists>m'. lock_entry_mutex t a m = Some m'"
        then obtain m' where "lock_entry_mutex t a m = Some m'" by blast
        from call_step.lock [where t = t and s = s, OF Keyed sl w this] show ?thesis
          unfolding can_step_def by blast
      next
        assume "\<exists>u b. u \<noteq> t \<and> ls u = Holding (sc_storage_name sch) b"
        then obtain u b where u: "u \<noteq> t" "ls u = Holding (sc_storage_name sch) b" by blast
        with pk [of u] sl have "holds s u (schm u)"
          by (cases "sh_phase s u") auto
        with this u sl sch holder_steps [OF sim this] show ?thesis
          by (intro disjI2 exI [of _ u]) (auto simp: holds_def)
      qed
    qed
  qed (use False pk [of t] assms(2) in \<open>auto simp: finished_def\<close>)
qed

section \<open>Every call finishes\<close>

text \<open>How many steps a call has left, at most, is \<^const>\<open>steps_left\<close>.\<close>

definition left_of :: "shared \<Rightarrow> nat \<Rightarrow> nat" where
  "left_of s t = steps_left (snd (sh_locks s) t) (sh_phase s t)"

lemma finished_left: "left_of s t = 0 \<longleftrightarrow> finished (sh_phase s t) \<or> sh_phase s t = Broken"
  by (cases "sh_phase s t") (simp_all add: left_of_def finished_def)

lemma call_step_left:
  assumes step: "call_step schema_dir data_dir stmts t s s'"
    and sim: "simulates schema_dir data_dir stmts schm d0 s v"
  shows "left_of s' t < left_of s t" and "u \<noteq> t \<Longrightarrow> left_of s' u = left_of s u"
proof -
  show "left_of s' t < left_of s t"
    using step
  proof cases
    case (execute moved ph a d)
    from execute_step_simulates [OF sim execute(2,3,1)] execute(1) show ?thesis by (auto simp: left_of_def)
  qed (simp_all add: left_of_def)
  show "left_of s' u = left_of s u" if "u \<noteq> t"
    using step that by cases (simp_all add: left_of_def)
qed

text \<open>Only finitely many threads have begun.\<close>

definition begun :: "shared \<Rightarrow> nat set" where
  "begun s = {t. sh_phase s t \<noteq> Ready}"

lemma holds_begun:
  assumes "simulates schema_dir data_dir stmts schm d0 s v" and "holds s t sch"
  shows "t \<in> begun s"
proof -
  from assms(1) have "phase_ok data_dir (stmts t) (schm t) s v t (sh_phase s t)" by (simp add: simulates_def)
  with assms(2) show ?thesis by (auto simp: begun_def holds_def)
qed

lemma begun_step:
  assumes "call_step schema_dir data_dir stmts t s s'"
  shows "begun s' \<subseteq> insert t (begun s)"
  using assms by cases (auto simp: begun_def)

lemma interleaved_begun: "interleaved schema_dir data_dir stmts d s \<Longrightarrow> finite (begun s)"
proof (induction rule: interleaved.induct)
  case (start a)
  show ?case by (simp add: begun_def start_calls_def)
next
  case (step s t s')
  from finite_subset [OF begun_step [OF step.hyps(2)]] step.IH show ?case by simp
qed

definition moves :: "string \<Rightarrow> string \<Rightarrow> (nat \<Rightarrow> statement) \<Rightarrow> shared \<Rightarrow> shared \<Rightarrow> bool" where
  "moves schema_dir data_dir stmts s s' = (\<exists>t. call_step schema_dir data_dir stmts t s s')"

lemma calls_finish:
  assumes "simulates schema_dir data_dir stmts schm d0 s v" and "finite T" and "begun s \<subseteq> T"
  shows "\<exists>s'. (moves schema_dir data_dir stmts)\<^sup>*\<^sup>* s s' \<and> (\<forall>t\<in>T. finished (sh_phase s' t))"
  using assms
proof (induction "sum (left_of s) T" arbitrary: s v rule: less_induct)
  case less
  show ?case
  proof (cases "\<forall>t\<in>T. finished (sh_phase s t)")
    case False
    then obtain t where t: "t \<in> T" "\<not> finished (sh_phase s t)" by blast
    from unfinished_progress [OF less.prems(1) t(2)] have "\<exists>u. u \<in> T \<and> can_step schema_dir data_dir stmts u s"
      using t holds_begun [OF less.prems(1)] less.prems(3) by blast
    then obtain u s1 where u: "u \<in> T" and st: "call_step schema_dir data_dir stmts u s s1"
      by (auto simp: can_step_def)
    from call_step_simulates [OF st less.prems(1)] obtain v1 where
      sim1: "simulates schema_dir data_dir stmts schm d0 s1 v1" by blast
    have "left_of s1 x \<le> left_of s x" for x
      using call_step_left [OF st less.prems(1)] by (cases "x = u") auto
    with call_step_left(1) [OF st less.prems(1)] u less.prems(2)
    have "sum (left_of s1) T < sum (left_of s) T"
      by (intro sum_strict_mono_ex1) blast+
    moreover have "begun s1 \<subseteq> T" using begun_step [OF st] less.prems(3) u by blast
    ultimately obtain s' where "(moves schema_dir data_dir stmts)\<^sup>*\<^sup>* s1 s'"
      "\<forall>t\<in>T. finished (sh_phase s' t)"
      using less.hyps [OF _ sim1 less.prems(2)] by blast
    moreover have "moves schema_dir data_dir stmts s s1" using st by (auto simp: moves_def)
    ultimately show ?thesis by (blast intro: converse_rtranclp_into_rtranclp)
  qed blast
qed

lemma moves_interleaved:
  assumes "(moves schema_dir data_dir stmts)\<^sup>*\<^sup>* s s'" and "interleaved schema_dir data_dir stmts d s"
  shows "interleaved schema_dir data_dir stmts d s'"
  using assms by (induction rule: rtranclp_induct) (auto simp: moves_def intro: interleaved.step)

section \<open>The property\<close>

text \<open>
  The statements executed so far, executed one after the other in the recorded order from the
  first database, give the recorded answers and a database with the same files, but for the
  table of a thread that has appended its row and has not yet told the index.
\<close>

definition equals_serial ::
  "string \<Rightarrow> string \<Rightarrow> (nat \<Rightarrow> statement) \<Rightarrow> (nat \<Rightarrow> schema) \<Rightarrow> db \<Rightarrow> shared \<Rightarrow> bool" where
  "equals_serial schema_dir data_dir stmts schm d s =
     (\<exists>v. run_serial schema_dir data_dir (map (stmts \<circ> fst) (sh_order s)) d = Some (map snd (sh_order s), v)
      \<and> (\<forall>p. (\<forall>t. uncommitted (sh_phase s t) \<longrightarrow> p \<noteq> table_file data_dir (schm t)) \<longrightarrow>
            db_fs (sh_db s) p = db_fs v p))"

text \<open>
  Every thread is recorded at most once, with the answer it returns; a thread without an answer
  is not recorded, and no thread has met undefined behaviour.
\<close>

definition answers_recorded :: "shared \<Rightarrow> bool" where
  "answers_recorded s =
     (distinct (map fst (sh_order s))
      \<and> (\<forall>t. case sh_phase s t of Executed r \<Rightarrow> (t, r) \<in> set (sh_order s)
           | Released r \<Rightarrow> (t, r) \<in> set (sh_order s)
           | Broken \<Rightarrow> False
           | _ \<Rightarrow> t \<notin> fst ` set (sh_order s)))"

definition all_finished :: "nat \<Rightarrow> shared \<Rightarrow> bool" where
  "all_finished n s = (\<forall>t<n. finished (sh_phase s t))"

lemma answers_recorded_simulates:
  assumes "simulates schema_dir data_dir stmts schm d0 s v" and "executed_once s"
  shows "answers_recorded s"
proof -
  define recorded where "recorded = fst ` set (sh_order s)"
  have pk: "phase_ok data_dir (stmts t) (schm t) s v t (sh_phase s t)" for t
    using assms(1) by (simp add: simulates_def)
  have once: "t \<in> recorded \<longrightarrow> (\<exists>r. sh_phase s t = Executed r \<or> sh_phase s t = Released r)" for t
    using assms(2) by (simp add: executed_once_def recorded_def)
  have "case sh_phase s t of Executed r \<Rightarrow> (t, r) \<in> set (sh_order s)
      | Released r \<Rightarrow> (t, r) \<in> set (sh_order s) | Broken \<Rightarrow> False
      | _ \<Rightarrow> t \<notin> recorded" for t
    using pk [of t] once [of t] by (cases "sh_phase s t") simp_all
  with assms(2) show ?thesis
    unfolding answers_recorded_def executed_once_def recorded_def by blast
qed

text \<open>
  C27: whatever the order in which the threads' steps come, calls of the engine adapter are
  serializable as long as at most four tables are in use. Every answer is the one that
  \<open>execute_statement\<close> gives when the statements are executed one after the other in the order in
  which they finished under their locks, and the files are those of that execution; each call executes
  its statement at most once; no call meets undefined behaviour, although each keeps its pointer into
  the array of indexes while others add entries to it; and from every point the calls of any number of
  threads can all run to their end. A fifth table can leave such a pointer dangling (C35).
\<close>

theorem interleaving_serializable:
  assumes "good_db data_dir d"
    and "\<forall>t. statement_fits schema_dir data_dir d (stmts t) (schm t)"
    and "few_tables (range (sc_storage_name \<circ> schm)) (db_rt d)"
    and "interleaved schema_dir data_dir stmts d s"
  shows "equals_serial schema_dir data_dir stmts schm d s \<and> answers_recorded s
    \<and> (\<exists>s'. (moves schema_dir data_dir stmts)\<^sup>*\<^sup>* s s' \<and> all_finished n s'
         \<and> equals_serial schema_dir data_dir stmts schm d s' \<and> answers_recorded s')"
proof -
  have at: "equals_serial schema_dir data_dir stmts schm d u \<and> answers_recorded u"
    if "interleaved schema_dir data_dir stmts d u" for u
    using interleaved_simulates [OF that assms(1-3)] answers_recorded_simulates
      interleaved_once [OF that] by (auto simp: equals_serial_def simulates_def)
  from interleaved_simulates [OF assms(4,1-3)] obtain v where
    sim: "simulates schema_dir data_dir stmts schm d s v" by blast
  have "finite ({..<n} \<union> begun s)" using interleaved_begun [OF assms(4)] by simp
  from calls_finish [OF sim this Un_upper2] obtain s' where
    s': "(moves schema_dir data_dir stmts)\<^sup>*\<^sup>* s s'" "all_finished n s'"
    by (auto simp: all_finished_def)
  with at [OF assms(4)] at [OF moves_interleaved [OF s'(1) assms(4)]] show ?thesis by blast
qed

text \<open>
  Thread 0 inserts a row, holds the table and has a pointer to its entry, the first of the array,
  which it has not tested yet; every other thread selects from the table, and thread 1 waits for the lock.
\<close>

definition demo_calls :: "nat \<Rightarrow> statement" where
  "demo_calls t = (if t = 0 then INSERT demo_insert else SELECT demo_select)"

definition empty_array :: index_array where
  "empty_array = \<lparr>ar_address = 0, ar_capacity = 0, ar_next = 1\<rparr>"

definition two_calls :: shared where
  "two_calls =
     \<lparr>sh_db = demo_db\<lparr>db_rt := (db_rt demo_db)\<lparr>rt_registry := [new_entry ''users'']\<rparr>\<rparr>,
      sh_array = \<lparr>ar_address = 1, ar_capacity = 4, ar_next = 2\<rparr>,
      sh_locks = ([\<lparr>le_addr = 64, le_key = ''users'', le_owner = Some 0\<rparr>],
                  (\<lambda>t. Outside)(0 := Holding ''users'' 64, 1 := Waiting ''users'' 64)),
      sh_phase = (\<lambda>t. Ready)(0 := Loads Next_Id demo_schema (1, 0), 1 := Keyed demo_schema), sh_order = []\<rparr>"

lemma demo_calls_load: "load_schema demo_fs ''schema'' ''data'' (statement_table_name (demo_calls t)) = Inr demo_schema"
  by (simp add: demo_calls_def demo_simps demo_load)

lemma demo_storage: "sc_storage_name demo_schema = ''users''"
  by (simp add: demo_schema_def)

text \<open>The two calls before the insertion runs.\<close>

definition users_lock :: "nat option \<Rightarrow> lock_manager" where
  "users_lock owner = [\<lparr>le_addr = 64, le_key = ''users'', le_owner = owner\<rparr>]"

definition demo_state :: "lock_manager \<Rightarrow> (nat \<Rightarrow> locker) \<Rightarrow> (nat \<Rightarrow> phase) \<Rightarrow> shared" where
  "demo_state m ls ph = \<lparr>sh_db = demo_db, sh_array = empty_array, sh_locks = (m, ls), sh_phase = ph, sh_order = []\<rparr>"

lemma two_calls_locked:
  "interleaved ''schema'' ''data'' demo_calls demo_db
     (demo_state (users_lock (Some 0)) ((\<lambda>t. Outside)(0 := Holding ''users'' 64, 1 := Waiting ''users'' 64))
        ((\<lambda>t. Ready)(0 := Running, 1 := Keyed demo_schema)))"
proof -
  define out where "out = (\<lambda>t::nat. Outside)"
  define res where "res = \<lparr>lr_entry = Some 64, lr_key = True, lr_mutex = True\<rparr>"
  let ?free = "users_lock None" and ?taken = "users_lock (Some 0)"
  let ?r = "\<lambda>t::nat. Ready" and ?k = "Keyed demo_schema"
  let ?step = "\<lambda>t. call_step ''schema'' ''data'' demo_calls t"
  have 1: "?step 0 (demo_state [] out ?r) (demo_state [] out (?r(0 := ?k)))"
    using call_step.schema [where t = 0 and s = "demo_state [] out ?r" and stmts = demo_calls and sch = demo_schema]
    by (simp add: demo_state_def demo_simps demo_calls_load)
  have 2: "?step 1 (demo_state [] out (?r(0 := ?k))) (demo_state [] out (?r(0 := ?k, 1 := ?k)))"
    using call_step.schema [where t = 1 and s = "demo_state [] out (?r(0 := ?k))" and stmts = demo_calls
        and sch = demo_schema]
    by (simp add: demo_state_def demo_simps demo_calls_load)
  have 3: "?step 0 (demo_state [] out (?r(0 := ?k, 1 := ?k))) (demo_state ?free (out(0 := Waiting ''users'' 64)) (?r(0 := ?k, 1 := ?k)))"
    using call_step.enter [where t = 0 and s = "demo_state [] out (?r(0 := ?k, 1 := ?k))" and sch = demo_schema
        and res = res and m = "[]" and ls = out and a = 64 and m' = ?free]
    by (simp add: demo_state_def demo_storage out_def fresh_resources_def acquire_entry_def res_def users_lock_def)
  have 4: "?step 0 (demo_state ?free (out(0 := Waiting ''users'' 64)) (?r(0 := ?k, 1 := ?k)))
      (demo_state ?taken (out(0 := Holding ''users'' 64)) (?r(0 := Running, 1 := ?k)))"
    using call_step.lock [where t = 0 and s = "demo_state ?free (out(0 := Waiting ''users'' 64)) (?r(0 := ?k, 1 := ?k))"
        and sch = demo_schema and m = ?free and key = "''users''" and a = 64 and m' = ?taken
        and ls = "out(0 := Waiting ''users'' 64)" and schema_dir = "''schema''" and data_dir = "''data''"
        and stmts = demo_calls]
    by (simp add: demo_state_def users_lock_def fun_upd_twist)
  have 5: "?step 1 (demo_state ?taken (out(0 := Holding ''users'' 64)) (?r(0 := Running, 1 := ?k)))
      (demo_state ?taken (out(0 := Holding ''users'' 64, 1 := Waiting ''users'' 64)) (?r(0 := Running, 1 := ?k)))"
    using call_step.enter [where t = 1 and s = "demo_state ?taken (out(0 := Holding ''users'' 64)) (?r(0 := Running, 1 := ?k))"
        and sch = demo_schema and res = "res\<lparr>lr_entry := None\<rparr>" and m = ?taken and a = 64 and m' = ?taken]
    by (simp add: demo_state_def demo_storage out_def fresh_resources_def acquire_entry_def res_def users_lock_def)
  have "interleaved ''schema'' ''data'' demo_calls demo_db (demo_state [] out ?r)"
    using interleaved.start [of empty_array demo_db "''schema''" "''data''" demo_calls]
    by (simp add: start_calls_def demo_state_def out_def array_ok_def empty_array_def demo_simps fresh_runtime_def)
  from interleaved.step [OF interleaved.step [OF interleaved.step [OF interleaved.step
        [OF interleaved.step [OF this 1] 2] 3] 4] 5]
  show ?thesis by (simp add: out_def)
qed

lemma two_calls_reached: "interleaved ''schema'' ''data'' demo_calls demo_db two_calls"
proof -
  let ?taken = "users_lock (Some 0)" and ?k = "Keyed demo_schema"
  let ?step = "\<lambda>t. call_step ''schema'' ''data'' demo_calls t"
  define ls where "ls = (\<lambda>t::nat. Outside)(0 := Holding ''users'' 64, 1 := Waiting ''users'' 64)"
  define running where "running = (\<lambda>t::nat. Ready)(0 := Running, 1 := Keyed demo_schema)"
  define calling where "calling = (\<lambda>t::nat. Ready)(0 := Calls Next_Id demo_schema, 1 := Keyed demo_schema)"
  have 6: "?step 0 (demo_state ?taken ls running) (demo_state ?taken ls calling)"
    using call_step.execute [where t = 0 and s = "demo_state ?taken ls running" and stmts = demo_calls
        and moved = False and ph = "Calls Next_Id demo_schema" and a = empty_array and d = demo_db
        and schema_dir = "''schema''" and data_dir = "''data''"]
      demo_insert_ok demo_calls_load [of 0]
    by (simp add: demo_state_def demo_calls_def insert_begin_def demo_simps insert_ok_def executed_by_def calling_def running_def fun_upd_twist)
  have 7: "?step 0 (demo_state ?taken ls calling) two_calls"
    using call_step.execute [where t = 0 and s = "demo_state ?taken ls calling" and stmts = demo_calls
        and moved = False and ph = "Loads Next_Id demo_schema (1, 0)" and a = "sh_array two_calls" and d = "sh_db two_calls"
        and schema_dir = "''schema''" and data_dir = "''data''"]
    by (simp add: demo_state_def demo_calls_def demo_storage demo_simps executed_by_def calling_def running_def fun_upd_twist two_calls_def
        lookup_entry_def get_or_create_table_index_def fresh_runtime_def empty_array_def grow_array_def Let_def
        users_lock_def ls_def numeral_2_eq_2)
  show ?thesis
    using interleaved.step [OF interleaved.step [OF two_calls_locked [folded ls_def running_def] 6] 7] .
qed

theorem interleaving_serializable_witness:
  "equals_serial ''schema'' ''data'' demo_calls (\<lambda>t. demo_schema) demo_db two_calls \<and> answers_recorded two_calls
    \<and> (\<exists>s'. (moves ''schema'' ''data'' demo_calls)\<^sup>*\<^sup>* two_calls s' \<and> all_finished 2 s'
         \<and> equals_serial ''schema'' ''data'' demo_calls (\<lambda>t. demo_schema) demo_db s' \<and> answers_recorded s')"
proof (rule interleaving_serializable)
  show "good_db ''data'' demo_db"
    by (simp add: good_db_def demo_simps fresh_ok)
  show "\<forall>t. statement_fits ''schema'' ''data'' demo_db (demo_calls t) demo_schema"
    by (simp add: statement_fits_def demo_simps demo_calls_load demo_table demo_calls_def demo_insert_ok
        demo_select_ok demo_load)
  show "few_tables (range (sc_storage_name \<circ> (\<lambda>t. demo_schema))) (db_rt demo_db)"
    by (auto simp: few_tables_def demo_simps fresh_runtime_def intro!: exI [of _ "[sc_storage_name demo_schema]"])
qed (rule two_calls_reached)

end
