(* ===== verification/Ownership.thy ===== *)
theory Ownership
  imports Adapter_Props "HOL-Library.Multiset"
begin

text \<open>
  Who owns what while one SQL text is executed: the heap blocks and open files that
  \<open>sql_engine_adapter_execute\<close>, the executor, the schema loader, the storage and the lexer acquire
  and release, in the order of the code. A definition \<open>f_heap\<close> is \<open>f\<close> as far as it acquires and
  releases; its branches are decided by the functions that \<open>f\<close> calls. A block is what one list,
  record or array owns, its strings included. The nodes of the index trees
  and the entries of the registry and of the lock manager outlive a call and are not counted.
  Allocations succeed, as in the rest of the development.
\<close>

section \<open>Acquiring and releasing\<close>

datatype block = Path_Text | Directory_Stream | Open_File | Storage_Name | Table_Name | Column_List
  | Parsed_Columns | Csv_Header | Field_List | Read_Fields | Assigned_Array | Row_List | Escaped_Field
  | Selected_Array | Header_List | Row_Buffer | Width_Array | Token_Array | Statement_Parts
  | Output_Stream | Output_Text
  | Client_Socket | Header_Buffer | Request_Headers | Encoding_Copy | Request_Body
  | Content_Type_Copy | Json_Key | Ignored_Value | Sql_Text
  | Escaped_Text | Escaped_Summary | Escaped_Output | Success_Body | Response_Type | Response_Body

text \<open>The blocks owned, or nothing once a block was released that nobody owned.\<close>

type_synonym heap = "block multiset option"

definition own :: "block \<Rightarrow> heap \<Rightarrow> heap" where
  "own b h = map_option (add_mset b) h"

definition release_block :: "block \<Rightarrow> heap \<Rightarrow> heap" where
  "release_block b h =
     (case h of None \<Rightarrow> None | Some bs \<Rightarrow> if b \<in># bs then Some (bs - {#b#}) else None)"

text \<open>
  A \<open>StringList\<close> owns memory once a string was pushed; \<open>string_list_free\<close> of an empty one releases
  nothing.
\<close>

definition own_list :: "block \<Rightarrow> 'a list \<Rightarrow> heap \<Rightarrow> heap" where
  "own_list b xs h = (if xs = [] then h else own b h)"

definition string_list_free :: "block \<Rightarrow> 'a list \<Rightarrow> heap \<Rightarrow> heap" where
  "string_list_free b xs h = (if xs = [] then h else release_block b h)"

lemma release_own: "release_block b (own c h) = (if b = c then h else own c (release_block b h))"
  by (cases h) (auto simp: release_block_def own_def)

lemma release_own_simps [simp]:
  "release_block b (own b h) = h"
  "b \<noteq> c \<Longrightarrow> release_block b (own c h) = own c (release_block b h)"
  by (simp_all add: release_own)

lemma list_free_own [simp]:
  "string_list_free b xs (own_list b xs h) = h"
  "b \<noteq> c \<Longrightarrow> string_list_free b xs (own c h) = own c (string_list_free b xs h)"
  "b \<noteq> c \<Longrightarrow> string_list_free b xs (own_list c ys h) = own_list c ys (string_list_free b xs h)"
  "b \<noteq> c \<Longrightarrow> release_block b (own_list c ys h) = own_list c ys (release_block b h)"
  "own_list b [] h = h" "string_list_free b [] h = h"
  "xs \<noteq> [] \<Longrightarrow> own_list b xs h = own b h" "xs \<noteq> [] \<Longrightarrow> string_list_free b xs h = release_block b h"
  by (simp_all add: own_list_def string_list_free_def)

section \<open>The CSV reader\<close>

text \<open>
  The fields that \<open>csv_parse_line\<close> leaves in its caller's list, also when it fails; its own buffer is
  freed on every path.
\<close>

function csv_left_loop :: "bool \<Rightarrow> bool \<Rightarrow> string option \<Rightarrow> string list \<Rightarrow> string \<Rightarrow> string list" where
  "csv_left_loop True closed buffer flds [] = flds"
| "csv_left_loop True closed buffer flds (c # cs) =
     (if c = DQ then
        (if cs \<noteq> [] \<and> hd cs = DQ
         then csv_left_loop True closed (append_character buffer DQ) flds (tl cs)
         else csv_left_loop False True buffer flds cs)
      else csv_left_loop True closed (append_character buffer c) flds cs)"
| "csv_left_loop False closed buffer flds [] = string_list_push flds (field_text closed buffer)"
| "csv_left_loop False closed buffer flds (c # cs) =
     (if c = COMMA
      then csv_left_loop False False None (string_list_push flds (field_text closed buffer)) cs
      else if c = DQ \<and> buffer = None then csv_left_loop True closed buffer flds cs
      else if closed \<and> c \<noteq> SP \<and> c \<noteq> TAB then flds
      else if c \<noteq> CR \<and> c \<noteq> LF
      then csv_left_loop False closed (append_character buffer c) flds cs
      else csv_left_loop False closed buffer flds cs)"
  by pat_completeness auto
termination by (relation "measure (\<lambda>(q, k, b, f, s). length s)") auto

definition csv_left :: "string \<Rightarrow> string list" where
  "csv_left line = csv_left_loop False False None [] line"

lemma csv_left_ok: "csv_parse_line line = Inr flds \<Longrightarrow> csv_left line = flds"
proof -
  have "csv_loop q k b fs s = Inr xs \<Longrightarrow> csv_left_loop q k b fs s = xs" for q k b fs s xs
    by (induction q k b fs s rule: csv_loop.induct) (auto split: if_splits)
  then show "csv_parse_line line = Inr flds \<Longrightarrow> csv_left line = flds"
    by (simp add: csv_parse_line_def csv_left_def)
qed

section \<open>The storage\<close>

text \<open>\<open>open_table_file\<close>: the path is freed on both branches, the file is open when there is one.\<close>

definition open_table_file_heap ::
  "(fs \<Rightarrow> string \<Rightarrow> string + string) \<Rightarrow> fs \<Rightarrow> string \<Rightarrow> string \<Rightarrow> heap \<Rightarrow> heap" where
  "open_table_file_heap mode f data_dir table h =
     (let h1 = own Path_Text h in
      case mode f (table_path data_dir table) of
        Inl reason \<Rightarrow> release_block Path_Text h1
      | Inr content \<Rightarrow> release_block Path_Text (own Open_File h1))"

text \<open>The loop over the values of a row, each escaped in a block of its own.\<close>

fun write_fields_heap :: "string_list \<Rightarrow> heap \<Rightarrow> heap" where
  "write_fields_heap [] h = h"
| "write_fields_heap (v # vs) h = write_fields_heap vs (release_block Escaped_Field (own Escaped_Field h))"

definition append_row_heap :: "fs \<Rightarrow> string \<Rightarrow> string \<Rightarrow> string_list \<Rightarrow> heap \<Rightarrow> heap" where
  "append_row_heap f data_dir table row_values h =
     (let h1 = open_table_file_heap open_update f data_dir table h in
      case open_table_file open_update f data_dir table of
        Inl m \<Rightarrow> h1
      | Inr content \<Rightarrow> release_block Open_File (write_fields_heap row_values h1))"

text \<open>The fields that were read belong to the caller, as \<open>result.fields\<close>.\<close>

definition read_row_heap :: "fs \<Rightarrow> string \<Rightarrow> string \<Rightarrow> int \<Rightarrow> heap \<Rightarrow> heap" where
  "read_row_heap f data_dir table row_offset h =
     (let h1 = open_table_file_heap open_read f data_dir table h in
      case open_table_file open_read f data_dir table of
        Inl m \<Rightarrow> h1
      | Inr content \<Rightarrow>
          let h2 = release_block Open_File h1 in
          if row_offset < 0 \<or> drop (nat row_offset) content = [] then h2
          else
            let line = line_text (fgets_chunk (drop (nat row_offset) content)) in
            if line = [] then h2 else own_list Read_Fields (csv_left line) h2)"

function scan_loop_heap :: "'c visitor \<Rightarrow> string \<Rightarrow> nat \<Rightarrow> 'c \<Rightarrow> heap \<Rightarrow> heap" where
  "scan_loop_heap visitor rest offset ctx h =
     (if rest = [] then release_block Open_File h
      else
        let chunk = fgets_chunk rest; line = line_text chunk;
            rest' = drop (length chunk) rest; offset' = offset + length chunk in
        if line = [] then scan_loop_heap visitor rest' offset' ctx h
        else
          let h1 = own_list Field_List (csv_left line) h in
          (case csv_parse_line line of
             Inl m \<Rightarrow> release_block Open_File h1
           | Inr flds \<Rightarrow>
               (case visitor flds (int offset) ctx of
                  None \<Rightarrow> None
                | Some (Some m, ctx') \<Rightarrow>
                    release_block Open_File (string_list_free Field_List flds h1)
                | Some (None, ctx') \<Rightarrow>
                    scan_loop_heap visitor rest' offset' ctx' (string_list_free Field_List flds h1))))"
  by pat_completeness auto
termination
  by (relation "measure (\<lambda>(v, rest, off, ctx, h). length rest)")
    (auto intro!: diff_less fgets_chunk_pos simp del: length_greater_0_conv)

declare scan_loop_heap.simps [simp del]

definition scan_rows_heap ::
  "fs \<Rightarrow> string \<Rightarrow> string \<Rightarrow> 'c visitor \<Rightarrow> 'c \<Rightarrow> heap \<Rightarrow> heap" where
  "scan_rows_heap f data_dir table visitor ctx h =
     (let h1 = open_table_file_heap open_read f data_dir table h in
      case open_table_file open_read f data_dir table of
        Inl m \<Rightarrow> h1
      | Inr content \<Rightarrow>
          if content = [] then release_block Open_File h1
          else
            let header = fgets_chunk content in
            scan_loop_heap visitor (drop (length header) content) (length header) ctx h1)"

section \<open>The index\<close>

definition ensure_loaded_heap :: "runtime \<Rightarrow> fs \<Rightarrow> schema \<Rightarrow> string \<Rightarrow> heap \<Rightarrow> heap" where
  "ensure_loaded_heap rt f sch data_dir h =
     (case get_or_create_table_index (rt_registry rt) (sc_storage_name sch) of
        (i, reg) \<Rightarrow>
          if ti_loaded (reg ! i) then h
          else scan_rows_heap f data_dir (sc_storage_name sch) rebuild_row (bptree_init, 1, rt_alloc rt) h)"

definition register_row_heap :: "runtime \<Rightarrow> fs \<Rightarrow> schema \<Rightarrow> string \<Rightarrow> heap \<Rightarrow> heap" where
  "register_row_heap rt f sch data_dir h =
     (if rt_force_failure rt then h else ensure_loaded_heap rt f sch data_dir h)"

section \<open>The schema\<close>

fun search_directory_heap :: "fs \<Rightarrow> string \<Rightarrow> string list \<Rightarrow> string \<Rightarrow> heap \<Rightarrow> heap" where
  "search_directory_heap f dir [] table h = release_block Directory_Stream h"
| "search_directory_heap f dir (name # names) table h =
     (if \<not> has_meta_extension name then search_directory_heap f dir names table h
      else
        let h1 = own Path_Text h in
        (case file_declares_table f (build_child_file_path dir name) table of
           Inl m \<Rightarrow> release_block Directory_Stream (release_block Path_Text h1)
         | Inr True \<Rightarrow> release_block Directory_Stream h1
         | Inr False \<Rightarrow> search_directory_heap f dir names table (release_block Path_Text h1)))"

text \<open>A path that was found belongs to the caller.\<close>

definition find_schema_path_heap :: "fs \<Rightarrow> string \<Rightarrow> string \<Rightarrow> heap \<Rightarrow> heap" where
  "find_schema_path_heap f schema_dir table h =
     (let h1 = own Path_Text h in
      case f (build_path schema_dir table ''.meta'') of
        Regular s \<Rightarrow> release_block Open_File (own Open_File h1)
      | Directory es \<Rightarrow> release_block Open_File (own Open_File h1)
      | Refused r \<Rightarrow> release_block Path_Text h1
      | Absent r \<Rightarrow>
          let h2 = release_block Path_Text h1 in
          (case f schema_dir of
             Directory names \<Rightarrow> search_directory_heap f schema_dir names table (own Directory_Stream h2)
           | _ \<Rightarrow> h2))"

definition free_schema :: "string option \<Rightarrow> string_list \<Rightarrow> heap \<Rightarrow> heap" where
  "free_schema name cols h =
     string_list_free Column_List cols
       (release_block Storage_Name (case name of None \<Rightarrow> h | Some n \<Rightarrow> release_block Table_Name h))"

text \<open>The loop over the lines of the \<open>.meta\<close> file; it closes the file at its end.\<close>

fun read_meta_heap :: "string list \<Rightarrow> string option \<Rightarrow> string_list \<Rightarrow> heap \<Rightarrow> heap" where
  "read_meta_heap [] name cols h = release_block Open_File h"
| "read_meta_heap (line # ls) name cols h =
     (let trimmed = trim_whitespace line in
      if trimmed = [] then read_meta_heap ls name cols h
      else
        (case split_meta_line trimmed of
           None \<Rightarrow> free_schema name cols (release_block Open_File h)
         | Some (key, val) \<Rightarrow>
             if key = ''table'' then
               read_meta_heap ls (Some val) cols
                 (own Table_Name (case name of None \<Rightarrow> h | Some n \<Rightarrow> release_block Table_Name h))
             else if key = ''columns'' then
               let h1 = string_list_free Column_List cols h in
               (case parse_columns_value val of
                  Inl m \<Rightarrow>
                    free_schema name [] (release_block Open_File (own_list Parsed_Columns (csv_left val) h1))
                | Inr parsed \<Rightarrow> read_meta_heap ls name parsed (own_list Column_List parsed h1))
             else read_meta_heap ls name cols h))"

definition validate_csv_header_heap :: "fs \<Rightarrow> string \<Rightarrow> string \<Rightarrow> heap \<Rightarrow> heap" where
  "validate_csv_header_heap f data_dir storage_name h =
     (let h1 = own Path_Text h in
      case open_read f (build_path data_dir storage_name ''.csv'') of
        Inl r \<Rightarrow> release_block Path_Text h1
      | Inr content \<Rightarrow>
          let h2 = release_block Path_Text (own Open_File h1) in
          if content = [] then release_block Open_File h2
          else
            let line = line_text (fgets_chunk content);
                h3 = own_list Csv_Header (csv_left line) (release_block Open_File h2) in
            (case csv_parse_line line of
               Inl m \<Rightarrow> h3
             | Inr header \<Rightarrow> string_list_free Csv_Header header h3))"

text \<open>A schema that was loaded belongs to the caller.\<close>

definition load_schema_heap :: "fs \<Rightarrow> string \<Rightarrow> string \<Rightarrow> string \<Rightarrow> heap \<Rightarrow> heap" where
  "load_schema_heap f schema_dir data_dir table h =
     (let h1 = find_schema_path_heap f schema_dir table h in
      case find_schema_path f schema_dir table of
        Inl m \<Rightarrow> h1
      | Inr path \<Rightarrow>
          let h2 = own Storage_Name h1 in
          (case open_read f path of
             Inl r \<Rightarrow> release_block Path_Text h2
           | Inr content \<Rightarrow>
               let h3 = read_meta_heap (text_lines content) None []
                          (release_block Path_Text (own Open_File h2)) in
               (case read_meta (text_lines content) None [] of
                  Inl m \<Rightarrow> h3
                | Inr (name, cols) \<Rightarrow>
                    let sch = \<lparr>sc_table_name = name, sc_storage_name = extract_storage_name path,
                               sc_columns = cols\<rparr> in
                    if name = None \<or> cols = [] \<or> schema_has_reserved_id_column sch
                       \<or> (name \<noteq> Some table \<and> sc_storage_name sch \<noteq> table)
                    then free_schema name cols h3
                    else
                      let h4 = validate_csv_header_heap f data_dir (sc_storage_name sch) h3 in
                      if validate_csv_header f data_dir (sc_storage_name sch) sch = None then h4
                      else free_schema name cols h4)))"

section \<open>The executor\<close>

text \<open>\<open>row_values\<close> gets one string per column before the first check.\<close>

definition execute_insert_heap :: "insert_statement \<Rightarrow> string \<Rightarrow> string \<Rightarrow> db \<Rightarrow> heap \<Rightarrow> heap" where
  "execute_insert_heap st schema_dir data_dir s h =
     (let h1 = load_schema_heap (db_fs s) schema_dir data_dir (ins_table st) h in
      case load_schema (db_fs s) schema_dir data_dir (ins_table st) of
        Inl m \<Rightarrow> h1
      | Inr sch \<Rightarrow>
          let free_sch = free_schema (sc_table_name sch) (sc_columns sch) in
          (case validate_insert_columns st sch of
             Some m \<Rightarrow> free_sch h1
           | None \<Rightarrow>
               let h2 = ensure_loaded_heap (db_rt s) (db_fs s) sch data_dir h1 in
               (case table_index_get_next_id (db_rt s) (db_fs s) sch data_dir of
                  None \<Rightarrow> None
                | Some (Inl m, rt) \<Rightarrow> free_sch h2
                | Some (Inr next_id, rt) \<Rightarrow>
                    let h3 = own_list Row_List (sc_columns sch) (own Assigned_Array h2) in
                    (case build_insert_row st sch of
                       Inl m \<Rightarrow>
                         free_sch (string_list_free Row_List (sc_columns sch) (release_block Assigned_Array h3))
                     | Inr row \<Rightarrow>
                         let h4 = string_list_free Row_List row
                                    (append_row_heap (db_fs s) data_dir (sc_storage_name sch) row
                                       (release_block Assigned_Array h3)) in
                         (case append_row_csv (db_fs s) data_dir (sc_storage_name sch) row of
                            (r, f) \<Rightarrow>
                              if \<not> sr_ok r then free_sch h4
                              else free_sch (register_row_heap rt f sch data_dir h4))))))"

text \<open>The headers pushed by \<open>build_select_indexes\<close> before an unknown column.\<close>

definition headers_left :: "select_statement \<Rightarrow> schema \<Rightarrow> string_list" where
  "headers_left st sch = takeWhile (\<lambda>c. c = ''id'' \<or> 0 \<le> schema_find_column sch c) (sel_columns st)"

definition select_row_buffer_free :: "string_list list \<Rightarrow> heap \<Rightarrow> heap" where
  [simp]: "select_row_buffer_free rows h = string_list_free Row_Buffer rows h"

definition print_table_heap :: "heap \<Rightarrow> heap" where
  "print_table_heap h = release_block Width_Array (own Width_Array h)"

definition execute_index_select_heap ::
  "select_statement \<Rightarrow> schema \<Rightarrow> string \<Rightarrow> int list \<Rightarrow> nat \<Rightarrow> db \<Rightarrow> heap \<Rightarrow> heap" where
  "execute_index_select_heap st sch data_dir arr selected_count s h =
     (case parse_int_strict (where_value st) of
        None \<Rightarrow> h
      | Some where_id \<Rightarrow>
          let h1 = ensure_loaded_heap (db_rt s) (db_fs s) sch data_dir h in
          (case table_index_find_row (db_rt s) (db_fs s) sch data_dir where_id of
             None \<Rightarrow> None
           | Some (Inl m, rt) \<Rightarrow> h1
           | Some (Inr None, rt) \<Rightarrow> print_table_heap h1
           | Some (Inr (Some off), rt) \<Rightarrow>
               let r = read_row_at_offset_csv (db_fs s) data_dir (sc_storage_name sch) off;
                   h2 = read_row_heap (db_fs s) data_dir (sc_storage_name sch) off h1 in
               if \<not> rd_ok r then h2
               else if length (rd_fields r) \<noteq> length (sc_columns sch)
               then string_list_free Read_Fields (rd_fields r) h2
               else
                 (case select_row_buffer_push [] (rd_fields r) arr selected_count where_id of
                    None \<Rightarrow> None
                  | Some rows \<Rightarrow>
                      select_row_buffer_free rows
                        (string_list_free Read_Fields (rd_fields r)
                           (print_table_heap (own_list Row_Buffer rows h2))))))"

text \<open>
  The loop over the data lines; \<open>rows\<close> owns an array once a row was pushed. An exit from the loop
  releases what the code releases there, which does not include the rows.
\<close>

function select_loop_heap ::
  "select_statement \<Rightarrow> schema \<Rightarrow> string_list \<Rightarrow> int list \<Rightarrow> nat \<Rightarrow> int \<Rightarrow> string \<Rightarrow> int
     \<Rightarrow> string_list list \<Rightarrow> heap \<Rightarrow> heap" where
  "select_loop_heap st sch headers arr selected_count where_index rest next_id rows h =
     (let finish = (\<lambda>rs h. free_schema (sc_table_name sch) (sc_columns sch)
                      (select_row_buffer_free rs
                         (string_list_free Header_List headers (release_block Selected_Array h))));
          abandon = (\<lambda>flds h. free_schema (sc_table_name sch) (sc_columns sch)
                      (string_list_free Field_List flds (string_list_free Header_List headers
                         (release_block Selected_Array (release_block Open_File h))))) in
      if rest = [] then finish rows (print_table_heap (release_block Open_File h))
      else
        let chunk = fgets_chunk rest; line = line_text chunk; rest' = drop (length chunk) rest in
        if line = [] then select_loop_heap st sch headers arr selected_count where_index rest' next_id rows h
        else
          let h1 = own_list Field_List (csv_left line) h in
          (case csv_parse_line line of
             Inl m \<Rightarrow> abandon (csv_left line) h1
           | Inr flds \<Rightarrow>
               if length flds \<noteq> length (sc_columns sch) then abandon flds h1
               else
                 (case row_matches_where st flds where_index of
                    None \<Rightarrow> None
                  | Some False \<Rightarrow>
                      select_loop_heap st sch headers arr selected_count where_index rest' (next_id + 1) rows
                        (string_list_free Field_List flds h1)
                  | Some True \<Rightarrow>
                      (case select_row_buffer_push rows flds arr selected_count next_id of
                         None \<Rightarrow> None
                       | Some rows' \<Rightarrow>
                           select_loop_heap st sch headers arr selected_count where_index rest' (next_id + 1) rows'
                             (string_list_free Field_List flds
                                (if rows = [] then own_list Row_Buffer rows' h1 else h1))))))"
  by pat_completeness auto
termination
  by (relation "measure (\<lambda>(st, sch, hs, arr, selected_count, w, rest, n, rows, h). length rest)")
    (auto intro!: diff_less fgets_chunk_pos simp del: length_greater_0_conv)

declare select_loop_heap.simps [simp del]

text \<open>What every exit releases when no row was selected.\<close>

definition select_cleanup :: "schema \<Rightarrow> string_list \<Rightarrow> heap \<Rightarrow> heap" where
  "select_cleanup sch headers h =
     free_schema (sc_table_name sch) (sc_columns sch) (string_list_free Header_List headers (release_block Selected_Array h))"

text \<open>From the path of the table file on.\<close>

definition scan_select_heap ::
  "select_statement \<Rightarrow> schema \<Rightarrow> string_list \<Rightarrow> int list \<Rightarrow> nat \<Rightarrow> int \<Rightarrow> string \<Rightarrow> db \<Rightarrow> heap \<Rightarrow> heap" where
  "scan_select_heap st sch headers arr selected_count where_index data_dir s h =
     (let h1 = own Path_Text h in
      case open_read (db_fs s) (table_path data_dir (sc_storage_name sch)) of
        Inl r \<Rightarrow> release_block Path_Text (select_cleanup sch headers h1)
      | Inr content \<Rightarrow>
          let h2 = release_block Path_Text (own Open_File h1) in
          if content = [] then select_cleanup sch headers (release_block Open_File h2)
          else
            select_loop_heap st sch headers arr selected_count where_index
              (drop (length (fgets_chunk content)) content) 1 [] h2)"

definition execute_select_heap :: "select_statement \<Rightarrow> string \<Rightarrow> string \<Rightarrow> db \<Rightarrow> heap \<Rightarrow> heap" where
  "execute_select_heap st schema_dir data_dir s h =
     (let h1 = load_schema_heap (db_fs s) schema_dir data_dir (sel_table st) h in
      case load_schema (db_fs s) schema_dir data_dir (sel_table st) of
        Inl m \<Rightarrow> h1
      | Inr sch \<Rightarrow>
          let h2 = own Selected_Array h1 in
          (case build_select_indexes st sch of
             None \<Rightarrow> None
           | Some (Inl m) \<Rightarrow>
               select_cleanup sch (headers_left st sch) (own_list Header_List (headers_left st sch) h2)
           | Some (Inr (headers, arr, selected_count)) \<Rightarrow>
               let h3 = own_list Header_List headers h2 in
               if selected_count = 0 then select_cleanup sch headers h3
               else
                 (case resolve_where_index st sch of
                    Inl m \<Rightarrow> select_cleanup sch headers h3
                  | Inr where_index \<Rightarrow>
                      if has_where st \<and> where_column st = ''id''
                      then select_cleanup sch headers (execute_index_select_heap st sch data_dir arr selected_count s h3)
                      else scan_select_heap st sch headers arr selected_count where_index data_dir s h3)))"

fun execute_statement_heap :: "statement \<Rightarrow> string \<Rightarrow> string \<Rightarrow> db \<Rightarrow> heap \<Rightarrow> heap" where
  "execute_statement_heap (INSERT st) schema_dir data_dir s h = execute_insert_heap st schema_dir data_dir s h"
| "execute_statement_heap (SELECT st) schema_dir data_dir s h = execute_select_heap st schema_dir data_dir s h"

section \<open>The adapter\<close>

text \<open>
  The tokens that \<open>lex_sql\<close> leaves in its caller's array, also when it fails; the buffers of
  \<open>lex_word\<close> and \<open>lex_string\<close> are freed on every path.
\<close>

function lex_left :: "nat \<Rightarrow> string \<Rightarrow> token list \<Rightarrow> token list" where
  "lex_left i [] tokens = push_token tokens (mk_token TOKEN_END [] i)"
| "lex_left i (c # cs) tokens =
     (if isspace c then lex_left (i + 1) cs tokens
      else if is_identifier_start c
      then (case lex_word i (c # cs) of (t, j, rest) \<Rightarrow> lex_left j rest (push_token tokens t))
      else if c = SQ
      then (case lex_string i (c # cs) of
              Inl m \<Rightarrow> tokens
            | Inr (t, j, rest) \<Rightarrow> lex_left j rest (push_token tokens t))
      else
        (case simple_token c of
           Some ty \<Rightarrow> lex_left (i + 1) cs (push_token tokens (mk_token ty [c] i))
         | None \<Rightarrow> tokens))"
  by pat_completeness auto
termination
  by (relation "measure (\<lambda>(i, s, tokens). length s)")
    (auto dest: lex_string_rest lex_word_shorter [OF _ sym])

definition free_tokens :: "token list \<Rightarrow> heap \<Rightarrow> heap" where
  [simp]: "free_tokens tokens h = string_list_free Token_Array tokens h"

definition free_statement :: "heap \<Rightarrow> heap" where
  [simp]: "free_statement h = release_block Statement_Parts h"

text \<open>The part that runs under the lock; the output belongs to the caller.\<close>

definition adapter_run_heap :: "adapter_env \<Rightarrow> adapter_config \<Rightarrow> statement \<Rightarrow> engine \<Rightarrow> heap \<Rightarrow> heap" where
  "adapter_run_heap env cfg st e h =
     (if fst (consume_forced_next_error e) \<noteq> SQL_ENGINE_ERROR_NONE \<or> \<not> ae_tmpfile env then h
      else
        let h1 = execute_statement_heap st (ac_schema_dir cfg) (ac_data_dir cfg) (en_db e)
                   (own Output_Stream h) in
        (case execute_statement st (ac_schema_dir cfg) (ac_data_dir cfg) (en_db e) of
           None \<Rightarrow> None
         | Some (r, stream, d) \<Rightarrow>
             if \<not> er_ok r then release_block Output_Stream h1
             else release_block Output_Stream (own Output_Text h1)))"

text \<open>
  The parser's own statement is freed inside \<open>parse_statement\<close> when it fails. A call that waits for
  the lock still owns its schema, statement and tokens.
\<close>

definition sql_engine_adapter_heap ::
  "adapter_env \<Rightarrow> adapter_config \<Rightarrow> string option \<Rightarrow> engine \<Rightarrow> heap \<Rightarrow> heap" where
  "sql_engine_adapter_heap env cfg sql_text e h =
     (case sql_text of
        None \<Rightarrow> h
      | Some s \<Rightarrow>
          if is_blank_sql s \<or> (0 < ac_sql_length_limit cfg \<and> ac_sql_length_limit cfg < length s) then h
          else
            let h1 = own_list Token_Array (lex_left 0 s []) h in
            (case lex_sql s of
               Inl m \<Rightarrow> h1
             | Inr tokens \<Rightarrow>
                 (case parse_statement tokens of
                    None \<Rightarrow> None
                  | Some (Inl m) \<Rightarrow> free_tokens tokens h1
                  | Some (Inr st) \<Rightarrow>
                      let h2 = own Statement_Parts h1;
                          h3 = load_schema_heap (db_fs (en_db e)) (ac_schema_dir cfg) (ac_data_dir cfg)
                                 (statement_table_name st) h2;
                          cleanup = (\<lambda>h. free_tokens tokens (free_statement h)) in
                      (case load_schema (db_fs (en_db e)) (ac_schema_dir cfg) (ac_data_dir cfg)
                              (statement_table_name st) of
                         Inl m \<Rightarrow> cleanup h3
                       | Inr sch \<Rightarrow>
                           let free_sch = free_schema (sc_table_name sch) (sc_columns sch) in
                           (case acquire_entry (ae_lock env) (en_locks e) (sc_storage_name sch) of
                              (Inl m, ls) \<Rightarrow> cleanup (free_sch h3)
                            | (Inr a, ls) \<Rightarrow>
                                (case lock_entry_mutex (ae_thread env) a ls of
                                   None \<Rightarrow> h3
                                 | Some ls' \<Rightarrow>
                                     cleanup (free_sch (adapter_run_heap env cfg st (e\<lparr>en_locks := ls'\<rparr>) h3))))))))"

end
