(* ===== verification/Ownership_Props.thy ===== *)
theory Ownership_Props
  imports Ownership
begin

text \<open>
  What a call leaves behind: nothing is released twice, a call that succeeds leaves its output
  and nothing else, and a call that fails leaves at most one block, which needs a malformed line
  of a file or a text that the lexer refuses after its first token.
\<close>

section \<open>The storage and the index\<close>

lemma open_table_file_heap_result [simp]:
  "open_table_file_heap mode f data_dir table h
     = (case open_table_file mode f data_dir table of Inl m \<Rightarrow> h | Inr content \<Rightarrow> own Open_File h)"
  by (simp add: open_table_file_heap_def open_table_file_def Let_def split: sum.split)

lemma write_fields_heap_id [simp]: "write_fields_heap row h = h"
  by (induction row h rule: write_fields_heap.induct) auto

lemma append_row_heap_id [simp]: "append_row_heap f data_dir table row h = h"
  by (simp add: append_row_heap_def split: sum.split)

text \<open>A heap that is the old one, or has one block more under a condition.\<close>

definition leaves :: "block \<Rightarrow> bool \<Rightarrow> heap \<Rightarrow> heap \<Rightarrow> bool" where
  "leaves b p h h' = (h' = h \<or> (h' = own b h \<and> p))"

lemma read_row_heap_result:
  "if rd_ok (read_row_at_offset_csv f data_dir table off)
   then read_row_heap f data_dir table off h
     = own_list Read_Fields (rd_fields (read_row_at_offset_csv f data_dir table off)) h
   else leaves Read_Fields True h (read_row_heap f data_dir table off h)"
  by (auto simp: read_row_at_offset_csv_def read_row_heap_def read_error_def Let_def leaves_def own_list_def
      split: sum.splits dest: csv_left_ok)

lemma scan_loop_heap_result:
  "scan_loop visitor rest off ctx = Some (res, ctx') \<Longrightarrow>
     leaves Field_List (res \<noteq> None \<and> \<not> list_all parses (line_list off rest)) h
       (scan_loop_heap visitor rest off ctx (own Open_File h))"
proof (induction visitor rest off ctx rule: scan_loop.induct)
  case (1 visitor rest off ctx)
  show ?case
  proof (cases "rest = []")
    case False
    note ih = "1.IH" [OF False refl refl refl refl]
    show ?thesis
    proof (cases "line_text (fgets_chunk rest) = []")
      case True
      with False ih(1) "1.prems" show ?thesis
        by (simp add: scan_loop.simps [of visitor rest] scan_loop_heap.simps [of visitor rest]
            line_list.simps [of off rest] Let_def)
    next
      case line: False
      show ?thesis
      proof (cases "csv_parse_line (line_text (fgets_chunk rest))")
        case (Inl m)
        with False line "1.prems" show ?thesis
          by (auto simp: scan_loop.simps [of visitor rest] scan_loop_heap.simps [of visitor rest]
              line_list.simps [of off rest] Let_def leaves_def parses_def own_list_def)
      next
        case (Inr flds)
        note unfolds = scan_loop.simps [of visitor rest] scan_loop_heap.simps [of visitor rest]
          line_list.simps [of off rest] Let_def
        show ?thesis
        proof (cases "visitor flds (int off) ctx")
          case (Some r)
          obtain e c where r: "r = (e, c)" by fastforce
          show ?thesis
          proof (cases e)
            case None
            with ih(2) [OF line Inr Some [unfolded r None] refl] "1.prems" False line Inr Some r csv_left_ok [OF Inr]
            show ?thesis by (simp add: unfolds leaves_def parses_def)
          next
            case (Some m)
            with \<open>visitor flds (int off) ctx = Some r\<close> r False line Inr csv_left_ok [OF Inr]
            show ?thesis by (simp add: unfolds leaves_def)
          qed
        qed (use "1.prems" False line Inr in \<open>simp add: unfolds\<close>)
      qed
    qed
  qed (use "1.prems" in \<open>simp add: scan_loop.simps scan_loop_heap.simps leaves_def\<close>)
qed

lemma scan_rows_heap_result:
  assumes "scan_rows_csv f data_dir table visitor ctx = Some (res, ctx')"
  shows "leaves Field_List (res \<noteq> None \<and> \<not> readable f data_dir table) h
    (scan_rows_heap f data_dir table visitor ctx h)"
proof (cases "f (table_path data_dir table)")
  case (Regular content)
  then have o: "open_table_file open_read f data_dir table = Inr content"
    by (simp add: open_table_file_def open_read_def)
  show ?thesis
  proof (cases "content = []")
    case False
    with assms o have "scan_loop visitor (drop (length (fgets_chunk content)) content)
        (length (fgets_chunk content)) ctx = Some (res, ctx')"
      by (simp add: scan_rows_csv_def Let_def)
    from scan_loop_heap_result [OF this, of h] o False Regular show ?thesis
      by (simp add: scan_rows_heap_def Let_def readable_def data_lines_def)
  qed (simp add: scan_rows_heap_def o leaves_def)
qed (auto simp: scan_rows_heap_def open_table_file_def open_read_def leaves_def)

text \<open>Loading an index: what is left, and only when the table's file cannot be read to its end.\<close>

lemma ensure_loaded_heap_result:
  assumes "ensure_loaded rt f sch data_dir = Some (res, rt')"
  shows "leaves Field_List ((\<exists>m. res = Inl m) \<and> \<not> readable f data_dir (sc_storage_name sch)) h
    (ensure_loaded_heap rt f sch data_dir h)"
proof -
  obtain i reg where g: "get_or_create_table_index (rt_registry rt) (sc_storage_name sch) = (i, reg)" by fastforce
  show ?thesis
  proof (cases "ti_loaded (reg ! i)")
    case False
    with assms g obtain e c where
      s: "scan_rows_csv f data_dir (sc_storage_name sch) rebuild_row (bptree_init, 1, rt_alloc rt) = Some (e, c)"
      by (auto simp: ensure_loaded_def split: option.splits prod.splits)
    with False assms g have "e \<noteq> None \<longrightarrow> (\<exists>m. res = Inl m)"
      by (auto simp: ensure_loaded_def split: option.splits prod.splits)
    with scan_rows_heap_result [OF s, of h] False g show ?thesis
      by (auto simp: ensure_loaded_heap_def leaves_def)
  qed (simp add: ensure_loaded_heap_def g leaves_def)
qed

section \<open>The schema\<close>

lemma own_swap: "own b (own c h) = own c (own b h)"
  by (cases h) (simp_all add: own_def)

lemma own_list_swap: "own_list b xs (own c h) = own c (own_list b xs h)"
  by (simp add: own_list_def own_swap)

lemma release_own_list: "b \<noteq> c \<Longrightarrow> release_block b (own_list c ys (own b h)) = own_list c ys h"
  by simp

lemma search_directory_heap_result [simp]:
  "search_directory_heap f dir names table (own Directory_Stream h)
     = (case search_directory f dir names table of Inl m \<Rightarrow> h | Inr path \<Rightarrow> own Path_Text h)"
  by (induction f dir names table rule: search_directory.induct)
    (simp_all add: Let_def split: sum.split bool.split)

lemma find_schema_path_heap_result [simp]:
  "find_schema_path_heap f schema_dir table h
     = (case find_schema_path f schema_dir table of Inl m \<Rightarrow> h | Inr path \<Rightarrow> own Path_Text h)"
  by (simp add: find_schema_path_heap_def find_schema_path_def Let_def split: fnode.split)

definition schema_owned :: "string option \<Rightarrow> string_list \<Rightarrow> heap \<Rightarrow> heap" where
  "schema_owned name cols h =
     own_list Column_List cols (case name of None \<Rightarrow> own Storage_Name h | Some n \<Rightarrow> own Table_Name (own Storage_Name h))"

lemma schema_owned_simps [simp]:
  "free_schema name cols (schema_owned name cols h) = h"
  "b \<notin> {Column_List, Storage_Name, Table_Name} \<Longrightarrow>
     release_block b (schema_owned name cols h) = schema_owned name cols (release_block b h)"
  "b \<notin> {Column_List, Storage_Name, Table_Name} \<Longrightarrow>
     string_list_free b xs (schema_owned name cols h) = schema_owned name cols (string_list_free b xs h)"
  "b \<notin> {Column_List, Storage_Name, Table_Name} \<Longrightarrow> free_schema name cols (own b h) = own b (free_schema name cols h)"
  "b \<notin> {Column_List, Storage_Name, Table_Name} \<Longrightarrow>
     free_schema name cols (own_list b xs h) = own_list b xs (free_schema name cols h)"
  by (auto simp: free_schema_def schema_owned_def own_list_def string_list_free_def split: option.split)

text \<open>What \<open>read_meta\<close> leaves behind: the schema so far, or at most the columns it could not parse.\<close>

definition meta_left :: "heap \<Rightarrow> string + (string option \<times> string_list) \<Rightarrow> heap \<Rightarrow> bool" where
  "meta_left h r h' =
     (case r of Inl m \<Rightarrow> leaves Parsed_Columns True h h' | Inr (n, c) \<Rightarrow> h' = schema_owned n c h)"

lemma read_meta_heap_result:
  "meta_left h (read_meta ls name cols) (read_meta_heap ls name cols (own Open_File (schema_owned name cols h)))"
proof (induction ls name cols rule: read_meta.induct)
  case (2 line ls name cols)
  show ?case
  proof (cases "trim_whitespace line = [] \<or> split_meta_line (trim_whitespace line) = None")
    case False
    then obtain key val where kv: "trim_whitespace line \<noteq> []"
      "split_meta_line (trim_whitespace line) = Some (key, val)" by auto
    have name: "own Table_Name (case name of None \<Rightarrow> own Open_File (schema_owned name cols h)
          | Some n \<Rightarrow> release_block Table_Name (own Open_File (schema_owned name cols h)))
        = own Open_File (schema_owned (Some val) cols h)"
      by (cases name) (simp_all add: schema_owned_def own_list_swap own_swap release_own_list)
    have cols: "own_list Column_List parsed (string_list_free Column_List cols (own Open_File (schema_owned name cols h)))
        = own Open_File (schema_owned name parsed h)" for parsed
      by (simp add: schema_owned_def own_list_swap)
    have failed: "meta_left h (Inl m) (free_schema name [] (release_block Open_File
        (own_list Parsed_Columns (csv_left val)
           (string_list_free Column_List cols (own Open_File (schema_owned name cols h))))))" for m
      by (auto simp: meta_left_def leaves_def schema_owned_def own_list_def free_schema_def
          string_list_free_def split: option.split)
    show ?thesis
      using kv name cols failed "2.IH"(2-4) [OF refl kv(1) kv(2) refl]
      by (cases "parse_columns_value val") (simp_all add: Let_def)
  qed (use "2.IH"(1) in \<open>auto simp: Let_def meta_left_def leaves_def split: option.split\<close>)
qed (simp add: meta_left_def)

lemma validate_csv_header_heap_result:
  "leaves Csv_Header (validate_csv_header f data_dir name sch \<noteq> None) h
     (validate_csv_header_heap f data_dir name h)"
  by (auto simp: validate_csv_header_heap_def validate_csv_header_def Let_def leaves_def own_list_def
      split: sum.splits dest: csv_left_ok)

definition schema_left :: "heap \<Rightarrow> string + schema \<Rightarrow> heap \<Rightarrow> bool" where
  "schema_left h r h' =
     (case r of
        Inl m \<Rightarrow> h' = h \<or> h' = own Parsed_Columns h \<or> h' = own Csv_Header h
      | Inr sch \<Rightarrow> h' = schema_owned (sc_table_name sch) (sc_columns sch) h)"

lemma find_schema_path_opens:
  "find_schema_path f schema_dir table = Inr path \<Longrightarrow> \<exists>content. open_read f path = Inr content"
proof -
  have "search_directory f dir names table = Inr path \<Longrightarrow> \<exists>s. f path = Regular s" for dir names
    by (induction f dir names table rule: search_directory.induct)
      (auto simp: file_declares_table_def split: if_splits sum.splits bool.splits fnode.splits)
  then show "find_schema_path f schema_dir table = Inr path \<Longrightarrow> ?thesis"
    by (fastforce simp: find_schema_path_def open_read_def Let_def split: fnode.splits)
qed

lemma load_schema_heap_result:
  "schema_left h (load_schema f schema_dir data_dir table) (load_schema_heap f schema_dir data_dir table h)"
proof (cases "find_schema_path f schema_dir table")
  case (Inl m)
  then show ?thesis by (simp add: load_schema_def load_schema_heap_def schema_left_def)
next
  case (Inr path)
  from find_schema_path_opens [OF Inr] obtain content where o: "open_read f path = Inr content" by blast
  define h3 where "h3 = read_meta_heap (text_lines content) None [] (own Open_File (own Storage_Name h))"
  from read_meta_heap_result [of h "text_lines content" None "[]"]
  have m: "meta_left h (read_meta (text_lines content) None []) h3"
    by (simp add: h3_def schema_owned_def)
  show ?thesis
  proof (cases "read_meta (text_lines content) None []")
    case (Inl e)
    with Inr o m show ?thesis
      by (auto simp: load_schema_def load_schema_heap_def schema_left_def meta_left_def leaves_def Let_def
          simp flip: h3_def)
  next
    case r: (Inr nc)
    obtain name cols where nc: "nc = (name, cols)" by fastforce
    with m r have h3'': "h3 = schema_owned name cols h" by (simp add: meta_left_def)
    define sch where "sch = \<lparr>sc_table_name = name, sc_storage_name = extract_storage_name path, sc_columns = cols\<rparr>"
    define bad where "bad = (name = None \<or> cols = [] \<or> schema_has_reserved_id_column sch
        \<or> (name \<noteq> Some table \<and> sc_storage_name sch \<noteq> table))"
    let ?v = "validate_csv_header f data_dir (sc_storage_name sch) sch"
    have heap: "load_schema_heap f schema_dir data_dir table h
        = (if bad then free_schema name cols h3
           else if ?v = None then validate_csv_header_heap f data_dir (sc_storage_name sch) h3
           else free_schema name cols (validate_csv_header_heap f data_dir (sc_storage_name sch) h3))"
      by (simp add: load_schema_heap_def Inr o r nc Let_def bad_def sch_def flip: h3_def)
    have load: "load_schema f schema_dir data_dir table = Inr sch" if "\<not> bad" "?v = None"
      using that by (simp add: load_schema_def Inr o r nc Let_def bad_def sch_def del: validate_csv_header_record)
    have fail: "\<exists>e. load_schema f schema_dir data_dir table = Inl e" if "bad \<or> ?v \<noteq> None"
      using that by (auto simp: load_schema_def Inr o r nc Let_def bad_def sch_def
          simp del: validate_csv_header_record split: option.split)
    note v = validate_csv_header_heap_result [of f data_dir "sc_storage_name sch" sch h3, unfolded leaves_def]
    show ?thesis
    proof (cases "bad \<or> ?v \<noteq> None")
      case True
      with fail v show ?thesis by (auto simp: heap schema_left_def h3'')
    next
      case False
      with load v show ?thesis by (simp add: heap schema_left_def h3'' sch_def)
    qed
  qed
qed

section \<open>INSERT\<close>

text \<open>The old heap, or, under a condition, one of the given blocks more.\<close>

definition left_over :: "block list \<Rightarrow> bool \<Rightarrow> heap \<Rightarrow> heap \<Rightarrow> bool" where
  "left_over bs p h h' = (h' = h \<or> (p \<and> (\<exists>b\<in>set bs. h' = own b h)))"

lemma left_over_mono: "left_over bs p h h' \<Longrightarrow> set bs \<subseteq> set cs \<Longrightarrow> (p \<Longrightarrow> q) \<Longrightarrow> left_over cs q h h'"
  by (auto simp: left_over_def)

lemma get_next_id_heap:
  assumes "table_index_get_next_id rt f sch data_dir = Some (res, rt')"
  shows "leaves Field_List ((\<exists>m. res = Inl m) \<and> \<not> readable f data_dir (sc_storage_name sch)) h
    (ensure_loaded_heap rt f sch data_dir h)"
proof -
  from assms obtain r where "ensure_loaded rt f sch data_dir = Some (r, rt')" "(\<exists>m. r = Inl m) = (\<exists>m. res = Inl m)"
    by (auto simp: table_index_get_next_id_def split: option.splits prod.splits sum.splits)
  with ensure_loaded_heap_result [OF this(1), of h] show ?thesis by simp
qed

lemma register_row_heap_result:
  assumes "table_index_register_row rt f sch data_dir k off = Some (res, rt')"
  shows "leaves Field_List (res \<noteq> None \<and> \<not> readable f data_dir (sc_storage_name sch)) h
    (register_row_heap rt f sch data_dir h)"
proof (cases "rt_force_failure rt")
  case False
  with assms obtain r rt'' where "ensure_loaded rt f sch data_dir = Some (r, rt'')" "(\<exists>m. r = Inl m) \<longrightarrow> res \<noteq> None"
    by (auto simp: table_index_register_row_def Let_def split: option.splits prod.splits sum.splits)
  with ensure_loaded_heap_result [OF this(1), of h] False show ?thesis
    by (auto simp: register_row_heap_def leaves_def)
qed (simp add: register_row_heap_def leaves_def)

lemma build_insert_row_length: "build_insert_row st sch = Inr row \<Longrightarrow> length row = length (sc_columns sch)"
proof -
  have "build_row_loop sch cs vs assigned row0 = Inr row \<Longrightarrow> length row = length row0" for cs vs assigned row0
    by (induction sch cs vs assigned row0 rule: build_row_loop.induct) (auto simp: Let_def split: if_splits)
  then show "build_insert_row st sch = Inr row \<Longrightarrow> ?thesis" by (fastforce simp: build_insert_row_def Let_def)
qed

text \<open>Nothing is loaded again once the index is.\<close>

lemma ensure_loaded_heap_loaded:
  "loaded_at rt i (sc_storage_name sch) \<Longrightarrow> ensure_loaded_heap rt f sch data_dir h = h"
  by (auto simp: ensure_loaded_heap_def loaded_at_def get_or_create_table_index_def)

lemma register_row_heap_loaded:
  "loaded_at rt i (sc_storage_name sch) \<Longrightarrow> register_row_heap rt f sch data_dir h = h"
  by (simp add: register_row_heap_def ensure_loaded_heap_loaded)

text \<open>The table and its index as the statements keep them: every line of the file can be read.\<close>

definition table_sound :: "db \<Rightarrow> string \<Rightarrow> schema \<Rightarrow> bool" where
  "table_sound s data_dir sch = (runtime_ok (db_fs s) data_dir (db_rt s) \<and> table_ok (db_fs s) data_dir sch)"

lemma table_sound_readable: "table_sound s data_dir sch \<Longrightarrow> readable (db_fs s) data_dir (sc_storage_name sch)"
  by (simp add: table_sound_def table_ok_def)

definition statement_sound :: "string \<Rightarrow> string \<Rightarrow> string \<Rightarrow> db \<Rightarrow> bool" where
  "statement_sound table schema_dir data_dir s =
     (case load_schema (db_fs s) schema_dir data_dir table of Inl m \<Rightarrow> False | Inr sch \<Rightarrow> table_sound s data_dir sch)"

definition statement_blocks :: "block list" where
  "statement_blocks = [Parsed_Columns, Csv_Header, Field_List, Read_Fields, Row_Buffer]"

text \<open>From the row on, with the schema owned.\<close>

definition insert_tail :: "insert_statement \<Rightarrow> schema \<Rightarrow> string \<Rightarrow> runtime \<Rightarrow> db \<Rightarrow> heap \<Rightarrow> heap" where
  "insert_tail st sch data_dir rt s h2 =
     (let free_sch = free_schema (sc_table_name sch) (sc_columns sch);
          h3 = own_list Row_List (sc_columns sch) (own Assigned_Array h2) in
      case build_insert_row st sch of
        Inl m \<Rightarrow> free_sch (string_list_free Row_List (sc_columns sch) (release_block Assigned_Array h3))
      | Inr row \<Rightarrow>
          let h4 = string_list_free Row_List row
                     (append_row_heap (db_fs s) data_dir (sc_storage_name sch) row
                        (release_block Assigned_Array h3)) in
          (case append_row_csv (db_fs s) data_dir (sc_storage_name sch) row of
             (r, f) \<Rightarrow>
               if \<not> sr_ok r then free_sch h4 else free_sch (register_row_heap rt f sch data_dir h4)))"

lemma insert_tail_heap:
  assumes l: "load_schema (db_fs s) schema_dir data_dir (ins_table st) = Inr sch"
    and g: "table_index_get_next_id (db_rt s) (db_fs s) sch data_dir = Some (Inr n, rt)"
    and v: "validate_insert_columns st sch = None"
    and e: "execute_insert st schema_dir data_dir s = Some (r, s')"
  shows "left_over [Field_List] (\<not> er_ok r \<and> \<not> table_sound s data_dir sch) h
    (insert_tail st sch data_dir rt s (schema_owned (sc_table_name sch) (sc_columns sch) h))"
proof (cases "build_insert_row st sch")
  case (Inr row)
  define h1 where "h1 = schema_owned (sc_table_name sch) (sc_columns sch) h"
  have free: "free_schema (sc_table_name sch) (sc_columns sch) h1 = h"
    "free_schema (sc_table_name sch) (sc_columns sch) (own Field_List h1) = own Field_List h"
    by (simp_all add: h1_def)
  from build_insert_row_length [OF Inr] have "own_list Row_List (sc_columns sch) x = own_list Row_List row x" for x
    by (auto simp: own_list_def)
  then have h4: "string_list_free Row_List row (append_row_heap (db_fs s) data_dir (sc_storage_name sch) row
      (release_block Assigned_Array (own_list Row_List (sc_columns sch) (own Assigned_Array h1)))) = h1" by simp
  obtain sr f where a: "append_row_csv (db_fs s) data_dir (sc_storage_name sch) row = (sr, f)" by fastforce
  show ?thesis
  proof (cases "sr_ok sr")
    case False
    with Inr a h4 free show ?thesis by (simp add: insert_tail_def left_over_def flip: h1_def)
  next
    case True
    with e l v g Inr a obtain res rt' where
      reg: "table_index_register_row rt f sch data_dir n (sr_row_offset sr) = Some (res, rt')" "er_ok r = (res = None)"
      by (auto simp: execute_insert_def exec_error_def split: option.splits prod.splits)
    have "register_row_heap rt f sch data_dir h1 = h1" if "table_sound s data_dir sch"
    proof -
      from that get_next_id_ok [of "db_fs s" data_dir "db_rt s" sch] g obtain k where "loaded_at rt k (sc_storage_name sch)"
        by (auto simp: table_sound_def table_ok_def)
      then show ?thesis by (rule register_row_heap_loaded)
    qed
    with register_row_heap_result [OF reg(1), of h1] reg(2) True Inr a h4 free show ?thesis
      by (auto simp: insert_tail_def left_over_def leaves_def simp flip: h1_def)
  qed
qed (simp add: insert_tail_def left_over_def)

lemma execute_insert_heap_result:
  assumes e: "execute_insert st schema_dir data_dir s = Some (r, s')"
  shows "left_over statement_blocks (\<not> er_ok r \<and> \<not> statement_sound (ins_table st) schema_dir data_dir s) h
    (execute_insert_heap st schema_dir data_dir s h)"
proof (cases "load_schema (db_fs s) schema_dir data_dir (ins_table st)")
  case (Inl m)
  with load_schema_heap_result [of h "db_fs s" schema_dir data_dir "ins_table st"] e show ?thesis
    by (auto simp: execute_insert_heap_def execute_insert_def schema_left_def left_over_def statement_blocks_def
        statement_sound_def exec_error_def)
next
  case load: (Inr sch)
  then have sound: "statement_sound (ins_table st) schema_dir data_dir s = table_sound s data_dir sch"
    by (simp add: statement_sound_def)
  define h1 where "h1 = schema_owned (sc_table_name sch) (sc_columns sch) h"
  have ld: "load_schema_heap (db_fs s) schema_dir data_dir (ins_table st) h = h1"
    using load_schema_heap_result [of h "db_fs s" schema_dir data_dir "ins_table st"] load
    by (simp add: schema_left_def h1_def)
  have free: "free_schema (sc_table_name sch) (sc_columns sch) h1 = h"
    "free_schema (sc_table_name sch) (sc_columns sch) (own Field_List h1) = own Field_List h"
    by (simp_all add: h1_def)
  show ?thesis
  proof (cases "validate_insert_columns st sch")
    case (Some m)
    with load free show ?thesis by (simp add: execute_insert_heap_def ld left_over_def)
  next
    case None
    with e load obtain res rt where
      g: "table_index_get_next_id (db_rt s) (db_fs s) sch data_dir = Some (res, rt)"
      by (auto simp: execute_insert_def split: option.splits prod.splits)
    note el = get_next_id_heap [OF g, of h1, unfolded leaves_def]
    show ?thesis
    proof (cases res)
      case (Inl m)
      with e load None g have "\<not> er_ok r" by (auto simp: execute_insert_def exec_error_def)
      with el load None g Inl free table_sound_readable [of s data_dir sch] show ?thesis
        by (auto simp: execute_insert_heap_def ld left_over_def statement_blocks_def sound)
    next
      case (Inr n)
      with el have h2: "ensure_loaded_heap (db_rt s) (db_fs s) sch data_dir h1 = h1" by simp
      have "execute_insert_heap st schema_dir data_dir s h = insert_tail st sch data_dir rt s h1"
        by (simp add: execute_insert_heap_def insert_tail_def load ld h2 None g Inr)
      with insert_tail_heap [OF load g [unfolded Inr] None e] show ?thesis
        by (auto simp: h1_def left_over_def statement_blocks_def sound)
    qed
  qed
qed

section \<open>SELECT\<close>

text \<open>A line that the scan of a SELECT accepts.\<close>

definition good_line :: "schema \<Rightarrow> nat \<times> string \<Rightarrow> bool" where
  "good_line sch l = (parses l \<and> length (line_fields l) = length (sc_columns sch))"

definition select_owned :: "schema \<Rightarrow> string_list \<Rightarrow> string_list list \<Rightarrow> heap \<Rightarrow> heap" where
  "select_owned sch headers rows h =
     own_list Row_Buffer rows (own_list Header_List headers
       (own Selected_Array (schema_owned (sc_table_name sch) (sc_columns sch) h)))"

lemma select_row_buffer_push_not_Nil: "select_row_buffer_push rows flds arr n k = Some rows' \<Longrightarrow> rows' \<noteq> []"
  by (auto simp: select_row_buffer_push_def split: if_splits)

text \<open>What the exits of the loop release, on both ways out.\<close>

definition select_finish :: "schema \<Rightarrow> string_list \<Rightarrow> string_list list \<Rightarrow> heap \<Rightarrow> heap" where
  "select_finish sch headers rows h =
     free_schema (sc_table_name sch) (sc_columns sch)
       (string_list_free Row_Buffer rows (string_list_free Header_List headers (release_block Selected_Array h)))"

definition select_abandon :: "schema \<Rightarrow> string_list \<Rightarrow> string_list \<Rightarrow> heap \<Rightarrow> heap" where
  "select_abandon sch headers flds h =
     free_schema (sc_table_name sch) (sc_columns sch)
       (string_list_free Field_List flds (string_list_free Header_List headers
          (release_block Selected_Array (release_block Open_File h))))"

lemma print_table_heap_id [simp]: "print_table_heap h = h"
  by (simp add: print_table_heap_def)

lemma select_exits:
  "select_finish sch headers rows (select_owned sch headers rows h) = h"
  "select_abandon sch headers flds (own_list Field_List flds (own Open_File (select_owned sch headers rows h)))
     = own_list Row_Buffer rows h"
  by (simp_all add: select_finish_def select_abandon_def select_owned_def)

lemma own_list_left_over: "p \<Longrightarrow> b \<in> set bs \<Longrightarrow> left_over bs p h (own_list b xs h)"
  by (auto simp: left_over_def own_list_def)

lemma select_loop_heap_unfold:
  "select_loop_heap st sch headers arr n w rest k rows h =
     (if rest = [] then select_finish sch headers rows (print_table_heap (release_block Open_File h))
      else
        let line = line_text (fgets_chunk rest); rest' = drop (length (fgets_chunk rest)) rest in
        if line = [] then select_loop_heap st sch headers arr n w rest' k rows h
        else
          let h1 = own_list Field_List (csv_left line) h in
          (case csv_parse_line line of
             Inl m \<Rightarrow> select_abandon sch headers (csv_left line) h1
           | Inr flds \<Rightarrow>
               if length flds \<noteq> length (sc_columns sch) then select_abandon sch headers flds h1
               else
                 (case row_matches_where st flds w of
                    None \<Rightarrow> None
                  | Some False \<Rightarrow>
                      select_loop_heap st sch headers arr n w rest' (k + 1) rows (string_list_free Field_List flds h1)
                  | Some True \<Rightarrow>
                      (case select_row_buffer_push rows flds arr n k of
                         None \<Rightarrow> None
                       | Some rows' \<Rightarrow>
                           select_loop_heap st sch headers arr n w rest' (k + 1) rows'
                             (string_list_free Field_List flds
                                (if rows = [] then own_list Row_Buffer rows' h1 else h1))))))"
  by (subst select_loop_heap.simps) (simp only: Let_def select_finish_def select_abandon_def select_row_buffer_free_def)

lemma good_line_cases:
  "csv_parse_line line = Inl m \<Longrightarrow> \<not> good_line sch (off, line)"
  "csv_parse_line line = Inr flds \<Longrightarrow> good_line sch (off, line) = (length flds = length (sc_columns sch))"
  by (simp_all add: good_line_def parses_def line_fields_def)

lemma select_push_owned:
  assumes "select_row_buffer_push rows flds arr n k = Some rows'"
  shows "string_list_free Field_List flds
      (if rows = [] then own_list Row_Buffer rows' (own_list Field_List flds (own Open_File (select_owned sch headers rows h)))
       else own_list Field_List flds (own Open_File (select_owned sch headers rows h)))
    = own Open_File (select_owned sch headers rows' h)"
  using select_row_buffer_push_not_Nil [OF assms] by (simp add: select_owned_def own_swap own_list_swap)

lemma select_loop_heap_result:
  "select_loop st sch arr n w rest k rows = Some res \<Longrightarrow>
     left_over [Row_Buffer] ((\<exists>m. res = Inl m) \<and> \<not> list_all (good_line sch) (line_list off rest)) h
       (select_loop_heap st sch headers arr n w rest k rows (own Open_File (select_owned sch headers rows h)))"
proof (induction st sch arr n w rest k rows arbitrary: off rule: select_loop.induct)
  case (1 st sch arr n w rest k rows)
  let ?line = "line_text (fgets_chunk rest)"
  note unfolds = select_loop_heap_unfold [of st sch headers arr n w rest k rows]
    select_loop.simps [of st sch arr n w rest k rows] line_list.simps [of off rest] Let_def
  show ?case
  proof (cases "rest = [] \<or> ?line = []")
    case True
    then show ?thesis using "1.IH"(1) [OF _ refl refl refl] "1.prems"
      by (cases "rest = []")
        (simp_all add: unfolds select_loop_heap_unfold [of st sch headers arr n w "[]"] select_exits left_over_def)
  next
    case False
    then have line: "rest \<noteq> []" "?line \<noteq> []" by simp_all
    note ih = "1.IH" [OF line(1) refl refl refl]
    consider (bad) m where "csv_parse_line ?line = Inl m"
      | (wrong) flds where "csv_parse_line ?line = Inr flds" "length flds \<noteq> length (sc_columns sch)"
      | (row) flds where "csv_parse_line ?line = Inr flds" "\<not> length flds \<noteq> length (sc_columns sch)"
      by (cases "csv_parse_line ?line") auto
    then show ?thesis
    proof cases
      case (row flds)
      note parsed = line row csv_left_ok [OF row(1)] good_line_cases(2) [OF row(1), of sch off]
      consider "row_matches_where st flds w = None" | (skip) "row_matches_where st flds w = Some False"
        | (pick) "row_matches_where st flds w = Some True" by (cases "row_matches_where st flds w") auto
      then show ?thesis
      proof cases
        case skip
        from ih(3) [OF line(2) row skip] skip "1.prems" parsed show ?thesis by (simp add: unfolds)
      next
        case pick
        with "1.prems" line row obtain rows' where
          p: "select_row_buffer_push rows flds arr n k = Some rows'"
          by (auto simp: unfolds split: option.splits)
        from ih(2) [OF line(2) row pick _ p] pick p "1.prems" parsed select_push_owned [OF p, of sch headers h]
        show ?thesis by (simp add: unfolds)
      qed (use "1.prems" line row in \<open>simp add: unfolds\<close>)
    qed (use "1.prems" line good_line_cases csv_left_ok in
        \<open>auto simp: unfolds select_exits intro!: own_list_left_over\<close>)
  qed
qed

lemma find_row_heap:
  assumes "table_index_find_row rt f sch data_dir k = Some (res, rt')"
  shows "leaves Field_List ((\<exists>m. res = Inl m) \<and> \<not> readable f data_dir (sc_storage_name sch)) h
    (ensure_loaded_heap rt f sch data_dir h)"
proof -
  from assms obtain r where "ensure_loaded rt f sch data_dir = Some (r, rt')" "(\<exists>m. r = Inl m) = (\<exists>m. res = Inl m)"
    by (auto simp: table_index_find_row_def split: option.splits prod.splits sum.splits)
  with ensure_loaded_heap_result [OF this(1), of h] show ?thesis by simp
qed

lemma indexed_row_read:
  assumes "table_sound s data_dir sch"
    and f: "table_index_find_row (db_rt s) (db_fs s) sch data_dir k = Some (Inr (Some off), rt)"
  shows "rd_ok (read_row_at_offset_csv (db_fs s) data_dir (sc_storage_name sch) off)"
proof -
  let ?name = "sc_storage_name sch"
  from assms(1) have ok: "runtime_ok (db_fs s) data_dir (db_rt s)" and tab: "table_ok (db_fs s) data_dir sch"
    by (simp_all add: table_sound_def)
  from table_ok_content [OF tab] obtain content where
    c: "db_fs s (table_path data_dir ?name) = Regular content" "list_all parses (data_lines content)" by blast
  have "file_rows (db_fs s) data_dir ?name = data_lines content" using c by (simp add: file_rows_def)
  with find_row_ok [OF ok table_sound_readable [OF assms(1)], of k] f have
    "nat (k - 1) < length (data_lines content)" "off = int (fst (data_lines content ! nat (k - 1)))"
    by (auto simp: nat_less_iff split: if_splits)
  with read_indexed_row [of "db_fs s" data_dir ?name, OF c] show ?thesis by simp
qed

lemma execute_index_select_heap_result:
  assumes e: "execute_index_select st sch data_dir headers arr n s = Some (r, out, s')"
  shows "left_over [Field_List, Read_Fields] (\<not> er_ok r \<and> \<not> table_sound s data_dir sch) h
    (execute_index_select_heap st sch data_dir arr n s h)"
proof (cases "parse_int_strict (where_value st)")
  case (Some k)
  with e obtain res rt where f: "table_index_find_row (db_rt s) (db_fs s) sch data_dir k = Some (res, rt)"
    by (auto simp: execute_index_select_def split: option.splits)
  note el = find_row_heap [OF f, of h, unfolded leaves_def]
  show ?thesis
  proof (cases res)
    case (Inl m)
    with e Some f el table_sound_readable [of s data_dir sch] show ?thesis
      by (auto simp: execute_index_select_def execute_index_select_heap_def exec_error_def left_over_def)
  next
    case found: (Inr at)
    with el have h1: "ensure_loaded_heap (db_rt s) (db_fs s) sch data_dir h = h" by simp
    show ?thesis
    proof (cases at)
      case (Some off)
      let ?r = "read_row_at_offset_csv (db_fs s) data_dir (sc_storage_name sch) off"
      note rd = read_row_heap_result [of "db_fs s" data_dir "sc_storage_name sch" off h]
      show ?thesis
      proof (cases "rd_ok ?r \<and> length (rd_fields ?r) = length (sc_columns sch)")
        case False
        have "rd_ok ?r" if "table_sound s data_dir sch"
          using that f [unfolded found Some] by (rule indexed_row_read)
        with False e \<open>parse_int_strict (where_value st) = _\<close> f found Some h1 rd show ?thesis
          by (auto simp: execute_index_select_def execute_index_select_heap_def exec_error_def left_over_def Let_def
              leaves_def split: if_splits)
      next
        case True
        with e \<open>parse_int_strict (where_value st) = _\<close> f found Some obtain rows where
          "select_row_buffer_push [] (rd_fields ?r) arr n k = Some rows"
          by (auto simp: execute_index_select_def Let_def split: option.splits)
        with True \<open>parse_int_strict (where_value st) = _\<close> f found Some h1 rd show ?thesis
          by (simp add: execute_index_select_heap_def left_over_def Let_def)
      qed
    qed (simp add: execute_index_select_heap_def left_over_def \<open>parse_int_strict (where_value st) = _\<close> f found h1)
  qed
qed (simp add: execute_index_select_heap_def left_over_def)

lemma select_cleanup_finish: "select_cleanup sch headers = select_finish sch headers []"
  by (simp add: fun_eq_iff select_cleanup_def select_finish_def)

lemma select_finish_own:
  "b \<notin> {Column_List, Storage_Name, Table_Name, Header_List, Selected_Array} \<Longrightarrow>
     select_finish sch headers [] (own b h) = own b (select_finish sch headers [] h)"
  by (auto simp: select_finish_def)

lemma select_finish_left_over:
  assumes "left_over [Field_List, Read_Fields] p (select_owned sch headers [] h) h'"
  shows "left_over [Field_List, Read_Fields] p h (select_finish sch headers [] h')"
  using assms by (auto simp: left_over_def select_finish_own select_exits)

lemma sound_lines:
  assumes "table_sound s data_dir sch"
    and "open_read (db_fs s) (table_path data_dir (sc_storage_name sch)) = Inr content"
  shows "list_all (good_line sch) (data_lines content)"
proof -
  from assms(1) have "table_ok (db_fs s) data_dir sch" by (simp add: table_sound_def)
  from table_ok_content [OF this] obtain c where
    c: "db_fs s (table_path data_dir (sc_storage_name sch)) = Regular c" "list_all parses (data_lines c)"
    "list_all (\<lambda>row. length row = length (sc_columns sch)) (map line_fields (data_lines c))" by blast
  moreover from c(1) assms(2) have "c = content" by (simp add: open_read_def)
  ultimately show ?thesis by (simp add: list_all_iff good_line_def)
qed

text \<open>A SELECT by the lines of the file, from its path on.\<close>

lemma scan_select_heap_result:
  assumes load: "load_schema (db_fs s) schema_dir data_dir (sel_table st) = Inr sch"
    and b: "build_select_indexes st sch = Some (Inr (headers, arr, n))" "n \<noteq> 0"
    and w: "resolve_where_index st sch = Inr w" and noid: "\<not> (has_where st \<and> where_column st = ''id'')"
    and e: "execute_select st schema_dir data_dir s = Some (r, out, s')"
  shows "left_over [Row_Buffer] (\<not> er_ok r \<and> \<not> table_sound s data_dir sch) h
    (scan_select_heap st sch headers arr n w data_dir s (select_owned sch headers [] h))"
proof (cases "open_read (db_fs s) (table_path data_dir (sc_storage_name sch))")
  case (Inl m)
  then show ?thesis
    by (simp add: scan_select_heap_def select_cleanup_finish select_finish_own select_exits left_over_def)
next
  case (Inr content)
  show ?thesis
  proof (cases "content = []")
    case True
    with Inr show ?thesis by (simp add: scan_select_heap_def select_cleanup_finish select_exits left_over_def)
  next
    case content: False
    from noid have noid': "has_where st \<longrightarrow> where_column st \<noteq> ''id''" by blast
    with e load b w Inr content obtain lr where
      l: "select_loop st sch arr n w (drop (length (fgets_chunk content)) content) 1 [] = Some lr"
      "\<not> er_ok r = (\<exists>m. lr = Inl m)"
      by (auto simp: execute_select_def exec_error_def select_done_def Let_def split: option.splits sum.splits)
    have "list_all (good_line sch) (data_lines content)" if "table_sound s data_dir sch"
      using that Inr by (intro sound_lines [of s data_dir])
    with select_loop_heap_result [OF l(1), of "length (fgets_chunk content)" h headers] l(2) content Inr
    show ?thesis by (auto simp: scan_select_heap_def data_lines_def elim!: left_over_mono)
  qed
qed

lemma execute_select_heap_result:
  assumes e: "execute_select st schema_dir data_dir s = Some (r, out, s')"
  shows "left_over statement_blocks (\<not> er_ok r \<and> \<not> statement_sound (sel_table st) schema_dir data_dir s) h
    (execute_select_heap st schema_dir data_dir s h)"
proof (cases "load_schema (db_fs s) schema_dir data_dir (sel_table st)")
  case (Inl m)
  with load_schema_heap_result [of h "db_fs s" schema_dir data_dir "sel_table st"] e show ?thesis
    by (auto simp: execute_select_heap_def execute_select_def schema_left_def left_over_def statement_blocks_def
        statement_sound_def exec_error_def)
next
  case load: (Inr sch)
  then have sound: "statement_sound (sel_table st) schema_dir data_dir s = table_sound s data_dir sch"
    by (simp add: statement_sound_def)
  have owned: "own_list Header_List headers (own Selected_Array (load_schema_heap (db_fs s) schema_dir data_dir (sel_table st) h))
      = select_owned sch headers [] h" for headers
    using load_schema_heap_result [of h "db_fs s" schema_dir data_dir "sel_table st"] load
    by (simp add: schema_left_def select_owned_def)
  note unfolds = execute_select_heap_def load Let_def owned select_cleanup_finish sound select_exits left_over_def
  consider "build_select_indexes st sch = None" | (bad) m where "build_select_indexes st sch = Some (Inl m)"
    | (some) headers arr n where "build_select_indexes st sch = Some (Inr (headers, arr, n))"
    by (cases "build_select_indexes st sch") (metis prod_cases3 sum.exhaust)+
  then show ?thesis
  proof cases
    case (some headers arr n)
    show ?thesis
    proof (cases "n = 0 \<or> (\<exists>m. resolve_where_index st sch = Inl m)")
      case False
      then obtain w where w: "resolve_where_index st sch = Inr w" "n \<noteq> 0"
        by (cases "resolve_where_index st sch") auto
      define id where "id = (has_where st \<and> where_column st = ''id'')"
      have "left_over [Field_List, Read_Fields] (\<not> er_ok r \<and> \<not> table_sound s data_dir sch) h
          (select_finish sch headers [] (execute_index_select_heap st sch data_dir arr n s (select_owned sch headers [] h)))"
        if id using e load some w that
        by (intro select_finish_left_over execute_index_select_heap_result) (simp add: execute_select_def id_def)
      with scan_select_heap_result [OF load some w(2,1) _ e, of h] some w show ?thesis
        by (cases id) (auto simp: unfolds statement_blocks_def id_def)
    qed (use some in \<open>auto simp: unfolds\<close>)
  next
    case (bad m)
    then show ?thesis by (simp add: unfolds)
  qed (use e load in \<open>simp add: execute_select_def\<close>)
qed

lemma execute_statement_heap_result:
  assumes "execute_statement st schema_dir data_dir s = Some (r, out, s')"
  shows "left_over statement_blocks (\<not> er_ok r \<and> \<not> statement_sound (statement_table_name st) schema_dir data_dir s) h
    (execute_statement_heap st schema_dir data_dir s h)"
proof (cases st)
  case (INSERT i)
  with assms have "execute_insert i schema_dir data_dir s = Some (r, s')" by auto
  with execute_insert_heap_result [OF this] INSERT show ?thesis by simp
next
  case (SELECT q)
  with assms have "execute_select q schema_dir data_dir s = Some (r, out, s')" by simp
  with execute_select_heap_result [OF this] SELECT show ?thesis by simp
qed

section \<open>The call of the adapter\<close>

lemma lex_left_ok: "lex_sql s = Inr tokens \<Longrightarrow> lex_left 0 s [] = tokens"
proof -
  have "lex_loop i s ts = Inr tokens \<Longrightarrow> lex_left i s ts = tokens" for i s ts
    by (induction i s ts rule: lex_loop.induct) (auto split: if_splits prod.splits sum.splits option.splits)
  then show "lex_sql s = Inr tokens \<Longrightarrow> lex_left 0 s [] = tokens" by (simp add: lex_sql_def)
qed

text \<open>
  A call that can leave nothing behind: the lexer accepts its text, and the table of its statement
  has a schema that loads and a file whose lines can all be read.
\<close>

definition tidy_call :: "adapter_config \<Rightarrow> string option \<Rightarrow> engine \<Rightarrow> bool" where
  "tidy_call cfg sql_text e =
     (case sql_text of
        None \<Rightarrow> True
      | Some s \<Rightarrow>
          (case lex_sql s of
             Inl m \<Rightarrow> False
           | Inr tokens \<Rightarrow>
               (case parse_statement tokens of
                  Some (Inr st) \<Rightarrow>
                    statement_sound (statement_table_name st) (ac_schema_dir cfg) (ac_data_dir cfg) (en_db e)
                | _ \<Rightarrow> True)))"

lemma adapter_run_heap_result:
  assumes r: "adapter_run env cfg st e0 = Some (r, e')" and e0: "en_db e0 = en_db e" "en_forced e0 = en_forced e"
  shows "if ar_ok r then adapter_run_heap env cfg st e0 h = own Output_Text h
    else left_over statement_blocks
      (\<not> statement_sound (statement_table_name st) (ac_schema_dir cfg) (ac_data_dir cfg) (en_db e)) h
      (adapter_run_heap env cfg st e0 h)"
proof (cases "fst (consume_forced_next_error e0) \<noteq> SQL_ENGINE_ERROR_NONE \<or> \<not> ae_tmpfile env")
  case True
  with r show ?thesis
    by (auto simp: adapter_run_def adapter_run_heap_def left_over_def set_error_def split: prod.splits if_splits)
next
  case False
  with r e0 obtain x stream d where
    x: "execute_statement st (ac_schema_dir cfg) (ac_data_dir cfg) (en_db e) = Some (x, stream, d)"
    and ok: "ar_ok r = er_ok x"
    by (auto simp: adapter_run_def consume_forced_next_error_def set_error_def empty_result_def
        split: prod.splits if_splits option.splits)
  have "release_block Output_Stream (own Output_Text (own Output_Stream h)) = own Output_Text h" by simp
  with execute_statement_heap_result [OF x, of "own Output_Stream h"] False x ok e0 show ?thesis
    by (auto simp: adapter_run_heap_def left_over_def statement_blocks_def)
qed

definition call_cleanup :: "token list \<Rightarrow> heap \<Rightarrow> heap" where
  "call_cleanup tokens h = free_tokens tokens (free_statement h)"

lemma call_cleanup_own:
  "b \<notin> {Token_Array, Statement_Parts} \<Longrightarrow>
     call_cleanup tokens (own b (own Statement_Parts (own_list Token_Array tokens h))) = own b h"
  "call_cleanup tokens (own Statement_Parts (own_list Token_Array tokens h)) = h"
  by (auto simp: call_cleanup_def)

lemma call_cleanup_left_over:
  assumes "left_over statement_blocks p (own Statement_Parts (own_list Token_Array tokens h)) h'"
  shows "left_over (Token_Array # statement_blocks) p h (call_cleanup tokens h')"
  using assms by (auto simp: left_over_def call_cleanup_own statement_blocks_def)

lemma free_schema_left_over:
  assumes "left_over statement_blocks p (schema_owned name cols h) h'"
  shows "left_over statement_blocks p h (free_schema name cols h')"
  using assms by (auto simp: left_over_def statement_blocks_def)

text \<open>A statement that the front end accepted.\<close>

definition call_heap_ok :: "bool \<Rightarrow> heap \<Rightarrow> adapter_result \<Rightarrow> heap \<Rightarrow> bool" where
  "call_heap_ok tidy h r h' =
     (if ar_ok r then h' = own Output_Text h else left_over (Token_Array # statement_blocks) (\<not> tidy) h h')"

lemma schema_refused:
  assumes "load_schema f schema_dir data_dir table = Inl m"
  shows "left_over statement_blocks True h (load_schema_heap f schema_dir data_dir table h)"
  using load_schema_heap_result [of h f schema_dir data_dir table] assms
  by (auto simp: schema_left_def left_over_def statement_blocks_def)

text \<open>From the lock on, with the schema, the statement and the tokens owned.\<close>

lemma adapter_memory_locked:
  fixes h :: heap
  assumes lex: "lex_sql s = Inr tokens" and parse: "parse_statement tokens = Some (Inr st)"
    and load: "load_schema (db_fs (en_db e)) (ac_schema_dir cfg) (ac_data_dir cfg) (statement_table_name st) = Inr sch"
    and run: "adapter_run env cfg st (e\<lparr>en_locks := ls\<rparr>) = Some (r, e')"
  defines "h2 \<equiv> own Statement_Parts (own_list Token_Array tokens h)"
  shows "call_heap_ok (tidy_call cfg (Some s) e) h r
    (call_cleanup tokens (free_schema (sc_table_name sch) (sc_columns sch)
       (adapter_run_heap env cfg st (e\<lparr>en_locks := ls\<rparr>) (schema_owned (sc_table_name sch) (sc_columns sch) h2))))"
proof -
  define h3 where "h3 = schema_owned (sc_table_name sch) (sc_columns sch) h2"
  have sound: "statement_sound (statement_table_name st) (ac_schema_dir cfg) (ac_data_dir cfg) (en_db e)
      = tidy_call cfg (Some s) e" by (simp add: tidy_call_def lex parse)
  note ran = adapter_run_heap_result [OF run, of e h3, simplified]
  show ?thesis
  proof (cases "ar_ok r")
    case True
    with ran show ?thesis by (simp add: call_heap_ok_def h3_def) (simp add: h2_def call_cleanup_own)
  next
    case False
    with ran have "left_over statement_blocks (\<not> tidy_call cfg (Some s) e) h3
        (adapter_run_heap env cfg st (e\<lparr>en_locks := ls\<rparr>) h3)" by (simp add: sound)
    from call_cleanup_left_over [OF free_schema_left_over [OF this [unfolded h3_def], unfolded h2_def]] False
    show ?thesis by (simp add: call_heap_ok_def h3_def h2_def)
  qed
qed

lemma adapter_memory_statement:
  assumes lex: "lex_sql s = Inr tokens" and parse: "parse_statement tokens = Some (Inr st)"
    and checks: "\<not> is_blank_sql s" "\<not> (0 < ac_sql_length_limit cfg \<and> ac_sql_length_limit cfg < length s)"
    and e: "sql_engine_adapter_execute env cfg (Some s) e = Returns r e'"
  shows "call_heap_ok (tidy_call cfg (Some s) e) h r (sql_engine_adapter_heap env cfg (Some s) e h)"
proof -
  define h2 where "h2 = own Statement_Parts (own_list Token_Array tokens h)"
  let ?load = "load_schema (db_fs (en_db e)) (ac_schema_dir cfg) (ac_data_dir cfg) (statement_table_name st)"
  have front: "adapter_front env cfg (Some s) = Some (Inr st)"
    using lex parse checks by (simp add: adapter_front_def)
  note run = sql_engine_adapter_execute_def front set_error_def empty_result_def
  note unfolds = sql_engine_adapter_heap_def checks lex parse Let_def lex_left_ok [OF lex]
  show ?thesis
  proof (cases ?load)
    case (Inl m)
    with e have "\<not> ar_ok r" by (auto simp: run)
    with call_cleanup_left_over [OF schema_refused [OF Inl, of h2, unfolded h2_def]] Inl show ?thesis
      by (simp add: unfolds call_heap_ok_def tidy_call_def statement_sound_def
          del: free_tokens_def free_statement_def flip: call_cleanup_def)
  next
    case (Inr sch)
    define h3 where "h3 = schema_owned (sc_table_name sch) (sc_columns sch) h2"
    have ld: "load_schema_heap (db_fs (en_db e)) (ac_schema_dir cfg) (ac_data_dir cfg) (statement_table_name st) h2 = h3"
      using load_schema_heap_result [of h2 "db_fs (en_db e)" "ac_schema_dir cfg" "ac_data_dir cfg" "statement_table_name st"] Inr
      by (simp add: schema_left_def h3_def)
    obtain q ls where acq: "acquire_entry (ae_lock env) (en_locks e) (sc_storage_name sch) = (q, ls)" by fastforce
    show ?thesis
    proof (cases q)
      case (Inl m)
      with e Inr acq have "\<not> ar_ok r" by (auto simp: run)
      moreover from Inl Inr acq have "sql_engine_adapter_heap env cfg (Some s) e h = h"
        by (simp add: unfolds ld [unfolded h2_def] h3_def del: free_tokens_def free_statement_def flip: call_cleanup_def)
          (simp add: h2_def call_cleanup_own)
      ultimately show ?thesis by (simp add: call_heap_ok_def left_over_def)
    next
      case q: (Inr a)
      with e Inr acq obtain ls' e1 where l: "lock_entry_mutex (ae_thread env) a ls = Some ls'"
        and locked: "adapter_run env cfg st (e\<lparr>en_locks := ls'\<rparr>) = Some (r, e1)"
        by (auto simp: run split: option.splits prod.splits)
      from adapter_memory_locked [OF lex parse Inr locked, where h = h, folded h2_def, folded h3_def] Inr acq q l show ?thesis
        by (simp add: unfolds ld [unfolded h2_def] del: free_tokens_def free_statement_def flip: call_cleanup_def)
    qed
  qed
qed

lemma adapter_memory_call:
  assumes e: "sql_engine_adapter_execute env cfg sql_text e = Returns r e'"
  shows "call_heap_ok (tidy_call cfg sql_text e) h r (sql_engine_adapter_heap env cfg sql_text e h)"
proof (cases "adapter_front env cfg sql_text")
  case (Some x)
  show ?thesis
  proof (cases x)
    case (Inr st)
    with Some obtain s tokens where "sql_text = Some s" "lex_sql s = Inr tokens" "parse_statement tokens = Some (Inr st)"
      "\<not> is_blank_sql s" "\<not> (0 < ac_sql_length_limit cfg \<and> ac_sql_length_limit cfg < length s)"
      by (auto simp: adapter_front_def split: option.splits if_splits sum.splits)
    with adapter_memory_statement e show ?thesis by blast
  next
    case (Inl r')
    with Some e have r: "adapter_front env cfg sql_text = Some (Inl r)" by (simp add: sql_engine_adapter_execute_def)
    then have "\<not> ar_ok r"
      by (auto simp: adapter_front_def set_error_def empty_result_def split: option.splits if_splits sum.splits)
    then show ?thesis
      using r by (auto simp: adapter_front_def sql_engine_adapter_heap_def call_heap_ok_def left_over_def tidy_call_def
          lex_left_ok own_list_def split: option.splits if_splits sum.splits)
  qed
qed (use e in \<open>simp add: sql_engine_adapter_execute_def\<close>)

section \<open>The memory of a call\<close>

text \<open>
  Every call of the adapter that returns has released only what it owned, and
  released all of it: a call that succeeds leaves its output to the caller and nothing else, and a
  call that fails leaves nothing, unless its text is refused by the lexer or its table has a schema
  that does not load or a file with a line that cannot be read, and then at most one block.
\<close>

lemma adapter_memory:
  assumes "sql_engine_adapter_execute env cfg sql_text e = Returns r e'"
  shows "\<exists>owned'. sql_engine_adapter_heap env cfg sql_text e (Some owned) = Some owned'
    \<and> (if ar_ok r then owned' = add_mset Output_Text owned
       else if tidy_call cfg sql_text e then owned' = owned
       else owned' = owned \<or> (\<exists>b\<in>set (Token_Array # statement_blocks). owned' = add_mset b owned))"
  using adapter_memory_call [OF assms, of "Some owned"]
  by (auto simp: call_heap_ok_def left_over_def own_def split: if_splits)

text \<open>The leak of a refused text.\<close>

lemma refused_text_leaks:
  "sql_engine_adapter_heap demo_env demo_config (Some ''SELECT ?'') demo_engine (Some {#}) = Some {#Token_Array#}
   \<and> \<not> tidy_call demo_config (Some ''SELECT ?'') demo_engine"
proof -
  have "isl (lex_sql ''SELECT ?'')" by code_simp
  then obtain m where m: "lex_sql ''SELECT ?'' = Inl m" by (auto simp: isl_def)
  have b: "\<not> is_blank_sql ''SELECT ?''" "lex_left 0 ''SELECT ?'' [] \<noteq> []" by code_simp+
  have "sql_engine_adapter_heap demo_env demo_config (Some ''SELECT ?'') demo_engine (Some {#}) = Some {#Token_Array#}"
    using m b by (simp add: sql_engine_adapter_heap_def demo_engine_simps own_def)
  with m show ?thesis by (simp add: tidy_call_def)
qed

end
