(* ===== verification/Http_Response.thy ===== *)
theory Http_Response
  imports Engine_Adapter
begin

text \<open>
  HTTP responses, \<open>src/http/http_response.c\<close>: the status of an error code, JSON escaping, the
  error body, and sending. A socket that is written to is the list of what the successive
  calls of \<open>sql_platform_send_socket\<close> answer (after them the connection is broken); allocations
  succeed.
\<close>

record http_response =
  rs_status_code :: int
  rs_content_type :: "string option"
  rs_body :: "string option"
  rs_body_length :: nat

definition http_response_init :: http_response where
  "http_response_init = \<lparr>rs_status_code = 0, rs_content_type = None, rs_body = None, rs_body_length = 0\<rparr>"

definition http_response_free :: "http_response \<Rightarrow> http_response" where
  "http_response_free r = http_response_init"

definition http_reason_phrase :: "int \<Rightarrow> string" where
  "http_reason_phrase status =
     (if status = 200 then ''OK''
      else if status = 400 then ''Bad Request''
      else if status = 404 then ''Not Found''
      else if status = 405 then ''Method Not Allowed''
      else if status = 411 then ''Length Required''
      else if status = 413 then ''Payload Too Large''
      else if status = 431 then ''Request Header Fields Too Large''
      else if status = 500 then ''Internal Server Error''
      else if status = 501 then ''Not Implemented''
      else if status = 503 then ''Service Unavailable''
      else ''Internal Server Error'')"

definition http_status_from_engine_error :: "sql_engine_error_code \<Rightarrow> int" where
  "http_status_from_engine_error code =
     (case code of
        SQL_ENGINE_ERROR_INVALID_JSON \<Rightarrow> 400
      | SQL_ENGINE_ERROR_MISSING_SQL_FIELD \<Rightarrow> 400
      | SQL_ENGINE_ERROR_INVALID_CONTENT_TYPE \<Rightarrow> 400
      | SQL_ENGINE_ERROR_INVALID_CONTENT_LENGTH \<Rightarrow> 400
      | SQL_ENGINE_ERROR_SQL_LEX_ERROR \<Rightarrow> 400
      | SQL_ENGINE_ERROR_SQL_PARSE_ERROR \<Rightarrow> 400
      | SQL_ENGINE_ERROR_UNSUPPORTED_SQL \<Rightarrow> 400
      | SQL_ENGINE_ERROR_INVALID_SQL_ARGUMENT \<Rightarrow> 400
      | SQL_ENGINE_ERROR_NOT_FOUND \<Rightarrow> 404
      | SQL_ENGINE_ERROR_METHOD_NOT_ALLOWED \<Rightarrow> 405
      | SQL_ENGINE_ERROR_CONTENT_LENGTH_REQUIRED \<Rightarrow> 411
      | SQL_ENGINE_ERROR_PAYLOAD_TOO_LARGE \<Rightarrow> 413
      | SQL_ENGINE_ERROR_HEADER_TOO_LARGE \<Rightarrow> 431
      | SQL_ENGINE_ERROR_CHUNKED_NOT_SUPPORTED \<Rightarrow> 501
      | SQL_ENGINE_ERROR_QUEUE_FULL \<Rightarrow> 503
      | SQL_ENGINE_ERROR_SCHEMA_LOAD_ERROR \<Rightarrow> 500
      | SQL_ENGINE_ERROR_STORAGE_IO_ERROR \<Rightarrow> 500
      | SQL_ENGINE_ERROR_INDEX_REBUILD_ERROR \<Rightarrow> 500
      | SQL_ENGINE_ERROR_ENGINE_EXECUTION_ERROR \<Rightarrow> 500
      | SQL_ENGINE_ERROR_INTERNAL_ERROR \<Rightarrow> 500
      | SQL_ENGINE_ERROR_NONE \<Rightarrow> 500)"

section \<open>JSON strings\<close>

abbreviation BSL :: char where "BSL \<equiv> CHR 0x5C"

text \<open>The first loop counts the bytes of the result, the second writes them.\<close>

fun escaped_length :: "string \<Rightarrow> nat" where
  "escaped_length [] = 0"
| "escaped_length (c # cs) =
     (if c = BSL \<or> c = DQ \<or> c = LF \<or> c = CR \<or> c = TAB then 2 else 1) + escaped_length cs"

fun escape_loop :: "string \<Rightarrow> string" where
  "escape_loop [] = []"
| "escape_loop (c # cs) =
     (if c = BSL then [BSL, BSL]
      else if c = DQ then [BSL, DQ]
      else if c = LF then [BSL, CHR ''n'']
      else if c = CR then [BSL, CHR ''r'']
      else if c = TAB then [BSL, CHR ''t'']
      else [c]) @ escape_loop cs"

text \<open>\<^term>\<open>None\<close> would be a write past the buffer of \<open>escaped_length value + 1\<close> bytes.\<close>

definition http_json_escape :: "string \<Rightarrow> string option" where
  "http_json_escape v =
     (if length (escape_loop v) + 1 \<le> escaped_length v + 1 then Some (escape_loop v) else None)"

lemma escape_fits [simp]: "http_json_escape v = Some (escape_loop v)"
proof -
  have "length (escape_loop v) = escaped_length v" by (induction v) auto
  then show ?thesis by (simp add: http_json_escape_def)
qed

section \<open>Building a response\<close>

definition http_response_set_body :: "http_response \<Rightarrow> int \<Rightarrow> string \<Rightarrow> string \<Rightarrow> http_response" where
  "http_response_set_body r status content_type body =
     r\<lparr>rs_status_code := status, rs_content_type := Some content_type, rs_body := Some body,
       rs_body_length := length body\<rparr>"

definition http_response_set_json :: "http_response \<Rightarrow> int \<Rightarrow> string \<Rightarrow> http_response" where
  "http_response_set_json r status body =
     http_response_set_body r status ''application/json; charset=utf-8'' body"

definition http_response_set_html :: "http_response \<Rightarrow> int \<Rightarrow> string \<Rightarrow> http_response" where
  "http_response_set_html r status body =
     http_response_set_body r status ''text/html; charset=utf-8'' body"

definition json_field :: "string \<Rightarrow> string" where
  "json_field name = [DQ] @ name @ [DQ, CHR '':'']"

definition error_body :: "sql_engine_error_code \<Rightarrow> string \<Rightarrow> string" where
  "error_body code escaped =
     ''{'' @ json_field ''ok'' @ ''false,'' @ json_field ''error'' @ ''{'' @ json_field ''code'' @ [DQ]
     @ sql_engine_error_code_name code @ [DQ, COMMA] @ json_field ''message'' @ [DQ] @ escaped @ [DQ] @ ''}}''"

text \<open>\<^term>\<open>None\<close> is the return value 0.\<close>

definition http_response_set_error ::
  "http_response \<Rightarrow> sql_engine_error_code \<Rightarrow> string \<Rightarrow> http_response option" where
  "http_response_set_error r code message =
     (case http_json_escape message of
        None \<Rightarrow> None
      | Some escaped \<Rightarrow>
          if 1024 \<le> length (error_body code escaped) then None
          else Some (http_response_set_json r (http_status_from_engine_error code)
                       (error_body code escaped)))"

section \<open>Sending\<close>

text \<open>The result, the bytes sent, and the answers the socket has left.\<close>

fun send_all :: "int list \<Rightarrow> string \<Rightarrow> bool \<times> string \<times> int list" where
  "send_all [] buf = (buf = [], [], [])"
| "send_all (n # ns) buf =
     (if buf = [] then (True, [], n # ns)
      else if n \<le> 0 then (False, [], ns)
      else
        (case send_all ns (drop (nat n) buf) of
           (ok, sent, ns') \<Rightarrow> (ok, take (nat n) buf @ sent, ns')))"

abbreviation CRLF :: string where "CRLF \<equiv> [CR, LF]"

definition response_header :: "http_response \<Rightarrow> string" where
  "response_header r =
     ''HTTP/1.1 '' @ show_int (rs_status_code r) @ '' '' @ http_reason_phrase (rs_status_code r) @ CRLF
     @ ''Content-Type: ''
     @ (case rs_content_type r of Some t \<Rightarrow> t | None \<Rightarrow> ''application/json; charset=utf-8'') @ CRLF
     @ ''Content-Length: '' @ show_int (int (rs_body_length r)) @ CRLF
     @ ''Connection: close'' @ CRLF @ CRLF"

definition http_response_send :: "int list \<Rightarrow> http_response \<Rightarrow> bool \<times> string" where
  "http_response_send sock r =
     (if 256 \<le> length (response_header r) then (False, [])
      else
        (case send_all sock (response_header r) of
           (ok, sent, sock') \<Rightarrow>
             if \<not> ok then (False, sent)
             else if 0 < rs_body_length r
             then (case rs_body r of
                     None \<Rightarrow> (False, sent)
                   | Some body \<Rightarrow>
                       (case send_all sock' (take (rs_body_length r) body) of
                          (ok', sent', _) \<Rightarrow> (ok', sent @ sent')))
             else (True, sent)))"

end
