(* ===== verification/Http_Request.thy ===== *)
theory Http_Request
  imports Engine_Adapter
begin

text \<open>
  Reading one HTTP request, \<open>src/http/http_request.c\<close>. The socket is the bytes that arrive before
  the peer closes the connection, and how many bytes the successive calls of \<open>recv\<close> for the
  body deliver (at least one while bytes are left). Allocations succeed. The header text is
  used as a C string, so everything from its first NUL on is not seen.
\<close>

section \<open>The request\<close>

record http_request =
  rq_method :: string
  rq_path :: string
  rq_version :: string
  rq_headers :: "(string \<times> string) list"
  rq_body :: string
  rq_body_length :: nat

type_synonym request_error = "sql_engine_error_code \<times> string"

definition http_request_init :: http_request where
  "http_request_init = \<lparr>rq_method = [], rq_path = [], rq_version = [], rq_headers = [], rq_body = [],
     rq_body_length = 0\<rparr>"

definition http_request_free :: "http_request \<Rightarrow> http_request" where
  "http_request_free r = http_request_init"

definition set_read_error :: "sql_engine_error_code \<Rightarrow> string \<Rightarrow> request_error" where
  "set_read_error code message = (code, snprintf 256 message)"

fun get_header_loop :: "(string \<times> string) list \<Rightarrow> string \<Rightarrow> string option" where
  "get_header_loop [] name = None"
| "get_header_loop (h # hs) name =
     (if strings_equal_ignore_case (fst h) name then Some (snd h) else get_header_loop hs name)"

definition http_request_get_header :: "http_request \<Rightarrow> string \<Rightarrow> string option" where
  "http_request_get_header r name = get_header_loop (rq_headers r) name"

definition push_header :: "http_request \<Rightarrow> string \<Rightarrow> string \<Rightarrow> http_request" where
  "push_header r name val = r\<lparr>rq_headers := rq_headers r @ [(name, val)]\<rparr>"

section \<open>Library functions on strings\<close>

text \<open>\<open>strstr(s, "\r\n")\<close>: the bytes before and after the first line end.\<close>

fun find_crlf :: "string \<Rightarrow> (string \<times> string) option" where
  "find_crlf (c # d # cs) =
     (if c = CR \<and> d = LF then Some ([], cs)
      else map_option (\<lambda>(l, rest). (c # l, rest)) (find_crlf (d # cs)))"
| "find_crlf cs = None"

text \<open>
  The pieces that successive calls of \<open>strtok\<close> return: maximal runs without the delimiter,
  empty ones left out.
\<close>

function strtok :: "char \<Rightarrow> string \<Rightarrow> string list" where
  "strtok d s =
     (let s' = dropWhile (\<lambda>c. c = d) s in
      if s' = [] then []
      else takeWhile (\<lambda>c. c \<noteq> d) s' # strtok d (dropWhile (\<lambda>c. c \<noteq> d) s'))"
  by pat_completeness auto
termination
proof (relation "measure (\<lambda>(d, s). length s)", goal_cases)
  case (2 d s s')
  then obtain c cs where s': "s' = c # cs" "c \<noteq> d"
    by (metis (full_types) dropWhile_eq_Cons_conv neq_Nil_conv)
  have "length (dropWhile (\<lambda>c. c \<noteq> d) cs) \<le> length cs" by (rule length_dropWhile_le)
  moreover have "length s' \<le> length s" unfolding 2(1) by (rule length_dropWhile_le)
  ultimately show ?case using s' by simp
qed simp

declare strtok.simps [simp del]

text \<open>One \<open>%<n>s\<close> conversion of \<open>sscanf\<close>: skip blanks, then at most \<open>n\<close> bytes that are not blank.\<close>

definition scan_word :: "nat \<Rightarrow> string \<Rightarrow> string \<times> string" where
  "scan_word n s =
     (let s' = dropWhile isspace s; w = take n (takeWhile (\<lambda>c. \<not> isspace c) s') in
      (w, drop (length w) s'))"

section \<open>Parsing the header text\<close>

definition parse_request_line :: "http_request \<Rightarrow> string \<Rightarrow> request_error + http_request" where
  "parse_request_line r line =
     (case scan_word 15 line of
        (method, s1) \<Rightarrow>
          (case scan_word 127 s1 of
             (path, s2) \<Rightarrow>
               (case scan_word 15 s2 of
                  (version, s3) \<Rightarrow>
                    if method = [] \<or> path = [] \<or> version = [] \<or> fst (scan_word 1 s3) \<noteq> []
                    then Inl (set_read_error SQL_ENGINE_ERROR_INVALID_CONTENT_LENGTH
                                ''invalid HTTP request line'')
                    else if version \<noteq> ''HTTP/1.1''
                    then Inl (set_read_error SQL_ENGINE_ERROR_INVALID_CONTENT_LENGTH
                                ''only HTTP/1.1 is supported'')
                    else Inr (r\<lparr>rq_method := method, rq_path := path, rq_version := version\<rparr>))))"

lemma find_crlf_length: "find_crlf s = Some (l, rest) \<Longrightarrow> length l + 2 + length rest = length s"
  by (induction s arbitrary: l rest rule: find_crlf.induct) (auto split: if_splits)

function header_loop :: "string \<Rightarrow> http_request \<Rightarrow> request_error + http_request" where
  "header_loop cursor r =
     (if cursor = [] then Inr r
      else
        (case find_crlf cursor of
           None \<Rightarrow> Inl (set_read_error SQL_ENGINE_ERROR_INVALID_CONTENT_LENGTH
                        ''malformed HTTP header line'')
         | Some (line, rest) \<Rightarrow>
             if line = [] then Inr r
             else if hd line = SP \<or> hd line = TAB
             then Inl (set_read_error SQL_ENGINE_ERROR_INVALID_CONTENT_LENGTH
                         ''folded HTTP headers are not supported'')
             else if CHR '':'' \<notin> set line
             then Inl (set_read_error SQL_ENGINE_ERROR_INVALID_CONTENT_LENGTH
                         ''malformed HTTP header line'')
             else header_loop rest
                    (push_header r (trim_whitespace (takeWhile (\<lambda>c. c \<noteq> CHR '':'') line))
                       (trim_whitespace (tl (dropWhile (\<lambda>c. c \<noteq> CHR '':'') line))))))"
  by pat_completeness auto
termination
  by (relation "measure (\<lambda>(cursor, r). length cursor)") (auto dest!: find_crlf_length)

declare header_loop.simps [simp del]

section \<open>Reading from the socket\<close>

text \<open>
  The loop that reads the header byte by byte, with the bytes so far: the header and the rest of
  the input, or what ended it.
\<close>

datatype header_read = Header string string | Truncated | Too_Large

fun read_header :: "nat \<Rightarrow> string \<Rightarrow> string \<Rightarrow> header_read" where
  "read_header limit [] buf = (if length buf < limit then Truncated else Too_Large)"
| "read_header limit (c # input) buf =
     (if length buf < limit then
        (let buf' = buf @ [c] in
         if 4 \<le> length buf' \<and> drop (length buf' - 4) buf' = [CR, LF, CR, LF]
         then Header buf' input
         else read_header limit input buf')
      else Too_Large)"

text \<open>\<open>recv_exact\<close>: the bytes read, or nothing when the connection ends early.\<close>

function recv_exact :: "nat list \<Rightarrow> string \<Rightarrow> nat \<Rightarrow> (string \<times> string) option" where
  "recv_exact chunks input n =
     (if n = 0 then Some ([], input)
      else if input = [] then None
      else
        let offered = (case chunks of [] \<Rightarrow> n | k # ks \<Rightarrow> max 1 k);
            got = min offered (min n (length input)) in
        map_option (\<lambda>(bs, rest). (take got input @ bs, rest))
          (recv_exact (tl chunks) (drop got input) (n - got)))"
  by pat_completeness auto
termination by (relation "measure (\<lambda>(chunks, input, n). n)") (auto split: list.splits)

declare recv_exact.simps [simp del]

fun has_chunked :: "string list \<Rightarrow> bool" where
  "has_chunked [] = False"
| "has_chunked (t # ts) =
     (if strings_equal_ignore_case (trim_whitespace t) ''chunked'' then True else has_chunked ts)"

text \<open>The body part, once the headers are known, with the input after the header.\<close>

definition read_body ::
  "nat list \<Rightarrow> nat \<Rightarrow> http_request \<Rightarrow> string \<Rightarrow> (request_error + http_request) \<times> string" where
  "read_body chunks body_limit r input =
     (case (case http_request_get_header r ''Content-Length'' of
              None \<Rightarrow> Some (- 1)
            | Some v \<Rightarrow> (case parse_int_strict v of
                          None \<Rightarrow> None | Some n \<Rightarrow> if n < 0 then None else Some n)) of
        None \<Rightarrow> (Inl (set_read_error SQL_ENGINE_ERROR_INVALID_CONTENT_LENGTH
                       ''Content-Length must be a non-negative integer''), input)
      | Some n \<Rightarrow>
          if 0 < n then
            if body_limit < nat n
            then (Inl (set_read_error SQL_ENGINE_ERROR_PAYLOAD_TOO_LARGE
                         ''request body exceeds configured size limit''), input)
            else
              (case recv_exact chunks input (nat n) of
                 None \<Rightarrow> (Inl (set_read_error SQL_ENGINE_ERROR_INVALID_CONTENT_LENGTH
                                ''request body is shorter than Content-Length''), [])
               | Some (body, rest) \<Rightarrow>
                   (Inr (r\<lparr>rq_body := body, rq_body_length := nat n\<rparr>), rest))
          else (Inr (r\<lparr>rq_body := []\<rparr>), input))"

text \<open>The result and the input that was not read.\<close>

definition http_read_request ::
  "nat list \<Rightarrow> nat \<Rightarrow> nat \<Rightarrow> string \<Rightarrow> (request_error + http_request) \<times> string" where
  "http_read_request chunks header_limit body_limit input =
     (case read_header header_limit input [] of
        Truncated \<Rightarrow> (Inl (set_read_error SQL_ENGINE_ERROR_INVALID_CONTENT_LENGTH
                            ''truncated HTTP request''), [])
      | Too_Large \<Rightarrow> (Inl (set_read_error SQL_ENGINE_ERROR_HEADER_TOO_LARGE
                            ''HTTP headers exceed configured size limit''),
                      drop header_limit input)
      | Header buf rest \<Rightarrow>
          (case find_crlf (c_str buf) of
             None \<Rightarrow> (Inl (set_read_error SQL_ENGINE_ERROR_INVALID_CONTENT_LENGTH
                            ''malformed HTTP request''), rest)
           | Some (line, cursor) \<Rightarrow>
               (case parse_request_line http_request_init line of
                  Inl err \<Rightarrow> (Inl err, rest)
                | Inr r \<Rightarrow>
                    (case header_loop cursor r of
                       Inl err \<Rightarrow> (Inl err, rest)
                     | Inr r' \<Rightarrow>
                         if (case http_request_get_header r' ''Transfer-Encoding'' of
                               None \<Rightarrow> False | Some v \<Rightarrow> has_chunked (strtok COMMA v))
                         then (Inl (set_read_error SQL_ENGINE_ERROR_CHUNKED_NOT_SUPPORTED
                                      ''Transfer-Encoding: chunked is not supported''), rest)
                         else read_body chunks body_limit r' rest))))"

end
