(* ===== verification/Root_Page.thy ===== *)
theory Root_Page
  imports Http_Response
begin

text \<open>
  The page of \<open>src/api/root_handler.c\<close>, one string constant, by its lines: the head and its styles
  in two parts, the visible part, and the two halves of the script. It is a format of \<open>snprintf\<close>, with two
  \<open>%d\<close> and one \<open>%%\<close>. Bytes outside ASCII are the UTF-8 text of the source.
\<close>

definition root_page_head :: "string list" where
  "root_page_head =
    [
     ''<!doctype html>'',
     ''<html lang='' @ [DQ] @ ''ko'' @ [DQ] @ ''>'',
     ''<head>'',
     ''  <meta charset='' @ [DQ] @ ''utf-8'' @ [DQ] @ ''>'',
     ''  <meta name='' @ [DQ] @ ''viewport'' @ [DQ] @ '' content='' @ [DQ] @
       ''width=device-width, initial-scale=1'' @ [DQ] @ ''>'',
     ''  <title>SQL API Console</title>'',
     ''  <style>'',
     ''    :root {'',
     ''      --bg: #f3f4f6;'',
     ''      --panel: #ffffff;'',
     ''      --border: #d1d5db;'',
     ''      --text: #111827;'',
     ''      --muted: #6b7280;'',
     ''      --console: #111111;'',
     ''      --console-text: #f3f4f6;'',
     ''      --ok: #166534;'',
     ''      --ok-bg: #dcfce7;'',
     ''      --running: #1d4ed8;'',
     ''      --running-bg: #dbeafe;'',
     ''      --error: #b91c1c;'',
     ''      --error-bg: #fee2e2;'',
     ''    }'',
     ''    * { box-sizing: border-box; }'',
     ''    body {'',
     ''      margin: 0;'',
     ''      min-height: 100vh;'',
     ''      background: var(--bg);'',
     ''      color: var(--text);'',
     ''      font-family: '' @ [DQ] @ ''Courier New'' @ [DQ] @ '', monospace;'',
     ''    }'',
     ''    .page {'',
     ''      max-width: 960px;'',
     ''      margin: 0 auto;'',
     ''      padding: 24px 16px 40px;'',
     ''    }'',
     ''    h1 {'',
     ''      margin: 0 0 8px;'',
     ''      font-size: 24px;'',
     ''      font-weight: 700;'',
     ''    }'',
     ''    .sub {'',
     ''      margin: 0 0 16px;'',
     ''      color: var(--muted);'',
     ''      font-size: 14px;'',
     ''    }'',
     ''    .panel {'',
     ''      background: var(--panel);'',
     ''      border: 1px solid var(--border);'',
     ''      border-radius: 10px;'',
     ''      padding: 16px;'',
     ''    }'',
     ''    .endpoints {'',
     ''      margin: 0 0 16px;'',
     ''      color: var(--muted);'',
     ''      font-size: 13px;'',
     ''      line-height: 1.6;'',
     ''    }'',
     ''    textarea {'',
     ''      width: 100%%;'',
     ''      min-height: 180px;'',
     ''      resize: vertical;'',
     ''      padding: 14px;'',
     ''      border: 1px solid var(--border);'',
     ''      border-radius: 8px;'',
     ''      background: #ffffff;'',
     ''      color: var(--text);'',
     ''      font: 14px/1.6 '' @ [DQ] @ ''Courier New'' @ [DQ] @ '', monospace;'',
     ''    }'',
     ''    textarea[readonly] {'',
     ''      background: #f3f4f6;'',
     ''      cursor: wait;'',
     ''    }'',
     ''    .toolbar {'',
     ''      display: flex;'',
     ''      flex-wrap: wrap;'',
     ''      gap: 10px;'',
     ''      align-items: center;'',
     ''      margin-top: 12px;'',
     ''    }'',
     ''    button {'',
     ''      appearance: none;'',
     ''      border: 1px solid #374151;'',
     ''      border-radius: 8px;'',
     ''      padding: 10px 14px;'',
     ''      background: #111827;'',
     ''      color: #f9fafb;'',
     ''      font: 700 14px/1 '' @ [DQ] @ ''Courier New'' @ [DQ] @ '', monospace;'',
     ''      cursor: pointer;'',
     ''    }'']"

definition root_page_panels :: "string list" where
  "root_page_panels =
    [
     ''    button:disabled {'',
     ''      opacity: 0.6;'',
     ''      cursor: wait;'',
     ''    }'',
     ''    .hint {'',
     ''      color: var(--muted);'',
     ''      font-size: 12px;'',
     ''    }'',
     ''    .status {'',
     ''      margin-top: 16px;'',
     ''      min-height: 44px;'',
     ''      padding: 10px 12px;'',
     ''      border-radius: 8px;'',
     ''      border: 1px solid var(--border);'',
     ''      font-size: 14px;'',
     ''      line-height: 1.5;'',
     ''      white-space: pre-wrap;'',
     ''    }'',
     ''    .status.ok {'',
     ''      background: var(--ok-bg);'',
     ''      color: var(--ok);'',
     ''      border-color: rgba(20, 83, 45, 0.16);'',
     ''    }'',
     ''    .status.running {'',
     ''      background: var(--running-bg);'',
     ''      color: var(--running);'',
     ''      border-color: rgba(29, 78, 216, 0.18);'',
     ''    }'',
     ''    .status.error {'',
     ''      background: var(--error-bg);'',
     ''      color: var(--error);'',
     ''      border-color: #fecaca;'',
     ''    }'',
     ''    .console {'',
     ''      margin: 12px 0 0;'',
     ''      min-height: 260px;'',
     ''      padding: 14px;'',
     ''      overflow: auto;'',
     ''      border-radius: 8px;'',
     ''      background: var(--console);'',
     ''      color: var(--console-text);'',
     ''      border: 1px solid #1f2937;'',
     ''      font: 14px/1.6 '' @ [DQ] @ ''Courier New'' @ [DQ] @ '', monospace;'',
     ''      white-space: pre-wrap;'',
     ''      word-break: break-word;'',
     ''    }'',
     ''    .meta {'',
     ''      display: grid;'',
     ''      gap: 10px;'',
     ''      grid-template-columns: repeat(3, minmax(0, 1fr));'',
     ''      margin-top: 12px;'',
     ''    }'',
     ''    .meta-item {'',
     ''      padding: 10px 12px;'',
     ''      background: #f9fafb;'',
     ''      border: 1px solid var(--border);'',
     ''      border-radius: 8px;'',
     ''      font-size: 13px;'',
     ''    }'',
     ''    .meta-key {'',
     ''      display: block;'',
     ''      margin-bottom: 4px;'',
     ''      color: var(--muted);'',
     ''      font-size: 12px;'',
     ''    }'',
     ''    @media (max-width: 640px) {'',
     ''      .page { padding: 16px 12px 24px; }'',
     ''      .panel { padding: 12px; }'',
     ''      .meta { grid-template-columns: 1fr; }'',
     ''    }'',
     ''  </style>'',
     ''</head>'']"

definition root_page_body :: "string list" where
  "root_page_body =
    [
     ''<body>'',
     ''  <div class='' @ [DQ] @ ''page'' @ [DQ] @ ''>'',
     ''    <div class='' @ [DQ] @ ''panel'' @ [DQ] @ ''>'',
     ''      <h1>SQL API Console</h1>'',
     ''      <p class='' @ [DQ] @ ''sub'' @ [DQ] @ ''>POST /query '' @
       [CHR 0xEB, CHR 0xA5, CHR 0xBC] @ '' '' @ [CHR 0xED, CHR 0x98, CHR 0xB8, CHR 0xEC,
       CHR 0xB6, CHR 0x9C, CHR 0xED, CHR 0x95, CHR 0x98, CHR 0xEB, CHR 0x8A, CHR 0x94] @
       '' '' @ [CHR 0xEA, CHR 0xB0, CHR 0x84, CHR 0xEB, CHR 0x8B, CHR 0xA8, CHR 0xED, CHR 0x95,
       CHR 0x9C] @ '' '' @ [CHR 0xED, CHR 0x85, CHR 0x8C, CHR 0xEC, CHR 0x8A, CHR 0xA4,
       CHR 0xED, CHR 0x8A, CHR 0xB8] @ '' '' @ [CHR 0xED, CHR 0x99, CHR 0x94, CHR 0xEB,
       CHR 0xA9, CHR 0xB4, CHR 0xEC, CHR 0x9E, CHR 0x85, CHR 0xEB, CHR 0x8B, CHR 0x88,
       CHR 0xEB, CHR 0x8B, CHR 0xA4] @ ''.</p>'',
     ''      <div class='' @ [DQ] @ ''endpoints'' @ [DQ] @
       ''>GET /health<br>POST /query<br>workers: %d / queue_depth: %d</div>'',
     ''      <textarea id='' @ [DQ] @ ''sql-input'' @ [DQ] @ '' spellcheck='' @ [DQ] @
       ''false'' @ [DQ] @ ''>SELECT name FROM student WHERE id = 1;</textarea>'',
     ''      <div class='' @ [DQ] @ ''toolbar'' @ [DQ] @ ''>'',
     ''        <button id='' @ [DQ] @ ''run-button'' @ [DQ] @ ''>Run</button>'',
     ''        <span class='' @ [DQ] @ ''hint'' @ [DQ] @ ''>Ctrl + Enter '' @
       [CHR 0xEB, CHR 0x98, CHR 0x90, CHR 0xEB, CHR 0x8A, CHR 0x94] @
       '' Cmd + Enter / help, .help, --help</span>'',
     ''      </div>'',
     ''      <div id='' @ [DQ] @ ''status'' @ [DQ] @ '' class='' @ [DQ] @ ''status ok'' @
       [DQ] @ ''>ready</div>'',
     ''      <div class='' @ [DQ] @ ''meta'' @ [DQ] @ ''>'',
     ''        <div class='' @ [DQ] @ ''meta-item'' @ [DQ] @ ''><span class='' @ [DQ] @
       ''meta-key'' @ [DQ] @ ''>statement_type</span><span id='' @ [DQ] @ ''statement-type'' @
       [DQ] @ ''>-</span></div>'',
     ''        <div class='' @ [DQ] @ ''meta-item'' @ [DQ] @ ''><span class='' @ [DQ] @
       ''meta-key'' @ [DQ] @ ''>summary</span><span id='' @ [DQ] @ ''summary'' @ [DQ] @
       ''>-</span></div>'',
     ''        <div class='' @ [DQ] @ ''meta-item'' @ [DQ] @ ''><span class='' @ [DQ] @
       ''meta-key'' @ [DQ] @ ''>elapsed_ms (cpu)</span><span id='' @ [DQ] @ ''elapsed'' @
       [DQ] @ ''>-</span></div>'',
     ''        <div class='' @ [DQ] @ ''meta-item'' @ [DQ] @ ''><span class='' @ [DQ] @
       ''meta-key'' @ [DQ] @ ''>wall_elapsed_ms</span><span id='' @ [DQ] @ ''wall-elapsed'' @
       [DQ] @ ''>-</span></div>'',
     ''      </div>'',
     ''      <pre id='' @ [DQ] @ ''console'' @ [DQ] @ '' class='' @ [DQ] @ ''console'' @
       [DQ] @ ''>waiting for query execution...</pre>'',
     ''    </div>'',
     ''  </div>'',
     ''  <script>'']"

definition root_page_script :: "string list" where
  "root_page_script =
    [
     ''    const sqlInput = document.getElementById('' @ [SQ] @ ''sql-input'' @ [SQ] @ '');'',
     ''    const runButton = document.getElementById('' @ [SQ] @ ''run-button'' @ [SQ] @
       '');'',
     ''    const statusBox = document.getElementById('' @ [SQ] @ ''status'' @ [SQ] @ '');'',
     ''    const consoleBox = document.getElementById('' @ [SQ] @ ''console'' @ [SQ] @ '');'',
     ''    const statementType = document.getElementById('' @ [SQ] @ ''statement-type'' @
       [SQ] @ '');'',
     ''    const summary = document.getElementById('' @ [SQ] @ ''summary'' @ [SQ] @ '');'',
     ''    const elapsed = document.getElementById('' @ [SQ] @ ''elapsed'' @ [SQ] @ '');'',
     ''    const wallElapsed = document.getElementById('' @ [SQ] @ ''wall-elapsed'' @ [SQ] @
       '');'',
     ''    const defaultRunButtonText = runButton.textContent;'',
     [],
     ''    function setStatus(kind, message) {'',
     ''      statusBox.className = '' @ [SQ] @ ''status '' @ [SQ] @ '' + kind;'',
     ''      statusBox.textContent = message;'',
     ''    }'',
     [],
     ''    function setRunningState(isRunning) {'',
     ''      runButton.disabled = isRunning;'',
     ''      runButton.textContent = isRunning ? '' @ [SQ] @ ''Running...'' @ [SQ] @
       '' : defaultRunButtonText;'',
     ''      sqlInput.readOnly = isRunning;'',
     ''    }'',
     [],
     ''    function setResult(data) {'',
     ''      statementType.textContent = data.statement_type || '' @ [SQ] @ ''-'' @ [SQ] @
       '';'',
     ''      summary.textContent = data.summary || '' @ [SQ] @ ''-'' @ [SQ] @ '';'',
     ''      elapsed.textContent = typeof data.elapsed_ms === '' @ [SQ] @ ''number'' @ [SQ] @
       '' ? data.elapsed_ms.toFixed(3) + '' @ [SQ] @ '' ms'' @ [SQ] @ '' : '' @ [SQ] @ ''-'' @
       [SQ] @ '';'',
     ''      wallElapsed.textContent = typeof data.wall_elapsed_ms === '' @ [SQ] @
       ''number'' @ [SQ] @ '' ? data.wall_elapsed_ms.toFixed(3) + '' @ [SQ] @ '' ms'' @ [SQ] @
       '' : '' @ [SQ] @ ''-'' @ [SQ] @ '';'',
     ''      consoleBox.textContent = data.output && data.output.length > 0 ? data.output : '' @
       [SQ] @ ''(no output)'' @ [SQ] @ '';'',
     ''    }'',
     [],
     ''    function buildErrorHint(error) {'',
     ''      const code = error && error.code ? error.code : '' @ [SQ, SQ] @ '';'',
     ''      const message = error && error.message ? error.message : '' @ [SQ, SQ] @ '';'',
     ''      if (code === '' @ [SQ] @ ''UNSUPPORTED_SQL'' @ [SQ] @ '' && message.indexOf('' @
       [SQ] @ ''SQL must start with SELECT or INSERT'' @ [SQ] @ '') !== -1) {'',
     ''        return '' @ [SQ] @ ''SELECT '' @
       [CHR 0xEB, CHR 0x98, CHR 0x90, CHR 0xEB, CHR 0x8A, CHR 0x94] @ '' INSERT'' @
       [CHR 0xEB, CHR 0xA1, CHR 0x9C] @ '' '' @ [CHR 0xEC, CHR 0x8B, CHR 0x9C, CHR 0xEC,
       CHR 0x9E, CHR 0x91, CHR 0xED, CHR 0x95, CHR 0xB4, CHR 0xEC, CHR 0x95, CHR 0xBC] @
       '' '' @ [CHR 0xED, CHR 0x95, CHR 0xA9, CHR 0xEB, CHR 0x8B, CHR 0x88, CHR 0xEB, CHR 0x8B,
       CHR 0xA4] @ ''. SELEC'' @ [CHR 0xEC, CHR 0xB2, CHR 0x98, CHR 0xEB, CHR 0x9F, CHR 0xBC] @
       '' '' @ [CHR 0xEC, CHR 0xB2, CHR 0xAB] @ '' '' @ [CHR 0xED, CHR 0x82, CHR 0xA4,
       CHR 0xEC, CHR 0x9B, CHR 0x8C, CHR 0xEB, CHR 0x93, CHR 0x9C, CHR 0xEC, CHR 0x97,
       CHR 0x90] @ '' '' @ [CHR 0xEC, CHR 0x98, CHR 0xA4, CHR 0xED, CHR 0x83, CHR 0x80,
       CHR 0xEA, CHR 0xB0, CHR 0x80] @ '' '' @ [CHR 0xEC, CHR 0x97, CHR 0x86, CHR 0xEB,
       CHR 0x8A, CHR 0x94, CHR 0xEC, CHR 0xA7, CHR 0x80] @ '' '' @ [CHR 0xED, CHR 0x99,
       CHR 0x95, CHR 0xEC, CHR 0x9D, CHR 0xB8, CHR 0xED, CHR 0x95, CHR 0x98, CHR 0xEC,
       CHR 0x84, CHR 0xB8, CHR 0xEC, CHR 0x9A, CHR 0x94] @ ''.'' @ [SQ] @ '';'',
     ''      }'',
     ''      if (code === '' @ [SQ] @ ''SQL_PARSE_ERROR'' @ [SQ] @ '') {'',
     ''        return '' @ [SQ, CHR 0xEC, CHR 0x84, CHR 0xB8, CHR 0xEB, CHR 0xAF, CHR 0xB8,
       CHR 0xEC, CHR 0xBD, CHR 0x9C, CHR 0xEB, CHR 0xA1, CHR 0xA0] @ '' '' @
       [CHR 0xEB, CHR 0x88, CHR 0x84, CHR 0xEB, CHR 0x9D, CHR 0xBD] @ '', FROM '' @
       [CHR 0xEC, CHR 0xA0, CHR 0x88] @ '' '' @
       [CHR 0xEB, CHR 0x88, CHR 0x84, CHR 0xEB, CHR 0x9D, CHR 0xBD] @ '', '' @
       [CHR 0xEC, CHR 0xBB, CHR 0xAC, CHR 0xEB, CHR 0x9F, CHR 0xBC] @ ''/'' @ [CHR 0xED,
       CHR 0x85, CHR 0x8C, CHR 0xEC, CHR 0x9D, CHR 0xB4, CHR 0xEB, CHR 0xB8, CHR 0x94] @
       '' '' @ [CHR 0xEC, CHR 0x9D, CHR 0xB4, CHR 0xEB, CHR 0xA6, CHR 0x84] @ '' '' @
       [CHR 0xEB, CHR 0x88, CHR 0x84, CHR 0xEB, CHR 0x9D, CHR 0xBD] @ '' '' @
       [CHR 0xEA, CHR 0xB0, CHR 0x99, CHR 0xEC, CHR 0x9D, CHR 0x80] @ '' '' @
       [CHR 0xEB, CHR 0xAC, CHR 0xB8, CHR 0xEB, CHR 0xB2, CHR 0x95] @ '' '' @ [CHR 0xEC,
       CHR 0x98, CHR 0xA4, CHR 0xEB, CHR 0xA5, CHR 0x98, CHR 0xEC, CHR 0x9D, CHR 0xB8,
       CHR 0xEC, CHR 0xA7, CHR 0x80] @ '' '' @ [CHR 0xED, CHR 0x99, CHR 0x95, CHR 0xEC,
       CHR 0x9D, CHR 0xB8, CHR 0xED, CHR 0x95, CHR 0x98, CHR 0xEC, CHR 0x84, CHR 0xB8,
       CHR 0xEC, CHR 0x9A, CHR 0x94] @ ''.'' @ [SQ] @ '';'',
     ''      }'',
     ''      if (code === '' @ [SQ] @ ''INVALID_SQL_ARGUMENT'' @ [SQ] @
       '' && message.indexOf('' @ [SQ] @ ''WHERE id = ... requires an integer value.'' @ [SQ] @
       '') !== -1) {'',
     ''        return '' @ [SQ] @ ''WHERE id = ... '' @ [CHR 0xEB, CHR 0x8A, CHR 0x94] @
       '' '' @ [CHR 0xEC, CHR 0xA0, CHR 0x95, CHR 0xEC, CHR 0x88, CHR 0x98, CHR 0xEB, CHR 0xA7,
       CHR 0x8C] @ '' '' @ [CHR 0xED, CHR 0x97, CHR 0x88, CHR 0xEC, CHR 0x9A, CHR 0xA9,
       CHR 0xED, CHR 0x95, CHR 0xA9, CHR 0xEB, CHR 0x8B, CHR 0x88, CHR 0xEB, CHR 0x8B,
       CHR 0xA4] @ ''. '' @ [CHR 0xEB, CHR 0xAC, CHR 0xB8, CHR 0xEC, CHR 0x9E, CHR 0x90,
       CHR 0xEC, CHR 0x97, CHR 0xB4] @ '' '' @ [CHR 0xEB, CHR 0xB9, CHR 0x84, CHR 0xEA,
       CHR 0xB5, CHR 0x90, CHR 0xEA, CHR 0xB0, CHR 0x80] @ '' '' @ [CHR 0xED, CHR 0x95,
       CHR 0x84, CHR 0xEC, CHR 0x9A, CHR 0x94, CHR 0xED, CHR 0x95, CHR 0x98, CHR 0xEB,
       CHR 0xA9, CHR 0xB4] @ '' '' @
       [CHR 0xEC, CHR 0x9D, CHR 0xBC, CHR 0xEB, CHR 0xB0, CHR 0x98] @ '' '' @
       [CHR 0xEC, CHR 0xBB, CHR 0xAC, CHR 0xEB, CHR 0x9F, CHR 0xBC] @ '' WHERE'' @
       [CHR 0xEB, CHR 0xA5, CHR 0xBC] @ '' '' @ [CHR 0xEC, CHR 0x82, CHR 0xAC, CHR 0xEC,
       CHR 0x9A, CHR 0xA9, CHR 0xED, CHR 0x95, CHR 0x98, CHR 0xEC, CHR 0x84, CHR 0xB8,
       CHR 0xEC, CHR 0x9A, CHR 0x94] @ ''.'' @ [SQ] @ '';'',
     ''      }'',
     ''      if (code === '' @ [SQ] @ ''INVALID_SQL_ARGUMENT'' @ [SQ] @
       '' && message.indexOf('' @ [SQ] @ ''SQL statement must not be blank'' @ [SQ] @
       '') !== -1) {'',
     ''        return '' @ [SQ, CHR 0xEB, CHR 0xB9, CHR 0x88] @ '' '' @ [CHR 0xEC, CHR 0x9E,
       CHR 0x85, CHR 0xEB, CHR 0xA0, CHR 0xA5, CHR 0xEC, CHR 0x9D, CHR 0x80] @ '' '' @
       [CHR 0xEC, CHR 0x8B, CHR 0xA4, CHR 0xED, CHR 0x96, CHR 0x89, CHR 0xEB, CHR 0x90,
       CHR 0x98, CHR 0xEC, CHR 0xA7, CHR 0x80] @ '' '' @ [CHR 0xEC, CHR 0x95, CHR 0x8A,
       CHR 0xEC, CHR 0x8A, CHR 0xB5, CHR 0xEB, CHR 0x8B, CHR 0x88, CHR 0xEB, CHR 0x8B,
       CHR 0xA4] @ ''. SELECT '' @
       [CHR 0xEB, CHR 0x98, CHR 0x90, CHR 0xEB, CHR 0x8A, CHR 0x94] @ '' INSERT '' @ [CHR 0xEB,
       CHR 0xAC, CHR 0xB8, CHR 0xEC, CHR 0x9E, CHR 0xA5, CHR 0xEC, CHR 0x9D, CHR 0x84] @
       '' '' @ [CHR 0xEC, CHR 0x9E, CHR 0x85, CHR 0xEB, CHR 0xA0, CHR 0xA5, CHR 0xED, CHR 0x95,
       CHR 0x98, CHR 0xEC, CHR 0x84, CHR 0xB8, CHR 0xEC, CHR 0x9A, CHR 0x94] @ ''.'' @ [SQ] @
       '';'',
     ''      }'',
     ''      return '' @ [SQ, SQ] @ '';'',
     ''    }'',
     [],
     ''    function setError(data) {'',
     ''      const error = data && data.error ? data.error : {};'',
     ''      const baseMessage = error.message || '' @ [SQ] @ ''request failed'' @ [SQ] @
       '';'',
     ''      const hint = buildErrorHint(error);'',
     ''      statementType.textContent = '' @ [SQ] @ ''-'' @ [SQ] @ '';'',
     ''      summary.textContent = error.code || '' @ [SQ] @ ''-'' @ [SQ] @ '';'',
     ''      elapsed.textContent = '' @ [SQ] @ ''-'' @ [SQ] @ '';'',
     ''      wallElapsed.textContent = '' @ [SQ] @ ''-'' @ [SQ] @ '';'',
     ''      consoleBox.textContent = hint ? baseMessage + '' @ [SQ, BSL] @ ''n'' @ [BSL] @
       ''n'' @ [CHR 0xEC, CHR 0xB6, CHR 0x94, CHR 0xEA, CHR 0xB0, CHR 0x80] @ '' '' @
       [CHR 0xEC, CHR 0x95, CHR 0x88, CHR 0xEB, CHR 0x82, CHR 0xB4] @ '':'' @ [BSL] @ ''n'' @
       [SQ] @ '' + hint : baseMessage;'',
     ''    }'',
     [],
     ''    function showHelp() {'',
     ''      setStatus('' @ [SQ] @ ''ok'' @ [SQ] @ '', '' @ [SQ] @ ''help'' @ [SQ] @ '');'',
     ''      statementType.textContent = '' @ [SQ] @ ''client'' @ [SQ] @ '';'',
     ''      summary.textContent = '' @ [SQ] @ ''HELP'' @ [SQ] @ '';'',
     ''      elapsed.textContent = '' @ [SQ] @ ''-'' @ [SQ] @ '';'',
     ''      wallElapsed.textContent = '' @ [SQ] @ ''-'' @ [SQ] @ '';'',
     ''      consoleBox.textContent = ['',
     ''        '' @ [SQ] @ ''SQL API Console'' @ [SQ] @ '','',
     ''        '' @ [SQ, SQ] @ '','',
     ''        '' @ [SQ] @ ''supported SQL:'' @ [SQ] @ '','',
     ''        '' @ [SQ] @ ''  SELECT ...'' @ [SQ] @ '','',
     ''        '' @ [SQ] @ ''  INSERT ...'' @ [SQ] @ '','',
     ''        '' @ [SQ, SQ] @ '','',
     ''        '' @ [SQ] @ ''examples:'' @ [SQ] @ '','',
     ''        '' @ [SQ] @ ''  SELECT name FROM student WHERE id = 1;'' @ [SQ] @ '','',
     ''        '' @ [SQ] @ ''  SELECT * FROM student WHERE age = 25;'' @ [SQ] @ '','',
     ''        '' @ [SQ, SQ] @ '','',
     ''        '' @ [SQ] @ ''special commands:'' @ [SQ] @ '','',
     ''        '' @ [SQ] @ ''  help'' @ [SQ] @ '','',
     ''        '' @ [SQ] @ ''  .help'' @ [SQ] @ '','',
     ''        '' @ [SQ] @ ''  --help'' @ [SQ] @ '','',
     ''      ].join('' @ [SQ, BSL] @ ''n'' @ [SQ] @ '');'',
     ''    }'']"

definition root_page_handlers :: "string list" where
  "root_page_handlers =
    [
     [],
     ''    async function runQuery() {'',
     ''      if (runButton.disabled) {'',
     ''        return;'',
     ''      }'',
     ''      const sql = sqlInput.value;'',
     ''      const normalized = sql.trim();'',
     ''      if (normalized === '' @ [SQ] @ ''help'' @ [SQ] @ '' || normalized === '' @
       [SQ] @ ''.help'' @ [SQ] @ '' || normalized === '' @ [SQ] @ ''--help'' @ [SQ] @ '') {'',
     ''        showHelp();'',
     ''        return;'',
     ''      }'',
     ''      if (!normalized) {'',
     ''        setStatus('' @ [SQ] @ ''error'' @ [SQ] @ '', '' @ [SQ] @
       ''empty sql is not allowed'' @ [SQ] @ '');'',
     ''        statementType.textContent = '' @ [SQ] @ ''-'' @ [SQ] @ '';'',
     ''        summary.textContent = '' @ [SQ] @ ''CLIENT_VALIDATION'' @ [SQ] @ '';'',
     ''        elapsed.textContent = '' @ [SQ] @ ''-'' @ [SQ] @ '';'',
     ''        wallElapsed.textContent = '' @ [SQ] @ ''-'' @ [SQ] @ '';'',
     ''        consoleBox.textContent = '' @ [SQ] @ ''enter a SQL statement'' @ [SQ] @ '';'',
     ''        return;'',
     ''      }'',
     ''      setRunningState(true);'',
     ''      setStatus('' @ [SQ] @ ''running'' @ [SQ] @ '', '' @ [SQ] @ ''running'' @ [SQ] @
       '');'',
     ''      consoleBox.textContent = '' @ [SQ] @ ''running...'' @ [SQ] @ '';'',
     ''      try {'',
     ''        const response = await fetch('' @ [SQ] @ ''/query'' @ [SQ] @ '', {'',
     ''          method: '' @ [SQ] @ ''POST'' @ [SQ] @ '','',
     ''          headers: { '' @ [SQ] @ ''Content-Type'' @ [SQ] @ '': '' @ [SQ] @
       ''application/json'' @ [SQ] @ '' },'',
     ''          body: JSON.stringify({ sql })'',
     ''        });'',
     ''        const data = await response.json();'',
     ''        if (!response.ok || !data.ok) {'',
     ''          setStatus('' @ [SQ] @ ''error'' @ [SQ] @ '', '' @ [SQ] @ ''error: '' @
       [SQ] @ '' + (data.error ? data.error.code : response.status));'',
     ''          setError(data);'',
     ''          return;'',
     ''        }'',
     ''        setStatus('' @ [SQ] @ ''ok'' @ [SQ] @ '', '' @ [SQ] @ ''ok'' @ [SQ] @ '');'',
     ''        setResult(data);'',
     ''      } catch (error) {'',
     ''        setStatus('' @ [SQ] @ ''error'' @ [SQ] @ '', '' @ [SQ] @ ''network error'' @
       [SQ] @ '');'',
     ''        statementType.textContent = '' @ [SQ] @ ''-'' @ [SQ] @ '';'',
     ''        summary.textContent = '' @ [SQ] @ ''CLIENT_ERROR'' @ [SQ] @ '';'',
     ''        elapsed.textContent = '' @ [SQ] @ ''-'' @ [SQ] @ '';'',
     ''        wallElapsed.textContent = '' @ [SQ] @ ''-'' @ [SQ] @ '';'',
     ''        consoleBox.textContent = error.message;'',
     ''      } finally {'',
     ''        setRunningState(false);'',
     ''      }'',
     ''    }'',
     [],
     ''    runButton.addEventListener('' @ [SQ] @ ''click'' @ [SQ] @ '', runQuery);'',
     ''    sqlInput.addEventListener('' @ [SQ] @ ''keydown'' @ [SQ] @ '', function (event) {'',
     ''      if ((event.ctrlKey || event.metaKey) && event.key === '' @ [SQ] @ ''Enter'' @
       [SQ] @ '') {'',
     ''        runQuery();'',
     ''      }'',
     ''    });'',
     ''  </script>'',
     ''</body>'',
     ''</html>'']"

definition root_page :: string where
  "root_page = concat (map (\<lambda>l. l @ [LF])
     (root_page_head @ root_page_panels @ root_page_body @ root_page_script @ root_page_handlers))"

named_theorems page_lengths

text \<open>The bytes of each part, with a line end for every line.\<close>

lemma length_root_page_head [page_lengths]: "sum_list (map (\<lambda>l. Suc (length l)) root_page_head) = 1981"
  by (simp add: root_page_head_def)

lemma length_root_page_panels [page_lengths]: "sum_list (map (\<lambda>l. Suc (length l)) root_page_panels) = 1690"
  by (simp add: root_page_panels_def)

lemma length_root_page_body [page_lengths]: "sum_list (map (\<lambda>l. Suc (length l)) root_page_body) = 1186"
  by (simp add: root_page_body_def)

lemma length_root_page_script [page_lengths]: "sum_list (map (\<lambda>l. Suc (length l)) root_page_script) = 3510"
  by (simp add: root_page_script_def)

lemma length_root_page_handlers [page_lengths]: "sum_list (map (\<lambda>l. Suc (length l)) root_page_handlers) = 1807"
  by (simp add: root_page_handlers_def)

lemma length_root_page: "length root_page = 10174"
  by (simp only: root_page_def length_concat map_map map_append sum_list_append
      comp_def length_append list.size) (simp add: page_lengths)

end
