(* ===== verification/Query_Handler.thy ===== *)
theory Query_Handler
  imports Http_Response Http_Request Root_Page
begin

text \<open>
  The handlers and the router: \<open>src/api/query_handler.c\<close>, \<open>src/api/health_handler.c\<close>,
  \<open>src/api/root_handler.c\<close> and \<open>src/http/router.c\<close>. A cursor into the body is the rest of the
  C string. A handler answers with the response it built, or with \<^term>\<open>None\<close> for its return
  value 0; it may also wait for a table lock or run into undefined behaviour, as the engine
  adapter does.
\<close>

section \<open>The JSON reader\<close>

definition skip_ws :: "string \<Rightarrow> string" where
  "skip_ws s = dropWhile (\<lambda>c. c = SP \<or> c = TAB \<or> c = CR \<or> c = LF) s"

text \<open>The loop of \<open>parse_json_string\<close>, after the opening quote, with the bytes read so far.\<close>

function json_string_loop :: "string \<Rightarrow> string \<Rightarrow> (string \<times> string) option" where
  "json_string_loop [] buf = None"
| "json_string_loop (c # cs) buf =
     (if c = DQ then Some (buf, cs)
      else if c = BSL then
        (case cs of
           [] \<Rightarrow> None
         | e # es \<Rightarrow>
             if e = DQ \<or> e = BSL \<or> e = CHR ''/'' then json_string_loop es (buf @ [e])
             else if e = CHR ''n'' then json_string_loop es (buf @ [LF])
             else if e = CHR ''r'' then json_string_loop es (buf @ [CR])
             else if e = CHR ''t'' then json_string_loop es (buf @ [TAB])
             else None)
      else json_string_loop cs (buf @ [c]))"
  by pat_completeness auto
termination by (relation "measure (\<lambda>(s, buf). length s)") auto

definition parse_json_string :: "string \<Rightarrow> (string \<times> string) option" where
  "parse_json_string s =
     (case s of [] \<Rightarrow> None | c # cs \<Rightarrow> if c = DQ then json_string_loop cs [] else None)"

definition number_char :: "char \<Rightarrow> bool" where
  "number_char c = (isdigit c \<or> c = CHR ''-'' \<or> c = CHR ''+'')"

definition skip_json_value :: "string \<Rightarrow> string option" where
  "skip_json_value cursor =
     (let input = skip_ws cursor in
      if take 1 input = [DQ] then map_option snd (parse_json_string input)
      else if take 4 input = ''null'' then Some (drop 4 input)
      else if take 4 input = ''true'' then Some (drop 4 input)
      else if take 5 input = ''false'' then Some (drop 5 input)
      else
        let rest = dropWhile number_char input in
        if length rest \<noteq> length cursor then Some rest else None)"

datatype extracted = Bad_Json | No_Sql_Field | Sql_Field string

lemma length_skip_ws: "length (skip_ws s) \<le> length s"
  by (simp add: skip_ws_def length_dropWhile_le)

lemma json_string_loop_length: "json_string_loop s buf = Some (v, rest) \<Longrightarrow> length rest < length s"
proof (induction s buf rule: json_string_loop.induct)
  case (2 c cs buf)
  then show ?case by (auto split: if_splits list.splits)
qed simp

lemma parse_json_string_length: "parse_json_string s = Some (v, rest) \<Longrightarrow> length rest < length s"
  by (auto simp: parse_json_string_def split: list.splits if_splits dest!: json_string_loop_length)

lemma skip_json_value_length: "skip_json_value s = Some rest \<Longrightarrow> length rest \<le> length s"
  using length_skip_ws [of s] length_dropWhile_le [of number_char "skip_ws s"]
  by (auto simp: skip_json_value_def Let_def split: if_splits dest!: parse_json_string_length)

text \<open>The loop over the members of the object, with the value of \<open>sql\<close> found last.\<close>

function member_loop :: "string \<Rightarrow> string option \<Rightarrow> extracted" where
  "member_loop cursor found =
     (let finish = (\<lambda>rest f. if skip_ws rest \<noteq> [] then Bad_Json
                             else (case f of None \<Rightarrow> No_Sql_Field | Some v \<Rightarrow> Sql_Field v));
          c1 = skip_ws cursor in
      if take 1 c1 = ''}'' then finish (tl c1) found
      else
        (case parse_json_string c1 of
           None \<Rightarrow> Bad_Json
         | Some (key, r2) \<Rightarrow>
             let c2 = skip_ws r2 in
             if take 1 c2 \<noteq> '':'' then Bad_Json
             else
               let c3 = skip_ws (tl c2) in
               (case (if key = ''sql''
                      then map_option (\<lambda>(v, r). (Some v, r)) (parse_json_string c3)
                      else map_option (\<lambda>r. (found, r)) (skip_json_value c3)) of
                  None \<Rightarrow> Bad_Json
                | Some (found', r4) \<Rightarrow>
                    let c4 = skip_ws r4 in
                    if take 1 c4 = '','' then member_loop (tl c4) found'
                    else if take 1 c4 = ''}'' then finish (tl c4) found'
                    else Bad_Json)))"
  by pat_completeness auto
termination
proof (relation "measure (\<lambda>(s, f). length s)", simp, goal_cases)
  case (1 cursor found finish c1 x key r2 c2 c3 y found' r4 c4)
  have "length c1 \<le> length cursor" unfolding 1(2) by (rule length_skip_ws)
  moreover have "length r2 < length c1"
    using 1(4,5) parse_json_string_length [of c1 key r2] by (simp only:)
  moreover have "length c2 \<le> length r2" unfolding 1(6) by (rule length_skip_ws)
  moreover have "length c3 \<le> length c2" unfolding 1(8) using length_skip_ws [of "tl c2"] by simp
  moreover have "length r4 \<le> length c3"
    using 1(9,10) by (auto split: if_splits dest!: parse_json_string_length skip_json_value_length)
  moreover have "length c4 \<le> length r4" unfolding 1(11) by (rule length_skip_ws)
  ultimately show ?case by simp
qed

declare member_loop.simps [simp del]

definition extract_sql_field :: "string \<Rightarrow> extracted" where
  "extract_sql_field body =
     (let c = skip_ws body in if take 1 c \<noteq> ''{'' then Bad_Json else member_loop (tl c) None)"

section \<open>The content type\<close>

text \<open>One parameter, and the loop over the parameters after the media type.\<close>

definition valid_param :: "string \<Rightarrow> bool \<Rightarrow> bool" where
  "valid_param t seen_charset =
     (let part = trim_whitespace t in
      CHR ''='' \<in> set part
      \<and> strings_equal_ignore_case (trim_whitespace (takeWhile (\<lambda>c. c \<noteq> CHR ''='') part)) ''charset''
      \<and> strings_equal_ignore_case (trim_whitespace (tl (dropWhile (\<lambda>c. c \<noteq> CHR ''='') part))) ''utf-8''
      \<and> \<not> seen_charset)"

fun content_type_params :: "string list \<Rightarrow> bool \<Rightarrow> bool" where
  "content_type_params [] seen_charset = True"
| "content_type_params (t # ts) seen_charset =
     (if valid_param t seen_charset then content_type_params ts True else False)"

definition is_valid_query_content_type :: "string option \<Rightarrow> bool" where
  "is_valid_query_content_type content_type =
     (case content_type of
        None \<Rightarrow> False
      | Some v \<Rightarrow>
          (case strtok CHR '';'' v of
             [] \<Rightarrow> False
           | t # ts \<Rightarrow>
               strings_equal_ignore_case (trim_whitespace t) ''application/json''
               \<and> content_type_params ts False))"

section \<open>Messages and bodies\<close>

definition build_user_error_message :: "sql_engine_error_code \<Rightarrow> string \<Rightarrow> string" where
  "build_user_error_message code m =
     (if code = SQL_ENGINE_ERROR_UNSUPPORTED_SQL \<and> strstr m ''only INSERT and SELECT are supported''
      then snprintf 256 ''SQL must start with SELECT or INSERT. Check the first keyword for a typo.''
      else if code = SQL_ENGINE_ERROR_SQL_PARSE_ERROR
              \<and> (strstr m ''expected identifier'' \<or> strstr m ''expected keyword'')
      then snprintf 256
             ''SQL syntax is invalid. Check that required table and column names are present.''
      else if code = SQL_ENGINE_ERROR_INVALID_SQL_ARGUMENT \<and> strstr m ''WHERE id value must be an integer''
      then snprintf 256 ''WHERE id = ... requires an integer value.''
      else if code = SQL_ENGINE_ERROR_INVALID_SQL_ARGUMENT \<and> strstr m ''SQL statement must not be blank''
      then snprintf 256 ''SQL statement must not be blank. Enter a SELECT or INSERT statement.''
      else snprintf 256 m)"

text \<open>The arguments are the two timings as \<open>%.3f\<close> prints them.\<close>

definition build_success_body :: "string \<times> string \<Rightarrow> adapter_result \<Rightarrow> string \<Rightarrow> string \<Rightarrow> string" where
  "build_success_body timings r escaped_summary escaped_output =
     ''{'' @ json_field ''ok'' @ ''true,'' @ json_field ''statement_type'' @ [DQ] @ ar_statement_type r
     @ [DQ, COMMA] @ json_field ''affected_rows'' @ show_int (ar_affected_rows r) @ '',''
     @ json_field ''summary'' @ [DQ] @ escaped_summary @ [DQ, COMMA]
     @ json_field ''output'' @ [DQ] @ escaped_output @ [DQ, COMMA]
     @ json_field ''elapsed_ms'' @ fst timings @ '','' @ json_field ''wall_elapsed_ms'' @ snd timings @ ''}''"

section \<open>Handlers\<close>

datatype handler_outcome = Answer "http_response option" engine | Blocked engine | Broken

record api_context =
  cx_config :: adapter_config
  cx_worker_count :: int
  cx_queue_depth :: int

definition api_handle_query ::
  "adapter_env \<Rightarrow> string \<times> string \<Rightarrow> http_request \<Rightarrow> api_context \<Rightarrow> engine \<Rightarrow> http_response \<Rightarrow> handler_outcome"
where
  "api_handle_query env timings rq cx e resp =
     (if http_request_get_header rq ''Content-Length'' = None
      then Answer (http_response_set_error resp SQL_ENGINE_ERROR_CONTENT_LENGTH_REQUIRED
                     ''Content-Length is required for POST /query'') e
      else if \<not> is_valid_query_content_type (http_request_get_header rq ''Content-Type'')
      then Answer (http_response_set_error resp SQL_ENGINE_ERROR_INVALID_CONTENT_TYPE
                     ''Content-Type must be application/json with optional charset=utf-8'') e
      else
        (case extract_sql_field (c_str (rq_body rq)) of
           No_Sql_Field \<Rightarrow>
             Answer (http_response_set_error resp SQL_ENGINE_ERROR_MISSING_SQL_FIELD
                       (''field '' @ [SQ] @ ''sql'' @ [SQ] @ '' is required'')) e
         | Bad_Json \<Rightarrow>
             Answer (http_response_set_error resp SQL_ENGINE_ERROR_INVALID_JSON
                       (''request body must be a JSON object containing a string field named ''
                        @ [SQ] @ ''sql'' @ [SQ])) e
         | Sql_Field sql_text \<Rightarrow>
             (case db_service_execute_sql env (cx_config cx) (Some sql_text) e of
                Undefined \<Rightarrow> Broken
              | Waits e' \<Rightarrow> Blocked e'
              | Returns r e' \<Rightarrow>
                  if \<not> ar_ok r
                  then Answer (http_response_set_error resp (ar_error_code r)
                                 (build_user_error_message (ar_error_code r) (ar_error_message r))) e'
                  else
                    (case http_json_escape (ar_summary r) of
                       None \<Rightarrow> Broken
                     | Some escaped_summary \<Rightarrow>
                         (case http_json_escape (case ar_output r of None \<Rightarrow> [] | Some out \<Rightarrow> out) of
                            None \<Rightarrow> Broken
                          | Some escaped_output \<Rightarrow>
                              Answer (Some (http_response_set_json resp 200
                                (build_success_body timings r escaped_summary escaped_output))) e')))))"

definition api_handle_health :: "http_request \<Rightarrow> api_context \<Rightarrow> http_response \<Rightarrow> http_response option" where
  "api_handle_health rq cx resp =
     (if 0 < rq_body_length rq
      then http_response_set_error resp SQL_ENGINE_ERROR_INVALID_JSON
             ''GET /health must not include a request body''
      else
        let body = ''{'' @ json_field ''ok'' @ ''true,'' @ json_field ''status'' @ [DQ] @ ''ok'' @ [DQ, COMMA]
              @ json_field ''worker_count'' @ show_int (cx_worker_count cx) @ '',''
              @ json_field ''queue_depth'' @ show_int (cx_queue_depth cx) @ ''}'' in
        if 256 \<le> length body then None else Some (http_response_set_json resp 200 body))"

text \<open>
  \<open>snprintf\<close> with the page as its format: \<open>%d\<close> takes the next number and \<open>%%\<close> is a percent
  sign.
\<close>

function page_format :: "string \<Rightarrow> int list \<Rightarrow> string" where
  "page_format [] ns = []"
| "page_format (c # cs) ns =
     (if c = CHR ''%'' \<and> take 1 cs = ''%'' then CHR ''%'' # page_format (tl cs) ns
      else if c = CHR ''%'' \<and> take 1 cs = ''d'' \<and> ns \<noteq> []
      then show_int (hd ns) @ page_format (tl cs) (tl ns)
      else c # page_format cs ns)"
  by pat_completeness auto
termination by (relation "measure (\<lambda>(s, ns). length s)") auto

definition api_handle_root ::
  "http_request \<Rightarrow> api_context \<Rightarrow> http_response \<Rightarrow> http_response option" where
  "api_handle_root rq cx resp =
     (if 0 < rq_body_length rq
      then http_response_set_error resp SQL_ENGINE_ERROR_INVALID_JSON
             ''GET / must not include a request body''
      else
        let body = page_format root_page [cx_worker_count cx, cx_queue_depth cx] in
        if 16384 \<le> length body then None else Some (http_response_set_html resp 200 body))"

section \<open>The router\<close>

definition http_route_request ::
  "adapter_env \<Rightarrow> string \<times> string \<Rightarrow> http_request \<Rightarrow> api_context \<Rightarrow> engine \<Rightarrow> http_response
     \<Rightarrow> handler_outcome" where
  "http_route_request env timings rq cx e resp =
     (if rq_path rq = ''/'' then
        if rq_method rq \<noteq> ''GET''
        then Answer (http_response_set_error resp SQL_ENGINE_ERROR_METHOD_NOT_ALLOWED
                       ''only GET is allowed for /'') e
        else Answer (api_handle_root rq cx resp) e
      else if rq_path rq = ''/health'' then
        if rq_method rq \<noteq> ''GET''
        then Answer (http_response_set_error resp SQL_ENGINE_ERROR_METHOD_NOT_ALLOWED
                       ''only GET is allowed for /health'') e
        else Answer (api_handle_health rq cx resp) e
      else if rq_path rq = ''/query'' then
        if rq_method rq \<noteq> ''POST''
        then Answer (http_response_set_error resp SQL_ENGINE_ERROR_METHOD_NOT_ALLOWED
                       ''only POST is allowed for /query'') e
        else api_handle_query env timings rq cx e resp
      else Answer (http_response_set_error resp SQL_ENGINE_ERROR_NOT_FOUND
                     ''requested path does not exist'') e)"

end
