(* ===== verification/Http_Props.thy ===== *)
theory Http_Props
  imports Query_Handler
begin

text \<open>
  What the HTTP layer promises about bytes: the JSON text it writes is read back by its own
  reader, an error always fits its buffers, and what goes over the wire is a prefix of the
  header and the body with the right length.
\<close>

section \<open>JSON\<close>

lemma escape_loop_eq: "escape_loop (c # cs) = escape_loop [c] @ escape_loop cs"
  by simp

lemma json_string_loop_escaped:
  "json_string_loop (escape_loop s @ DQ # rest) buf = Some (buf @ s, rest)"
proof (induction s arbitrary: buf)
  case (Cons c s)
  from Cons.IH [of "buf @ [c]"] show ?case by auto
qed simp

lemma parse_json_string_escaped [simp]:
  "parse_json_string (DQ # escape_loop s @ DQ # rest) = Some (s, rest)"
  by (simp add: parse_json_string_def json_string_loop_escaped)

lemma skip_ws_stop [simp]:
  "c \<noteq> SP \<Longrightarrow> c \<noteq> TAB \<Longrightarrow> c \<noteq> CR \<Longrightarrow> c \<noteq> LF \<Longrightarrow> skip_ws (c # s) = c # s"
  by (simp add: skip_ws_def)

lemma skip_ws_Nil [simp]: "skip_ws [] = []"
  by (simp add: skip_ws_def)

lemma parse_json_string_plain:
  "escape_loop s = s \<Longrightarrow> parse_json_string (DQ # s @ DQ # rest) = Some (s, rest)"
  using parse_json_string_escaped [of s rest] by simp

text \<open>The body a client sends for a SQL text.\<close>

definition sql_body :: "string \<Rightarrow> string" where
  "sql_body s = ''{'' @ json_field ''sql'' @ [DQ] @ escape_loop s @ [DQ] @ ''}''"

lemma extract_sql_body: "extract_sql_field (sql_body s) = Sql_Field s"
  using parse_json_string_plain [of "''sql''" "CHR '':'' # DQ # escape_loop s @ DQ # ''}''"]
  by (simp add: extract_sql_field_def sql_body_def json_field_def member_loop.simps Let_def)

lemma set_escape_loop: "set (escape_loop s) \<subseteq> set s \<union> {BSL, DQ, CHR ''n'', CHR ''r'', CHR ''t''}"
  by (induction s) auto

lemma sql_body_no_nul: "NUL \<notin> set s \<Longrightarrow> NUL \<notin> set (sql_body s)"
  using set_escape_loop [of s] by (auto simp: sql_body_def json_field_def)

text \<open>An escaped text never breaks out of its quotes and is free of line breaks and tabs.\<close>

lemma escape_loop_clean: "c \<in> {LF, CR, TAB} \<Longrightarrow> c \<notin> set (escape_loop s)"
  by (induction s) auto

section \<open>Lengths\<close>

lemma length_escape_loop: "length (escape_loop s) \<le> 2 * length s"
  by (induction s) auto

lemma length_code_name: "length (sql_engine_error_code_name code) \<le> 23"
  by (cases code) (simp_all add: sql_engine_error_code_name_def)

lemma error_body_fits:
  assumes "length m < 256"
  shows "length (error_body code (escape_loop m)) < 1024"
  using assms length_escape_loop [of m] length_code_name [of code]
  by (simp add: error_body_def json_field_def)

lemma status_range: "200 \<le> http_status_from_engine_error code \<and> http_status_from_engine_error code < 600"
  by (cases code) (simp_all add: http_status_from_engine_error_def)

lemma length_reason: "length (http_reason_phrase status) \<le> 31"
  by (simp add: http_reason_phrase_def)

lemma header_fits:
  assumes "0 \<le> status" and "status < 1000" and "length t \<le> 40" and "length body < 10 ^ 19"
  shows "length (response_header (http_response_set_body r status t body)) < 256"
proof -
  have s: "length (show_int status) \<le> 3"
    using length_dec_digits [of "nat status" 2] assms(1,2) by (simp add: show_int_def nat_less_iff)
  have b: "length (show_int (int (length body))) \<le> 19"
    by (rule length_show_int) (use assms(4) in simp_all)
  show ?thesis
    using s b assms(3) length_reason [of status]
    by (simp add: response_header_def http_response_set_body_def)
qed

section \<open>Sending\<close>

text \<open>What is sent is a prefix, and all of it exactly when the result is success.\<close>

lemma send_all_prefix:
  "send_all ns buf = (ok, sent, ns') \<Longrightarrow> prefix sent buf \<and> (ok \<longleftrightarrow> sent = buf)"
proof (induction ns buf arbitrary: ok sent ns' rule: send_all.induct)
  case (1 buf)
  then show ?case by auto
next
  case (2 n ns buf)
  show ?case
  proof (cases "buf = [] \<or> n \<le> 0")
    case False
    obtain ok1 sent1 ns1 where r: "send_all ns (drop (nat n) buf) = (ok1, sent1, ns1)" by (metis prod_cases3)
    with 2(2) False have "ok = ok1" "sent = take (nat n) buf @ sent1" by auto
    moreover from False have "\<not> buf = []" "\<not> n \<le> 0" by auto
    note 2(1) [OF this r]
    ultimately show ?thesis
      by (metis append_take_drop_id same_append_eq same_prefix_prefix)
  qed (use 2(2) in \<open>auto split: if_splits\<close>)
qed

definition wire :: "http_response \<Rightarrow> string" where
  "wire r = response_header r @ (case rs_body r of None \<Rightarrow> [] | Some b \<Rightarrow> b)"

lemma send_response:
  assumes "length (response_header r) < 256" and "rs_body r = Some b" and "rs_body_length r = length b"
    and "http_response_send sock r = (ok, sent)"
  shows "prefix sent (wire r) \<and> (ok \<longleftrightarrow> sent = wire r)"
proof -
  obtain ok1 sent1 sock1 where 1: "send_all sock (response_header r) = (ok1, sent1, sock1)"
    by (metis prod_cases3)
  obtain ok2 sent2 sock2 where 2: "send_all sock1 b = (ok2, sent2, sock2)" by (metis prod_cases3)
  note p = send_all_prefix [OF 1] send_all_prefix [OF 2]
  show ?thesis
  proof (cases "ok1 \<and> b \<noteq> []")
    case True
    with assms 1 2 have "ok = ok2" "sent = sent1 @ sent2" by (simp_all add: http_response_send_def)
    with p True assms(2) show ?thesis by (auto simp: wire_def)
  next
    case False
    with assms 1 have s: "ok = ok1" "sent = sent1"
      by (auto simp: http_response_send_def split: if_splits)
    show ?thesis
    proof (cases ok1)
      case True
      with p(1) s False assms(2) show ?thesis by (simp add: wire_def)
    next
      case f: False
      with p(1) have "prefix sent1 (response_header r)" "sent1 \<noteq> response_header r" by auto
      then obtain x xs where "response_header r = sent1 @ x # xs"
        by (metis append_Nil2 neq_Nil_conv prefixE)
      with s f assms(2) show ?thesis by (auto simp: wire_def)
    qed
  qed
qed

text \<open>Every error with a message that fits its buffer gives a response whose header fits as well.\<close>

lemma set_error_ok:
  assumes "length m < 256"
  shows "http_response_set_error r code m
    = Some (http_response_set_json r (http_status_from_engine_error code) (error_body code (escape_loop m)))"
  using error_body_fits [OF assms, of code] by (simp add: http_response_set_error_def)

text \<open>A complete response: a body of the announced length and one of the statuses in use.\<close>

definition statuses :: "int set" where
  "statuses = {200, 400, 404, 405, 411, 413, 431, 500, 501, 503}"

definition response_ok :: "http_response \<Rightarrow> bool" where
  "response_ok r = (rs_status_code r \<in> statuses
     \<and> (case rs_body r of None \<Rightarrow> False | Some b \<Rightarrow> rs_body_length r = length b))"

lemma response_ok_json: "status \<in> statuses \<Longrightarrow> response_ok (http_response_set_json r status body)"
  by (simp add: response_ok_def http_response_set_json_def http_response_set_body_def)

lemma response_ok_error: "http_response_set_error r code m = Some r' \<Longrightarrow> response_ok r'"
proof -
  have "http_status_from_engine_error code \<in> statuses"
    by (cases code) (simp_all add: http_status_from_engine_error_def statuses_def)
  moreover assume "http_response_set_error r code m = Some r'"
  ultimately show ?thesis by (auto simp: http_response_set_error_def response_ok_json split: if_splits)
qed

lemma send_any_response:
  assumes "response_ok r" and "http_response_send sock r = (ok, sent)"
  shows "prefix sent (wire r) \<and> (ok \<longleftrightarrow> sent = wire r)"
proof (cases "length (response_header r) < 256")
  case True
  with assms send_response [of r _ sock ok sent] show ?thesis
    by (auto simp: response_ok_def split: option.splits)
next
  case False
  with assms(2) have "ok = False" "sent = []" by (simp_all add: http_response_send_def)
  moreover have "wire r \<noteq> []" by (simp add: wire_def response_header_def)
  ultimately show ?thesis by simp
qed

section \<open>What a handler answers\<close>

lemma handle_query_ok:
  "api_handle_query env timings rq cx e resp = Answer (Some r) e' \<Longrightarrow> response_ok r"
  by (auto simp: api_handle_query_def response_ok_json statuses_def
      split: if_splits extracted.splits adapter_outcome.splits dest!: response_ok_error)

lemma handle_health_ok: "api_handle_health rq cx resp = Some r \<Longrightarrow> response_ok r"
  by (auto simp: api_handle_health_def Let_def response_ok_json statuses_def
      split: if_splits dest: response_ok_error)

lemma handle_root_ok: "api_handle_root rq cx resp = Some r \<Longrightarrow> response_ok r"
  by (auto simp: api_handle_root_def Let_def response_ok_def http_response_set_html_def
      http_response_set_body_def statuses_def split: if_splits dest: response_ok_error)

lemma route_ok:
  "http_route_request env timings rq cx e resp = Answer (Some r) e' \<Longrightarrow> response_ok r"
  by (auto simp: http_route_request_def split: if_splits
      dest: handle_query_ok handle_health_ok handle_root_ok response_ok_error)

text \<open>The page and the health report always fit their buffers.\<close>

lemma length_page_format:
  "length (page_format s ns) \<le> length s + sum_list (map (\<lambda>n. length (show_int n)) ns)"
proof (induction s ns rule: page_format.induct)
  case (2 c cs ns)
  show ?case
  proof (cases "c = CHR ''%'' \<and> take 1 cs = ''%''")
    case True
    then have "length (tl cs) \<le> length cs" by simp
    with 2(1) [OF True] True show ?thesis by simp
  next
    case False
    show ?thesis
    proof (cases "c = CHR ''%'' \<and> take 1 cs = ''d'' \<and> ns \<noteq> []")
      case d: True
      then obtain n ms where "ns = n # ms" by (cases ns) auto
      with 2(2) [OF False d] False d show ?thesis by simp
    next
      case d: False
      then have "page_format (c # cs) ns = c # page_format cs ns" using False by (subst page_format.simps) auto
      with 2(3) [OF False d] show ?thesis by simp
    qed
  qed
qed simp

lemma length_show_C_int:
  assumes "INT_MIN \<le> i" and "i \<le> INT_MAX"
  shows "length (show_int i) \<le> 11"
proof -
  have "nat (- i) < 10 ^ Suc 9" "nat i < 10 ^ Suc 9" using assms by (simp_all add: INT_MIN_def INT_MAX_def)
  then show ?thesis using length_dec_digits [of "nat (- i)" 9] length_dec_digits [of "nat i" 9]
    by (simp add: show_int_def)
qed

lemma reports_answered:
  assumes "rq_body_length rq = 0" and "INT_MIN \<le> cx_worker_count cx" and "cx_worker_count cx \<le> INT_MAX"
    and "INT_MIN \<le> cx_queue_depth cx" and "cx_queue_depth cx \<le> INT_MAX"
  shows "\<exists>r. api_handle_root rq cx resp = Some r \<and> rs_status_code r = 200"
    and "\<exists>r. api_handle_health rq cx resp = Some r \<and> rs_status_code r = 200"
proof -
  note w = length_show_C_int [OF assms(2,3)] and d = length_show_C_int [OF assms(4,5)]
  have "length (page_format root_page [cx_worker_count cx, cx_queue_depth cx]) \<le> 10174 + 22"
    using length_page_format [of root_page "[cx_worker_count cx, cx_queue_depth cx]"] w d
    by (simp add: length_root_page)
  then show "\<exists>r. api_handle_root rq cx resp = Some r \<and> rs_status_code r = 200"
    using assms(1) by (simp add: api_handle_root_def http_response_set_html_def http_response_set_body_def Let_def)
  show "\<exists>r. api_handle_health rq cx resp = Some r \<and> rs_status_code r = 200"
    using assms(1) w d
    by (simp add: api_handle_health_def json_field_def http_response_set_json_def http_response_set_body_def)
qed

section \<open>The round trip\<close>

text \<open>
  C28: every text survives JSON: what \<open>http_json_escape\<close> writes between quotes is read back by
  \<open>parse_json_string\<close>, leaving the rest of the input, contains no line break and no tab, and a
  body built from it gives the text as its \<open>sql\<close> field, whatever bytes it holds.
\<close>

theorem json_round_trip:
  "\<exists>j. http_json_escape s = Some j
     \<and> parse_json_string (DQ # j @ DQ # rest) = Some (s, rest)
     \<and> set j \<inter> {LF, CR, TAB} = {}
     \<and> extract_sql_field (''{'' @ json_field ''sql'' @ [DQ] @ j @ [DQ] @ ''}'') = Sql_Field s"
  using extract_sql_body [of s] escape_loop_clean [of _ s] by (auto simp: sql_body_def)

end
