(* ===== verification/Request_Props.thy ===== *)
theory Request_Props
  imports Http_Props
begin

text \<open>
  What \<open>http_read_request\<close> promises: on any input it reads no more than the two limits allow and
  keeps its fixed buffers, and the printed form of a request is read back, leaving the rest of
  the input.
\<close>

section \<open>Limits\<close>

lemma read_header_bounds:
  assumes "length buf \<le> limit"
  shows "case read_header limit input buf of
      Truncated \<Rightarrow> length buf + length input < limit
    | Too_Large \<Rightarrow> limit \<le> length buf + length input
    | Header h rest \<Rightarrow> length h \<le> limit \<and> h @ rest = buf @ input"
  using assms
proof (induction limit input buf rule: read_header.induct)
  case (2 limit c input buf)
  show ?case
  proof (cases "length buf < limit")
    case True
    show ?thesis
    proof (cases "4 \<le> length (buf @ [c]) \<and> drop (length (buf @ [c]) - 4) (buf @ [c]) = [CR, LF, CR, LF]")
      case False
      have "length (buf @ [c]) \<le> limit" using True by simp
      from 2(1) [OF True refl False this] True False show ?thesis
        by (simp add: Let_def split: header_read.splits)
    qed (use True in \<open>simp add: Let_def\<close>)
  qed (use 2(2) in simp)
qed simp

lemma recv_exact_result:
  "case recv_exact chunks input n of
     None \<Rightarrow> length input < n
   | Some (bs, rest) \<Rightarrow> input = bs @ rest \<and> length bs = n"
proof (induction chunks input n rule: recv_exact.induct)
  case (1 chunks input n)
  show ?case
  proof (cases "n = 0 \<or> input = []")
    case True
    then show ?thesis by (subst recv_exact.simps) auto
  next
    case False
    define offered where "offered = (case chunks of [] \<Rightarrow> n | k # ks \<Rightarrow> max 1 k)"
    define got where "got = min offered (min n (length input))"
    have got: "got \<le> n" "got \<le> length input" by (simp_all add: got_def)
    from False have "n \<noteq> 0" "input \<noteq> []" by auto
    note ih = 1 [OF this offered_def got_def]
    have eq: "recv_exact chunks input n = map_option (\<lambda>(bs, rest). (take got input @ bs, rest))
        (recv_exact (tl chunks) (drop got input) (n - got))"
      using False by (subst recv_exact.simps) (simp add: Let_def offered_def [symmetric] got_def [symmetric])
    show ?thesis
    proof (cases "recv_exact (tl chunks) (drop got input) (n - got)")
      case None
      with ih got eq show ?thesis by simp
    next
      case (Some y)
      obtain bs rest where y: "y = (bs, rest)" by fastforce
      have "recv_exact chunks input n = Some (take got input @ bs, rest)" using eq Some y by simp
      moreover have "drop got input = bs @ rest" "length bs = n - got" using ih Some y by simp_all
      moreover have "input = take got input @ drop got input" by simp
      ultimately show ?thesis using got by (simp del: append_take_drop_id)
    qed
  qed
qed

lemma length_scan_word: "length (fst (scan_word n s)) \<le> n"
  by (simp add: scan_word_def Let_def)

lemma request_line_ok:
  assumes "parse_request_line r line = Inr r'"
  shows "length (rq_method r') \<le> 15 \<and> length (rq_path r') \<le> 127 \<and> rq_version r' = ''HTTP/1.1''
    \<and> rq_body_length r' = rq_body_length r \<and> rq_body r' = rq_body r"
  using assms length_scan_word [of 15 line] length_scan_word [of 127 "snd (scan_word 15 line)"]
  by (auto simp: parse_request_line_def split: prod.splits if_splits)

lemma request_line_error:
  "parse_request_line r line = Inl err \<Longrightarrow>
     fst err = SQL_ENGINE_ERROR_INVALID_CONTENT_LENGTH \<and> length (snd err) < 256"
  by (auto simp: parse_request_line_def set_read_error_def length_snprintf split: prod.splits if_splits)

lemma header_loop_result:
  "case header_loop cursor r of
     Inl err \<Rightarrow> fst err = SQL_ENGINE_ERROR_INVALID_CONTENT_LENGTH \<and> length (snd err) < 256
   | Inr r' \<Rightarrow> \<exists>hs. r' = r\<lparr>rq_headers := hs\<rparr>"
proof (induction cursor r rule: header_loop.induct)
  case (1 cursor r)
  show ?case
  proof (cases "cursor = [] \<or> find_crlf cursor = None")
    case True
    then show ?thesis
      by (subst header_loop.simps) (auto simp: set_read_error_def length_snprintf intro: exI [of _ "rq_headers r"])
  next
    case False
    then obtain line rest where l: "cursor \<noteq> []" "find_crlf cursor = Some (line, rest)" by auto
    show ?thesis
    proof (cases "line = [] \<or> hd line = SP \<or> hd line = TAB \<or> CHR '':'' \<notin> set line")
      case True
      then show ?thesis
        using l by (subst header_loop.simps) (auto simp: set_read_error_def length_snprintf intro: exI [of _ "rq_headers r"])
    next
      case ok: False
      note ih = 1 [OF l(1,2) refl]
      from ok show ?thesis
        using ih l by (subst header_loop.simps) (fastforce simp: push_header_def split: sum.splits)
    qed
  qed
qed

lemma read_body_result:
  assumes "read_body chunks body_limit r input = (res, rest)"
  shows "suffix rest input \<and> length input - length rest \<le> body_limit
    \<and> (case res of
         Inl err \<Rightarrow> fst err \<in> {SQL_ENGINE_ERROR_INVALID_CONTENT_LENGTH, SQL_ENGINE_ERROR_PAYLOAD_TOO_LARGE}
                    \<and> length (snd err) < 256
       | Inr r' \<Rightarrow> (\<exists>b. r' = r\<lparr>rq_body := b, rq_body_length := (if b = [] then rq_body_length r else length b)\<rparr>
                        \<and> length b \<le> body_limit))"
proof -
  have e: "length (snd (set_read_error code m)) < 256" "fst (set_read_error code m) = code" for code m
    by (simp_all add: set_read_error_def length_snprintf)
  define len where "len = (case http_request_get_header r ''Content-Length'' of
              None \<Rightarrow> Some (- 1)
            | Some v \<Rightarrow> (case parse_int_strict v of
                          None \<Rightarrow> None | Some n \<Rightarrow> if n < 0 then None else Some n))"
  show ?thesis
  proof (cases len)
    case None
    with assms e show ?thesis by (auto simp: read_body_def len_def [symmetric])
  next
    case (Some n)
    show ?thesis
    proof (cases "0 < n \<and> nat n \<le> body_limit")
      case False
      with assms Some e show ?thesis
        by (auto simp: read_body_def len_def [symmetric] split: if_splits intro!: exI [of _ "[]"])
    next
      case True
      show ?thesis
      proof (cases "recv_exact chunks input (nat n)")
        case None
        with recv_exact_result [where chunks = chunks and input = input and n = "nat n"] True Some assms e show ?thesis
          by (auto simp: read_body_def len_def [symmetric])
      next
        case x: (Some y)
        obtain b t where y: "y = (b, t)" by fastforce
        with recv_exact_result [where chunks = chunks and input = input and n = "nat n"] x have "input = b @ t" "length b = nat n" by auto
        with x y True Some assms show ?thesis
          by (auto simp: read_body_def len_def [symmetric] suffix_def intro!: exI [of _ b])
      qed
    qed
  qed
qed

text \<open>The errors a request can be answered with before it is routed.\<close>

definition request_codes :: "sql_engine_error_code set" where
  "request_codes = {SQL_ENGINE_ERROR_INVALID_CONTENT_LENGTH, SQL_ENGINE_ERROR_PAYLOAD_TOO_LARGE,
     SQL_ENGINE_ERROR_HEADER_TOO_LARGE, SQL_ENGINE_ERROR_CHUNKED_NOT_SUPPORTED}"

definition request_ok :: "nat \<Rightarrow> http_request \<Rightarrow> bool" where
  "request_ok body_limit r =
     (length (rq_method r) \<le> 15 \<and> length (rq_path r) \<le> 127 \<and> rq_version r = ''HTTP/1.1''
      \<and> length (rq_body r) = rq_body_length r \<and> rq_body_length r \<le> body_limit)"

text \<open>What the header alone decides.\<close>

definition read_head :: "string \<Rightarrow> request_error + http_request" where
  "read_head buf =
     (case find_crlf (c_str buf) of
        None \<Rightarrow> Inl (set_read_error SQL_ENGINE_ERROR_INVALID_CONTENT_LENGTH ''malformed HTTP request'')
      | Some (line, cursor) \<Rightarrow>
          (case parse_request_line http_request_init line of
             Inl err \<Rightarrow> Inl err
           | Inr r \<Rightarrow>
               (case header_loop cursor r of
                  Inl err \<Rightarrow> Inl err
                | Inr r' \<Rightarrow>
                    if (case http_request_get_header r' ''Transfer-Encoding'' of
                          None \<Rightarrow> False | Some v \<Rightarrow> has_chunked (strtok COMMA v))
                    then Inl (set_read_error SQL_ENGINE_ERROR_CHUNKED_NOT_SUPPORTED
                                ''Transfer-Encoding: chunked is not supported'')
                    else Inr r')))"

lemma http_read_request_head:
  "read_header header_limit input [] = Header buf t \<Longrightarrow>
     http_read_request chunks header_limit body_limit input
       = (case read_head buf of Inl err \<Rightarrow> (Inl err, t) | Inr r \<Rightarrow> read_body chunks body_limit r t)"
  by (auto simp: http_read_request_def read_head_def split: option.splits sum.splits)

lemma read_error_fits: "length (snd (set_read_error code m)) < 256" "fst (set_read_error code m) = code"
  by (simp_all add: set_read_error_def length_snprintf)

lemma read_head_result:
  "case read_head buf of
     Inl err \<Rightarrow> fst err \<in> request_codes \<and> length (snd err) < 256
   | Inr r \<Rightarrow> length (rq_method r) \<le> 15 \<and> length (rq_path r) \<le> 127 \<and> rq_version r = ''HTTP/1.1''
       \<and> rq_body_length r = 0 \<and> rq_body r = []"
proof (cases "find_crlf (c_str buf)")
  case (Some y)
  obtain line cursor where y: "y = (line, cursor)" by fastforce
  show ?thesis
  proof (cases "parse_request_line http_request_init line")
    case (Inl err)
    from Some y Inl request_line_error [OF Inl] show ?thesis by (simp add: read_head_def request_codes_def)
  next
    case (Inr r)
    with Some y header_loop_result [where cursor = cursor and r = r] request_line_ok [OF Inr] show ?thesis
      by (auto simp: read_head_def request_codes_def set_read_error_def length_snprintf http_request_init_def
          split: sum.splits)
  qed
qed (simp add: read_head_def request_codes_def read_error_fits)

lemma read_request_result:
  assumes "http_read_request chunks header_limit body_limit input = (res, rest)"
  shows "suffix rest input \<and> length input - length rest \<le> header_limit + body_limit
    \<and> (case res of
         Inl err \<Rightarrow> fst err \<in> request_codes \<and> length (snd err) < 256
       | Inr r \<Rightarrow> request_ok body_limit r)"
proof (cases "read_header header_limit input []")
  case (Header h t)
  with read_header_bounds [of "[]" header_limit input] have h: "length h \<le> header_limit" "input = h @ t" by auto
  then have st: "suffix t input" "length input - length t \<le> header_limit" by (auto simp: suffix_def)
  note res = assms [unfolded http_read_request_head [OF Header]]
  show ?thesis
  proof (cases "read_head h")
    case (Inl err)
    with res have "res = Inl err" "rest = t" by simp_all
    with st Inl read_head_result [of h] show ?thesis by simp
  next
    case (Inr r)
    with res have rb: "read_body chunks body_limit r t = (res, rest)" by simp
    have "suffix rest input" "length input - length rest \<le> header_limit + body_limit"
      using read_body_result [OF rb] st h(2) by (auto simp: suffix_def)
    then show ?thesis
      using read_body_result [OF rb] read_head_result [of h] Inr
      by (auto simp: request_codes_def request_ok_def split: sum.splits)
  qed
qed (use assms read_header_bounds [of "[]" header_limit input] in
    \<open>auto simp: http_read_request_def request_codes_def read_error_fits suffix_drop\<close>)

section \<open>Reading a printed request\<close>

definition header_text :: "string \<times> string \<Rightarrow> string" where
  "header_text h = fst h @ '': '' @ snd h"

fun crlf_lines :: "string list \<Rightarrow> string" where
  "crlf_lines [] = []"
| "crlf_lines (l # ls) = l @ CRLF @ crlf_lines ls"

definition request_line :: "string \<Rightarrow> string \<Rightarrow> string" where
  "request_line method path = method @ [SP] @ path @ '' HTTP/1.1''"

definition render_request :: "string \<Rightarrow> string \<Rightarrow> (string \<times> string) list \<Rightarrow> string \<Rightarrow> string" where
  "render_request method path hs body =
     crlf_lines (request_line method path # map header_text hs) @ CRLF @ body"

definition word_ok :: "nat \<Rightarrow> string \<Rightarrow> bool" where
  "word_ok n w = (w \<noteq> [] \<and> length w \<le> n \<and> list_all (\<lambda>c. \<not> isspace c \<and> c \<noteq> NUL) w)"

definition header_ok :: "string \<times> string \<Rightarrow> bool" where
  "header_ok h =
     (fst h \<noteq> [] \<and> trim_whitespace (fst h) = fst h \<and> trim_whitespace (snd h) = snd h
      \<and> list_all (\<lambda>c. c \<notin> {CR, LF, NUL, CHR '':''}) (fst h) \<and> list_all (\<lambda>c. c \<notin> {CR, LF, NUL}) (snd h))"

definition line_ok :: "string \<Rightarrow> bool" where
  "line_ok l = (l \<noteq> [] \<and> list_all (\<lambda>c. c \<notin> {CR, LF, NUL}) l)"

abbreviation END_MARK :: string where "END_MARK \<equiv> [CR, LF, CR, LF]"

lemma end_mark_suffix:
  "(4 \<le> length buf \<and> drop (length buf - 4) buf = END_MARK) \<longleftrightarrow> suffix END_MARK buf"
proof
  assume "suffix END_MARK buf"
  then obtain p where "buf = p @ END_MARK" by (auto simp: suffix_def)
  then show "4 \<le> length buf \<and> drop (length buf - 4) buf = END_MARK" by simp
qed (metis suffix_drop)

lemma read_header_step:
  "length buf < limit \<Longrightarrow> \<not> suffix END_MARK (buf @ [c]) \<Longrightarrow>
     read_header limit (c # input) buf = read_header limit input (buf @ [c])"
  unfolding read_header.simps(2) Let_def end_mark_suffix by (simp only: if_True if_False)

lemma read_header_plain:
  "list_all (\<lambda>c. c \<noteq> LF) a \<Longrightarrow> length (buf @ a) \<le> limit \<Longrightarrow>
     read_header limit (a @ input) buf = read_header limit input (buf @ a)"
proof (induction a arbitrary: buf)
  case (Cons c a)
  then have "\<not> suffix END_MARK (buf @ [c])" by (auto simp: suffix_def)
  with Cons.prems read_header_step [of buf limit c "a @ input"] Cons.IH [of "buf @ [c]"]
  show ?case by simp
qed simp

lemma read_header_line:
  assumes "line_ok l" and "length (buf @ l @ CRLF) \<le> limit"
  shows "read_header limit (l @ CRLF @ input) buf = read_header limit input (buf @ l @ CRLF)"
proof -
  have l: "list_all (\<lambda>c. c \<noteq> LF) (l @ [CR])" "last l \<noteq> LF" "l \<noteq> []"
    using assms(1) by (auto simp: line_ok_def list_all_iff)
  have "read_header limit ((l @ [CR]) @ LF # input) buf = read_header limit (LF # input) (buf @ l @ [CR])"
    by (rule read_header_plain [OF l(1)]) (use assms(2) in simp)
  moreover have "\<not> suffix END_MARK ((buf @ l @ [CR]) @ [LF])"
  proof
    assume "suffix END_MARK ((buf @ l @ [CR]) @ [LF])"
    then obtain p where "(buf @ l) @ [CR, LF] = (p @ [CR, LF]) @ [CR, LF]" by (auto simp: suffix_def)
    then have "buf @ l = p @ [CR, LF]" by (simp only: append_same_eq)
    then have "last (buf @ l) = LF" by simp
    with l(2,3) show False by simp
  qed
  then have "read_header limit (LF # input) (buf @ l @ [CR]) = read_header limit input ((buf @ l @ [CR]) @ [LF])"
    by (intro read_header_step) (use assms(2) in simp_all)
  ultimately show ?thesis by simp
qed

lemma read_header_lines:
  "list_all line_ok ls \<Longrightarrow> length (buf @ crlf_lines ls) \<le> limit \<Longrightarrow>
     read_header limit (crlf_lines ls @ input) buf = read_header limit input (buf @ crlf_lines ls)"
proof (induction ls arbitrary: buf)
  case (Cons l ls)
  from Cons.prems read_header_line [of l buf limit "crlf_lines ls @ input"]
    Cons.IH [of "buf @ l @ CRLF"] show ?case by simp
qed simp

lemma crlf_lines_last: "ls \<noteq> [] \<Longrightarrow> \<exists>p. crlf_lines ls = p @ CRLF"
proof (induction ls)
  case (Cons l ls)
  show ?case
  proof (cases ls)
    case (Cons m ms)
    with Cons.IH obtain p where "crlf_lines ls = p @ CRLF" by auto
    then have "crlf_lines (l # ls) = (l @ CRLF @ p) @ CRLF" by simp
    then show ?thesis by blast
  qed auto
qed simp

lemma read_header_render:
  assumes "list_all line_ok ls" and "ls \<noteq> []" and "length (crlf_lines ls) + 2 \<le> limit"
  shows "read_header limit (crlf_lines ls @ CRLF @ input) [] = Header (crlf_lines ls @ CRLF) input"
proof -
  from crlf_lines_last [OF assms(2)] obtain p where p: "crlf_lines ls = p @ CRLF" ..
  have "read_header limit (crlf_lines ls @ CRLF @ input) [] = read_header limit (CRLF @ input) (crlf_lines ls)"
    using read_header_lines [OF assms(1), of "[]" limit "CRLF @ input"] assms(3) by simp
  also have "\<dots> = read_header limit (LF # input) (crlf_lines ls @ [CR])"
    using read_header_plain [of "[CR]" "crlf_lines ls" limit "LF # input"] assms(3) by simp
  also have "\<dots> = Header (crlf_lines ls @ CRLF) input"
    using assms(3) by (simp add: p Let_def)
  finally show ?thesis .
qed

lemma find_crlf_line: "CR \<notin> set l \<Longrightarrow> find_crlf (l @ CRLF @ rest) = Some (l, rest)"
proof (induction l)
  case (Cons c l)
  moreover obtain d ds where "l @ CRLF @ rest = d # ds" by (cases l) auto
  moreover have "c \<noteq> CR" using Cons.prems by auto
  ultimately show ?case by simp
qed simp

lemma scan_word_blank:
  assumes "word_ok n w" and "isspace b"
  shows "scan_word n (w @ b # s) = (w, b # s)"
proof -
  from assms(1) have "takeWhile (\<lambda>c. \<not> isspace c) (w @ b # s) = w" "dropWhile isspace (w @ b # s) = w @ b # s"
    using assms(2) by (induction w) (auto simp: word_ok_def list_all_iff takeWhile_append)
  with assms(1) show ?thesis by (simp add: scan_word_def Let_def word_ok_def)
qed

lemma scan_word_end: "word_ok n w \<Longrightarrow> scan_word n w = (w, [])"
proof -
  assume w: "word_ok n w"
  then have "takeWhile (\<lambda>c. \<not> isspace c) w = w" "dropWhile isspace w = w" "length w \<le> n"
    by (auto simp: word_ok_def list_all_iff takeWhile_eq_all_conv dropWhile_eq_self_iff)
  then show ?thesis unfolding scan_word_def Let_def by (simp only: take_all drop_all order_refl)
qed

lemma word_ok_chars: "word_ok n w \<Longrightarrow> w \<noteq> [] \<and> list_all (\<lambda>c. c \<notin> {CR, LF, NUL}) w"
proof -
  assume w: "word_ok n w"
  have c: "c \<notin> {CR, LF, NUL}" if "\<not> isspace c" "c \<noteq> NUL" for c
  proof
    assume "c \<in> {CR, LF, NUL}"
    then have "isspace c \<or> c = NUL" by (elim insertE emptyE) simp_all
    with that show False by simp
  qed
  from w have "list_all (\<lambda>c. \<not> isspace c \<and> c \<noteq> NUL) w" by (simp add: word_ok_def)
  then have "list_all (\<lambda>c. c \<notin> {CR, LF, NUL}) w"
    by (rule list.pred_mono_strong) (rule c; simp)
  with w show ?thesis by (simp add: word_ok_def)
qed

lemma scan_word_skip: "isspace b \<Longrightarrow> scan_word n (b # s) = scan_word n s"
  by (simp add: scan_word_def)

lemma parse_rendered_line:
  assumes "word_ok 15 m" and "word_ok 127 p"
  shows "parse_request_line r (request_line m p)
    = Inr (r\<lparr>rq_method := m, rq_path := p, rq_version := ''HTTP/1.1''\<rparr>)"
proof -
  have v: "word_ok 15 ''HTTP/1.1''" by (simp add: word_ok_def isspace_def byte_def)
  have 1: "scan_word 15 (request_line m p) = (m, SP # p @ SP # ''HTTP/1.1'')"
    using scan_word_blank [OF assms(1), of SP "p @ SP # ''HTTP/1.1''"] by (simp add: request_line_def)
  have 2: "scan_word 127 (SP # p @ SP # ''HTTP/1.1'') = (p, SP # ''HTTP/1.1'')"
    using scan_word_blank [OF assms(2), of SP "''HTTP/1.1''"] by (simp add: scan_word_skip)
  have 3: "scan_word 15 (SP # ''HTTP/1.1'') = (''HTTP/1.1'', [])"
    using scan_word_end [OF v] by (simp add: scan_word_skip)
  have 4: "fst (scan_word 1 []) = []" by (simp add: scan_word_def)
  from assms show ?thesis
    unfolding parse_request_line_def 1 prod.case 2 3 4 by (simp add: word_ok_def)
qed

lemma header_line_ok:
  assumes "header_ok h"
  shows "line_ok (header_text h)" and "hd (header_text h) \<noteq> SP" and "hd (header_text h) \<noteq> TAB"
    and "takeWhile (\<lambda>c. c \<noteq> CHR '':'') (header_text h) = fst h"
    and "trim_whitespace (tl (dropWhile (\<lambda>c. c \<noteq> CHR '':'') (header_text h))) = snd h"
proof -
  have n: "fst h \<noteq> []" "list_all (\<lambda>c. c \<notin> {CR, LF, NUL, CHR '':''}) (fst h)"
    using assms by (simp_all add: header_ok_def)
  show "line_ok (header_text h)"
    using assms by (auto simp: header_ok_def line_ok_def header_text_def list_all_iff)
  have "\<not> isspace (hd (fst h))" using trim_ends [of "fst h"] assms by (simp add: header_ok_def)
  moreover have "hd (header_text h) = hd (fst h)" using n(1) by (simp add: header_text_def)
  ultimately show "hd (header_text h) \<noteq> SP" "hd (header_text h) \<noteq> TAB" by auto
  have c: "\<forall>c\<in>set (fst h). c \<noteq> CHR '':''" using n(2) by (auto simp: list_all_iff)
  have "header_text h = fst h @ CHR '':'' # SP # snd h" by (simp add: header_text_def)
  with takeWhile_word [of "fst h" "\<lambda>c. c \<noteq> CHR '':''" "CHR '':''" "SP # snd h"] c
  have "takeWhile (\<lambda>c. c \<noteq> CHR '':'') (header_text h) = fst h"
    "dropWhile (\<lambda>c. c \<noteq> CHR '':'') (header_text h) = CHR '':'' # SP # snd h" by auto
  moreover have "trim_whitespace (SP # snd h) = trim_whitespace (snd h)" by (simp add: trim_whitespace_def)
  ultimately show "takeWhile (\<lambda>c. c \<noteq> CHR '':'') (header_text h) = fst h"
    "trim_whitespace (tl (dropWhile (\<lambda>c. c \<noteq> CHR '':'') (header_text h))) = snd h"
    using assms by (simp_all add: header_ok_def)
qed

lemma header_loop_rendered:
  "list_all header_ok hs \<Longrightarrow>
     header_loop (crlf_lines (map header_text hs) @ CRLF) r = Inr (r\<lparr>rq_headers := rq_headers r @ hs\<rparr>)"
proof (induction hs arbitrary: r)
  case Nil
  then show ?case by (simp add: header_loop.simps)
next
  case (Cons h hs)
  define rest where "rest = crlf_lines (map header_text hs) @ CRLF"
  from Cons.prems have h: "header_ok h" "list_all header_ok hs" by simp_all
  note ok = header_line_ok [OF h(1)]
  from ok(1) have l: "CR \<notin> set (header_text h)" "header_text h \<noteq> []"
    by (auto simp: line_ok_def list_all_iff)
  have "CHR '':'' \<in> set (header_text h)" by (simp add: header_text_def)
  then have "header_loop (header_text h @ CRLF @ rest) r
      = header_loop rest (push_header r (trim_whitespace (fst h)) (snd h))"
    using find_crlf_line [OF l(1), of rest] l(2) ok(2-5)
    by (subst header_loop.simps) simp
  also have "\<dots> = header_loop rest (push_header r (fst h) (snd h))"
    using h(1) by (simp add: header_ok_def)
  finally show ?case
    using Cons.IH [OF h(2), of "push_header r (fst h) (snd h)"] by (simp add: rest_def push_header_def)
qed

lemma recv_exact_complete:
  assumes "length b = n"
  shows "recv_exact chunks (b @ rest) n = Some (b, rest)"
  using recv_exact_result [where chunks = chunks and input = "b @ rest" and n = n] assms
  by (auto split: option.splits)

text \<open>The headers agree with the body: no chunked coding, and the length when there is a body.\<close>

definition headers_fit :: "(string \<times> string) list \<Rightarrow> string \<Rightarrow> bool" where
  "headers_fit hs body =
     (get_header_loop hs ''Transfer-Encoding'' = None
      \<and> (get_header_loop hs ''Content-Length'' = Some (show_int (int (length body)))
         \<or> (body = [] \<and> get_header_loop hs ''Content-Length'' = None)))"

lemma read_rendered_body:
  assumes "headers_fit hs body" and "length body \<le> body_limit" and "int (length body) \<le> INT_MAX"
    and "rq_headers r = hs" and "rq_body r = []" and "rq_body_length r = 0"
  shows "read_body chunks body_limit r (body @ rest)
    = (Inr (r\<lparr>rq_body := body, rq_body_length := length body\<rparr>), rest)"
proof (cases "get_header_loop hs ''Content-Length'' = Some (show_int (int (length body)))")
  case True
  have "parse_int_strict (show_int (int (length body))) = Some (int (length body))"
    by (rule parse_int_strict_show_int) (use assms(3) in \<open>simp_all add: INT_MIN_def\<close>)
  with True assms recv_exact_complete [of body "length body" chunks rest] show ?thesis
    by (cases "body = []") (simp_all add: read_body_def http_request_get_header_def)
next
  case False
  with assms show ?thesis by (simp add: headers_fit_def read_body_def http_request_get_header_def)
qed

lemma read_rendered:
  assumes "word_ok 15 m" and "word_ok 127 p" and "list_all header_ok hs" and "headers_fit hs body"
    and "length (render_request m p hs []) \<le> header_limit"
    and "length body \<le> body_limit" and "int (length body) \<le> INT_MAX"
  shows "http_read_request chunks header_limit body_limit (render_request m p hs body @ rest)
    = (Inr \<lparr>rq_method = m, rq_path = p, rq_version = ''HTTP/1.1'', rq_headers = hs, rq_body = body,
            rq_body_length = length body\<rparr>, rest)"
proof -
  define ls where "ls = request_line m p # map header_text hs"
  have rl: "line_ok (request_line m p)"
    using word_ok_chars [OF assms(1)] word_ok_chars [OF assms(2)]
    unfolding line_ok_def request_line_def by simp
  have ok: "list_all line_ok ls"
    using rl assms(3) header_line_ok(1) by (auto simp: ls_def list_all_iff)
  have "length (crlf_lines ls) + 2 \<le> header_limit" using assms(5) by (simp add: render_request_def ls_def)
  from read_header_render [OF ok _ this, of "body @ rest"]
  have rh: "read_header header_limit (render_request m p hs body @ rest) []
      = Header (crlf_lines ls @ CRLF) (body @ rest)"
    by (simp add: render_request_def ls_def)
  have "NUL \<notin> set (crlf_lines xs)" if "list_all line_ok xs" for xs
    using that by (induction xs) (auto simp: line_ok_def list_all_iff)
  with ok have cs: "c_str (crlf_lines ls @ CRLF) = crlf_lines ls @ CRLF" by simp
  have "CR \<notin> set (request_line m p)" using rl by (auto simp: line_ok_def list_all_iff)
  from find_crlf_line [OF this] have fc: "find_crlf (crlf_lines ls @ CRLF)
      = Some (request_line m p, crlf_lines (map header_text hs) @ CRLF)" by (simp add: ls_def)
  define r0 where "r0 = http_request_init\<lparr>rq_method := m, rq_path := p, rq_version := ''HTTP/1.1''\<rparr>"
  have hl: "header_loop (crlf_lines (map header_text hs) @ CRLF) r0 = Inr (r0\<lparr>rq_headers := hs\<rparr>)"
    using header_loop_rendered [OF assms(3), of r0] by (simp add: r0_def http_request_init_def)
  have te: "http_request_get_header (r0\<lparr>rq_headers := hs\<rparr>) ''Transfer-Encoding'' = None"
    using assms(4) by (simp add: headers_fit_def http_request_get_header_def)
  have "http_read_request chunks header_limit body_limit (render_request m p hs body @ rest)
      = read_body chunks body_limit (r0\<lparr>rq_headers := hs\<rparr>) (body @ rest)"
    unfolding http_read_request_def rh header_read.case cs fc option.case prod.case
      parse_rendered_line [OF assms(1,2)] sum.case r0_def [symmetric] hl te
    by simp
  also have "\<dots> = (Inr (r0\<lparr>rq_headers := hs, rq_body := body, rq_body_length := length body\<rparr>), rest)"
    using read_rendered_body [OF assms(4,6,7), of "r0\<lparr>rq_headers := hs\<rparr>" chunks rest]
    by (simp add: r0_def http_request_init_def)
  finally show ?thesis by (simp add: r0_def http_request_init_def)
qed

section \<open>The properties\<close>

text \<open>
  C30: whatever bytes arrive, and in whatever pieces, reading a request consumes a beginning of
  the input no longer than the two limits together; an accepted request keeps the sizes of the
  fixed buffers, has the version HTTP/1.1 and a body of the announced length within its limit; a
  refused one has one of four error codes and a message that fits its buffer.
\<close>

theorem request_limits:
  assumes "http_read_request chunks header_limit body_limit input = (res, rest)"
  shows "suffix rest input \<and> length input - length rest \<le> header_limit + body_limit
    \<and> (case res of
         Inl err \<Rightarrow> fst err \<in> request_codes \<and> length (snd err) < 256
       | Inr r \<Rightarrow> request_ok body_limit r)"
  using read_request_result [OF assms] .

text \<open>
  C31: what a client prints is what the server reads. A request with a method, a path, headers
  that need no trimming and a body whose length they announce is read back exactly, in whatever
  pieces the body arrives, and the bytes after it are left in the connection.
\<close>

theorem request_round_trip:
  assumes "word_ok 15 m" and "word_ok 127 p" and "list_all header_ok hs" and "headers_fit hs body"
    and "length (render_request m p hs []) \<le> header_limit"
    and "length body \<le> body_limit" and "int (length body) \<le> INT_MAX"
  shows "http_read_request chunks header_limit body_limit (render_request m p hs body @ rest)
    = (Inr \<lparr>rq_method = m, rq_path = p, rq_version = ''HTTP/1.1'', rq_headers = hs, rq_body = body,
            rq_body_length = length body\<rparr>, rest)"
  using read_rendered [OF assms] .

text \<open>The headers of a query.\<close>

definition query_headers :: "string \<Rightarrow> (string \<times> string) list" where
  "query_headers body = [(''Content-Type'', ''application/json''),
     (''Content-Length'', show_int (int (length body)))]"

lemma show_nat_clean:
  "trim_whitespace (show_int (int n)) = show_int (int n)"
  "list_all (\<lambda>c. c \<notin> {CR, LF, NUL}) (show_int (int n))"
proof -
  have d: "\<not> isspace c \<and> c \<noteq> CR \<and> c \<noteq> LF \<and> c \<noteq> NUL" if "isdigit c \<or> c = CHR ''-''" for c
    using that by (auto simp: isdigit_def isspace_def byte_def)
  then have a: "\<not> isspace c \<and> c \<noteq> CR \<and> c \<noteq> LF \<and> c \<noteq> NUL" if "c \<in> set (show_int (int n))" for c
    using show_int_chars [OF that] by blast
  have "\<not> isspace (hd (show_int (int n)))" "\<not> isspace (last (show_int (int n)))"
    using a by simp_all
  then show "trim_whitespace (show_int (int n)) = show_int (int n)" by (intro trim_id) simp
  show "list_all (\<lambda>c. c \<notin> {CR, LF, NUL}) (show_int (int n))"
    unfolding list_all_iff using a by blast
qed

lemma query_headers_ok:
  "list_all header_ok (query_headers body)" "headers_fit (query_headers body) body"
  "get_header_loop (query_headers body) ''Content-Type'' = Some ''application/json''"
  "get_header_loop (query_headers body) ''Content-Length'' \<noteq> None"
proof -
  have t: "trim_whitespace ''Content-Type'' = ''Content-Type''"
    "trim_whitespace ''Content-Length'' = ''Content-Length''"
    "trim_whitespace ''application/json'' = ''application/json''"
    by (simp_all add: trim_whitespace_def isspace_def byte_def)
  have e: "strings_equal_ignore_case ''Content-Type'' ''Content-Length'' = False"
    "strings_equal_ignore_case ''Content-Type'' ''Transfer-Encoding'' = False"
    "strings_equal_ignore_case ''Content-Length'' ''Transfer-Encoding'' = False"
    "strings_equal_ignore_case ''Content-Length'' ''Content-Length''"
    "strings_equal_ignore_case ''Content-Type'' ''Content-Type''"
    by (simp_all add: char_eval)
  show "list_all header_ok (query_headers body)"
    using t show_nat_clean [of "length body"] by (simp add: query_headers_def header_ok_def)
  show "headers_fit (query_headers body) body"
    using e by (simp add: query_headers_def headers_fit_def)
  show "get_header_loop (query_headers body) ''Content-Type'' = Some ''application/json''"
    "get_header_loop (query_headers body) ''Content-Length'' \<noteq> None"
    using e by (simp_all add: query_headers_def)
qed

lemma query_headers_length:
  assumes "length body < 10 ^ 19"
  shows "length (render_request ''POST'' ''/query'' (query_headers body) []) \<le> 100"
  using length_show_int [of "int (length body)"] assms
  by (simp add: render_request_def request_line_def query_headers_def header_text_def)

theorem request_limits_witness:
  "suffix [] ''GET'' \<and> length ''GET'' - length ([] :: string) \<le> 100 + 10
    \<and> (case fst (http_read_request [] 100 10 ''GET'') of
         Inl err \<Rightarrow> fst err \<in> request_codes \<and> length (snd err) < 256
       | Inr r \<Rightarrow> request_ok 10 r)"
  by (rule request_limits) (simp add: http_read_request_def)

theorem request_round_trip_witness:
  "http_read_request [1, 2] 8192 16384
      (render_request ''POST'' ''/query'' (query_headers (sql_body ''SELECT * FROM users;''))
         (sql_body ''SELECT * FROM users;'') @ ''GET'')
    = (Inr \<lparr>rq_method = ''POST'', rq_path = ''/query'', rq_version = ''HTTP/1.1'',
            rq_headers = query_headers (sql_body ''SELECT * FROM users;''),
            rq_body = sql_body ''SELECT * FROM users;'',
            rq_body_length = length (sql_body ''SELECT * FROM users;'')\<rparr>, ''GET'')"
proof (rule request_round_trip)
  have l: "length (sql_body ''SELECT * FROM users;'') = 30" by (simp add: sql_body_def json_field_def)
  then show "length (render_request ''POST'' ''/query'' (query_headers (sql_body ''SELECT * FROM users;'')) []) \<le> 8192"
    "length (sql_body ''SELECT * FROM users;'') \<le> 16384" "int (length (sql_body ''SELECT * FROM users;'')) \<le> INT_MAX"
    using query_headers_length [of "sql_body ''SELECT * FROM users;''"] by (simp_all add: INT_MAX_def)
  show "word_ok 15 ''POST''" "word_ok 127 ''/query''"
    by (simp_all add: word_ok_def isspace_def byte_def)
qed (rule query_headers_ok)+

end
