(* ===== verification/Api_Contract.thy ===== *)
theory Api_Contract
  imports Request_Props Adapter_Props
begin

text \<open>
  The contract of \<open>docs/week8-api-spec.md\<close>, stated apart from the code: which error a request is due
  (sections 3 and 6), the status of each error (section 4), and what its answer holds. The router and
  the handlers keep it.
\<close>

section \<open>The statuses\<close>

definition documented_status :: "sql_engine_error_code \<Rightarrow> int" where
  "documented_status code =
     (if code = SQL_ENGINE_ERROR_NOT_FOUND then 404
      else if code = SQL_ENGINE_ERROR_METHOD_NOT_ALLOWED then 405
      else if code = SQL_ENGINE_ERROR_CONTENT_LENGTH_REQUIRED then 411
      else if code = SQL_ENGINE_ERROR_PAYLOAD_TOO_LARGE then 413
      else if code = SQL_ENGINE_ERROR_HEADER_TOO_LARGE then 431
      else if code = SQL_ENGINE_ERROR_CHUNKED_NOT_SUPPORTED then 501
      else if code = SQL_ENGINE_ERROR_QUEUE_FULL then 503
      else if code \<in> {SQL_ENGINE_ERROR_ENGINE_EXECUTION_ERROR, SQL_ENGINE_ERROR_SCHEMA_LOAD_ERROR,
          SQL_ENGINE_ERROR_STORAGE_IO_ERROR, SQL_ENGINE_ERROR_INDEX_REBUILD_ERROR,
          SQL_ENGINE_ERROR_INTERNAL_ERROR} then 500
      else 400)"

lemma documented_status_code:
  "code \<noteq> SQL_ENGINE_ERROR_NONE \<Longrightarrow> http_status_from_engine_error code = documented_status code"
  by (cases code) (simp_all add: http_status_from_engine_error_def documented_status_def)

section \<open>What a request is due\<close>

text \<open>The error of a request, in the order in which the errors take precedence, or NONE.\<close>

definition due_error :: "adapter_env \<Rightarrow> adapter_config \<Rightarrow> http_request \<Rightarrow> engine \<Rightarrow> sql_engine_error_code" where
  "due_error env cfg rq e =
     (if rq_path rq \<notin> {''/'', ''/health'', ''/query''} then SQL_ENGINE_ERROR_NOT_FOUND
      else if rq_method rq \<noteq> (if rq_path rq = ''/query'' then ''POST'' else ''GET'')
      then SQL_ENGINE_ERROR_METHOD_NOT_ALLOWED
      else if rq_path rq \<noteq> ''/query''
      then (if rq_body_length rq = 0 then SQL_ENGINE_ERROR_NONE else SQL_ENGINE_ERROR_INVALID_JSON)
      else if http_request_get_header rq ''Content-Length'' = None
      then SQL_ENGINE_ERROR_CONTENT_LENGTH_REQUIRED
      else if \<not> is_valid_query_content_type (http_request_get_header rq ''Content-Type'')
      then SQL_ENGINE_ERROR_INVALID_CONTENT_TYPE
      else
        (case extract_sql_field (c_str (rq_body rq)) of
           Bad_Json \<Rightarrow> SQL_ENGINE_ERROR_INVALID_JSON
         | No_Sql_Field \<Rightarrow> SQL_ENGINE_ERROR_MISSING_SQL_FIELD
         | Sql_Field q \<Rightarrow>
             (case sql_engine_adapter_execute env cfg (Some q) e of
                Returns r e' \<Rightarrow> ar_error_code r
              | _ \<Rightarrow> SQL_ENGINE_ERROR_NONE)))"

text \<open>The text that a request has executed: only a well-formed query reaches the engine.\<close>

definition due_query :: "http_request \<Rightarrow> string option" where
  "due_query rq =
     (if rq_path rq = ''/query'' \<and> rq_method rq = ''POST'' \<and> http_request_get_header rq ''Content-Length'' \<noteq> None
         \<and> is_valid_query_content_type (http_request_get_header rq ''Content-Type'')
      then (case extract_sql_field (c_str (rq_body rq)) of Sql_Field q \<Rightarrow> Some q | _ \<Rightarrow> None)
      else None)"

definition due_engine :: "adapter_env \<Rightarrow> adapter_config \<Rightarrow> http_request \<Rightarrow> engine \<Rightarrow> engine \<Rightarrow> bool" where
  "due_engine env cfg rq e e' =
     (case due_query rq of
        None \<Rightarrow> e' = e
      | Some q \<Rightarrow> (\<exists>r. sql_engine_adapter_execute env cfg (Some q) e = Returns r e'))"

text \<open>A success has status 200; an error has its status, and its code in the body.\<close>

definition answers :: "sql_engine_error_code \<Rightarrow> http_response \<Rightarrow> bool" where
  "answers code r =
     (if code = SQL_ENGINE_ERROR_NONE then rs_status_code r = 200
      else rs_status_code r = documented_status code
        \<and> (\<exists>m. rs_body r = Some (error_body code (escape_loop m))))"

section \<open>The handlers keep it\<close>

lemma answers_error:
  assumes "code \<noteq> SQL_ENGINE_ERROR_NONE" and "length m < 256"
  shows "\<exists>r. http_response_set_error resp code m = Some r \<and> answers code r"
  using assms documented_status_code [OF assms(1)] set_error_ok [OF assms(2), of resp code]
  by (auto simp: answers_def http_response_set_json_def http_response_set_body_def)

lemma answers_json: "answers SQL_ENGINE_ERROR_NONE (http_response_set_json resp 200 body)"
  by (simp add: answers_def http_response_set_json_def http_response_set_body_def)

lemma adapter_result_ok:
  "sql_engine_adapter_execute env cfg sql_text e = Returns r e' \<Longrightarrow> result_ok r"
  by (auto simp: sql_engine_adapter_execute_def result_ok_error classified
      split: option.splits sum.splits prod.splits dest: adapter_front_result adapter_run_result)

lemma user_message_fits: "length (build_user_error_message code m) < 256"
  by (simp add: build_user_error_message_def length_snprintf)

lemma handle_query_due:
  assumes a: "api_handle_query env timings rq cx e resp0 = Answer resp e'"
    and rq: "rq_path rq = ''/query''" "rq_method rq = ''POST''"
  shows "(\<exists>r. resp = Some r \<and> answers (due_error env (cx_config cx) rq e) r)
    \<and> due_engine env (cx_config cx) rq e e'"
proof (cases "http_request_get_header rq ''Content-Length'' \<noteq> None
    \<and> is_valid_query_content_type (http_request_get_header rq ''Content-Type'')")
  case False
  with a rq show ?thesis
    using answers_error [of SQL_ENGINE_ERROR_CONTENT_LENGTH_REQUIRED] answers_error [of SQL_ENGINE_ERROR_INVALID_CONTENT_TYPE]
    by (auto simp: api_handle_query_def due_error_def due_engine_def due_query_def split: if_splits)
next
  case True
  show ?thesis
  proof (cases "extract_sql_field (c_str (rq_body rq))")
    case (Sql_Field q)
    with a True obtain r where r: "sql_engine_adapter_execute env (cx_config cx) (Some q) e = Returns r e'"
      by (auto simp: api_handle_query_def db_service_execute_sql_def split: adapter_outcome.splits if_splits option.splits)
    have d: "due_error env (cx_config cx) rq e = ar_error_code r" "due_engine env (cx_config cx) rq e e'"
      using True rq Sql_Field r by (auto simp: due_error_def due_engine_def due_query_def)
    from adapter_result_ok [OF r] have c: "ar_ok r \<longleftrightarrow> ar_error_code r = SQL_ENGINE_ERROR_NONE"
      by (simp add: result_ok_def split: if_splits)
    show ?thesis
    proof (cases "ar_ok r")
      case ok: True
      with a True Sql_Field r c d answers_json show ?thesis
        by (auto simp: api_handle_query_def db_service_execute_sql_def split: option.splits)
    next
      case False
      with c answers_error [OF _ user_message_fits, of "ar_error_code r" resp0 "ar_error_code r" "ar_error_message r"]
        a True Sql_Field r d show ?thesis
        by (auto simp: api_handle_query_def db_service_execute_sql_def)
    qed
  qed (use a True rq answers_error [of SQL_ENGINE_ERROR_INVALID_JSON] answers_error [of SQL_ENGINE_ERROR_MISSING_SQL_FIELD]
    in \<open>auto simp: api_handle_query_def due_error_def due_engine_def due_query_def\<close>)
qed

text \<open>The two numbers that the reports print are C integers.\<close>

definition counts_ok :: "api_context \<Rightarrow> bool" where
  "counts_ok cx = (INT_MIN \<le> cx_worker_count cx \<and> cx_worker_count cx \<le> INT_MAX
     \<and> INT_MIN \<le> cx_queue_depth cx \<and> cx_queue_depth cx \<le> INT_MAX)"

lemma handle_reports_due:
  assumes "counts_ok cx"
  shows "\<exists>r. api_handle_root rq cx resp = Some r
      \<and> answers (if rq_body_length rq = 0 then SQL_ENGINE_ERROR_NONE else SQL_ENGINE_ERROR_INVALID_JSON) r"
    and "\<exists>r. api_handle_health rq cx resp = Some r
      \<and> answers (if rq_body_length rq = 0 then SQL_ENGINE_ERROR_NONE else SQL_ENGINE_ERROR_INVALID_JSON) r"
proof -
  note ok = reports_answered [where rq = rq and cx = cx and resp = resp] assms [unfolded counts_ok_def]
  note err = answers_error [of SQL_ENGINE_ERROR_INVALID_JSON]
  show "\<exists>r. api_handle_root rq cx resp = Some r
      \<and> answers (if rq_body_length rq = 0 then SQL_ENGINE_ERROR_NONE else SQL_ENGINE_ERROR_INVALID_JSON) r"
  proof (cases "rq_body_length rq = 0")
    case True
    with ok show ?thesis by (auto simp: answers_def)
  next
    case False
    with err show ?thesis by (simp add: api_handle_root_def)
  qed
  show "\<exists>r. api_handle_health rq cx resp = Some r
      \<and> answers (if rq_body_length rq = 0 then SQL_ENGINE_ERROR_NONE else SQL_ENGINE_ERROR_INVALID_JSON) r"
  proof (cases "rq_body_length rq = 0")
    case True
    with ok show ?thesis by (auto simp: answers_def)
  next
    case False
    with err show ?thesis by (simp add: api_handle_health_def)
  qed
qed

lemma route_due:
  assumes a: "http_route_request env timings rq cx e resp0 = Answer resp e'" and cx: "counts_ok cx"
  shows "(\<exists>r. resp = Some r \<and> answers (due_error env (cx_config cx) rq e) r)
    \<and> due_engine env (cx_config cx) rq e e'"
proof (cases "rq_path rq = ''/query'' \<and> rq_method rq = ''POST''")
  case True
  with a have "api_handle_query env timings rq cx e resp0 = Answer resp e'" by (simp add: http_route_request_def)
  with True show ?thesis by (intro handle_query_due) simp_all
next
  case False
  then have none: "due_engine env (cx_config cx) rq e e' \<longleftrightarrow> e' = e"
    by (auto simp: due_engine_def due_query_def)
  note route = a [unfolded http_route_request_def]
  consider "rq_path rq = ''/''" | "rq_path rq = ''/health''" | "rq_path rq = ''/query''" "rq_method rq \<noteq> ''POST''"
    | "rq_path rq \<notin> {''/'', ''/health'', ''/query''}"
    using False by blast
  then show ?thesis
  proof cases
    case 1
    with answers_error [of SQL_ENGINE_ERROR_METHOD_NOT_ALLOWED] handle_reports_due(1) [OF cx, of rq resp0] route none
    show ?thesis by (cases "rq_method rq = ''GET''") (auto simp: due_error_def)
  next
    case 2
    with answers_error [of SQL_ENGINE_ERROR_METHOD_NOT_ALLOWED] handle_reports_due(2) [OF cx, of rq resp0] route none
    show ?thesis by (cases "rq_method rq = ''GET''") (auto simp: due_error_def)
  next
    case 3
    with answers_error [of SQL_ENGINE_ERROR_METHOD_NOT_ALLOWED] route none show ?thesis
      by (auto simp: due_error_def)
  next
    case 4
    with answers_error [of SQL_ENGINE_ERROR_NOT_FOUND] route none show ?thesis by (auto simp: due_error_def)
  qed
qed

end
