(* ===== verification/Content_Type_Race.thy ===== *)
theory Content_Type_Race
  imports Query_Handler
begin

text \<open>
  \<open>is_valid_query_content_type\<close> as it runs on the workers of the server: \<open>strtok\<close> keeps its place in
  one static pointer, which all threads share. A step is one call of \<open>strtok\<close> with what the
  worker does with its token; the pointer is the worker whose copy it points into and the text
  from there on. A call through the pointer after its owner has freed its copy is undefined.
\<close>

section \<open>The calls of strtok\<close>

text \<open>One call on the text \<open>s\<close>: the token and the place after its delimiter.\<close>

definition strtok_next :: "char \<Rightarrow> string \<Rightarrow> (string \<times> string) option" where
  "strtok_next d s =
     (let s' = dropWhile (\<lambda>c. c = d) s in
      if s' = [] then None
      else Some (takeWhile (\<lambda>c. c \<noteq> d) s', tl (dropWhile (\<lambda>c. c \<noteq> d) s')))"

lemma strtok_calls:
  "strtok d s = (case strtok_next d s of None \<Rightarrow> [] | Some (t, rest) \<Rightarrow> t # strtok d rest)"
proof -
  have skip: "strtok d s = strtok d (tl s)" if "s \<noteq> []" "hd s = d" for s
  proof -
    from that have "dropWhile (\<lambda>c. c = d) s = dropWhile (\<lambda>c. c = d) (tl s)" by (cases s) simp_all
    then show ?thesis unfolding strtok.simps [of d s] strtok.simps [of d "tl s"] by (simp only:)
  qed
  have "strtok d (dropWhile (\<lambda>c. c \<noteq> d) s') = strtok d (tl (dropWhile (\<lambda>c. c \<noteq> d) s'))" for s'
  proof (cases "dropWhile (\<lambda>c. c \<noteq> d) s'")
    case (Cons c cs)
    then have "hd (dropWhile (\<lambda>c. c \<noteq> d) s') = d"
      using hd_dropWhile [of "\<lambda>c. c \<noteq> d" s'] by (metis list.discI)
    with Cons show ?thesis by (intro skip) (simp_all del: dropWhile_eq_Nil_conv)
  qed (simp only: list.sel)
  then show ?thesis by (simp add: strtok.simps [of d s] strtok_next_def Let_def)
qed

section \<open>Workers\<close>

text \<open>A worker is about to check a content type, is among the parameters, or has its result.\<close>

datatype check = Fresh string | Params bool | Verdict bool

record checks =
  ck_saved :: "nat \<times> string"
  ck_workers :: "check list"

definition verdict :: "checks \<Rightarrow> nat \<Rightarrow> check \<Rightarrow> nat \<times> string \<Rightarrow> checks" where
  "verdict s i c saved = s\<lparr>ck_saved := saved, ck_workers := (ck_workers s)[i := c]\<rparr>"

text \<open>The next call of worker \<open>i\<close>; \<^term>\<open>None\<close> is undefined behaviour.\<close>

definition check_step :: "nat \<Rightarrow> checks \<Rightarrow> checks option" where
  "check_step i s =
     (case ck_workers s ! i of
        Verdict b \<Rightarrow> Some s
      | Fresh v \<Rightarrow>
          Some (case strtok_next CHR '';'' v of
             None \<Rightarrow> verdict s i (Verdict False) (i, [])
           | Some (t, rest) \<Rightarrow>
               verdict s i (if strings_equal_ignore_case (trim_whitespace t) ''application/json''
                            then Params False else Verdict False) (i, rest))
      | Params seen \<Rightarrow>
          (case ck_saved s of
             (owner, place) \<Rightarrow>
               if owner \<noteq> i \<and> (\<exists>b. ck_workers s ! owner = Verdict b) then None
               else
                 Some (case strtok_next CHR '';'' place of
                    None \<Rightarrow> verdict s i (Verdict True) (owner, [])
                  | Some (t, rest) \<Rightarrow>
                      verdict s i (if valid_param t seen then Params True else Verdict False)
                        (owner, rest))))"

fun run_checks :: "nat list \<Rightarrow> checks \<Rightarrow> checks option" where
  "run_checks [] s = Some s"
| "run_checks (i # is) s = (case check_step i s of None \<Rightarrow> None | Some s' \<Rightarrow> run_checks is s')"

definition start_checks :: "string list \<Rightarrow> checks" where
  "start_checks vs = \<lparr>ck_saved = (0, []), ck_workers = map Fresh vs\<rparr>"

section \<open>Alone\<close>

lemma verdict_stays:
  "ck_workers s ! i = Verdict b \<Longrightarrow>
     \<exists>s'. run_checks (replicate n i) s = Some s' \<and> ck_workers s' ! i = Verdict b"
  by (induction n) (simp_all add: check_step_def)

lemma params_alone:
  assumes "i < length (ck_workers s)" and "ck_workers s ! i = Params seen" and "ck_saved s = (i, place)"
    and "length (strtok CHR '';'' place) < n"
  shows "\<exists>s'. run_checks (replicate n i) s = Some s'
    \<and> ck_workers s' ! i = Verdict (content_type_params (strtok CHR '';'' place) seen)"
  using assms
proof (induction n arbitrary: s seen place)
  case (Suc n)
  show ?case
  proof (cases "strtok_next CHR '';'' place")
    case None
    with Suc.prems verdict_stays [where s = "verdict s i (Verdict True) (i, [])" and i = i and b = True and n = n] strtok_calls [of "CHR '';''" place]
    show ?thesis by (simp add: check_step_def verdict_def)
  next
    case (Some y)
    obtain t rest where y: "y = (t, rest)" by fastforce
    have ls: "strtok CHR '';'' place = t # strtok CHR '';'' rest"
      using strtok_calls [of "CHR '';''" place] Some y by simp
    show ?thesis
    proof (cases "valid_param t seen")
      case True
      define s1 where "s1 = verdict s i (Params True) (i, rest)"
      have "i < length (ck_workers s1)" "ck_workers s1 ! i = Params True" "ck_saved s1 = (i, rest)"
        "length (strtok CHR '';'' rest) < n"
        using Suc.prems ls by (simp_all add: s1_def verdict_def)
      from Suc.IH [OF this] show ?thesis
        using Suc.prems Some y ls True by (simp add: check_step_def s1_def)
    next
      case False
      with Suc.prems Some y ls verdict_stays [where s = "verdict s i (Verdict False) (i, rest)" and i = i and b = False and n = n]
      show ?thesis by (simp add: check_step_def verdict_def)
    qed
  qed
qed simp

lemma check_alone:
  assumes "length (strtok CHR '';'' v) \<le> n"
  shows "\<exists>s. run_checks (replicate (Suc n) 0) (start_checks [v]) = Some s
    \<and> ck_workers s ! 0 = Verdict (is_valid_query_content_type (Some v))"
proof (cases "strtok_next CHR '';'' v")
  case None
  with strtok_calls [of "CHR '';''" v] verdict_stays [where s = "verdict (start_checks [v]) 0 (Verdict False) (0, [])" and i = 0 and b = False and n = n]
  show ?thesis by (simp add: check_step_def start_checks_def verdict_def is_valid_query_content_type_def)
next
  case (Some y)
  obtain t rest where y: "y = (t, rest)" by fastforce
  have ls: "strtok CHR '';'' v = t # strtok CHR '';'' rest"
    using strtok_calls [of "CHR '';''" v] Some y by simp
  define s1 where "s1 = verdict (start_checks [v]) 0
    (if strings_equal_ignore_case (trim_whitespace t) ''application/json'' then Params False else Verdict False)
    (0, rest)"
  have step: "run_checks (replicate (Suc n) 0) (start_checks [v]) = run_checks (replicate n 0) s1"
    using Some y by (simp add: check_step_def start_checks_def verdict_def s1_def)
  show ?thesis
  proof (cases "strings_equal_ignore_case (trim_whitespace t) ''application/json''")
    case True
    then have s1: "ck_workers s1 = [Params False]" "ck_saved s1 = (0, rest)"
      by (simp_all add: s1_def verdict_def start_checks_def)
    with params_alone [where i = 0 and s = s1 and seen = False and place = rest and n = n] assms ls True step show ?thesis
      by (simp add: is_valid_query_content_type_def)
  next
    case False
    then have "ck_workers s1 ! 0 = Verdict False" by (simp add: s1_def verdict_def start_checks_def)
    with verdict_stays [where s = s1 and i = 0 and b = False and n = n] step ls False show ?thesis
      by (simp add: is_valid_query_content_type_def)
  qed
qed

section \<open>Together\<close>

lemma media_type_first:
  "strtok_next CHR '';'' (''application/json'' @ '';'' @ p) = Some (''application/json'', p)"
  "strtok_next CHR '';'' ''application/json'' = Some (''application/json'', [])"
  by (simp_all add: strtok_next_def Let_def)

lemma media_type_trim: "trim_whitespace ''application/json'' = ''application/json''"
  by (simp add: trim_whitespace_def isspace_def byte_def)

text \<open>
  C33: the check of the content type is right on one worker and wrong on two. A worker alone comes
  to the verdict of \<open>is_valid_query_content_type\<close>; but when a second worker begins the check of a
  plain \<open>application/json\<close> between the first and the second call of the first worker, the first one
  finds the other text's end instead of its own parameters, and accepts any parameters at all.
\<close>

theorem content_type_race:
  assumes "v = ''application/json'' @ '';'' @ p" and "\<not> is_valid_query_content_type (Some v)"
  shows "\<exists>s s'. run_checks (replicate (Suc (length (strtok CHR '';'' v))) 0) (start_checks [v]) = Some s
    \<and> ck_workers s ! 0 = Verdict False
    \<and> run_checks [0, 1, 0, 1] (start_checks [v, ''application/json'']) = Some s'
    \<and> ck_workers s' ! 0 = Verdict True"
proof -
  have "strtok_next CHR '';'' [] = None" by (simp add: strtok_next_def)
  then have "\<exists>s'. run_checks [0, 1, 0, 1] (start_checks [v, ''application/json'']) = Some s'
    \<and> ck_workers s' ! 0 = Verdict True"
    unfolding assms(1)
    by (simp add: check_step_def start_checks_def verdict_def media_type_first media_type_trim del: append.simps)
  with check_alone [of v, OF order_refl] assms(2) show ?thesis by auto
qed

theorem content_type_race_witness:
  "\<exists>s s'. run_checks (replicate (Suc (length (strtok CHR '';'' (''application/json'' @ '';'' @ ''charset=latin1'')))) 0)
        (start_checks [''application/json'' @ '';'' @ ''charset=latin1'']) = Some s
    \<and> ck_workers s ! 0 = Verdict False
    \<and> run_checks [0, 1, 0, 1]
        (start_checks [''application/json'' @ '';'' @ ''charset=latin1'', ''application/json'']) = Some s'
    \<and> ck_workers s' ! 0 = Verdict True"
proof (rule content_type_race [OF refl])
  have "valid_param ''charset=latin1'' False = False"
    by (simp add: valid_param_def Let_def trim_whitespace_def isspace_def byte_def char_eval)
  moreover have "strtok CHR '';'' ''charset=latin1'' = [''charset=latin1'']" by (simp add: strtok.simps)
  ultimately show "\<not> is_valid_query_content_type (Some (''application/json'' @ '';'' @ ''charset=latin1''))"
    using strtok_calls [of "CHR '';''" "''application/json'' @ '';'' @ ''charset=latin1''"]
    by (simp add: is_valid_query_content_type_def media_type_first del: append.simps)
qed

end
