(* ===== verification/Platform.thy ===== *)
theory Platform
  imports Prelude "HOL-Library.Word"
begin

text \<open>
  The operating system layer of the sockets, \<open>src/common/platform.c\<close>, for both of its targets:
  \<open>windows\<close> says which branch of the conditional compilation is built. The answers of the system
  calls and the text of the last error are arguments; the state is the flag \<open>network_initialized\<close>,
  which only the Windows branch has.
\<close>

text \<open>The error, if any, and the flag; \<open>status\<close> is what \<open>WSAStartup\<close> returns.\<close>

definition sql_platform_network_init :: "bool \<Rightarrow> int \<Rightarrow> nat \<Rightarrow> bool \<Rightarrow> string option \<times> bool" where
  "sql_platform_network_init windows status error_size network_initialized =
     (if \<not> windows then (None, network_initialized)
      else if network_initialized then (None, network_initialized)
      else if status \<noteq> 0
      then (Some (snprintf error_size (''failed to initialize Winsock: '' @ show_int status)),
            network_initialized)
      else (None, True))"

text \<open>Whether \<open>WSACleanup\<close> is called, and the flag.\<close>

definition sql_platform_network_cleanup :: "bool \<Rightarrow> bool \<Rightarrow> bool \<times> bool" where
  "sql_platform_network_cleanup windows network_initialized =
     (if windows \<and> network_initialized then (True, False) else (False, network_initialized))"

text \<open>
  The length given to \<open>send\<close>: the Windows branch narrows it to an \<open>int\<close>; the answer of the POSIX
  call, an \<open>ssize_t\<close>, is narrowed on return.
\<close>

definition sql_platform_send_socket :: "bool \<Rightarrow> (int \<Rightarrow> int) \<Rightarrow> nat \<Rightarrow> int" where
  "sql_platform_send_socket windows answer len =
     (if windows then answer (sint (word_of_nat len :: 32 word))
      else sint (word_of_int (answer (int len)) :: 32 word))"

text \<open>The text of the last socket error, or its number on Windows.\<close>

definition sql_platform_format_socket_error :: "bool \<Rightarrow> int \<Rightarrow> string \<Rightarrow> nat \<Rightarrow> string \<Rightarrow> string" where
  "sql_platform_format_socket_error windows code reason error_size action =
     (if windows then snprintf error_size (action @ '': Winsock error '' @ show_int code)
      else snprintf error_size (action @ '': '' @ reason))"

section \<open>What the server relies on\<close>

text \<open>
  Every initialisation that succeeds on Windows leaves the flag set, so the cleanup of the last
  server undoes exactly one \<open>WSAStartup\<close>; on POSIX neither has an effect and none fails.
\<close>

lemma network_init_cleanup:
  assumes "sql_platform_network_init windows status n False = (None, flag)"
  shows "sql_platform_network_cleanup windows flag = (windows, False)"
  using assms
  by (auto simp: sql_platform_network_init_def sql_platform_network_cleanup_def split: if_splits)

lemma network_init_posix: "sql_platform_network_init False status n flag = (None, flag)"
  by (simp add: sql_platform_network_init_def)

text \<open>An answer in the range of \<open>int\<close> is returned as it is.\<close>

lemma send_socket_posix:
  assumes "- (2 ^ 31) \<le> answer (int len)" and "answer (int len) < 2 ^ 31"
  shows "sql_platform_send_socket False answer len = answer (int len)"
  using assms by (simp add: sql_platform_send_socket_def sint_sbintrunc' signed_take_bit_int_eq_self)

end
