(* ===== verification/Server.thy ===== *)
theory Server
  imports Query_Handler Worker_Pool Platform
begin

text \<open>
  The server around the handlers: \<open>src/server/server.c\<close> and the program
  \<open>src/app/sqlapi_server_main.c\<close>. One connection is its input, the sizes \<open>recv\<close> delivers and the
  answers of \<open>send\<close>; creating, starting and destroying the server are modelled with the list of
  the resources held. The threads and the queue are in \<open>Worker_Pool\<close>; what the operating system
  answers (allocations, addresses, sockets, threads) is an argument.
\<close>

section \<open>Configuration\<close>

record server_config =
  sv_host :: string
  sv_port :: int
  sv_worker_count :: int
  sv_queue_capacity :: int
  sv_schema_dir :: string
  sv_data_dir :: string
  sv_request_body_limit :: nat
  sv_sql_length_limit :: nat
  sv_header_limit :: nat

definition sqlapi_server_config_set_defaults :: server_config where
  "sqlapi_server_config_set_defaults = \<lparr>sv_host = ''127.0.0.1'', sv_port = 8080,
     sv_worker_count = 4, sv_queue_capacity = 64, sv_schema_dir = ''schema'', sv_data_dir = ''data'',
     sv_request_body_limit = 16 * 1024, sv_sql_length_limit = 8 * 1024, sv_header_limit = 8 * 1024\<rparr>"

definition directory_exists :: "fs \<Rightarrow> string \<Rightarrow> bool" where
  "directory_exists f path = (case f path of Directory es \<Rightarrow> True | _ \<Rightarrow> False)"

text \<open>The error, or nothing when the configuration is accepted.\<close>

definition sqlapi_server_validate_config :: "fs \<Rightarrow> server_config \<Rightarrow> string option" where
  "sqlapi_server_validate_config f cfg =
     (if sv_port cfg < 1 \<or> 65535 < sv_port cfg
      then Some ''--port must be between 1 and 65535''
      else if sv_worker_count cfg < 1 then Some ''--worker-count must be at least 1''
      else if sv_queue_capacity cfg < 1 then Some ''--queue-capacity must be at least 1''
      else if \<not> directory_exists f (sv_schema_dir cfg)
      then Some ''--schema-dir must point to an existing directory''
      else if \<not> directory_exists f (sv_data_dir cfg)
      then Some ''--data-dir must point to an existing directory''
      else None)"

text \<open>\<open>read_option_value\<close> at the arguments after an option: the value and those after it.\<close>

definition read_option_value :: "string list \<Rightarrow> (string \<times> string list) option" where
  "read_option_value args = (case args of [] \<Rightarrow> None | v # args' \<Rightarrow> Some (v, args'))"

lemma read_option_value_shorter [termination_simp]:
  "read_option_value args = Some (v, args') \<Longrightarrow> length args' < Suc (length args)"
  by (auto simp: read_option_value_def split: list.splits)

text \<open>The option loop over the arguments after the program name; an error is its first line.\<close>

fun parse_options :: "string list \<Rightarrow> server_config \<Rightarrow> string + server_config" where
  "parse_options [] cfg = Inr cfg"
| "parse_options (opt # args) cfg =
     (if opt = ''--host'' then
        (case read_option_value args of None \<Rightarrow> Inl ''missing value for --host''
         | Some (v, args') \<Rightarrow> parse_options args' (cfg\<lparr>sv_host := v\<rparr>))
      else if opt = ''--port'' then
        (case read_option_value args of None \<Rightarrow> Inl ''invalid value for --port''
         | Some (v, args') \<Rightarrow>
             (case parse_int_strict v of None \<Rightarrow> Inl ''invalid value for --port''
              | Some n \<Rightarrow> parse_options args' (cfg\<lparr>sv_port := n\<rparr>)))
      else if opt = ''--worker-count'' then
        (case read_option_value args of None \<Rightarrow> Inl ''invalid value for --worker-count''
         | Some (v, args') \<Rightarrow>
             (case parse_int_strict v of None \<Rightarrow> Inl ''invalid value for --worker-count''
              | Some n \<Rightarrow> parse_options args' (cfg\<lparr>sv_worker_count := n\<rparr>)))
      else if opt = ''--queue-capacity'' then
        (case read_option_value args of None \<Rightarrow> Inl ''invalid value for --queue-capacity''
         | Some (v, args') \<Rightarrow>
             (case parse_int_strict v of None \<Rightarrow> Inl ''invalid value for --queue-capacity''
              | Some n \<Rightarrow> parse_options args' (cfg\<lparr>sv_queue_capacity := n\<rparr>)))
      else if opt = ''--schema-dir'' then
        (case read_option_value args of None \<Rightarrow> Inl ''missing value for --schema-dir''
         | Some (v, args') \<Rightarrow> parse_options args' (cfg\<lparr>sv_schema_dir := v\<rparr>))
      else if opt = ''--data-dir'' then
        (case read_option_value args of None \<Rightarrow> Inl ''missing value for --data-dir''
         | Some (v, args') \<Rightarrow> parse_options args' (cfg\<lparr>sv_data_dir := v\<rparr>))
      else Inl (''unknown option: '' @ opt))"

section \<open>Creating the server\<close>

text \<open>
  What creation and start acquire, in their order. \<open>release\<close> is a run of \<open>free\<close> and \<open>destroy\<close> calls; freeing
  a string that was not copied does nothing.
\<close>

datatype resource = Server_Memory | Config_Strings | State_Mutex | Task_Queue_Memory
  | Registry_Mutex | Lock_Mutex | Thread_Array

definition release :: "resource list \<Rightarrow> resource list \<Rightarrow> resource list" where
  "release rs held = filter (\<lambda>r. r \<notin> set rs) held"

text \<open>What the system grants while the server is created.\<close>

record create_env =
  ce_calloc :: bool
  ce_strings :: bool
  ce_state_mutex :: bool
  ce_queue_alloc :: bool
  ce_queue_mutex :: bool
  ce_queue_cond :: bool
  ce_registry :: bool
  ce_locks :: bool

record server =
  sr_config :: server_config
  sr_listen_socket :: "int option"
  sr_shutting_down :: bool
  sr_started :: bool
  sr_queue :: task_queue
  sr_lock_manager :: lock_manager
  sr_worker_pool :: worker_pool

text \<open>\<open>table_index_registry_init\<close>: the static mutex is initialised once per process.\<close>

definition table_index_registry_init :: "bool \<Rightarrow> resource list \<Rightarrow> string + resource list" where
  "table_index_registry_init mutex_ok held =
     (if Registry_Mutex \<in> set held then Inr held
      else if \<not> mutex_ok then Inl ''failed to initialize registry mutex''
      else Inr (held @ [Registry_Mutex]))"

definition table_index_registry_shutdown :: "resource list \<Rightarrow> resource list" where
  "table_index_registry_shutdown held = release [Registry_Mutex] held"

text \<open>The server or the error, and the resources held afterwards, given those held before.\<close>

definition sqlapi_server_create ::
  "fs \<Rightarrow> create_env \<Rightarrow> server_config \<Rightarrow> resource list \<Rightarrow> (string + server) \<times> resource list" where
  "sqlapi_server_create f env cfg held =
     (case sqlapi_server_validate_config f cfg of
        Some m \<Rightarrow> (Inl m, held)
      | None \<Rightarrow>
          if \<not> ce_calloc env then (Inl ''out of memory while creating server'', held)
          else
            let held1 = held @ [Server_Memory] in
            if \<not> ce_strings env
            then (Inl ''out of memory while copying server configuration'', release [Server_Memory] held1)
            else
              let held2 = held1 @ [Config_Strings] in
              if \<not> ce_state_mutex env
              then (Inl ''failed to initialize server state mutex'',
                    release [Config_Strings, Server_Memory] held2)
              else
                let held3 = held2 @ [State_Mutex] in
                (case server_task_queue_init (ce_queue_alloc env) (ce_queue_mutex env) (ce_queue_cond env)
                        (sv_queue_capacity cfg) of
                   Inl m \<Rightarrow> (Inl m, release [State_Mutex, Config_Strings, Server_Memory] held3)
                 | Inr q \<Rightarrow>
                     let held4 = held3 @ [Task_Queue_Memory] in
                     (case table_index_registry_init (ce_registry env) held4 of
                        Inl m \<Rightarrow> (Inl m, release [Task_Queue_Memory, State_Mutex, Config_Strings,
                                                Server_Memory] held4)
                      | Inr held5 \<Rightarrow>
                          (case engine_lock_manager_init (ce_locks env) of
                             Inl m \<Rightarrow> (Inl m, release [Task_Queue_Memory, State_Mutex, Config_Strings,
                                                     Server_Memory] held5)
                           | Inr lm \<Rightarrow>
                               (Inr \<lparr>sr_config = cfg, sr_listen_socket = None, sr_shutting_down = False,
                                     sr_started = False, sr_queue = q, sr_lock_manager = lm,
                                     sr_worker_pool = no_pool\<rparr>,
                                held5 @ [Lock_Mutex])))))"

section \<open>Starting and stopping\<close>

text \<open>
  What the system answers while the server starts: one entry of \<open>st_addresses\<close> is an address of
  the list, with the socket it gets and whether \<open>bind\<close> and \<open>listen\<close> accept it; \<open>st_errno\<close> is the
  number and the text of the last socket error. The program starts one server, so the flag of the
  network layer is still false.
\<close>

record start_env =
  st_windows :: bool
  st_wsa_status :: int
  st_resolves :: bool
  st_addresses :: "(int option \<times> bool) list"
  st_errno :: "int \<times> string"
  st_pool_alloc :: bool
  st_create :: "nat \<Rightarrow> bool"
  st_accept :: bool

text \<open>
  The loop over the addresses, with \<open>server->listen_socket\<close>: whether an address was accepted, that
  socket afterwards, and the sockets that were closed again.
\<close>

fun try_addresses :: "(int option \<times> bool) list \<Rightarrow> int option \<Rightarrow> bool \<times> int option \<times> int list" where
  "try_addresses [] current = (False, current, [])"
| "try_addresses ((None, ok) # as) current = try_addresses as None"
| "try_addresses ((Some fd, ok) # as) current =
     (if ok then (True, Some fd, [])
      else (case try_addresses as None of (found, s, closed) \<Rightarrow> (found, s, fd # closed)))"

definition open_listen_socket :: "start_env \<Rightarrow> server \<Rightarrow> (string + unit) \<times> server \<times> int list" where
  "open_listen_socket env s =
     (if \<not> st_resolves env then (Inl (snprintf 256 ''failed to resolve listen address''), s, [])
      else
        (case try_addresses (st_addresses env) (sr_listen_socket s) of
           (found, fd, closed) \<Rightarrow>
             (if found then Inr ()
              else Inl (sql_platform_format_socket_error (st_windows env) (fst (st_errno env))
                          (snd (st_errno env)) 256 ''failed to bind or listen''),
              s\<lparr>sr_listen_socket := fd\<rparr>, closed)))"

text \<open>The listening socket, when there is one.\<close>

definition opened :: "server \<Rightarrow> int list" where
  "opened s = (case sr_listen_socket s of None \<Rightarrow> [] | Some fd \<Rightarrow> [fd])"

text \<open>
  A start ends with running threads, with an error, or it does not return: joining workers that
  wait in \<open>pop\<close> returns only when the queue is closed.
\<close>

datatype start_outcome = Started "worker list" server "int list" | Start_Failed string server "int list"
  | Start_Hangs "int list"

definition sqlapi_server_start :: "start_env \<Rightarrow> server \<Rightarrow> start_outcome" where
  "sqlapi_server_start env s =
     (case fst (sql_platform_network_init (st_windows env) (st_wsa_status env) 256 False) of
        Some m \<Rightarrow> Start_Failed m s []
      | None \<Rightarrow>
          (case open_listen_socket env s of
             (Inl m, s1, closed) \<Rightarrow> Start_Failed m s1 closed
           | (Inr _, s1, closed) \<Rightarrow>
               (case server_worker_pool_start (st_pool_alloc env) (st_create env)
                       (nat (sv_worker_count (sr_config s1))) of
                  (Some m, p) \<Rightarrow>
                    if wp_workers p \<noteq> [] \<and> \<not> tq_closed (sr_queue s1) then Start_Hangs closed
                    else Start_Failed m (s1\<lparr>sr_worker_pool := p, sr_listen_socket := None\<rparr>)
                           (closed @ opened s1)
                | (None, p) \<Rightarrow>
                    if \<not> st_accept env
                    then Start_Failed ''failed to create accept thread''
                           (s1\<lparr>sr_worker_pool := server_worker_pool_destroy p, sr_listen_socket := None,
                               sr_queue := server_task_queue_close (sr_queue s1)\<rparr>)
                           (closed @ opened s1)
                    else Started (wp_workers p) (s1\<lparr>sr_worker_pool := p, sr_started := True\<rparr>) closed)))"

text \<open>
  \<open>sqlapi_server_request_shutdown\<close>: the sockets it shut down and closed, and the server.
\<close>

definition sqlapi_server_request_shutdown :: "server \<Rightarrow> int list \<times> server" where
  "sqlapi_server_request_shutdown s =
     (if \<not> sr_shutting_down s then
        (opened s,
         s\<lparr>sr_shutting_down := True, sr_listen_socket := None,
           sr_queue := server_task_queue_close (sr_queue s)\<rparr>)
      else ([], s))"

text \<open>The array of thread handles, while a pool has one.\<close>

definition pool_memory :: "worker_pool \<Rightarrow> resource list" where
  "pool_memory p = (case wp_threads p of None \<Rightarrow> [] | Some n \<Rightarrow> [Thread_Array])"

text \<open>
  \<open>sqlapi_server_destroy\<close>, on the resources: the sockets closed, and what is still held, given what
  creation acquired. The pool is destroyed only when the server was started.
\<close>

definition sqlapi_server_destroy :: "server \<Rightarrow> resource list \<Rightarrow> int list \<times> resource list" where
  "sqlapi_server_destroy s held =
     (let p = (if sr_started s then server_worker_pool_destroy (sr_worker_pool s) else sr_worker_pool s) in
      (fst (sqlapi_server_request_shutdown s),
       release [Lock_Mutex, Task_Queue_Memory, State_Mutex, Config_Strings, Server_Memory]
         (table_index_registry_shutdown held) @ pool_memory p))"

definition sqlapi_server_queue_depth :: "server \<Rightarrow> int" where
  "sqlapi_server_queue_depth s = server_task_queue_depth (sr_queue s)"

definition sqlapi_server_worker_count :: "server \<Rightarrow> int" where
  "sqlapi_server_worker_count s = sv_worker_count (sr_config s)"

text \<open>The engine configuration that the service layer shares.\<close>

definition service_config :: "server_config \<Rightarrow> adapter_config" where
  "service_config cfg = \<lparr>ac_schema_dir = sv_schema_dir cfg, ac_data_dir = sv_data_dir cfg,
     ac_sql_length_limit = sv_sql_length_limit cfg\<rparr>"

section \<open>One connection\<close>

record connection =
  cn_input :: string
  cn_chunks :: "nat list"
  cn_sends :: "int list"

text \<open>The connection is closed after these bytes, or its worker waits or runs into undefined behaviour.\<close>

datatype connection_outcome = Closed string engine | Stalled engine | Crashed

definition send_simple_error :: "int list \<Rightarrow> sql_engine_error_code \<Rightarrow> string \<Rightarrow> bool \<times> string" where
  "send_simple_error sends code message =
     (case http_response_set_error http_response_init code message of
        None \<Rightarrow> (False, [])
      | Some r \<Rightarrow> http_response_send sends r)"

definition handle_client_request ::
  "adapter_env \<Rightarrow> string \<times> string \<Rightarrow> server \<Rightarrow> connection \<Rightarrow> engine \<Rightarrow> connection_outcome" where
  "handle_client_request env timings s cn e =
     (case fst (http_read_request (cn_chunks cn) (sv_header_limit (sr_config s))
                  (sv_request_body_limit (sr_config s)) (cn_input cn)) of
        Inl (code, message) \<Rightarrow> Closed (snd (send_simple_error (cn_sends cn) code message)) e
      | Inr rq \<Rightarrow>
          (case http_route_request env timings rq
                  \<lparr>cx_config = service_config (sr_config s),
                   cx_worker_count = sqlapi_server_worker_count s,
                   cx_queue_depth = sqlapi_server_queue_depth s\<rparr> e http_response_init of
             Broken \<Rightarrow> Crashed
           | Blocked e' \<Rightarrow> Stalled e'
           | Answer None e' \<Rightarrow>
               Closed (snd (send_simple_error (cn_sends cn) SQL_ENGINE_ERROR_INTERNAL_ERROR
                              ''failed to construct HTTP response'')) e'
           | Answer (Some r) e' \<Rightarrow> Closed (snd (http_response_send (cn_sends cn) r)) e'))"

text \<open>The accept loop refuses a connection that the queue does not take.\<close>

definition refuse_connection :: "int list \<Rightarrow> string" where
  "refuse_connection sends = snd (send_simple_error sends SQL_ENGINE_ERROR_QUEUE_FULL ''server is busy'')"

section \<open>The program\<close>

text \<open>
  \<open>main\<close> of \<open>src/app/sqlapi_server_main.c\<close>: it exits with a status and what it wrote to \<open>stderr\<close>,
  runs the server until a shutdown, or hangs in the start. \<open>held\<close> is what the process still holds
  when it exits.
\<close>

definition print_usage :: "string \<Rightarrow> string" where
  "print_usage program_name =
     ''Usage: '' @ program_name @ '' [--host HOST] [--port PORT] [--worker-count N] [--queue-capacity N] ''
     @ ''[--schema-dir DIR] [--data-dir DIR]'' @ [LF]"

text \<open>Only a missing host and an unknown option print the usage as well.\<close>

definition shows_usage :: "string \<Rightarrow> bool" where
  "shows_usage m = (m = ''missing value for --host'' \<or> prefix ''unknown option: '' m)"

datatype main_outcome = Exits int string "resource list" | Serves "worker list" server "resource list"
  | Start_Stuck

definition server_main :: "string \<Rightarrow> fs \<Rightarrow> create_env \<Rightarrow> start_env \<Rightarrow> string list \<Rightarrow> main_outcome" where
  "server_main program_name f cenv senv args =
     (case parse_options args sqlapi_server_config_set_defaults of
        Inl m \<Rightarrow> Exits 1 (m @ [LF] @ (if shows_usage m then print_usage program_name else [])) []
      | Inr cfg \<Rightarrow>
          (case sqlapi_server_create f cenv cfg [] of
             (Inl m, held) \<Rightarrow> Exits 1 (m @ [LF]) held
           | (Inr s, held) \<Rightarrow>
               (case sqlapi_server_start senv s of
                  Start_Failed m s' closed \<Rightarrow> Exits 1 (m @ [LF]) (snd (sqlapi_server_destroy s' held))
                | Start_Hangs closed \<Rightarrow> Start_Stuck
                | Started ws s' closed \<Rightarrow> Serves ws s' held)))"

text \<open>The rest of \<open>main\<close>, once \<open>sqlapi_server_wait\<close> has returned.\<close>

definition main_after_wait :: "server \<Rightarrow> resource list \<Rightarrow> main_outcome" where
  "main_after_wait s held = Exits 0 [] (snd (sqlapi_server_destroy s held))"

end
