(* ===== verification/Server_Props.thy ===== *)
theory Server_Props
  imports Api_Contract Server
begin

text \<open>
  The properties of the whole server: how a connection is answered, what a pair of queries gives
  from the bytes of the requests to the bytes of the responses, and what a run of the program
  holds when it ends.
\<close>

section \<open>Every connection is answered\<close>

text \<open>What reached the peer of a response, when the socket may fail at any call.\<close>

definition delivered :: "int list \<Rightarrow> http_response \<Rightarrow> string \<Rightarrow> bool" where
  "delivered sends r sent =
     (case http_response_send sends r of
        (ok, bytes) \<Rightarrow> bytes = sent \<and> prefix sent (wire r) \<and> (ok \<longleftrightarrow> sent = wire r))"

lemma delivered_send: "response_ok r \<Longrightarrow> delivered sends r (snd (http_response_send sends r))"
  using send_any_response by (auto simp: delivered_def split: prod.splits)

lemma simple_error_delivered:
  assumes "length m < 256" and "code \<noteq> SQL_ENGINE_ERROR_NONE"
  shows "\<exists>r. response_ok r \<and> delivered sends r (snd (send_simple_error sends code m)) \<and> answers code r"
proof -
  obtain r where s: "http_response_set_error http_response_init code m = Some r" and "answers code r"
    using answers_error [OF assms(2,1), of http_response_init] by blast
  with response_ok_error [OF s] delivered_send [OF response_ok_error [OF s], of sends] show ?thesis
    by (auto simp: send_simple_error_def)
qed

lemma request_codes_are_errors: "SQL_ENGINE_ERROR_NONE \<notin> request_codes"
  by (simp add: request_codes_def)

text \<open>What the handlers see of the server; the two numbers it reports are C integers.\<close>

definition server_context :: "server \<Rightarrow> api_context" where
  "server_context s = \<lparr>cx_config = service_config (sr_config s),
     cx_worker_count = sqlapi_server_worker_count s, cx_queue_depth = sqlapi_server_queue_depth s\<rparr>"

text \<open>What is due to a connection: the error of its bytes, or that of the request they hold.\<close>

definition due_answer :: "adapter_env \<Rightarrow> server \<Rightarrow> connection \<Rightarrow> engine \<Rightarrow> sql_engine_error_code" where
  "due_answer env s cn e =
     (case fst (http_read_request (cn_chunks cn) (sv_header_limit (sr_config s))
                  (sv_request_body_limit (sr_config s)) (cn_input cn)) of
        Inl err \<Rightarrow> fst err
      | Inr rq \<Rightarrow> due_error env (service_config (sr_config s)) rq e)"

definition due_state :: "adapter_env \<Rightarrow> server \<Rightarrow> connection \<Rightarrow> engine \<Rightarrow> engine \<Rightarrow> bool" where
  "due_state env s cn e e' =
     (case fst (http_read_request (cn_chunks cn) (sv_header_limit (sr_config s))
                  (sv_request_body_limit (sr_config s)) (cn_input cn)) of
        Inl err \<Rightarrow> e' = e
      | Inr rq \<Rightarrow> due_engine env (service_config (sr_config s)) rq e e')"


definition demo_config_server :: server_config where
  "demo_config_server = sqlapi_server_config_set_defaults"

definition demo_server :: server where
  "demo_server = \<lparr>sr_config = demo_config_server, sr_listen_socket = Some 3, sr_shutting_down = False,
     sr_started = True, sr_queue = small_queue, sr_lock_manager = [],
     sr_worker_pool = \<lparr>wp_threads = Some 4, wp_workers = replicate 4 Popping\<rparr>\<rparr>"

lemma demo_server_simps:
  "service_config (sr_config demo_server) = demo_config"
  "sv_header_limit (sr_config demo_server) = 8192"
  "sv_request_body_limit (sr_config demo_server) = 16384"
  by (simp_all add: demo_server_def demo_config_server_def sqlapi_server_config_set_defaults_def
      service_config_def demo_config_def)

section \<open>Two queries\<close>

definition query_request :: "string \<Rightarrow> string" where
  "query_request query =
     render_request ''POST'' ''/query'' (query_headers (sql_body query)) (sql_body query)"

definition query_answer :: "string \<times> string \<Rightarrow> adapter_result \<Rightarrow> http_response" where
  "query_answer timings r =
     http_response_set_json http_response_init 200
       (build_success_body timings r (escape_loop (ar_summary r))
          (escape_loop (case ar_output r of None \<Rightarrow> [] | Some out \<Rightarrow> out)))"

lemma json_content_type: "is_valid_query_content_type (Some ''application/json'')"
proof -
  have "strtok CHR '';'' ''application/json'' = [''application/json'']"
    by (simp add: strtok.simps)
  moreover have "trim_whitespace ''application/json'' = ''application/json''"
    by (simp add: trim_whitespace_def isspace_def byte_def)
  ultimately show ?thesis by (simp add: is_valid_query_content_type_def)
qed

text \<open>What a client must respect for its query to reach the engine.\<close>

definition query_fits :: "server \<Rightarrow> string \<Rightarrow> bool" where
  "query_fits s query = (NUL \<notin> set query \<and> 100 \<le> sv_header_limit (sr_config s)
     \<and> length (sql_body query) \<le> sv_request_body_limit (sr_config s) \<and> int (length (sql_body query)) \<le> INT_MAX)"

text \<open>The request that the server reads from it.\<close>

definition is_query :: "string \<Rightarrow> http_request \<Rightarrow> bool" where
  "is_query query rq =
     (rq_path rq = ''/query'' \<and> rq_method rq = ''POST'' \<and> c_str (rq_body rq) = sql_body query
      \<and> http_request_get_header rq ''Content-Type'' = Some ''application/json''
      \<and> http_request_get_header rq ''Content-Length'' \<noteq> None)"

lemma query_read:
  assumes "query_fits s query"
  obtains rq where "http_read_request chunks (sv_header_limit (sr_config s)) (sv_request_body_limit (sr_config s))
      (query_request query @ rest) = (Inr rq, rest)" "is_query query rq"
proof -
  define b where "b = sql_body query"
  define rq where "rq = \<lparr>rq_method = ''POST'', rq_path = ''/query'', rq_version = ''HTTP/1.1'',
    rq_headers = query_headers b, rq_body = b, rq_body_length = length b\<rparr>"
  have fits: "NUL \<notin> set query" "100 \<le> sv_header_limit (sr_config s)"
    "length b \<le> sv_request_body_limit (sr_config s)" "int (length b) \<le> INT_MAX"
    using assms(1) by (simp_all add: query_fits_def b_def)
  have w: "word_ok 15 ''POST''" "word_ok 127 ''/query''" by (simp_all add: word_ok_def isspace_def byte_def)
  have "length b < 10 ^ 19" using fits(4) by (simp add: INT_MAX_def)
  then have "length (render_request ''POST'' ''/query'' (query_headers b) []) \<le> sv_header_limit (sr_config s)"
    using query_headers_length [of b] fits(2) by simp
  from read_rendered [OF w query_headers_ok(1,2) this fits(3,4)]
  have "http_read_request chunks (sv_header_limit (sr_config s)) (sv_request_body_limit (sr_config s))
      (query_request query @ rest) = (Inr rq, rest)"
    by (simp add: query_request_def b_def [symmetric] rq_def)
  moreover have "is_query query rq"
    using sql_body_no_nul [OF fits(1)] query_headers_ok(3,4) [of b]
    by (auto simp: is_query_def rq_def b_def http_request_get_header_def)
  ultimately show thesis by (rule that)
qed

lemma query_connection:
  assumes "query_fits s query"
    and "sql_engine_adapter_execute env (service_config (sr_config s)) (Some query) e = Returns r e'"
    and "ar_ok r"
  shows "\<exists>sent. handle_client_request env timings s
        \<lparr>cn_input = query_request query @ rest, cn_chunks = chunks, cn_sends = sends\<rparr> e = Closed sent e'
    \<and> delivered sends (query_answer timings r) sent"
proof -
  obtain rq where read: "http_read_request chunks (sv_header_limit (sr_config s))
      (sv_request_body_limit (sr_config s)) (query_request query @ rest) = (Inr rq, rest)" "is_query query rq"
    using query_read [OF assms(1)] by blast
  have "api_handle_query env timings rq cx e resp = Answer (Some (query_answer timings r)) e'"
    if "cx_config cx = service_config (sr_config s)" for cx resp
    using assms(2,3) that read(2)
    by (auto simp: is_query_def api_handle_query_def extract_sql_body json_content_type db_service_execute_sql_def
        query_answer_def http_response_set_json_def http_response_set_body_def http_response_init_def)
  then have "handle_client_request env timings s
        \<lparr>cn_input = query_request query @ rest, cn_chunks = chunks, cn_sends = sends\<rparr> e
      = Closed (snd (http_response_send sends (query_answer timings r))) e'"
    using read by (simp add: handle_client_request_def http_route_request_def is_query_def)
  moreover have "response_ok (query_answer timings r)"
    by (simp add: query_answer_def response_ok_json statuses_def)
  ultimately show ?thesis using delivered_send by blast
qed

text \<open>
  C32: two queries from the bytes of the requests to the bytes of the responses. A client posts the
  text of an INSERT that fits the table and then the text of a SELECT of it. Both connections are
  closed after an answer with status 200; the first reports one row, and the \<open>output\<close> of the second
  is the printed table of the old rows followed by the new one.
\<close>

theorem post_insert_then_select:
  assumes "cfg = service_config (sr_config s)"
    and "engine_ready cfg (ins_table i) sch e"
    and "can_lock (ae_lock env) (en_locks e) (sc_storage_name sch)"
    and "ae_tmpfile env" and "ae_tmpfile env'"
    and "statement_ok (INSERT i)" and "insert_ok i sch" and "query_fits s (print_sql (INSERT i))"
    and "length (print_sql (INSERT i)) \<le> ac_sql_length_limit cfg"
    and "statement_ok (SELECT q)" and "select_ok q sch" and "sel_table q = ins_table i"
    and "query_fits s (print_sql (SELECT q))"
    and "length (print_sql (SELECT q)) \<le> ac_sql_length_limit cfg"
  shows "\<exists>r e1 sent r' e2 sent'.
    handle_client_request env timings s
        \<lparr>cn_input = query_request (print_sql (INSERT i)), cn_chunks = chunks, cn_sends = sends\<rparr> e
      = Closed sent e1
    \<and> delivered sends (query_answer timings r) sent \<and> ar_affected_rows r = 1
    \<and> handle_client_request env' timings' s
        \<lparr>cn_input = query_request (print_sql (SELECT q)), cn_chunks = chunks', cn_sends = sends'\<rparr> e1
      = Closed sent' e2
    \<and> delivered sends' (query_answer timings' r') sent'
    \<and> ar_output r' = Some (print_result_table (select_headers q sch)
        (answer q sch (table_rows (db_fs (en_db e)) (ac_data_dir cfg) sch @ [map stored (insert_values i sch)])))"
proof -
  from insert_select_calls [OF assms(2-7,9-11,14,12)] obtain r e1 r' e2 where
    c: "sql_engine_adapter_execute env cfg (Some (print_sql (INSERT i))) e = Returns r e1" "ar_ok r"
      "sql_engine_adapter_execute env' cfg (Some (print_sql (SELECT q))) e1 = Returns r' e2" "ar_ok r'"
    and o: "ar_affected_rows r = 1" "ar_output r' = Some (print_result_table (select_headers q sch)
        (answer q sch (table_rows (db_fs (en_db e)) (ac_data_dir cfg) sch @ [map stored (insert_values i sch)])))"
    by blast
  note conn = query_connection [where rest = "[]", simplified]
  from conn [OF assms(8) c(1) [unfolded assms(1)] c(2)] conn [OF assms(13) c(3) [unfolded assms(1)] c(4)]
  show ?thesis using o by blast
qed

lemma demo_queries_fit:
  "query_fits demo_server (print_sql (INSERT demo_insert))"
  "query_fits demo_server (print_sql (SELECT demo_select))"
  by (simp_all add: query_fits_def demo_server_simps demo_insert_def demo_select_def print_sql_def
      name_lexeme_def sql_body_def json_field_def INT_MAX_def)

theorem post_insert_then_select_witness:
  "\<exists>r e1 sent r' e2 sent'.
    handle_client_request demo_env (''0.1'', ''0.2'') demo_server
        \<lparr>cn_input = query_request (print_sql (INSERT demo_insert)), cn_chunks = [5], cn_sends = [300, 300]\<rparr>
        demo_engine = Closed sent e1
    \<and> delivered [300, 300] (query_answer (''0.1'', ''0.2'') r) sent \<and> ar_affected_rows r = 1
    \<and> handle_client_request demo_env (''0.3'', ''0.4'') demo_server
        \<lparr>cn_input = query_request (print_sql (SELECT demo_select)), cn_chunks = [], cn_sends = [300, 300]\<rparr> e1
      = Closed sent' e2
    \<and> delivered [300, 300] (query_answer (''0.3'', ''0.4'') r') sent'
    \<and> ar_output r' = Some (print_result_table (select_headers demo_select demo_schema)
        (answer demo_select demo_schema (table_rows (db_fs (en_db demo_engine)) (ac_data_dir demo_config) demo_schema
          @ [map stored (insert_values demo_insert demo_schema)])))"
  by (rule post_insert_then_select)
    (simp_all only: engine_ready_def demo_engine_simps demo_simps demo_statements demo_insert_ok demo_select_ok
      demo_load demo_table fresh_ok simp_thms empty_iff demo_server_simps demo_queries_fit)

text \<open>
  Two connections at work: a DELETE of \<open>/query\<close> is answered 405 and leaves the engine alone, and the
  bytes of a posted INSERT are answered 200.
\<close>

lemma demo_counts: "counts_ok (server_context demo_server)"
  by (simp add: counts_ok_def server_context_def sqlapi_server_worker_count_def sqlapi_server_queue_depth_def
      demo_server_def demo_config_server_def sqlapi_server_config_set_defaults_def small_queue_def
      server_task_queue_depth_def INT_MIN_def INT_MAX_def)

definition demo_delete :: connection where
  "demo_delete = \<lparr>cn_input = render_request ''DELETE'' ''/query'' (query_headers []) [],
     cn_chunks = [], cn_sends = [40, 500, 500]\<rparr>"

lemma demo_delete_read:
  "http_read_request (cn_chunks demo_delete) (sv_header_limit (sr_config demo_server))
      (sv_request_body_limit (sr_config demo_server)) (cn_input demo_delete)
    = (Inr \<lparr>rq_method = ''DELETE'', rq_path = ''/query'', rq_version = ''HTTP/1.1'',
         rq_headers = query_headers [], rq_body = [], rq_body_length = 0\<rparr>, [])"
proof -
  have w: "word_ok 15 ''DELETE''" "word_ok 127 ''/query''" by (simp_all add: word_ok_def isspace_def byte_def)
  have "length (render_request ''DELETE'' ''/query'' (query_headers []) []) \<le> 8192"
    by (simp add: render_request_def request_line_def query_headers_def header_text_def show_int_def dec_digits.simps)
  from read_rendered [OF w query_headers_ok(1,2) this, of 16384 "[]" "[]"] show ?thesis
    by (simp add: demo_delete_def demo_server_simps INT_MAX_def)
qed

lemma demo_delete_closed:
  obtains sent where
    "handle_client_request demo_env timings demo_server demo_delete demo_engine = Closed sent demo_engine"
  using set_error_ok [of "''only POST is allowed for /query''" http_response_init SQL_ENGINE_ERROR_METHOD_NOT_ALLOWED]
  by (auto simp: handle_client_request_def demo_delete_read http_route_request_def)

lemma demo_delete_due: "due_answer demo_env demo_server demo_delete e = SQL_ENGINE_ERROR_METHOD_NOT_ALLOWED"
  by (simp add: due_answer_def demo_delete_read due_error_def)

lemma query_due:
  assumes "query_fits s query" and "cn_input cn = query_request query"
    and a: "sql_engine_adapter_execute env (service_config (sr_config s)) (Some query) e = Returns r e'" and "ar_ok r"
  shows "due_answer env s cn e = SQL_ENGINE_ERROR_NONE"
proof -
  obtain rq where read: "http_read_request (cn_chunks cn) (sv_header_limit (sr_config s))
      (sv_request_body_limit (sr_config s)) (query_request query @ []) = (Inr rq, [])" "is_query query rq"
    using query_read [OF assms(1)] by blast
  have "ar_error_code r = SQL_ENGINE_ERROR_NONE"
    using adapter_result_ok [OF a] assms(4) by (simp add: result_ok_def)
  with read assms(2) a show ?thesis
    by (auto simp: due_answer_def due_error_def is_query_def extract_sql_body json_content_type)
qed

definition demo_post :: connection where
  "demo_post = \<lparr>cn_input = query_request (print_sql (INSERT demo_insert)), cn_chunks = [5], cn_sends = [300, 300]\<rparr>"


section \<open>What a run of the program holds\<close>

lemma create_result:
  assumes "sqlapi_server_create f cenv cfg [] = (res, held)"
  shows "case res of
      Inl m \<Rightarrow> held = [] \<or> (held = [Registry_Mutex] \<and> \<not> ce_locks cenv)
    | Inr s \<Rightarrow> sqlapi_server_validate_config f cfg = None \<and> sr_config s = cfg \<and> sr_listen_socket s = None
        \<and> \<not> sr_shutting_down s \<and> queue_ok (sr_queue s) \<and> queued (sr_queue s) = []
        \<and> \<not> tq_closed (sr_queue s) \<and> tq_capacity (sr_queue s) = sv_queue_capacity cfg
        \<and> sr_lock_manager s = [] \<and> sr_worker_pool s = no_pool \<and> \<not> sr_started s
        \<and> set held = {Server_Memory, Config_Strings, State_Mutex, Task_Queue_Memory, Registry_Mutex, Lock_Mutex}"
  using assms
  by (auto simp: sqlapi_server_create_def Let_def release_def table_index_registry_init_def
      engine_lock_manager_init_def init_queue split: option.splits sum.splits if_splits dest: init_queue)

lemma destroy_releases:
  "set held \<subseteq> {Server_Memory, Config_Strings, State_Mutex, Task_Queue_Memory, Registry_Mutex, Lock_Mutex}
    \<Longrightarrow> snd (sqlapi_server_destroy s held) = (if sr_started s then [] else pool_memory (sr_worker_pool s))"
  by (auto simp: sqlapi_server_destroy_def table_index_registry_shutdown_def release_def filter_empty_conv
      server_worker_pool_destroy_def no_pool_def pool_memory_def)

lemma try_addresses_found:
  "try_addresses as current = (found, fd, closed) \<Longrightarrow> found \<Longrightarrow> fd \<noteq> None"
  by (induction as current arbitrary: fd closed rule: try_addresses.induct)
    (auto split: if_splits prod.splits)

lemma open_listen_socket_result:
  "open_listen_socket env s = (res, s1, closed) \<Longrightarrow>
     (\<exists>fd. s1 = s\<lparr>sr_listen_socket := fd\<rparr> \<and> (res = Inr () \<longrightarrow> fd \<noteq> None))"
  by (cases s) (auto simp: open_listen_socket_def split: if_splits prod.splits dest: try_addresses_found)

lemma pool_start_result:
  "case server_worker_pool_start alloc create n of
     (None, p) \<Rightarrow> wp_workers p = replicate n Popping
   | (Some m, p) \<Rightarrow> if wp_workers p \<noteq> [] then \<exists>i. 0 < i \<and> i < n \<and> \<not> create i
       else pool_memory p = (if alloc \<and> 0 < n then [Thread_Array] else [])
         \<and> (alloc \<and> 0 < n \<longrightarrow> \<not> create 0 \<and> m = ''failed to create worker thread'')"
  by (auto simp: server_worker_pool_start_def find_Some_iff pool_memory_def no_pool_def split: option.splits)

lemma start_result:
  assumes "sr_worker_pool s = no_pool" and "\<not> tq_closed (sr_queue s)"
  shows "case sqlapi_server_start env s of
     Started ws s' closed \<Rightarrow> sr_config s' = sr_config s \<and> sr_queue s' = sr_queue s
       \<and> sr_shutting_down s' = sr_shutting_down s \<and> sr_started s'
       \<and> sr_lock_manager s' = sr_lock_manager s \<and> sr_listen_socket s' \<noteq> None
       \<and> ws = replicate (nat (sv_worker_count (sr_config s))) Popping
   | Start_Failed m s' closed \<Rightarrow> sr_started s' = sr_started s
       \<and> (pool_memory (sr_worker_pool s') = []
          \<or> pool_memory (sr_worker_pool s') = [Thread_Array] \<and> st_pool_alloc env \<and> \<not> st_create env 0
            \<and> m = ''failed to create worker thread'')
   | Start_Hangs closed \<Rightarrow> (\<exists>n. 0 < n \<and> n < nat (sv_worker_count (sr_config s)) \<and> \<not> st_create env n)"
proof (cases "fst (sql_platform_network_init (st_windows env) (st_wsa_status env) 256 False)")
  case None
  obtain res s1 closed where o: "open_listen_socket env s = (res, s1, closed)" by (metis prod_cases3)
  from open_listen_socket_result [OF o] obtain fd where
    fd: "s1 = s\<lparr>sr_listen_socket := fd\<rparr>" "res = Inr () \<longrightarrow> fd \<noteq> None" by blast
  obtain r p where w: "server_worker_pool_start (st_pool_alloc env) (st_create env)
      (nat (sv_worker_count (sr_config s))) = (r, p)" by fastforce
  note p = pool_start_result [where alloc = "st_pool_alloc env" and create = "st_create env"
      and n = "nat (sv_worker_count (sr_config s))",
      unfolded w prod.case]
  have n: "pool_memory no_pool = []" "pool_memory (server_worker_pool_destroy q) = []" for q
    by (simp_all add: pool_memory_def no_pool_def server_worker_pool_destroy_def)
  note start = sqlapi_server_start_def None o option.case prod.case
  show ?thesis
  proof (cases res)
    case (Inl m)
    with fd n assms show ?thesis by (simp add: start)
  next
    case (Inr u)
    show ?thesis
    proof (cases r)
      case None
      with Inr fd n p w show ?thesis by (simp add: start)
    next
      case (Some m)
      with Inr fd p w assms(2) show ?thesis
        by (cases "wp_workers p = []"; cases "st_pool_alloc env \<and> 0 < nat (sv_worker_count (sr_config s))")
          (simp_all add: start)
    qed
  qed
qed (use assms in \<open>simp add: sqlapi_server_start_def pool_memory_def no_pool_def\<close>)

text \<open>
  C34: what a run of the program comes to. A run that exits does so with status 1 and a message, and
  the process holds nothing of the server but the index registry's mutex, when the lock manager could
  not be initialised, or the array of thread handles, when the first worker thread could not be
  created; a run that serves has an accepted configuration, all its workers waiting at an open, empty
  queue of the configured capacity, a listening socket and no table lock, and after its wait it exits
  with status 0 and holds nothing; and a run is stuck in its start only when a thread after the first
  could not be created.
\<close>

theorem main_outcomes:
  "case server_main program_name f cenv senv args of
     Exits code err held \<Rightarrow> code = 1 \<and> err \<noteq> []
       \<and> (held = [] \<or> (held = [Registry_Mutex] \<and> \<not> ce_locks cenv)
          \<or> (held = [Thread_Array] \<and> st_pool_alloc senv \<and> \<not> st_create senv 0
             \<and> err = ''failed to create worker thread'' @ [LF]))
   | Serves ws s held \<Rightarrow> sqlapi_server_validate_config f (sr_config s) = None
       \<and> main_after_wait s held = Exits 0 [] []
       \<and> ws = replicate (nat (sv_worker_count (sr_config s))) Popping \<and> ws \<noteq> []
       \<and> queue_ok (sr_queue s) \<and> queued (sr_queue s) = [] \<and> \<not> tq_closed (sr_queue s)
       \<and> 0 < tq_capacity (sr_queue s) \<and> tq_capacity (sr_queue s) = sv_queue_capacity (sr_config s)
       \<and> sr_listen_socket s \<noteq> None \<and> held_keys (sr_lock_manager s) = {}
   | Start_Stuck \<Rightarrow> \<exists>n. 0 < n \<and> \<not> st_create senv n"
proof (cases "parse_options args sqlapi_server_config_set_defaults")
  case (Inr cfg)
  obtain res held where c: "sqlapi_server_create f cenv cfg [] = (res, held)" by fastforce
  note cr = create_result [OF c]
  show ?thesis
  proof (cases res)
    case (Inl m)
    with Inr c cr show ?thesis by (auto simp: server_main_def)
  next
    case s: (Inr s)
    note valid = cr [unfolded s sum.case]
    then have v: "1 \<le> sv_worker_count cfg" "1 \<le> sv_queue_capacity cfg"
      by (auto simp: sqlapi_server_validate_config_def split: if_splits)
    have "snd (sqlapi_server_destroy s' held) = (if sr_started s' then [] else pool_memory (sr_worker_pool s'))" for s'
      by (rule destroy_releases) (use valid in simp)
    with start_result [where env = senv and s = s] Inr c s valid v show ?thesis
      by (auto simp: server_main_def main_after_wait_def held_keys_def split: start_outcome.splits)
  qed
qed (simp add: server_main_def)

end
