(* ===== verification/Server_System.thy ===== *)
theory Server_System
  imports Server_Props
begin

text \<open>
  The running server: the accept thread \<open>server_accept_main\<close> of \<open>src/server/server.c\<close> around the
  task queue, the workers of \<open>Worker_Pool\<close> and a shutdown that any thread may request. The threads
  interleave as the steps of \<open>system_step\<close>; a step is what a thread does with a mutex held, or one
  system call. A shutdown holds the state mutex from the flag to the closed queue, while the
  workers, which never take that mutex, go on. The peers of the accepted connections are the
  environment: a worker that handles a connection depends on them, and nothing makes them move. The
  short refusal that the accept thread sends on a new connection fits any socket buffer.
\<close>

section \<open>The threads\<close>

text \<open>
  The accept thread: at the test of its loop, in \<open>accept\<close>, at the test after a failed \<open>accept\<close>,
  with a connection it offers to the queue, with one it refuses, and returned.
\<close>

datatype acceptor = Testing | Accepting | Retesting | Offering server_task | Refusing server_task | Returned

record system =
  sy_pool :: pool
  sy_listen :: "int option"
  sy_shutting_down :: bool
  sy_closing :: bool
  sy_accept :: acceptor
  sy_taken :: "server_task list"
  sy_rejected :: "server_task list"

text \<open>What \<open>server_is_shutting_down\<close> reads, once it has the state mutex.\<close>

definition server_is_shutting_down :: "system \<Rightarrow> bool option" where
  "server_is_shutting_down s = (if sy_closing s then None else Some (sy_shutting_down s))"

text \<open>The queue took the offered connection, or it is full or closed.\<close>

definition after_offer :: "server_task \<Rightarrow> pool \<Rightarrow> pool \<Rightarrow> acceptor" where
  "after_offer t p p' = (if pl_refused p' = pl_refused p then Testing else Refusing t)"

inductive server_accept_main :: "system \<Rightarrow> system \<Rightarrow> bool" where
  stop: "sy_accept s = Testing \<Longrightarrow> server_is_shutting_down s = Some True \<Longrightarrow>
    server_accept_main s (s\<lparr>sy_accept := Returned\<rparr>)"
| go: "sy_accept s = Testing \<Longrightarrow> server_is_shutting_down s = Some False \<Longrightarrow>
    server_accept_main s (s\<lparr>sy_accept := Accepting\<rparr>)"
| accepts: "sy_accept s = Accepting \<Longrightarrow> sy_listen s \<noteq> None \<Longrightarrow>
    server_accept_main s (s\<lparr>sy_accept := Offering t, sy_taken := sy_taken s @ [t]\<rparr>)"
| fails: "sy_accept s = Accepting \<Longrightarrow> server_accept_main s (s\<lparr>sy_accept := Retesting\<rparr>)"
| break: "sy_accept s = Retesting \<Longrightarrow> server_is_shutting_down s = Some True \<Longrightarrow>
    server_accept_main s (s\<lparr>sy_accept := Returned\<rparr>)"
| continue: "sy_accept s = Retesting \<Longrightarrow> server_is_shutting_down s = Some False \<Longrightarrow>
    server_accept_main s (s\<lparr>sy_accept := Testing\<rparr>)"
| offer: "sy_accept s = Offering t \<Longrightarrow> accept_step t (sy_pool s) p \<Longrightarrow>
    server_accept_main s (s\<lparr>sy_pool := p, sy_accept := after_offer t (sy_pool s) p\<rparr>)"
| refuse: "sy_accept s = Refusing t \<Longrightarrow>
    server_accept_main s (s\<lparr>sy_accept := Testing, sy_rejected := sy_rejected s @ [t]\<rparr>)"

text \<open>The two halves of the first \<open>sqlapi_server_request_shutdown\<close>: the socket, then the queue.\<close>

inductive shutdown_step :: "system \<Rightarrow> system \<Rightarrow> bool" where
  flag: "\<not> sy_closing s \<Longrightarrow> \<not> sy_shutting_down s \<Longrightarrow>
    shutdown_step s (s\<lparr>sy_shutting_down := True, sy_listen := None, sy_closing := True\<rparr>)"
| queue: "sy_closing s \<Longrightarrow>
    shutdown_step s (s\<lparr>sy_pool := shutdown_pool (sy_pool s), sy_closing := False\<rparr>)"

inductive threads_step :: "system \<Rightarrow> system \<Rightarrow> bool" where
  accept: "server_accept_main s s' \<Longrightarrow> threads_step s s'"
| worker: "worker_step i (sy_pool s) p \<Longrightarrow> threads_step s (s\<lparr>sy_pool := p\<rparr>)"
| shutdown: "shutdown_step s s' \<Longrightarrow> threads_step s s'"

inductive system_step :: "system \<Rightarrow> system \<Rightarrow> bool" where
  thread: "threads_step s s' \<Longrightarrow> system_step s s'"
| peer: "peer_step i (sy_pool s) p \<Longrightarrow> system_step s (s\<lparr>sy_pool := p\<rparr>)"

inductive_cases server_accept_mainE: "server_accept_main s s'"
inductive_cases shutdown_stepE: "shutdown_step s s'"
inductive_cases threads_stepE: "threads_step s s'"
inductive_cases system_stepE: "system_step s s'"

text \<open>The threads right after a successful \<open>sqlapi_server_start\<close>.\<close>

definition start_system :: "worker list \<Rightarrow> server \<Rightarrow> system" where
  "start_system ws s = \<lparr>sy_pool = start_pool (sr_queue s) ws, sy_listen = sr_listen_socket s,
     sy_shutting_down = sr_shutting_down s, sy_closing = False, sy_accept = Testing,
     sy_taken = [], sy_rejected = []\<rparr>"

text \<open>\<open>sqlapi_server_wait\<close> returns when there is no thread left to join.\<close>

definition sqlapi_server_wait :: "bool \<Rightarrow> system \<Rightarrow> bool" where
  "sqlapi_server_wait started s =
     (\<not> started \<or> sy_accept s = Returned \<and> server_worker_pool_join (pl_workers (sy_pool s)))"

text \<open>Both halves of a shutdown are the one operation on the server object.\<close>

definition server_of :: "server \<Rightarrow> system \<Rightarrow> server" where
  "server_of base s = base\<lparr>sr_listen_socket := sy_listen s, sr_shutting_down := sy_shutting_down s,
     sr_queue := pl_queue (sy_pool s)\<rparr>"

lemma shutdown_halves:
  assumes "shutdown_step s s1" and "shutdown_step s1 s2" and "\<not> sy_closing s"
  shows "server_of base s2 = snd (sqlapi_server_request_shutdown (server_of base s))"
  using assms
  by (auto elim!: shutdown_stepE simp: server_of_def sqlapi_server_request_shutdown_def shutdown_pool_def)

section \<open>The invariant\<close>

fun in_hand :: "acceptor \<Rightarrow> server_task list" where
  "in_hand (Offering t) = [t]"
| "in_hand (Refusing t) = [t]"
| "in_hand a = []"

definition system_ok :: "system \<Rightarrow> bool" where
  "system_ok s =
     (pool_ok (sy_pool s)
      \<and> (sy_closing s \<longrightarrow> sy_shutting_down s) \<and> (sy_shutting_down s \<longrightarrow> sy_listen s = None)
      \<and> (tq_closed (pl_queue (sy_pool s)) \<longleftrightarrow> sy_shutting_down s \<and> \<not> sy_closing s)
      \<and> (sy_accept s = Returned \<longrightarrow> sy_shutting_down s)
      \<and> mset (sy_taken s)
          = mset (pl_accepted (sy_pool s)) + mset (sy_rejected s) + mset (in_hand (sy_accept s)))"

lemma offer_result:
  assumes "accept_step t p p'" and "pool_ok p"
  shows "pool_ok p' \<and> tq_closed (pl_queue p') = tq_closed (pl_queue p)
    \<and> mset (pl_accepted p') + mset (in_hand (after_offer t p p')) = mset (pl_accepted p) + {#t#}
    \<and> length (pl_workers p') = length (pl_workers p)
    \<and> (tq_closed (pl_queue p) \<longrightarrow> after_offer t p p' = Refusing t \<and> pool_work p' = pool_work p)"
proof -
  from assms(2) have q: "queue_ok (pl_queue p)" by (simp add: pool_ok_def)
  from assms(1) accept_step_ok [OF assms] tq.push_cases [OF q] show ?thesis
    by cases (fastforce simp: after_offer_def pool_work_def)+
qed

lemma worker_keeps:
  assumes "worker_step i p p'" and "pool_ok p"
  shows "pool_ok p' \<and> tq_closed (pl_queue p') = tq_closed (pl_queue p) \<and> pl_accepted p' = pl_accepted p
    \<and> length (pl_workers p') = length (pl_workers p)"
proof -
  from assms(2) have q: "queue_ok (pl_queue p)" by (simp add: pool_ok_def)
  from assms(1) worker_step_ok [OF assms] tq.pop_cases(1) [OF q] show ?thesis by cases auto
qed

lemma peer_keeps:
  assumes "peer_step i p p'" and "pool_ok p"
  shows "pool_ok p' \<and> tq_closed (pl_queue p') = tq_closed (pl_queue p) \<and> pl_accepted p' = pl_accepted p
    \<and> length (pl_workers p') = length (pl_workers p)"
  using assms(1) peer_step_ok [OF assms] by cases auto

lemma shutdown_keeps:
  assumes "pool_ok p"
  shows "pool_ok (shutdown_pool p) \<and> tq_closed (pl_queue (shutdown_pool p))
    \<and> pl_accepted (shutdown_pool p) = pl_accepted p
    \<and> length (pl_workers (shutdown_pool p)) = length (pl_workers p)"
  using assms shutdown_pool_ok [OF assms] tq.close_law [of "pl_queue p"]
  by (simp add: shutdown_pool_def pool_ok_def)

lemma accept_main_ok:
  assumes "server_accept_main s s'" and "system_ok s"
  shows "system_ok s' \<and> length (pl_workers (sy_pool s')) = length (pl_workers (sy_pool s))"
  using assms(1)
proof cases
  case (offer t p)
  with assms(2) have "pool_ok (sy_pool s)" by (simp add: system_ok_def)
  from offer_result [OF offer(3) this] offer assms(2) show ?thesis
    by (auto simp: system_ok_def after_offer_def)
qed (use assms(2) in \<open>auto simp: system_ok_def server_is_shutting_down_def split: if_splits\<close>)

lemma threads_step_ok:
  assumes "threads_step s s'" and "system_ok s"
  shows "system_ok s' \<and> length (pl_workers (sy_pool s')) = length (pl_workers (sy_pool s))"
proof -
  from assms(2) have p: "pool_ok (sy_pool s)" by (simp add: system_ok_def)
  from assms(1) show ?thesis
  proof cases
    case accept
    from accept_main_ok [OF this assms(2)] show ?thesis .
  next
    case (worker i p)
    from worker_keeps [OF worker(2) p] worker assms(2) show ?thesis by (simp add: system_ok_def)
  next
    case shutdown
    then show ?thesis using shutdown_keeps [OF p] assms(2)
      by cases (auto simp: system_ok_def)
  qed
qed

lemma system_step_ok:
  assumes "system_step s s'" and "system_ok s"
  shows "system_ok s' \<and> length (pl_workers (sy_pool s')) = length (pl_workers (sy_pool s))"
  using assms(1)
proof cases
  case thread
  from threads_step_ok [OF this assms(2)] show ?thesis .
next
  case (peer i p)
  from assms(2) have "pool_ok (sy_pool s)" by (simp add: system_ok_def)
  from peer_keeps [OF peer(2) this] peer assms(2) show ?thesis by (simp add: system_ok_def)
qed

text \<open>The states of a server that was created and started.\<close>

inductive running :: "worker list \<Rightarrow> server \<Rightarrow> system \<Rightarrow> bool" for ws s0 where
  start: "running ws s0 (start_system ws s0)"
| step: "running ws s0 s \<Longrightarrow> system_step s s' \<Longrightarrow> running ws s0 s'"

lemma start_system_ok:
  assumes "sqlapi_server_create f cenv cfg [] = (Inr s, held)"
    and "sqlapi_server_start senv s = Started ws s' closed"
  shows "system_ok (start_system ws s') \<and> ws \<noteq> []"
proof -
  from create_result [OF assms(1)] have c: "sqlapi_server_validate_config f cfg = None" "sr_config s = cfg"
    "\<not> sr_shutting_down s" "queue_ok (sr_queue s)" "queued (sr_queue s) = []" "\<not> tq_closed (sr_queue s)"
    by auto
  then have n: "0 < nat (sv_worker_count cfg)"
    by (auto simp: sqlapi_server_validate_config_def split: if_splits)
  have h: "handling (replicate k Popping) = []" for k by (induction k) auto
  from start_result [where env = senv and s = s] assms(2) c(2,6) create_result [OF assms(1)] have "sr_queue s' = sr_queue s"
    "sr_shutting_down s' = sr_shutting_down s" "ws = replicate (nat (sv_worker_count cfg)) Popping" by auto
  then show ?thesis using c n h
    by (auto simp: system_ok_def start_system_def start_pool_def pool_ok_def)
qed

lemma running_ok:
  "running ws s0 s \<Longrightarrow> system_ok (start_system ws s0) \<Longrightarrow>
     system_ok s \<and> length (pl_workers (sy_pool s)) = length ws"
proof (induction rule: running.induct)
  case start
  then show ?case by (simp add: start_system_def start_pool_def)
qed (auto dest: system_step_ok)

section \<open>Shutdown\<close>

fun accept_work :: "acceptor \<Rightarrow> nat" where
  "accept_work Testing = 1"
| "accept_work Accepting = 2"
| "accept_work Retesting = 1"
| "accept_work (Offering t) = 3"
| "accept_work (Refusing t) = 2"
| "accept_work Returned = 0"

definition system_work :: "system \<Rightarrow> nat" where
  "system_work s = accept_work (sy_accept s) + pool_work (sy_pool s)"

definition shut_down :: "system \<Rightarrow> bool" where
  "shut_down s = (sy_shutting_down s \<and> \<not> sy_closing s)"

lemma threads_step_work:
  assumes "threads_step s s'" and "system_ok s" and "shut_down s"
  shows "system_work s' < system_work s \<and> shut_down s'"
proof -
  from assms(2,3) have p: "pool_ok (sy_pool s)" "tq_closed (pl_queue (sy_pool s))" "sy_listen s = None"
    by (auto simp: system_ok_def shut_down_def)
  from assms(1) show ?thesis
  proof cases
    case accept
    then show ?thesis
    proof cases
      case (offer t p')
      from offer_result [OF offer(3) p(1)] p(2) offer assms(3) show ?thesis
        by (simp add: system_work_def shut_down_def)
    qed (use p assms(3) in \<open>auto simp: system_work_def shut_down_def server_is_shutting_down_def\<close>)
  next
    case (worker i p')
    from worker_step_work [OF worker(2) p(1,2)] worker assms(3) show ?thesis
      by (simp add: system_work_def shut_down_def)
  next
    case shutdown
    then show ?thesis using assms(3) by cases (auto simp: shut_down_def)
  qed
qed

lemma system_step_work:
  assumes "system_step s s'" and "system_ok s" and "shut_down s"
  shows "system_work s' < system_work s \<and> shut_down s'"
  using assms(1)
proof cases
  case thread
  from threads_step_work [OF this assms(2,3)] show ?thesis .
next
  case (peer i p)
  from peer_step_work [OF peer(2)] peer assms(3) show ?thesis by (simp add: system_work_def shut_down_def)
qed

lemma offer_progress:
  assumes "pool_ok p"
  shows "\<exists>p'. accept_step t p p'"
proof -
  from assms have q: "queue_ok (pl_queue p)" by (simp add: pool_ok_def)
  from tq.push_law [OF q, of t] obtain ok q' where r: "server_task_queue_try_push (pl_queue p) t = Some (ok, q')"
    by blast
  show ?thesis
  proof (cases ok)
    case True
    then show ?thesis using r
      by (cases "Asleep \<in> set (pl_workers p)")
        (auto simp: in_set_conv_nth intro: accept_step.push_wake accept_step.push_idle [unfolded in_set_conv_nth])
  qed (use r in \<open>auto intro: accept_step.push_full\<close>)
qed

lemma accept_progress:
  assumes "system_ok s" and "shut_down s" and "sy_accept s \<noteq> Returned"
  shows "\<exists>s'. server_accept_main s s'"
proof -
  from assms(2) have t: "server_is_shutting_down s = Some True"
    by (simp add: shut_down_def server_is_shutting_down_def)
  have p: "pool_ok (sy_pool s)" using assms(1) by (simp add: system_ok_def)
  show ?thesis
  proof (cases "sy_accept s")
    case (Offering x)
    with offer_progress [OF p, of x] show ?thesis by (blast intro: server_accept_main.offer)
  qed (use t assms(3) in \<open>blast intro: server_accept_main.intros\<close>)+
qed

text \<open>A worker that waits for its peer.\<close>

definition peer_awaited :: "system \<Rightarrow> bool" where
  "peer_awaited s = (\<exists>w\<in>set (pl_workers (sy_pool s)). waits_for_peer w)"

lemma peer_awaited_iff:
  "peer_awaited s \<longleftrightarrow> (\<exists>i t. i < length (pl_workers (sy_pool s)) \<and> pl_workers (sy_pool s) ! i = Handling t)"
proof -
  have w: "waits_for_peer w \<longleftrightarrow> (\<exists>t. w = Handling t)" for w
    by (cases w) (simp_all add: waits_for_peer_def)
  show ?thesis unfolding peer_awaited_def w by (metis in_set_conv_nth)
qed

lemma awaited_not_joined: "peer_awaited s \<Longrightarrow> \<not> sqlapi_server_wait True s"
  by (auto simp: peer_awaited_iff sqlapi_server_wait_def server_worker_pool_join_def list_all_length)

lemma shutdown_ends:
  assumes ok: "system_ok s" and sd: "shut_down s" and ne: "pl_workers (sy_pool s) \<noteq> []"
    and stuck: "\<not> (\<exists>s'. threads_step s s')" and free: "\<not> peer_awaited s"
  shows "sqlapi_server_wait started s \<and> queued (pl_queue (sy_pool s)) = []
    \<and> mset (sy_taken s) = mset (pl_done (sy_pool s)) + mset (sy_rejected s)"
proof -
  have p: "pool_ok (sy_pool s)" using ok by (simp add: system_ok_def)
  have acc: "sy_accept s = Returned"
    using accept_progress [OF ok sd] stuck threads_step.accept by blast
  have "pl_workers (sy_pool s) ! i = Exited" if "i < length (pl_workers (sy_pool s))" for i
    using worker_progress [OF p that] stuck threads_step.worker free that unfolding peer_awaited_def
    by (meson nth_mem)
  then have ws: "pl_workers (sy_pool s) = replicate (length (pl_workers (sy_pool s))) Exited"
    by (intro nth_equalityI) auto
  have "handling (replicate k Exited) = []" for k by (induction k) auto
  then have h: "handling (pl_workers (sy_pool s)) = []" by (subst ws) blast
  have ex: "Exited \<in> set (pl_workers (sy_pool s))" using ne by (subst ws) simp
  have "server_worker_pool_join (pl_workers (sy_pool s))"
    by (subst ws) (simp add: server_worker_pool_join_def list_all_iff)
  then show ?thesis using ok p acc h ex
    by (auto simp: system_ok_def pool_ok_def sqlapi_server_wait_def)
qed

text \<open>A peer can end the wait of its worker.\<close>

lemma peer_progress: "peer_awaited s \<Longrightarrow> \<exists>s'. system_step s s'"
  by (auto simp: peer_awaited_iff intro: system_step.peer peer_step.served)

text \<open>So with the help of the peers a server that is shutting down reaches the end of the wait.\<close>

lemma shutdown_reaches_end:
  assumes "system_ok s" and "shut_down s" and "pl_workers (sy_pool s) \<noteq> []"
  shows "\<exists>s'. system_step\<^sup>*\<^sup>* s s' \<and> sqlapi_server_wait started s'"
  using assms
proof (induction "system_work s" arbitrary: s rule: less_induct)
  case less
  show ?case
  proof (cases "\<exists>s1. system_step s s1")
    case True
    then obtain s1 where s1: "system_step s s1" by blast
    from system_step_work [OF s1 less(2,3)] system_step_ok [OF s1 less(2)] less(4)
    have "\<exists>s'. system_step\<^sup>*\<^sup>* s1 s' \<and> sqlapi_server_wait started s'" by (intro less(1)) auto
    then show ?thesis by (blast intro: converse_rtranclp_into_rtranclp [of system_step, OF s1])
  next
    case False
    then have "\<not> (\<exists>s'. threads_step s s')" "\<not> peer_awaited s"
      using system_step.thread peer_progress by blast+
    from shutdown_ends [OF less(2-4) this] show ?thesis by blast
  qed
qed

text \<open>Without it a worker that waits for its peer waits for ever.\<close>

lemma threads_step_awaited:
  assumes "threads_step s s'" and "system_ok s" and "peer_awaited s"
  shows "peer_awaited s'"
proof -
  from assms(3) obtain i t where i: "i < length (pl_workers (sy_pool s))" "pl_workers (sy_pool s) ! i = Handling t"
    by (auto simp: peer_awaited_iff)
  have "pl_workers (sy_pool s') ! i = Handling t"
    using assms(1)
  proof cases
    case accept
    then show ?thesis
    proof cases
      case (offer x p)
      from offer(3) i show ?thesis unfolding offer(1) by cases (auto simp: nth_list_update)
    qed (use i in simp_all)
  next
    case (worker j p)
    with worker_step_waiting [OF worker(2) i(2,1)] show ?thesis by simp
  next
    case shutdown
    then show ?thesis using i by cases (simp_all add: shutdown_pool_def wake_def)
  qed
  with threads_step_ok [OF assms(1,2)] i show ?thesis unfolding peer_awaited_iff by metis
qed

lemma awaited_for_ever:
  assumes "threads_step\<^sup>*\<^sup>* s s'" and "system_ok s" and "peer_awaited s"
  shows "peer_awaited s'"
proof -
  from assms have "system_ok s' \<and> peer_awaited s'"
    by (induction rule: rtranclp_induct) (use threads_step_ok threads_step_awaited in blast)+
  then show ?thesis ..
qed

section \<open>A concrete server\<close>

definition demo_dirs :: fs where
  "demo_dirs = (\<lambda>p. if p = ''schema'' \<or> p = ''data'' then Directory [] else Absent ''No such file or directory'')"

definition demo_create_env :: create_env where
  "demo_create_env = \<lparr>ce_calloc = True, ce_strings = True, ce_state_mutex = True, ce_queue_alloc = True,
     ce_queue_mutex = True, ce_queue_cond = True, ce_registry = True, ce_locks = True\<rparr>"

definition demo_start_env :: start_env where
  "demo_start_env = \<lparr>st_windows = False, st_wsa_status = 0, st_resolves = True,
     st_addresses = [(None, False), (Some 3, True)], st_errno = (0, []), st_pool_alloc = True,
     st_create = (\<lambda>i. True), st_accept = True\<rparr>"

definition demo_small_config :: server_config where
  "demo_small_config = sqlapi_server_config_set_defaults\<lparr>sv_worker_count := 1, sv_queue_capacity := 1\<rparr>"

definition demo_created :: server where
  "demo_created = \<lparr>sr_config = demo_small_config, sr_listen_socket = None, sr_shutting_down = False,
     sr_started = False, sr_queue = small_queue, sr_lock_manager = [], sr_worker_pool = no_pool\<rparr>"

definition demo_started :: server where
  "demo_started = demo_created\<lparr>sr_listen_socket := Some 3, sr_started := True,
     sr_worker_pool := \<lparr>wp_threads = Some 1, wp_workers = [Popping]\<rparr>\<rparr>"

lemma demo_create:
  "sqlapi_server_create demo_dirs demo_create_env demo_small_config []
     = (Inr demo_created, [Server_Memory, Config_Strings, State_Mutex, Task_Queue_Memory, Registry_Mutex, Lock_Mutex])"
  by (simp add: sqlapi_server_create_def sqlapi_server_validate_config_def demo_small_config_def
      sqlapi_server_config_set_defaults_def directory_exists_def demo_dirs_def demo_create_env_def Let_def
      small_queue table_index_registry_init_def engine_lock_manager_init_def demo_created_def)

lemma demo_start: "sqlapi_server_start demo_start_env demo_created = Started [Popping] demo_started []"
  by (simp add: sqlapi_server_start_def demo_start_env_def network_init_posix open_listen_socket_def
      demo_created_def demo_started_def demo_small_config_def sqlapi_server_config_set_defaults_def
      small_pool [simplified])

text \<open>The first worker thread cannot be created: the array of handles is never freed.\<close>

lemma first_worker_leak:
  "server_main ''server'' demo_dirs demo_create_env (demo_start_env\<lparr>st_create := (\<lambda>i. False)\<rparr>)
     [''--worker-count'', ''1'', ''--queue-capacity'', ''1'']
   = Exits 1 (''failed to create worker thread'' @ [LF]) [Thread_Array]"
proof -
  let ?args = "[''--worker-count'', ''1'', ''--queue-capacity'', ''1'']"
  have "parse_options ?args sqlapi_server_config_set_defaults = Inr demo_small_config" by code_simp
  moreover have "sqlapi_server_start (demo_start_env\<lparr>st_create := (\<lambda>i. False)\<rparr>) demo_created
      = Start_Failed ''failed to create worker thread''
          (demo_created\<lparr>sr_worker_pool := \<lparr>wp_threads = Some 1, wp_workers = []\<rparr>\<rparr>) [3]"
    by (simp add: sqlapi_server_start_def demo_start_env_def network_init_posix open_listen_socket_def
        demo_created_def demo_small_config_def sqlapi_server_config_set_defaults_def server_worker_pool_start_def
        opened_def)
  ultimately show ?thesis
    by (simp add: server_main_def demo_create sqlapi_server_destroy_def table_index_registry_shutdown_def
        release_def pool_memory_def demo_created_def Let_def)
qed

text \<open>
  The accept thread takes a connection and offers it, the worker takes it over, and then the server
  is shut down while the peer has sent nothing.
\<close>

definition demo_offering :: system where
  "demo_offering = (start_system [Popping] demo_started)\<lparr>sy_accept := Offering \<lparr>client_socket = 4\<rparr>,
     sy_taken := [\<lparr>client_socket = 4\<rparr>]\<rparr>"

definition demo_serving :: system where
  "demo_serving = demo_offering\<lparr>sy_accept := Testing,
     sy_pool := \<lparr>pl_queue = small_queue\<lparr>tq_items := [\<lparr>client_socket = 4\<rparr>]\<rparr>,
                 pl_workers = [Handling \<lparr>client_socket = 4\<rparr>], pl_accepted = [\<lparr>client_socket = 4\<rparr>],
                 pl_refused = [], pl_delivered = [\<lparr>client_socket = 4\<rparr>], pl_done = []\<rparr>\<rparr>"

definition demo_down :: system where
  "demo_down = demo_serving\<lparr>sy_shutting_down := True, sy_listen := None,
     sy_pool := shutdown_pool (sy_pool demo_serving)\<rparr>"

lemma running_thread: "running ws s0 s \<Longrightarrow> threads_step s s' \<Longrightarrow> s' = s'' \<Longrightarrow> running ws s0 s''"
  by (blast intro: running.step system_step.thread)

lemma running_offering: "running [Popping] demo_started demo_offering"
proof -
  let ?s = "start_system [Popping] demo_started"
  have s: "\<not> sy_shutting_down ?s" "\<not> sy_closing ?s" "sy_accept ?s = Testing" "sy_listen ?s \<noteq> None"
    "sy_taken ?s = []"
    by (simp_all add: start_system_def demo_started_def demo_created_def)
  have "running [Popping] demo_started (?s\<lparr>sy_accept := Accepting\<rparr>)"
    by (rule running_thread [OF running.start threads_step.accept [OF server_accept_main.go]])
      (simp_all add: s server_is_shutting_down_def)
  then show ?thesis
    by (rule running_thread [OF _ threads_step.accept [OF server_accept_main.accepts]])
      (simp_all add: s demo_offering_def)
qed

lemma running_serving: "running [Popping] demo_started demo_serving"
proof -
  let ?t = "\<lparr>client_socket = 4\<rparr>" and ?p = "sy_pool demo_offering"
  define q where "q = small_queue\<lparr>tq_items := [\<lparr>client_socket = 4\<rparr>], tq_count := 1\<rparr>"
  let ?p1 = "?p\<lparr>pl_queue := q, pl_accepted := [?t]\<rparr>"
  have p: "?p = start_pool small_queue [Popping]"
    by (simp add: demo_offering_def start_system_def demo_started_def demo_created_def)
  have "server_task_queue_try_push small_queue ?t = Some (True, q)"
    by (simp add: server_task_queue_try_push_def small_queue_def q_def in_items_def)
  then have "accept_step ?t ?p ?p1"
    using accept_step.push_idle [of ?p ?t q] by (simp add: p start_pool_def)
  from threads_step.accept [OF server_accept_main.offer [OF _ this]]
  have r: "running [Popping] demo_started (demo_offering\<lparr>sy_pool := ?p1, sy_accept := Testing\<rparr>)"
    by (intro running_thread [OF running_offering]) (simp_all add: demo_offering_def after_offer_def)
  have "server_task_queue_pop q = Some (Pop_Task ?t, small_queue\<lparr>tq_items := [?t]\<rparr>)"
    by (simp add: server_task_queue_pop_def small_queue_def q_def in_items_def)
  then have "worker_step 0 ?p1 (sy_pool demo_serving)"
    using worker_step.take [of 0 ?p1 ?t "small_queue\<lparr>tq_items := [?t]\<rparr>"]
    by (simp add: p start_pool_def demo_serving_def)
  then have "threads_step (demo_offering\<lparr>sy_pool := ?p1, sy_accept := Testing\<rparr>)
      (demo_offering\<lparr>sy_pool := ?p1, sy_accept := Testing\<rparr>\<lparr>sy_pool := sy_pool demo_serving\<rparr>)"
    by (intro threads_step.worker) simp
  from running_thread [OF r this] show ?thesis by (simp add: demo_serving_def)
qed

lemma running_down: "running [Popping] demo_started demo_down"
proof -
  have s: "\<not> sy_shutting_down demo_serving" "\<not> sy_closing demo_serving"
    by (simp_all add: demo_serving_def demo_offering_def start_system_def demo_started_def demo_created_def)
  have "running [Popping] demo_started
      (demo_serving\<lparr>sy_shutting_down := True, sy_listen := None, sy_closing := True\<rparr>)"
    by (rule running_thread [OF running_serving threads_step.shutdown [OF shutdown_step.flag]]) (rule s refl)+
  then show ?thesis
    by (rule running_thread [OF _ threads_step.shutdown [OF shutdown_step.queue]])
      (simp_all add: s demo_down_def)
qed

section \<open>Properties\<close>

text \<open>
  C36: in every state of a running server, whatever the interleaving of the accept thread, the
  workers and a shutdown, the queue is used within its array and no connection is lost or served
  twice: those the system handed to the accept thread are exactly the answered ones, those being
  handled, those queued, those refused and the one in the accept thread's hand; and workers take
  them in the order in which they were queued.
\<close>

theorem connections_accounted:
  assumes "sqlapi_server_create f cenv cfg [] = (Inr s0, held)"
    and "sqlapi_server_start senv s0 = Started ws s1 closed" and "running ws s1 s"
  shows "server_task_queue_pop (pl_queue (sy_pool s)) \<noteq> None
    \<and> server_task_queue_try_push (pl_queue (sy_pool s)) t \<noteq> None
    \<and> mset (sy_taken s)
        = mset (pl_done (sy_pool s)) + mset (handling (pl_workers (sy_pool s)))
          + mset (queued (pl_queue (sy_pool s))) + mset (sy_rejected s) + mset (in_hand (sy_accept s))
    \<and> pl_accepted (sy_pool s) = pl_delivered (sy_pool s) @ queued (pl_queue (sy_pool s))"
proof -
  have ok: "system_ok s" using running_ok [OF assms(3)] start_system_ok [OF assms(1,2)] by blast
  then have "queue_ok (pl_queue (sy_pool s))" by (simp add: system_ok_def pool_ok_def)
  from ok tq.pop_law [OF this] tq.push_law [OF this, of t] show ?thesis
    by (auto simp: system_ok_def pool_ok_def)
qed

theorem connections_accounted_witness:
  "server_task_queue_pop (pl_queue (sy_pool demo_offering)) \<noteq> None
    \<and> server_task_queue_try_push (pl_queue (sy_pool demo_offering)) \<lparr>client_socket = 5\<rparr> \<noteq> None
    \<and> mset (sy_taken demo_offering)
        = mset (pl_done (sy_pool demo_offering)) + mset (handling (pl_workers (sy_pool demo_offering)))
          + mset (queued (pl_queue (sy_pool demo_offering))) + mset (sy_rejected demo_offering)
          + mset (in_hand (sy_accept demo_offering))
    \<and> pl_accepted (sy_pool demo_offering)
        = pl_delivered (sy_pool demo_offering) @ queued (pl_queue (sy_pool demo_offering))"
  by (rule connections_accounted [OF demo_create demo_start running_offering])

text \<open>
  C37: a shutdown ends exactly when the peers of the connections in work let it. Once the queue is
  closed, every step of a thread or of a peer brings the server closer to its end and the server stays
  shut down, so no run is infinite, and if the peers do their part some run reaches a state in which
  \<open>sqlapi_server_wait\<close> returns. In a state in which no thread can move, the wait returns, the queue
  is empty and every connection was answered or refused, unless a worker waits for its peer. A worker
  that waits for a peer that sends nothing keeps the wait from returning in every run of the threads.
\<close>

theorem shutdown_terminates:
  assumes "sqlapi_server_create f cenv cfg [] = (Inr s0, held)"
    and "sqlapi_server_start senv s0 = Started ws s1 closed" and "running ws s1 s" and "shut_down s"
  shows "(\<forall>s'. system_step s s' \<longrightarrow> system_work s' < system_work s \<and> shut_down s')
    \<and> (\<exists>s'. system_step\<^sup>*\<^sup>* s s' \<and> sqlapi_server_wait (sr_started s1) s')
    \<and> (\<not> (\<exists>s'. threads_step s s') \<longrightarrow> \<not> peer_awaited s \<longrightarrow>
         sqlapi_server_wait (sr_started s1) s \<and> queued (pl_queue (sy_pool s)) = []
         \<and> mset (sy_taken s) = mset (pl_done (sy_pool s)) + mset (sy_rejected s))
    \<and> (peer_awaited s \<longrightarrow> \<not> (\<exists>s'. threads_step\<^sup>*\<^sup>* s s' \<and> sqlapi_server_wait (sr_started s1) s'))"
proof -
  have ok: "system_ok s" and ne: "pl_workers (sy_pool s) \<noteq> []"
    using running_ok [OF assms(3)] start_system_ok [OF assms(1,2)] by auto
  have st: "sr_started s1"
    using start_result [where env = senv and s = s0] create_result [OF assms(1)] assms(2) by auto
  from awaited_for_ever [OF _ ok] awaited_not_joined st
  have "peer_awaited s \<longrightarrow> \<not> (\<exists>s'. threads_step\<^sup>*\<^sup>* s s' \<and> sqlapi_server_wait (sr_started s1) s')" by auto
  with system_step_work [OF _ ok assms(4)] shutdown_reaches_end [OF ok assms(4) ne]
    shutdown_ends [OF ok assms(4) ne] show ?thesis by blast
qed

lemma demo_shut_down: "shut_down demo_down"
  by (simp add: shut_down_def demo_down_def demo_serving_def demo_offering_def start_system_def)

theorem shutdown_terminates_witness:
  "(\<exists>s'. system_step\<^sup>*\<^sup>* demo_down s' \<and> sqlapi_server_wait (sr_started demo_started) s')
    \<and> \<not> (\<exists>s'. threads_step\<^sup>*\<^sup>* demo_down s' \<and> sqlapi_server_wait (sr_started demo_started) s')"
proof -
  have "peer_awaited demo_down"
    by (simp add: peer_awaited_def demo_down_def demo_serving_def shutdown_pool_def wake_def waits_for_peer_def)
  then show ?thesis
    using shutdown_terminates [OF demo_create demo_start running_down demo_shut_down] by blast
qed

end
