(* ===== verification/Connection_Ownership.thy ===== *)
theory Connection_Ownership
  imports Ownership_Props Server_Props
begin

text \<open>
  Who owns what while one connection is handled: the blocks that \<open>handle_client_request\<close> of
  \<open>src/server/server.c\<close>, the router, the query handler, the JSON reader and the reader of requests
  acquire and release, around the call of the adapter of \<open>Ownership\<close>, and the socket itself.
\<close>

section \<open>The request\<close>

text \<open>The request as \<open>http_read_request\<close> leaves its headers, also when a line is malformed.\<close>

function header_left :: "string \<Rightarrow> http_request \<Rightarrow> http_request" where
  "header_left cursor r =
     (if cursor = [] then r
      else
        (case find_crlf cursor of
           None \<Rightarrow> r
         | Some (line, rest) \<Rightarrow>
             if line = [] then r
             else if hd line = SP \<or> hd line = TAB then r
             else if CHR '':'' \<notin> set line then r
             else header_left rest
                    (push_header r (trim_whitespace (takeWhile (\<lambda>c. c \<noteq> CHR '':'') line))
                       (trim_whitespace (tl (dropWhile (\<lambda>c. c \<noteq> CHR '':'') line))))))"
  by pat_completeness auto
termination
  by (relation "measure (\<lambda>(cursor, r). length cursor)") (auto dest!: find_crlf_length)

declare header_left.simps [simp del]

text \<open>Whether the body was allocated: not when its length is refused.\<close>

definition body_allocated :: "nat \<Rightarrow> http_request \<Rightarrow> bool" where
  "body_allocated body_limit r =
     (case (case http_request_get_header r ''Content-Length'' of
              None \<Rightarrow> Some (- 1)
            | Some v \<Rightarrow> (case parse_int_strict v of
                          None \<Rightarrow> None | Some n \<Rightarrow> if n < 0 then None else Some n)) of
        None \<Rightarrow> False
      | Some n \<Rightarrow> \<not> (0 < n \<and> body_limit < nat n))"

text \<open>With what the request owns afterwards: its headers, and whether it has a body.\<close>

definition http_read_request_heap ::
  "nat \<Rightarrow> nat \<Rightarrow> string \<Rightarrow> heap \<Rightarrow> ((string \<times> string) list \<times> bool) \<times> heap" where
  "http_read_request_heap header_limit body_limit input h =
     (let h1 = own Header_Buffer h; failed = (([], False), release_block Header_Buffer h1) in
      case read_header header_limit input [] of
        Truncated \<Rightarrow> failed
      | Too_Large \<Rightarrow> failed
      | Header buf rest \<Rightarrow>
          (case find_crlf (c_str buf) of
             None \<Rightarrow> failed
           | Some (line, cursor) \<Rightarrow>
               (case parse_request_line http_request_init line of
                  Inl err \<Rightarrow> failed
                | Inr r \<Rightarrow>
                    let r' = header_left cursor r; hs = rq_headers r';
                        h2 = release_block Header_Buffer (own_list Request_Headers hs h1) in
                    (case header_loop cursor r of
                       Inl err \<Rightarrow> ((hs, False), h2)
                     | Inr r'' \<Rightarrow>
                         (case http_request_get_header r' ''Transfer-Encoding'' of
                            None \<Rightarrow>
                              if body_allocated body_limit r' then ((hs, True), own Request_Body h2)
                              else ((hs, False), h2)
                          | Some v \<Rightarrow>
                              let h3 = release_block Encoding_Copy (own Encoding_Copy h2) in
                              if has_chunked (strtok COMMA v) then ((hs, False), h3)
                              else if body_allocated body_limit r' then ((hs, True), own Request_Body h3)
                              else ((hs, False), h3))))))"

definition http_request_free_heap :: "(string \<times> string) list \<times> bool \<Rightarrow> heap \<Rightarrow> heap" where
  "http_request_free_heap owned h =
     (let h1 = string_list_free Request_Headers (fst owned) h in
      if snd owned then release_block Request_Body h1 else h1)"

section \<open>The JSON reader\<close>

text \<open>The bytes in the buffer of \<open>parse_json_string\<close> when its loop ends.\<close>

function json_left :: "string \<Rightarrow> string \<Rightarrow> string" where
  "json_left [] buf = buf"
| "json_left (c # cs) buf =
     (if c = DQ then buf
      else if c = BSL then
        (case cs of
           [] \<Rightarrow> buf
         | e # es \<Rightarrow>
             if e = DQ \<or> e = BSL \<or> e = CHR ''/'' then json_left es (buf @ [e])
             else if e = CHR ''n'' then json_left es (buf @ [LF])
             else if e = CHR ''r'' then json_left es (buf @ [CR])
             else if e = CHR ''t'' then json_left es (buf @ [TAB])
             else buf)
      else json_left cs (buf @ [c]))"
  by pat_completeness auto
termination by (relation "measure (\<lambda>(s, buf). length s)") auto

text \<open>A string that was read belongs to the caller, as the block \<open>b\<close>; an empty one is allocated at the end.\<close>

definition parse_json_heap :: "block \<Rightarrow> string \<Rightarrow> heap \<Rightarrow> heap" where
  "parse_json_heap b s h =
     (case s of
        [] \<Rightarrow> h
      | c # cs \<Rightarrow>
          if c \<noteq> DQ then h
          else
            let left = json_left cs []; h1 = own_list b left h in
            (case json_string_loop cs [] of
               None \<Rightarrow> string_list_free b left h1
             | Some (v, rest) \<Rightarrow> if left = [] then own b h1 else h1))"

definition skip_json_value_heap :: "string \<Rightarrow> heap \<Rightarrow> heap" where
  "skip_json_value_heap cursor h =
     (let input = skip_ws cursor in
      if take 1 input = [DQ] then
        let h1 = parse_json_heap Ignored_Value input h in
        (case parse_json_string input of None \<Rightarrow> h1 | Some r \<Rightarrow> release_block Ignored_Value h1)
      else h)"

text \<open>A second \<open>sql\<close> member replaces the value of the first one, which is freed.\<close>

definition member_value_heap :: "string \<Rightarrow> string \<Rightarrow> string option \<Rightarrow> heap \<Rightarrow> heap" where
  "member_value_heap key cursor found h =
     (if key = ''sql'' then
        let h1 = parse_json_heap Sql_Text cursor h in
        (case parse_json_string cursor of
           None \<Rightarrow> h1
         | Some r \<Rightarrow> (case found of None \<Rightarrow> h1 | Some old \<Rightarrow> release_block Sql_Text h1))
      else skip_json_value_heap cursor h)"

definition member_value :: "string \<Rightarrow> string \<Rightarrow> string option \<Rightarrow> (string option \<times> string) option" where
  "member_value key cursor found =
     (if key = ''sql''
      then map_option (\<lambda>(v, r). (Some v, r)) (parse_json_string cursor)
      else map_option (\<lambda>r. (found, r)) (skip_json_value cursor))"

lemma member_value_length: "member_value key cursor found = Some (f, r) \<Longrightarrow> length r \<le> length cursor"
  by (auto simp: member_value_def split: if_splits dest!: parse_json_string_length skip_json_value_length)

text \<open>With the value of \<open>*sql_out\<close> when the loop ends, on every path.\<close>

function member_loop_heap :: "string \<Rightarrow> string option \<Rightarrow> heap \<Rightarrow> string option \<times> heap" where
  "member_loop_heap cursor found h =
     (let c1 = skip_ws cursor in
      if take 1 c1 = ''}'' then (found, h)
      else
        let h1 = parse_json_heap Json_Key c1 h in
        (case parse_json_string c1 of
           None \<Rightarrow> (found, h1)
         | Some (key, r2) \<Rightarrow>
             let c2 = skip_ws r2 in
             if take 1 c2 \<noteq> '':'' then (found, release_block Json_Key h1)
             else
               let c3 = skip_ws (tl c2); h2 = release_block Json_Key (member_value_heap key c3 found h1) in
               (case member_value key c3 found of
                  None \<Rightarrow> (found, h2)
                | Some (found', r4) \<Rightarrow>
                    let c4 = skip_ws r4 in
                    if take 1 c4 = '','' then member_loop_heap (tl c4) found' h2 else (found', h2))))"
  by pat_completeness auto
termination
proof (relation "measure (\<lambda>(s, f, h). length s)", simp, goal_cases)
  case (1 cursor found h c1 h1 y key r2 c2 c3 h2 z found' r4 c4)
  have "length c1 \<le> length cursor" unfolding 1(1) by (rule length_skip_ws)
  moreover have "length r2 < length c1"
    using 1(4,5) parse_json_string_length [of c1 key r2] by (simp only:)
  moreover have "length c2 \<le> length r2" unfolding 1(6) by (rule length_skip_ws)
  moreover have "length c3 \<le> length c2" unfolding 1(8) using length_skip_ws [of "tl c2"] by simp
  moreover have "length r4 \<le> length c3"
    using 1(10,11) member_value_length [of key c3 found found' r4] by (simp only:)
  moreover have "length c4 \<le> length r4" unfolding 1(12) by (rule length_skip_ws)
  ultimately show ?case by simp
qed

declare member_loop_heap.simps [simp del]

definition extract_sql_field_heap :: "string \<Rightarrow> heap \<Rightarrow> string option \<times> heap" where
  "extract_sql_field_heap body h =
     (let c = skip_ws body in if take 1 c \<noteq> ''{'' then (None, h) else member_loop_heap (tl c) None h)"

section \<open>Responses and handlers\<close>

definition http_response_set_body_heap :: "heap \<Rightarrow> heap" where
  "http_response_set_body_heap h = own Response_Body (own Response_Type h)"

definition http_response_set_error_heap :: "sql_engine_error_code \<Rightarrow> string \<Rightarrow> heap \<Rightarrow> heap" where
  "http_response_set_error_heap code message h =
     (let h1 = release_block Escaped_Text (own Escaped_Text h) in
      case http_response_set_error http_response_init code message of
        None \<Rightarrow> h1
      | Some r \<Rightarrow> http_response_set_body_heap h1)"

definition http_response_free_heap :: "http_response \<Rightarrow> heap \<Rightarrow> heap" where
  "http_response_free_heap r h =
     (let h1 = (case rs_content_type r of None \<Rightarrow> h | Some t \<Rightarrow> release_block Response_Type h) in
      case rs_body r of None \<Rightarrow> h1 | Some b \<Rightarrow> release_block Response_Body h1)"

definition sql_engine_adapter_result_free :: "adapter_result \<Rightarrow> heap \<Rightarrow> heap" where
  "sql_engine_adapter_result_free r h =
     (case ar_output r of None \<Rightarrow> h | Some out \<Rightarrow> release_block Output_Text h)"

definition is_valid_query_content_type_heap :: "string option \<Rightarrow> heap \<Rightarrow> heap" where
  "is_valid_query_content_type_heap content_type h =
     (case content_type of
        None \<Rightarrow> h
      | Some v \<Rightarrow> release_block Content_Type_Copy (own Content_Type_Copy h))"

definition build_success_heap :: "adapter_result \<Rightarrow> heap \<Rightarrow> heap" where
  "build_success_heap r h =
     (let h1 = own Success_Body (own Escaped_Output (own Escaped_Summary h));
          h2 = release_block Escaped_Output (release_block Escaped_Summary h1) in
      sql_engine_adapter_result_free r (release_block Success_Body (http_response_set_body_heap h2)))"

text \<open>A call that waits for its table still owns its text.\<close>

definition api_handle_query_heap ::
  "adapter_env \<Rightarrow> http_request \<Rightarrow> api_context \<Rightarrow> engine \<Rightarrow> heap \<Rightarrow> heap" where
  "api_handle_query_heap env rq cx e h =
     (if http_request_get_header rq ''Content-Length'' = None
      then http_response_set_error_heap SQL_ENGINE_ERROR_CONTENT_LENGTH_REQUIRED
             ''Content-Length is required for POST /query'' h
      else
        let h1 = is_valid_query_content_type_heap (http_request_get_header rq ''Content-Type'') h in
        if \<not> is_valid_query_content_type (http_request_get_header rq ''Content-Type'')
        then http_response_set_error_heap SQL_ENGINE_ERROR_INVALID_CONTENT_TYPE
               ''Content-Type must be application/json with optional charset=utf-8'' h1
        else
          (case extract_sql_field_heap (c_str (rq_body rq)) h1 of
             (sql_out, h2) \<Rightarrow>
               let freed = (case sql_out of None \<Rightarrow> h2 | Some v \<Rightarrow> release_block Sql_Text h2) in
               (case extract_sql_field (c_str (rq_body rq)) of
                  No_Sql_Field \<Rightarrow>
                    http_response_set_error_heap SQL_ENGINE_ERROR_MISSING_SQL_FIELD
                      (''field '' @ [SQ] @ ''sql'' @ [SQ] @ '' is required'') freed
                | Bad_Json \<Rightarrow>
                    http_response_set_error_heap SQL_ENGINE_ERROR_INVALID_JSON
                      (''request body must be a JSON object containing a string field named ''
                       @ [SQ] @ ''sql'' @ [SQ]) freed
                | Sql_Field sql_text \<Rightarrow>
                    let h3 = sql_engine_adapter_heap env (cx_config cx) (Some sql_text) e h2 in
                    (case db_service_execute_sql env (cx_config cx) (Some sql_text) e of
                       Undefined \<Rightarrow> None
                     | Waits e' \<Rightarrow> h3
                     | Returns r e' \<Rightarrow>
                         let h4 = release_block Sql_Text h3 in
                         if \<not> ar_ok r
                         then sql_engine_adapter_result_free r
                                (http_response_set_error_heap (ar_error_code r)
                                   (build_user_error_message (ar_error_code r) (ar_error_message r)) h4)
                         else build_success_heap r h4))))"

text \<open>\<open>GET /\<close> and \<open>GET /health\<close> fill a buffer on the stack.\<close>

definition api_handle_root_heap :: "http_request \<Rightarrow> api_context \<Rightarrow> heap \<Rightarrow> heap" where
  "api_handle_root_heap rq cx h =
     (if 0 < rq_body_length rq
      then http_response_set_error_heap SQL_ENGINE_ERROR_INVALID_JSON
             ''GET / must not include a request body'' h
      else if api_handle_root rq cx http_response_init = None then h
      else http_response_set_body_heap h)"

definition api_handle_health_heap :: "http_request \<Rightarrow> api_context \<Rightarrow> heap \<Rightarrow> heap" where
  "api_handle_health_heap rq cx h =
     (if 0 < rq_body_length rq
      then http_response_set_error_heap SQL_ENGINE_ERROR_INVALID_JSON
             ''GET /health must not include a request body'' h
      else if api_handle_health rq cx http_response_init = None then h
      else http_response_set_body_heap h)"

definition http_route_request_heap ::
  "adapter_env \<Rightarrow> http_request \<Rightarrow> api_context \<Rightarrow> engine \<Rightarrow> heap \<Rightarrow> heap" where
  "http_route_request_heap env rq cx e h =
     (if rq_path rq = ''/'' then
        if rq_method rq \<noteq> ''GET''
        then http_response_set_error_heap SQL_ENGINE_ERROR_METHOD_NOT_ALLOWED ''only GET is allowed for /'' h
        else api_handle_root_heap rq cx h
      else if rq_path rq = ''/health'' then
        if rq_method rq \<noteq> ''GET''
        then http_response_set_error_heap SQL_ENGINE_ERROR_METHOD_NOT_ALLOWED ''only GET is allowed for /health'' h
        else api_handle_health_heap rq cx h
      else if rq_path rq = ''/query'' then
        if rq_method rq \<noteq> ''POST''
        then http_response_set_error_heap SQL_ENGINE_ERROR_METHOD_NOT_ALLOWED ''only POST is allowed for /query'' h
        else api_handle_query_heap env rq cx e h
      else http_response_set_error_heap SQL_ENGINE_ERROR_NOT_FOUND ''requested path does not exist'' h)"

section \<open>The connection\<close>

definition send_simple_error_heap :: "sql_engine_error_code \<Rightarrow> string \<Rightarrow> heap \<Rightarrow> heap" where
  "send_simple_error_heap code message h =
     (let h1 = http_response_set_error_heap code message h in
      case http_response_set_error http_response_init code message of
        None \<Rightarrow> h1
      | Some r \<Rightarrow> http_response_free_heap r h1)"

definition close_client_socket :: "heap \<Rightarrow> heap" where
  "close_client_socket h = release_block Client_Socket h"

text \<open>The response of a handler that failed is still the empty one of \<open>http_response_init\<close>.\<close>

definition handle_client_request_heap ::
  "adapter_env \<Rightarrow> string \<times> string \<Rightarrow> server \<Rightarrow> connection \<Rightarrow> engine \<Rightarrow> heap \<Rightarrow> heap" where
  "handle_client_request_heap env timings s cn e h =
     (case http_read_request_heap (sv_header_limit (sr_config s)) (sv_request_body_limit (sr_config s)) (cn_input cn) h of
        (owned, h1) \<Rightarrow>
          let leave = (\<lambda>r h. close_client_socket (http_response_free_heap r (http_request_free_heap owned h))) in
          (case fst (http_read_request (cn_chunks cn) (sv_header_limit (sr_config s))
                       (sv_request_body_limit (sr_config s)) (cn_input cn)) of
             Inl (code, message) \<Rightarrow> leave http_response_init (send_simple_error_heap code message h1)
           | Inr rq \<Rightarrow>
               let cx = \<lparr>cx_config = service_config (sr_config s),
                         cx_worker_count = sqlapi_server_worker_count s,
                         cx_queue_depth = sqlapi_server_queue_depth s\<rparr>;
                   h2 = http_route_request_heap env rq cx e h1 in
               (case http_route_request env timings rq cx e http_response_init of
                  Broken \<Rightarrow> None
                | Blocked e' \<Rightarrow> h2
                | Answer None e' \<Rightarrow>
                    leave http_response_init
                      (send_simple_error_heap SQL_ENGINE_ERROR_INTERNAL_ERROR ''failed to construct HTTP response'' h2)
                | Answer (Some r) e' \<Rightarrow> leave r h2)))"

text \<open>A connection that the queue does not take.\<close>

definition refuse_connection_heap :: "heap \<Rightarrow> heap" where
  "refuse_connection_heap h =
     close_client_socket (send_simple_error_heap SQL_ENGINE_ERROR_QUEUE_FULL ''server is busy'' h)"

end
