(* ===== verification/Connection_Props.thy ===== *)
theory Connection_Props
  imports Connection_Ownership
begin

text \<open>
  A connection leaves nothing behind: its request, its response, its SQL text and its socket are
  released on every path, and so is the output of the engine. What can be left is one block of the
  call of the engine, under the conditions of \<open>Ownership_Props\<close>.
\<close>

section \<open>The request\<close>

lemma header_left_ok: "header_loop cursor r = Inr r' \<Longrightarrow> header_left cursor r = r'"
proof (induction cursor r rule: header_loop.induct)
  case (1 cursor r)
  then show ?case
    by (cases "find_crlf cursor")
      (auto simp: header_left.simps [of cursor r] header_loop.simps [of cursor r] split: if_splits)
qed

definition request_owned :: "(string \<times> string) list \<times> bool \<Rightarrow> heap \<Rightarrow> heap" where
  "request_owned owned h =
     (let h1 = own_list Request_Headers (fst owned) h in if snd owned then own Request_Body h1 else h1)"

lemma http_read_request_heap_result:
  "http_read_request_heap header_limit body_limit input h = (owned, h1) \<Longrightarrow> h1 = request_owned owned h"
  by (auto simp: http_read_request_heap_def request_owned_def Let_def
      split: header_read.splits option.splits prod.splits sum.splits if_splits)

lemma request_freed:
  "http_request_free_heap owned (request_owned owned h) = h"
  "b \<notin> {Request_Headers, Request_Body} \<Longrightarrow>
     http_request_free_heap owned (own b h) = own b (http_request_free_heap owned h)"
  by (auto simp: http_request_free_heap_def request_owned_def Let_def)

section \<open>The JSON reader\<close>

lemma json_left_ok: "json_string_loop s buf = Some (v, rest) \<Longrightarrow> json_left s buf = v"
  by (induction s buf rule: json_string_loop.induct) (auto split: if_splits list.splits)

lemma parse_json_heap_result [simp]:
  "parse_json_heap b s h = (case parse_json_string s of None \<Rightarrow> h | Some r \<Rightarrow> own b h)"
  by (auto simp: parse_json_heap_def parse_json_string_def Let_def split: list.split option.split)

lemma skip_json_value_heap_id [simp]: "skip_json_value_heap cursor h = h"
  by (simp add: skip_json_value_heap_def Let_def split: option.split)

definition sql_owned :: "string option \<Rightarrow> heap \<Rightarrow> heap" where
  "sql_owned found h = (case found of None \<Rightarrow> h | Some v \<Rightarrow> own Sql_Text h)"

lemma member_value_heap_result:
  "release_block Json_Key (member_value_heap key cursor found (own Json_Key (sql_owned found h)))
     = sql_owned (case member_value key cursor found of None \<Rightarrow> found | Some (f, r) \<Rightarrow> f) h"
  by (auto simp: member_value_heap_def member_value_def sql_owned_def own_swap [of Sql_Text Json_Key]
      split: option.split)

text \<open>What the loop gives and what it owns.\<close>

definition extract_ok :: "extracted \<Rightarrow> heap \<Rightarrow> string option \<times> heap \<Rightarrow> bool" where
  "extract_ok x h y =
     (snd y = sql_owned (fst y) h
      \<and> (case x of Bad_Json \<Rightarrow> True | No_Sql_Field \<Rightarrow> fst y = None | Sql_Field v \<Rightarrow> fst y = Some v))"

text \<open>One turn of the loop, for either version.\<close>

definition member_end :: "string \<Rightarrow> string option \<Rightarrow> extracted" where
  "member_end rest found =
     (if skip_ws rest \<noteq> [] then Bad_Json else (case found of None \<Rightarrow> No_Sql_Field | Some v \<Rightarrow> Sql_Field v))"

lemma member_end_ok: "extract_ok (member_end rest found) h (found, sql_owned found h)"
  by (simp add: member_end_def extract_ok_def split: option.split)

lemma bad_json_ok: "extract_ok Bad_Json h (found, sql_owned found h)"
  by (simp add: extract_ok_def)

lemma member_loop_unfold:
  "member_loop cursor found =
     (if take 1 (skip_ws cursor) = ''}'' then member_end (tl (skip_ws cursor)) found
      else
        (case parse_json_string (skip_ws cursor) of
           None \<Rightarrow> Bad_Json
         | Some (key, r2) \<Rightarrow>
             if take 1 (skip_ws r2) \<noteq> '':'' then Bad_Json
             else
               (case member_value key (skip_ws (tl (skip_ws r2))) found of
                  None \<Rightarrow> Bad_Json
                | Some (found', r4) \<Rightarrow>
                    if take 1 (skip_ws r4) = '','' then member_loop (tl (skip_ws r4)) found'
                    else if take 1 (skip_ws r4) = ''}'' then member_end (tl (skip_ws r4)) found'
                    else Bad_Json)))"
  by (subst member_loop.simps) (simp only: Let_def member_end_def member_value_def)

lemma member_loop_heap_result:
  "extract_ok (member_loop cursor found) h (member_loop_heap cursor found (sql_owned found h))"
proof (induction cursor found rule: member_loop.induct)
  case (1 cursor found)
  note loop = member_loop_unfold [of cursor found] and heap = member_loop_heap.simps [of cursor found "sql_owned found h"]
  let ?c1 = "skip_ws cursor"
  show ?case
  proof (cases "take 1 ?c1 = ''}'' \<or> parse_json_string ?c1 = None")
    case True
    then show ?thesis
      by (cases "take 1 ?c1 = ''}''") (simp_all add: loop heap Let_def member_end_ok bad_json_ok)
  next
    case False
    then obtain key r2 where k: "take 1 ?c1 \<noteq> ''}''" "parse_json_string ?c1 = Some (key, r2)" by auto
    let ?c3 = "skip_ws (tl (skip_ws r2))"
    note v = member_value_heap_result [of key ?c3 found h]
    show ?thesis
    proof (cases "take 1 (skip_ws r2) \<noteq> '':'' \<or> member_value key ?c3 found = None")
      case True
      with k v show ?thesis
        by (cases "take 1 (skip_ws r2) = '':''") (simp_all add: loop heap Let_def bad_json_ok)
    next
      case False
      then obtain found' r4 where c: "take 1 (skip_ws r2) = '':''" "member_value key ?c3 found = Some (found', r4)"
        by auto
      have nc: "\<not> take 1 (skip_ws r2) \<noteq> '':''" using c(1) by simp
      have ih: "take 1 (skip_ws r4) = '','' \<Longrightarrow> extract_ok (member_loop (tl (skip_ws r4)) found') h
          (member_loop_heap (tl (skip_ws r4)) found' (sql_owned found' h))"
        by (rule "1.IH" [OF refl refl k(1) k(2) refl refl nc refl c(2) [unfolded member_value_def] refl refl])
      from k c v ih show ?thesis
        by (cases "take 1 (skip_ws r4) = '',''") (simp_all add: loop heap Let_def member_end_ok bad_json_ok)
    qed
  qed
qed

lemma extract_sql_field_heap_result:
  "extract_ok (extract_sql_field body) h (extract_sql_field_heap body h)"
  using member_loop_heap_result [of "tl (skip_ws body)" None h]
  by (simp add: extract_sql_field_def extract_sql_field_heap_def Let_def extract_ok_def sql_owned_def)

section \<open>Responses\<close>

definition response_full :: "http_response \<Rightarrow> bool" where
  "response_full r = (rs_content_type r \<noteq> None \<and> rs_body r \<noteq> None)"

lemma set_json_full: "response_full (http_response_set_json r status body)" "response_full (http_response_set_html r status body)"
  by (simp_all add: response_full_def http_response_set_json_def http_response_set_html_def http_response_set_body_def)

lemma set_error_full: "http_response_set_error r code m = Some r' \<Longrightarrow> response_full r'"
  by (auto simp: http_response_set_error_def set_json_full split: if_splits)

lemma response_freed:
  "response_full r \<Longrightarrow> http_response_free_heap r (http_response_set_body_heap h) = h"
  "http_response_free_heap http_response_init h = h"
  by (auto simp: response_full_def http_response_free_heap_def http_response_set_body_heap_def
      http_response_init_def Let_def)

lemma http_response_set_error_heap_result [simp]:
  "http_response_set_error_heap code m h =
     (case http_response_set_error http_response_init code m of None \<Rightarrow> h | Some r \<Rightarrow> http_response_set_body_heap h)"
  by (simp add: http_response_set_error_heap_def)

lemma send_simple_error_heap_id [simp]: "send_simple_error_heap code m h = h"
  using set_error_full [of http_response_init code m]
  by (auto simp: send_simple_error_heap_def Let_def response_freed split: option.split)

text \<open>What a handler leaves: a response, if it made one, and at most what the engine left.\<close>

definition handler_left :: "bool \<Rightarrow> heap \<Rightarrow> http_response option \<Rightarrow> heap \<Rightarrow> bool" where
  "handler_left tidy h resp h' =
     (\<exists>h1. left_over (Token_Array # statement_blocks) (\<not> tidy) h h1
       \<and> (case resp of None \<Rightarrow> h' = h1 | Some r \<Rightarrow> response_full r \<and> h' = http_response_set_body_heap h1))"

lemma handler_left_plain:
  assumes "\<And>r. resp = Some r \<Longrightarrow> response_full r"
  shows "handler_left tidy h resp (case resp of None \<Rightarrow> h | Some r \<Rightarrow> http_response_set_body_heap h)"
  using assms by (auto simp: handler_left_def left_over_def split: option.split)

lemma handler_left_json:
  "handler_left tidy h (Some (http_response_set_json r status body)) (http_response_set_body_heap h)"
  "handler_left tidy h (Some (http_response_set_html r status body)) (http_response_set_body_heap h)"
  by (auto simp: handler_left_def left_over_def set_json_full)

lemma set_error_left:
  "handler_left tidy h (http_response_set_error http_response_init code m)
     (case http_response_set_error http_response_init code m of None \<Rightarrow> h | Some r \<Rightarrow> http_response_set_body_heap h)"
  by (rule handler_left_plain) (rule set_error_full)

section \<open>The query handler\<close>

definition tidy_query :: "adapter_config \<Rightarrow> http_request \<Rightarrow> engine \<Rightarrow> bool" where
  "tidy_query cfg rq e =
     (case extract_sql_field (c_str (rq_body rq)) of Sql_Field s \<Rightarrow> tidy_call cfg (Some s) e | _ \<Rightarrow> True)"

text \<open>From the call of the engine on, with the SQL text owned.\<close>

lemma engine_answer_left:
  fixes h :: heap
  assumes e: "sql_engine_adapter_execute env cfg (Some s) e = Returns r e'"
  defines "h4 \<equiv> release_block Sql_Text (sql_engine_adapter_heap env cfg (Some s) e (own Sql_Text h))"
  shows "if ar_ok r then build_success_heap r h4 = http_response_set_body_heap h \<and> ar_output r \<noteq> None
    else left_over (Token_Array # statement_blocks) (\<not> tidy_call cfg (Some s) e) h h4 \<and> ar_output r = None"
proof -
  note ok = adapter_result_ok [OF e]
  note m = adapter_memory_call [OF e, of "own Sql_Text h", unfolded call_heap_ok_def]
  show ?thesis
  proof (cases "ar_ok r")
    case True
    with ok m show ?thesis
      by (auto simp: h4_def build_success_heap_def result_ok_def sql_engine_adapter_result_free_def
          http_response_set_body_heap_def Let_def split: option.split)
  next
    case False
    with ok m show ?thesis
      by (auto simp: h4_def result_ok_def left_over_def statement_blocks_def)
  qed
qed

lemma api_handle_query_left:
  assumes a: "api_handle_query env timings rq cx e http_response_init = Answer resp e'"
  shows "handler_left (tidy_query (cx_config cx) rq e) h resp (api_handle_query_heap env rq cx e h)"
proof -
  obtain sql_out h2 where x: "extract_sql_field_heap (c_str (rq_body rq)) h = (sql_out, h2)" by fastforce
  note ok = extract_sql_field_heap_result [of "c_str (rq_body rq)" h, unfolded x extract_ok_def, simplified]
  have freed: "(case sql_out of None \<Rightarrow> h2 | Some v \<Rightarrow> release_block Sql_Text h2) = h"
    using ok by (auto simp: sql_owned_def split: option.split)
  have ct: "is_valid_query_content_type_heap t h = h" for t
    by (simp add: is_valid_query_content_type_heap_def split: option.split)
  note unfolds = api_handle_query_def api_handle_query_heap_def Let_def ct x freed
  show ?thesis
  proof (cases "http_request_get_header rq ''Content-Length'' = None
      \<or> \<not> is_valid_query_content_type (http_request_get_header rq ''Content-Type'')
      \<or> (\<forall>s. extract_sql_field (c_str (rq_body rq)) \<noteq> Sql_Field s)")
    case True
    with a show ?thesis by (auto simp: unfolds set_error_left split: extracted.splits if_splits)
  next
    case False
    then obtain s where s: "extract_sql_field (c_str (rq_body rq)) = Sql_Field s" by auto
    with ok have h2: "h2 = own Sql_Text h" by (simp add: sql_owned_def)
    from a False s obtain r where r: "sql_engine_adapter_execute env (cx_config cx) (Some s) e = Returns r e'"
      by (auto simp: unfolds db_service_execute_sql_def split: adapter_outcome.splits if_splits)
    note l = engine_answer_left [OF r, where h = h]
    show ?thesis
    proof (cases "ar_ok r")
      case True
      with l a False s r show ?thesis
        by (auto simp: unfolds h2 db_service_execute_sql_def handler_left_json)
    next
      case not_ok: False
      with l have "sql_engine_adapter_result_free r x = x" for x by (simp add: sql_engine_adapter_result_free_def)
      with l not_ok a False s r set_error_full [of http_response_init "ar_error_code r"
          "build_user_error_message (ar_error_code r) (ar_error_message r)"] show ?thesis
        by (auto simp: unfolds h2 db_service_execute_sql_def handler_left_def tidy_query_def split: option.split)
    qed
  qed
qed

section \<open>The connection\<close>

lemma api_handle_root_left:
  "handler_left tidy h (api_handle_root rq cx http_response_init) (api_handle_root_heap rq cx h)"
  by (auto simp: api_handle_root_def api_handle_root_heap_def Let_def set_error_left handler_left_json
      handler_left_plain [of None, simplified])

lemma api_handle_health_left:
  "handler_left tidy h (api_handle_health rq cx http_response_init) (api_handle_health_heap rq cx h)"
  by (auto simp: api_handle_health_def api_handle_health_heap_def Let_def set_error_left handler_left_json
      handler_left_plain [of None, simplified])

lemma http_route_request_left:
  assumes "http_route_request env timings rq cx e http_response_init = Answer resp e'"
  shows "handler_left (rq_path rq = ''/query'' \<longrightarrow> tidy_query (cx_config cx) rq e) h resp
    (http_route_request_heap env rq cx e h)"
proof (cases "rq_path rq = ''/query'' \<and> rq_method rq = ''POST''")
  case True
  with assms have "api_handle_query env timings rq cx e http_response_init = Answer resp e'"
    by (simp add: http_route_request_def)
  with True show ?thesis by (simp add: http_route_request_heap_def api_handle_query_left)
next
  case False
  with assms show ?thesis
    by (auto simp: http_route_request_def http_route_request_heap_def set_error_left api_handle_root_left
        api_handle_health_left split: if_splits)
qed

definition tidy_connection :: "server \<Rightarrow> connection \<Rightarrow> engine \<Rightarrow> bool" where
  "tidy_connection s cn e =
     (case fst (http_read_request (cn_chunks cn) (sv_header_limit (sr_config s))
                  (sv_request_body_limit (sr_config s)) (cn_input cn)) of
        Inl refused \<Rightarrow> True
      | Inr rq \<Rightarrow> rq_path rq = ''/query'' \<longrightarrow> tidy_query (service_config (sr_config s)) rq e)"

text \<open>The end of \<open>handle_client_request\<close>, after the response was sent.\<close>

lemma leave_connection:
  fixes h :: heap
  assumes "left_over (Token_Array # statement_blocks) p (request_owned owned (own Client_Socket h)) h'"
  shows "left_over (Token_Array # statement_blocks) p h
    (close_client_socket (http_request_free_heap owned h'))"
proof -
  have b: "b \<notin> {Request_Headers, Request_Body}" "b \<noteq> Client_Socket"
    if "b = Token_Array \<or> b \<in> set statement_blocks" for b
    using that by (auto simp: statement_blocks_def)
  have "close_client_socket (http_request_free_heap owned (own b (request_owned owned (own Client_Socket h)))) = own b h"
    if "b = Token_Array \<or> b \<in> set statement_blocks" for b
    using b [OF that] by (simp add: close_client_socket_def request_freed own_swap [of b Client_Socket])
  moreover have "close_client_socket (http_request_free_heap owned (request_owned owned (own Client_Socket h))) = h"
    by (simp add: close_client_socket_def request_freed)
  ultimately show ?thesis
    using assms unfolding left_over_def by (metis list.set_intros(1) set_ConsD)
qed

lemma request_response_freed:
  "response_full r \<Longrightarrow> http_response_free_heap r (http_request_free_heap owned (http_response_set_body_heap h))
     = http_request_free_heap owned h"
  using response_freed(1) [of r "http_request_free_heap owned h"]
  by (simp add: http_response_set_body_heap_def request_freed)

lemma leave_handler:
  assumes "handler_left tidy (request_owned owned (own Client_Socket h)) (Some r) h'"
  shows "left_over (Token_Array # statement_blocks) (\<not> tidy) h
    (close_client_socket (http_response_free_heap r (http_request_free_heap owned h')))"
  using assms by (auto simp: handler_left_def request_response_freed intro: leave_connection)

lemma connection_left:
  fixes h :: heap
  assumes "handle_client_request env timings s cn e = Closed sent e'"
  shows "left_over (Token_Array # statement_blocks) (\<not> tidy_connection s cn e) h
    (handle_client_request_heap env timings s cn e (own Client_Socket h))"
proof -
  obtain owned h1 where rd: "http_read_request_heap (sv_header_limit (sr_config s))
      (sv_request_body_limit (sr_config s)) (cn_input cn) (own Client_Socket h) = (owned, h1)" by fastforce
  note h1 = http_read_request_heap_result [OF rd]
  note unfolds = handle_client_request_def handle_client_request_heap_def tidy_connection_def Let_def rd h1
  show ?thesis
  proof (cases "fst (http_read_request (cn_chunks cn) (sv_header_limit (sr_config s))
      (sv_request_body_limit (sr_config s)) (cn_input cn))")
    case (Inl refused)
    then show ?thesis
      using leave_connection [of False owned h] by (simp add: unfolds response_freed left_over_def split: prod.split)
  next
    case (Inr rq)
    with assms obtain resp where a: "http_route_request env timings rq
        \<lparr>cx_config = service_config (sr_config s), cx_worker_count = sqlapi_server_worker_count s,
         cx_queue_depth = sqlapi_server_queue_depth s\<rparr> e http_response_init = Answer resp e'"
      by (auto simp: handle_client_request_def split: handler_outcome.splits option.splits)
    note l = http_route_request_left [OF a, of "request_owned owned (own Client_Socket h)"]
    show ?thesis
    proof (cases resp)
      case None
      with l have "left_over (Token_Array # statement_blocks) (\<not> tidy_connection s cn e)
          (request_owned owned (own Client_Socket h)) (http_route_request_heap env rq
        \<lparr>cx_config = service_config (sr_config s), cx_worker_count = sqlapi_server_worker_count s,
         cx_queue_depth = sqlapi_server_queue_depth s\<rparr> e (request_owned owned (own Client_Socket h)))"
        by (simp add: handler_left_def tidy_connection_def Inr)
      from leave_connection [OF this] None a Inr show ?thesis by (simp add: unfolds response_freed)
    next
      case (Some r)
      with leave_handler [OF l [unfolded Some]] a Inr show ?thesis by (simp add: unfolds)
    qed
  qed
qed

lemma tidy_query_request:
  assumes "query_fits s query"
  shows "tidy_connection s \<lparr>cn_input = query_request query, cn_chunks = chunks, cn_sends = sends\<rparr> e
    = tidy_call (service_config (sr_config s)) (Some query) e"
proof -
  obtain rq where "http_read_request chunks (sv_header_limit (sr_config s))
      (sv_request_body_limit (sr_config s)) (query_request query @ []) = (Inr rq, [])" "is_query query rq"
    using query_read [OF assms] by blast
  then show ?thesis by (simp add: tidy_connection_def tidy_query_def is_query_def extract_sql_body)
qed

lemma ready_tidy:
  assumes "engine_ready cfg (statement_table_name st) sch e" and "statement_ok st"
  shows "tidy_call cfg (Some (print_sql st)) e"
  using print_sql_parses [OF assms(2)] assms(1)
  by (auto simp: tidy_call_def statement_sound_def table_sound_def engine_ready_def)

text \<open>
  C40: memory of a connection: however a connection ends, by a refusal of its bytes, an error of its
  query or an answer, the server has released only blocks that it owned, and released all of them
  with the socket. A connection leaves nothing, unless its query is refused by the lexer or names a
  table whose schema does not load or whose file has a line that cannot be read, and then at most one
  block of the engine. A connection that the queue does not take leaves nothing.
\<close>

theorem connection_memory:
  assumes "handle_client_request env timings s cn e = Closed sent e'"
  shows "\<exists>owned'. handle_client_request_heap env timings s cn e (Some (add_mset Client_Socket owned)) = Some owned'
    \<and> (if tidy_connection s cn e then owned' = owned
       else owned' = owned \<or> (\<exists>b\<in>set (Token_Array # statement_blocks). owned' = add_mset b owned))
    \<and> refuse_connection_heap (Some (add_mset Client_Socket owned)) = Some owned"
  using connection_left [OF assms, of "Some owned"]
  by (auto simp: left_over_def own_def refuse_connection_heap_def close_client_socket_def release_block_def
      split: if_splits)

theorem connection_memory_witness:
  "\<exists>sent e'. handle_client_request demo_env (''0.1'', ''0.2'') demo_server
      \<lparr>cn_input = query_request (print_sql (INSERT demo_insert)), cn_chunks = [5], cn_sends = [300, 300]\<rparr>
      demo_engine = Closed sent e'
    \<and> handle_client_request_heap demo_env (''0.1'', ''0.2'') demo_server
      \<lparr>cn_input = query_request (print_sql (INSERT demo_insert)), cn_chunks = [5], cn_sends = [300, 300]\<rparr>
      demo_engine (Some {#Client_Socket#}) = Some {#}"
proof -
  have ready: "engine_ready demo_config (ins_table demo_insert) demo_schema demo_engine"
    by (simp_all only: engine_ready_def demo_engine_simps demo_simps demo_load demo_table fresh_ok simp_thms empty_iff)
  have fits: "can_lock (ae_lock demo_env) (en_locks demo_engine) (sc_storage_name demo_schema)" "ae_tmpfile demo_env"
    "length (print_sql (INSERT demo_insert)) \<le> ac_sql_length_limit demo_config"
    by (simp_all only: demo_engine_simps demo_statements)
  obtain r e' where r: "sql_engine_adapter_execute demo_env demo_config (Some (print_sql (INSERT demo_insert)))
      demo_engine = Returns r e'" "ar_ok r"
    using insert_call [OF ready fits(1,2) demo_statements(1) demo_insert_ok fits(3)] by blast
  from query_connection [OF demo_queries_fit(1), where rest = "[]", simplified append_Nil2 demo_server_simps, OF r]
  obtain sent where c: "handle_client_request demo_env (''0.1'', ''0.2'') demo_server
      \<lparr>cn_input = query_request (print_sql (INSERT demo_insert)), cn_chunks = [5], cn_sends = [300, 300]\<rparr>
      demo_engine = Closed sent e'" by blast
  have "tidy_connection demo_server
      \<lparr>cn_input = query_request (print_sql (INSERT demo_insert)), cn_chunks = [5], cn_sends = [300, 300]\<rparr> demo_engine"
    using ready_tidy [of demo_config "INSERT demo_insert" demo_schema demo_engine] ready demo_statements(1)
    by (simp add: tidy_query_request [OF demo_queries_fit(1)] demo_server_simps)
  with connection_memory [OF c, of "{#}"] c show ?thesis by auto
qed

end
