(* ===== verification/Signal_Handler.thy ===== *)
theory Signal_Handler
  imports Main
begin

text \<open>
  The signal handler of \<open>src/app/sqlapi_server_main.c\<close> against the mutexes of the server. The
  handler runs on whichever thread the signal interrupts, on top of what that thread was doing,
  and calls \<open>sqlapi_server_request_shutdown\<close>, which locks the state mutex and then the queue mutex.
  Both are plain mutexes: a thread that locks one it already holds waits forever.

  A thread is the list of the steps it still has to do; each operation of the server is the list of
  its lock operations and of what it does between them.
\<close>

section \<open>The operations as lists of steps\<close>

datatype mutex = State_Mutex_Lock | Queue_Mutex_Lock

datatype instr = Lock mutex | Unlock mutex | Read_Flag | Skip_If_Set nat | Set_Flag
  | Close_Socket | Use_Queue | Close_Queue

text \<open>\<open>server_is_shutting_down\<close>: the accept thread runs it before and after \<open>accept\<close>.\<close>

definition is_shutting_down_code :: "instr list" where
  "is_shutting_down_code = [Lock State_Mutex_Lock, Read_Flag, Unlock State_Mutex_Lock]"

text \<open>The push, pop and depth operations of the task queue, between their waits.\<close>

definition queue_code :: "instr list" where
  "queue_code = [Lock Queue_Mutex_Lock, Use_Queue, Unlock Queue_Mutex_Lock]"

definition task_queue_close_code :: "instr list" where
  "task_queue_close_code = [Lock Queue_Mutex_Lock, Close_Queue, Unlock Queue_Mutex_Lock]"

text \<open>\<open>Skip_If_Set n\<close> leaves out the next \<open>n\<close> steps when the flag is set.\<close>

definition request_shutdown_code :: "instr list" where
  "request_shutdown_code =
     [Lock State_Mutex_Lock, Skip_If_Set 5, Set_Flag, Close_Socket] @ task_queue_close_code
     @ [Unlock State_Mutex_Lock]"

text \<open>The handler does nothing before the global pointer is set.\<close>

definition handle_shutdown_signal :: "bool \<Rightarrow> instr list" where
  "handle_shutdown_signal global_server = (if global_server then request_shutdown_code else [])"

section \<open>The threads\<close>

record machine =
  mc_programs :: "instr list list"
  mc_owner :: "mutex \<Rightarrow> nat option"
  mc_flag :: bool
  mc_closed :: bool

text \<open>What one step of thread \<open>i\<close> does; \<^term>\<open>None\<close> when it has to wait for a mutex.\<close>

fun execute_instr :: "nat \<Rightarrow> instr \<Rightarrow> instr list \<Rightarrow> machine \<Rightarrow> machine option" where
  "execute_instr i (Lock m) rest s =
     (if mc_owner s m = None
      then Some (s\<lparr>mc_owner := (mc_owner s)(m := Some i), mc_programs := (mc_programs s)[i := rest]\<rparr>)
      else None)"
| "execute_instr i (Unlock m) rest s =
     Some (s\<lparr>mc_owner := (if mc_owner s m = Some i then (mc_owner s)(m := None) else mc_owner s),
             mc_programs := (mc_programs s)[i := rest]\<rparr>)"
| "execute_instr i (Skip_If_Set n) rest s =
     Some (s\<lparr>mc_programs := (mc_programs s)[i := (if mc_flag s then drop n rest else rest)]\<rparr>)"
| "execute_instr i Set_Flag rest s = Some (s\<lparr>mc_flag := True, mc_programs := (mc_programs s)[i := rest]\<rparr>)"
| "execute_instr i Close_Queue rest s = Some (s\<lparr>mc_closed := True, mc_programs := (mc_programs s)[i := rest]\<rparr>)"
| "execute_instr i x rest s = Some (s\<lparr>mc_programs := (mc_programs s)[i := rest]\<rparr>)"

definition thread_step :: "nat \<Rightarrow> machine \<Rightarrow> machine option" where
  "thread_step i s =
     (if i < length (mc_programs s)
      then (case mc_programs s ! i of [] \<Rightarrow> None | x # rest \<Rightarrow> execute_instr i x rest s) else None)"

text \<open>A signal puts the handler on top of what the thread does.\<close>

definition deliver :: "nat \<Rightarrow> machine \<Rightarrow> machine" where
  "deliver i s = s\<lparr>mc_programs :=
     (mc_programs s)[i := handle_shutdown_signal True @ mc_programs s ! i]\<rparr>"

text \<open>A thread that finished one operation begins another one.\<close>

inductive machine_step :: "machine \<Rightarrow> machine \<Rightarrow> bool" where
  thread: "thread_step i s = Some s' \<Longrightarrow> machine_step s s'"
| signal: "i < length (mc_programs s) \<Longrightarrow> machine_step s (deliver i s)"
| operation: "i < length (mc_programs s) \<Longrightarrow> mc_programs s ! i = [] \<Longrightarrow>
    code \<in> {is_shutting_down_code, queue_code, request_shutdown_code} \<Longrightarrow>
    machine_step s (s\<lparr>mc_programs := (mc_programs s)[i := code]\<rparr>)"

inductive_cases machine_stepE: "machine_step s s'"

section \<open>A thread that waits for itself\<close>

text \<open>Thread \<open>i\<close> waits for a mutex it holds, and it holds the state mutex.\<close>

definition self_blocked :: "nat \<Rightarrow> machine \<Rightarrow> bool" where
  "self_blocked i s =
     (i < length (mc_programs s) \<and> mc_owner s State_Mutex_Lock = Some i
      \<and> (\<exists>m rest. mc_programs s ! i = Lock m # rest \<and> mc_owner s m = Some i))"

lemma self_blocked_waits: "self_blocked i s \<Longrightarrow> thread_step i s = None"
  by (auto simp: self_blocked_def thread_step_def)

text \<open>A step of another thread leaves the owners of held mutexes and the program of \<open>i\<close> alone.\<close>

lemma other_thread_step:
  assumes "thread_step j s = Some s'" and "j \<noteq> i"
  shows "mc_programs s' ! i = mc_programs s ! i \<and> length (mc_programs s') = length (mc_programs s)
    \<and> (mc_owner s m = Some i \<longrightarrow> mc_owner s' m = Some i)"
  using assms
  by (cases "hd (mc_programs s ! j)")
    (auto simp: thread_step_def split: if_splits list.splits)

lemma self_blocked_step:
  assumes "machine_step s s'" and "self_blocked i s"
  shows "self_blocked i s'"
  using assms(1)
proof cases
  case (thread j)
  with self_blocked_waits [OF assms(2)] have "j \<noteq> i" by auto
  from other_thread_step [OF thread this] assms(2) show ?thesis by (auto simp: self_blocked_def)
next
  case (signal j)
  then show ?thesis using assms(2)
    by (cases "j = i")
      (auto simp: deliver_def self_blocked_def handle_shutdown_signal_def request_shutdown_code_def)
next
  case (operation j code)
  then show ?thesis using assms(2) by (cases "j = i") (auto simp: self_blocked_def)
qed

lemma self_blocked_forever: "machine_step\<^sup>*\<^sup>* s s' \<Longrightarrow> self_blocked i s \<Longrightarrow> self_blocked i s'"
  by (induction rule: rtranclp_induct) (auto intro: self_blocked_step)

text \<open>While it waits, whoever needs the state mutex waits with it.\<close>

lemma self_blocked_others:
  assumes "self_blocked i s" and "mc_programs s ! j = Lock State_Mutex_Lock # rest"
  shows "thread_step j s = None"
  using assms by (simp add: self_blocked_def thread_step_def)

text \<open>The handler on a thread that holds the queue's mutex gets as far as that mutex.\<close>

definition handler_at_queue :: "nat \<Rightarrow> machine \<Rightarrow> machine" where
  "handler_at_queue i s = s\<lparr>mc_programs :=
      (mc_programs s)[i := task_queue_close_code @ [Unlock State_Mutex_Lock] @ mc_programs s ! i],
     mc_owner := (mc_owner s)(State_Mutex_Lock := Some i), mc_flag := True\<rparr>"

lemma handler_runs:
  assumes i: "i < length (mc_programs s)" and free: "mc_owner s State_Mutex_Lock = None" "\<not> mc_flag s"
  shows "machine_step\<^sup>*\<^sup>* (deliver i s) (handler_at_queue i s)"
proof -
  let ?rest = "task_queue_close_code @ [Unlock State_Mutex_Lock] @ mc_programs s ! i"
  let ?at = "\<lambda>code own flag. s\<lparr>mc_programs := (mc_programs s)[i := code], mc_owner := own, mc_flag := flag\<rparr>"
  let ?own = "(mc_owner s)(State_Mutex_Lock := Some i)"
  note d = thread_step_def i free handle_shutdown_signal_def request_shutdown_code_def
  have "machine_step (deliver i s) (?at (Skip_If_Set 5 # Set_Flag # Close_Socket # ?rest) ?own False)"
    by (rule machine_step.thread [of i]) (simp add: d deliver_def)
  moreover have "machine_step (?at (Skip_If_Set 5 # Set_Flag # Close_Socket # ?rest) ?own False)
      (?at (Set_Flag # Close_Socket # ?rest) ?own False)"
    by (rule machine_step.thread [of i]) (simp add: d)
  moreover have "machine_step (?at (Set_Flag # Close_Socket # ?rest) ?own False)
      (?at (Close_Socket # ?rest) ?own True)"
    by (rule machine_step.thread [of i]) (simp add: d)
  moreover have "machine_step (?at (Close_Socket # ?rest) ?own True) (handler_at_queue i s)"
    by (rule machine_step.thread [of i]) (simp add: d handler_at_queue_def)
  ultimately show ?thesis by (meson converse_rtranclp_into_rtranclp rtranclp.rtrancl_refl)
qed

section \<open>The property\<close>

text \<open>
  C38: a signal that interrupts a thread while it holds the state mutex, or the queue's mutex before
  any shutdown, can leave the server unable to stop: the handler waits for a mutex that its own
  thread holds, and from then on that thread never moves again, the state mutex is never released,
  and every thread that asks whether the server is shutting down, or requests it, waits as well.
\<close>

theorem signal_deadlock:
  assumes "i < length (mc_programs s)" and "mc_owner s m = Some i"
    and "m = Queue_Mutex_Lock \<longrightarrow> mc_owner s State_Mutex_Lock = None \<and> \<not> mc_flag s"
  shows "\<exists>s1. machine_step\<^sup>*\<^sup>* (deliver i s) s1
    \<and> (\<forall>s2. machine_step\<^sup>*\<^sup>* s1 s2 \<longrightarrow>
         thread_step i s2 = None \<and> mc_owner s2 State_Mutex_Lock = Some i
         \<and> (\<forall>j rest. mc_programs s2 ! j = Lock State_Mutex_Lock # rest \<longrightarrow> thread_step j s2 = None))"
proof -
  have "\<exists>s1. machine_step\<^sup>*\<^sup>* (deliver i s) s1 \<and> self_blocked i s1"
  proof (cases m)
    case State_Mutex_Lock
    then have "self_blocked i (deliver i s)" using assms(1,2)
      by (simp add: self_blocked_def deliver_def handle_shutdown_signal_def request_shutdown_code_def)
    then show ?thesis by blast
  next
    case Queue_Mutex_Lock
    then have "self_blocked i (handler_at_queue i s)" using assms(1,2)
      by (simp add: self_blocked_def handler_at_queue_def task_queue_close_code_def)
    moreover have "mc_owner s State_Mutex_Lock = None" "\<not> mc_flag s"
      using assms(3) Queue_Mutex_Lock by simp_all
    ultimately show ?thesis using handler_runs [OF assms(1)] by iprover
  qed
  then obtain s1 where s1: "machine_step\<^sup>*\<^sup>* (deliver i s) s1" "self_blocked i s1" by blast
  have "thread_step i s2 = None \<and> mc_owner s2 State_Mutex_Lock = Some i
      \<and> (\<forall>j rest. mc_programs s2 ! j = Lock State_Mutex_Lock # rest \<longrightarrow> thread_step j s2 = None)"
    if "machine_step\<^sup>*\<^sup>* s1 s2" for s2
  proof -
    note b = self_blocked_forever [OF that s1(2)]
    from b have "mc_owner s2 State_Mutex_Lock = Some i" by (simp add: self_blocked_def)
    with self_blocked_waits [OF b] self_blocked_others [OF b] show ?thesis by blast
  qed
  with s1(1) show ?thesis by blast
qed

text \<open>The accept thread in \<open>server_is_shutting_down\<close>, and a worker that has nothing to do.\<close>

definition testing_machine :: machine where
  "testing_machine = \<lparr>mc_programs = [[Read_Flag, Unlock State_Mutex_Lock], []],
     mc_owner = (\<lambda>m. None)(State_Mutex_Lock := Some 0), mc_flag = False, mc_closed = False\<rparr>"

lemma testing_machine_reached:
  "machine_step\<^sup>*\<^sup>* \<lparr>mc_programs = [[], []], mc_owner = (\<lambda>m. None), mc_flag = False, mc_closed = False\<rparr>
     testing_machine"
proof -
  let ?s = "\<lparr>mc_programs = [[], []], mc_owner = (\<lambda>m. None), mc_flag = False, mc_closed = False\<rparr>"
  have "machine_step ?s (?s\<lparr>mc_programs := (mc_programs ?s)[0 := is_shutting_down_code]\<rparr>)"
    by (rule machine_step.operation) simp_all
  moreover have "machine_step (?s\<lparr>mc_programs := (mc_programs ?s)[0 := is_shutting_down_code]\<rparr>) testing_machine"
    by (rule machine_step.thread [of 0])
      (simp add: thread_step_def is_shutting_down_code_def testing_machine_def)
  ultimately show ?thesis by (meson converse_rtranclp_into_rtranclp rtranclp.rtrancl_refl)
qed

theorem signal_deadlock_witness:
  "\<exists>s1. machine_step\<^sup>*\<^sup>* (deliver 0 testing_machine) s1 \<and> thread_step 0 s1 = None
    \<and> mc_owner s1 State_Mutex_Lock = Some 0"
proof -
  have "0 < length (mc_programs testing_machine)" "mc_owner testing_machine State_Mutex_Lock = Some 0"
    by (simp_all add: testing_machine_def)
  from signal_deadlock [OF this] obtain s1 where s1: "machine_step\<^sup>*\<^sup>* (deliver 0 testing_machine) s1"
    "\<forall>s2. machine_step\<^sup>*\<^sup>* s1 s2 \<longrightarrow> thread_step 0 s2 = None \<and> mc_owner s2 State_Mutex_Lock = Some 0"
    by blast
  from s1(2) have "thread_step 0 s1 = None \<and> mc_owner s1 State_Mutex_Lock = Some 0"
    by (meson rtranclp.rtrancl_refl)
  with s1(1) show ?thesis by blast
qed

end
