(* ===== verification/Cli.thy ===== *)
theory Cli
  imports Engine_Adapter
begin

text \<open>
  The command line program \<open>src/app/main.c\<close>: one statement from its arguments, a file or standard
  input, or a session that reads a line at a time. The state is the database and what was
  written to \<open>stdout\<close> and \<open>stderr\<close>; \<^term>\<open>None\<close> is undefined behaviour of the layers below.

  \<open>stat\<close> answers as \<open>fopen\<close> does in \<open>Files\<close>, where nothing is a special file. Arguments are
  whether \<open>stdin\<close> is a terminal, the seconds that the program prints after each statement, and
  the text of the error for reading a directory as a file. Reading \<open>stdin\<close> does not fail.
\<close>

record cli_env =
  ci_interactive :: bool
  ci_elapsed :: "nat \<Rightarrow> string"
  ci_dir_error :: "string \<Rightarrow> string"

record cli =
  cl_db :: db
  cl_out :: string
  cl_err :: string
  cl_runs :: nat

definition put_out :: "string \<Rightarrow> cli \<Rightarrow> cli" where
  "put_out s c = c\<lparr>cl_out := cl_out c @ s\<rparr>"

definition put_err :: "string \<Rightarrow> cli \<Rightarrow> cli" where
  "put_err s c = c\<lparr>cl_err := cl_err c @ s\<rparr>"

section \<open>Where the SQL text comes from\<close>

text \<open>\<open>read_entire_file\<close> of \<open>src/common/util.c\<close>; its caller sees a C string.\<close>

definition read_entire_file :: "cli_env \<Rightarrow> fs \<Rightarrow> string \<Rightarrow> string + string" where
  "read_entire_file env f path =
     (case f path of
        Absent r \<Rightarrow> Inl (format_system_error 256 ''failed to open SQL file'' path r)
      | Refused r \<Rightarrow> Inl (format_system_error 256 ''failed to open SQL file'' path r)
      | Directory es \<Rightarrow> Inl (snprintf 256 (ci_dir_error env path))
      | Regular s \<Rightarrow> Inr (c_str s))"

text \<open>An error, or whether the argument is a file.\<close>

definition resolve_bare_argument_file :: "fs \<Rightarrow> string \<Rightarrow> string + bool" where
  "resolve_bare_argument_file f path =
     (case f path of
        Regular s \<Rightarrow> Inr True
      | Directory es \<Rightarrow> Inl (snprintf 256 (''path is a directory, not a SQL file: '' @ path))
      | Absent r \<Rightarrow> Inr False
      | Refused r \<Rightarrow> Inl (format_system_error 256 ''failed to access SQL path'' path r))"

fun is_blank_string :: "string \<Rightarrow> bool" where
  "is_blank_string [] = True"
| "is_blank_string (c # cs) = (if \<not> isspace c then False else is_blank_string cs)"

fun join_loop :: "string list \<Rightarrow> string" where
  "join_loop [] = []"
| "join_loop (a # as) = a @ (if as = [] then [] else SP # join_loop as)"

text \<open>The argument is \<open>argv\<close> from \<open>start_index\<close> on.\<close>

definition join_arguments_as_sql :: "string list \<Rightarrow> string + string" where
  "join_arguments_as_sql args =
     (if args = [] then Inl ''missing SQL statement'' else Inr (join_loop args))"

definition read_stream :: "string \<Rightarrow> string + string" where
  "read_stream stdin = Inr (c_str (read_blocks stdin []))"

definition load_sql_from_argument :: "cli_env \<Rightarrow> fs \<Rightarrow> string \<Rightarrow> bool \<Rightarrow> string + string" where
  "load_sql_from_argument env f val force_file =
     (if force_file then read_entire_file env f val
      else
        (case resolve_bare_argument_file f val of
           Inl m \<Rightarrow> Inl m
         | Inr should_read_file \<Rightarrow> if should_read_file then read_entire_file env f val else Inr val))"

section \<open>The usage text\<close>

definition usage_lines :: "string \<Rightarrow> string list" where
  "usage_lines program_name =
     [
      ''============================================================'',
      '' SQL Processor '' @
        [CHR 0xEB, CHR 0x8F, CHR 0x84, CHR 0xEC, CHR 0x9B, CHR 0x80, CHR 0xEB, CHR 0xA7, CHR 0x90],
      ''============================================================'',
      [],
      ''['' @ [CHR 0xEC, CHR 0x82, CHR 0xAC, CHR 0xEC, CHR 0x9A, CHR 0xA9, CHR 0xEB,
        CHR 0xB2, CHR 0x95] @ '']'',
      ''  '' @ program_name @ '' ['' @
        [CHR 0xEC, CHR 0x98, CHR 0xB5, CHR 0xEC, CHR 0x85, CHR 0x98] @ '']... [SQL_'' @
        [CHR 0xEB, CHR 0x98, CHR 0x90, CHR 0xEB, CHR 0x8A, CHR 0x94] @ ''_'' @
        [CHR 0xED, CHR 0x8C, CHR 0x8C, CHR 0xEC, CHR 0x9D, CHR 0xBC] @ '']'',
      ''  '' @ program_name,
      [],
      ''['' @ [CHR 0xEC, CHR 0x98, CHR 0xB5, CHR 0xEC, CHR 0x85, CHR 0x98] @ '']'',
      ''  -e, --execute SQL   SQL '' @ [CHR 0xEB, CHR 0xAC, CHR 0xB8, CHR 0xEC, CHR 0x9E,
        CHR 0xA5, CHR 0xEC, CHR 0x9D, CHR 0x84] @ '' '' @
        [CHR 0xEC, CHR 0xA7, CHR 0x81, CHR 0xEC, CHR 0xA0, CHR 0x91] @ '' '' @ [CHR 0xEC,
        CHR 0x8B, CHR 0xA4, CHR 0xED, CHR 0x96, CHR 0x89, CHR 0xED, CHR 0x95, CHR 0xA9,
        CHR 0xEB, CHR 0x8B, CHR 0x88, CHR 0xEB, CHR 0x8B, CHR 0xA4],
      ''  -f, --file PATH     PATH'' @
        [CHR 0xEC, CHR 0x97, CHR 0x90, CHR 0xEC, CHR 0x84, CHR 0x9C] @ '' SQL '' @ [CHR 0xED,
        CHR 0x8C, CHR 0x8C, CHR 0xEC, CHR 0x9D, CHR 0xBC, CHR 0xEC, CHR 0x9D, CHR 0x84] @
        '' '' @ [CHR 0xEC, CHR 0x9D, CHR 0xBD, CHR 0xEC, CHR 0x96, CHR 0xB4] @ '' '' @
        [CHR 0xEC, CHR 0x8B, CHR 0xA4, CHR 0xED, CHR 0x96, CHR 0x89, CHR 0xED, CHR 0x95,
        CHR 0xA9, CHR 0xEB, CHR 0x8B, CHR 0x88, CHR 0xEB, CHR 0x8B, CHR 0xA4],
      ''  -h, --help          '' @ [CHR 0xEC, CHR 0x9D, CHR 0xB4] @ '' '' @ [CHR 0xEB,
        CHR 0x8F, CHR 0x84, CHR 0xEC, CHR 0x9B, CHR 0x80, CHR 0xEB, CHR 0xA7, CHR 0x90,
        CHR 0xEC, CHR 0x9D, CHR 0x84] @ '' '' @ [CHR 0xEC, CHR 0xB6, CHR 0x9C, CHR 0xEB,
        CHR 0xA0, CHR 0xA5, CHR 0xED, CHR 0x95, CHR 0xA9, CHR 0xEB, CHR 0x8B, CHR 0x88,
        CHR 0xEB, CHR 0x8B, CHR 0xA4],
      [],
      ''['' @ [CHR 0xEB, CHR 0x8C, CHR 0x80, CHR 0xED, CHR 0x99, CHR 0x94, CHR 0xED,
        CHR 0x98, CHR 0x95] @ '' '' @
        [CHR 0xEB, CHR 0xAA, CHR 0xA8, CHR 0xEB, CHR 0x93, CHR 0x9C] @ '']'',
      ''  '' @ [CHR 0xED, CHR 0x84, CHR 0xB0, CHR 0xEB, CHR 0xAF, CHR 0xB8, CHR 0xEB,
        CHR 0x84, CHR 0x90, CHR 0xEC, CHR 0x97, CHR 0x90, CHR 0xEC, CHR 0x84, CHR 0x9C] @
        '' '' @ [CHR 0xEC, CHR 0x9D, CHR 0xB8, CHR 0xEC, CHR 0x9E, CHR 0x90] @ '' '' @
        [CHR 0xEC, CHR 0x97, CHR 0x86, CHR 0xEC, CHR 0x9D, CHR 0xB4] @ '' '' @ [CHR 0xEC,
        CHR 0x8B, CHR 0xA4, CHR 0xED, CHR 0x96, CHR 0x89, CHR 0xED, CHR 0x95, CHR 0x98,
        CHR 0xEB, CHR 0xA9, CHR 0xB4] @ '' '' @ [CHR 0xEB, CHR 0x8C, CHR 0x80, CHR 0xED,
        CHR 0x99, CHR 0x94, CHR 0xED, CHR 0x98, CHR 0x95] @ '' '' @ [CHR 0xEB, CHR 0xAA,
        CHR 0xA8, CHR 0xEB, CHR 0x93, CHR 0x9C, CHR 0xEA, CHR 0xB0, CHR 0x80] @ '' '' @
        [CHR 0xEC, CHR 0x8B, CHR 0x9C, CHR 0xEC, CHR 0x9E, CHR 0x91, CHR 0xEB, CHR 0x90,
        CHR 0xA9, CHR 0xEB, CHR 0x8B, CHR 0x88, CHR 0xEB, CHR 0x8B, CHR 0xA4] @ ''.'',
      ''  '' @ [CHR 0xEB, CHR 0x8C, CHR 0x80, CHR 0xED, CHR 0x99, CHR 0x94, CHR 0xED,
        CHR 0x98, CHR 0x95] @ '' '' @ [CHR 0xEB, CHR 0xAA, CHR 0xA8, CHR 0xEB, CHR 0x93,
        CHR 0x9C, CHR 0xEC, CHR 0x97, CHR 0x90, CHR 0xEC, CHR 0x84, CHR 0x9C, CHR 0xEB,
        CHR 0x8A, CHR 0x94] @ '' SQL '' @
        [CHR 0xEB, CHR 0xAC, CHR 0xB8, CHR 0xEC, CHR 0x9E, CHR 0xA5] @ '' '' @
        [CHR 0xEB, CHR 0x98, CHR 0x90, CHR 0xEB, CHR 0x8A, CHR 0x94] @ '' SQL '' @
        [CHR 0xED, CHR 0x8C, CHR 0x8C, CHR 0xEC, CHR 0x9D, CHR 0xBC] @ '' '' @ [CHR 0xEA,
        CHR 0xB2, CHR 0xBD, CHR 0xEB, CHR 0xA1, CHR 0x9C, CHR 0xEB, CHR 0xA5, CHR 0xBC] @
        '' '' @ [CHR 0xEC, CHR 0x9E, CHR 0x85, CHR 0xEB, CHR 0xA0, CHR 0xA5, CHR 0xED,
        CHR 0x95, CHR 0xA0] @ '' '' @ [CHR 0xEC, CHR 0x88, CHR 0x98] @ '' '' @ [CHR 0xEC,
        CHR 0x9E, CHR 0x88, CHR 0xEC, CHR 0x8A, CHR 0xB5, CHR 0xEB, CHR 0x8B, CHR 0x88,
        CHR 0xEB, CHR 0x8B, CHR 0xA4] @ ''.'',
      ''  '' @ [CHR 0xED, CHR 0x94, CHR 0x84, CHR 0xEB, CHR 0xA1, CHR 0xAC, CHR 0xED,
        CHR 0x94, CHR 0x84, CHR 0xED, CHR 0x8A, CHR 0xB8, CHR 0xEB, CHR 0xA5, CHR 0xBC] @
        '' '' @ [CHR 0xEC, CHR 0xA2, CHR 0x85, CHR 0xEB, CHR 0xA3, CHR 0x8C, CHR 0xED,
        CHR 0x95, CHR 0x98, CHR 0xEB, CHR 0xA0, CHR 0xA4, CHR 0xEB, CHR 0xA9, CHR 0xB4] @
        '' .exit, .quit, exit, quit '' @ [CHR 0xEC, CHR 0xA4, CHR 0x91] @ '' '' @ [CHR 0xED,
        CHR 0x95, CHR 0x98, CHR 0xEB, CHR 0x82, CHR 0x98, CHR 0xEB, CHR 0xA5, CHR 0xBC] @
        '' '' @ [CHR 0xEC, CHR 0x9E, CHR 0x85, CHR 0xEB, CHR 0xA0, CHR 0xA5, CHR 0xED,
        CHR 0x95, CHR 0x98, CHR 0xEC, CHR 0x84, CHR 0xB8, CHR 0xEC, CHR 0x9A, CHR 0x94] @ ''.'',
      [],
      ''['' @ [CHR 0xEC, CHR 0x98, CHR 0x88, CHR 0xEC, CHR 0x8B, CHR 0x9C] @ '']'',
      ''  '' @ program_name @ '' -e '' @ [DQ] @ ''SELECT * FROM student;'' @ [DQ],
      ''  '' @ program_name @ '' -f examples/select_name_age.sql'',
      ''  echo '' @ [DQ] @ ''SELECT name FROM student;'' @ [DQ] @ '' | '' @ program_name,
      [],
      ''============================================================'']"

definition print_cli_usage :: "string \<Rightarrow> string" where
  "print_cli_usage program_name = concat (map (\<lambda>l. l @ [LF]) (usage_lines program_name))"

section \<open>Executing one text\<close>

text \<open>The error or success, what it wrote to \<open>out\<close>, and the database.\<close>

definition execute_sql_text :: "string \<Rightarrow> string \<Rightarrow> db \<Rightarrow> ((string + unit) \<times> string \<times> db) option" where
  "execute_sql_text elapsed sql_text d =
     (if is_blank_string sql_text then Some (Inl ''missing SQL statement'', [], d)
      else
        (case lex_sql sql_text of
           Inl m \<Rightarrow> Some (Inl m, [], d)
         | Inr tokens \<Rightarrow>
             (case parse_statement tokens of
                None \<Rightarrow> None
              | Some (Inl m) \<Rightarrow> Some (Inl (snprintf 256 m), [], d)
              | Some (Inr st) \<Rightarrow>
                  (case execute_statement st ''schema'' ''data'' d of
                     None \<Rightarrow> None
                   | Some (r, stream, d') \<Rightarrow>
                       if \<not> er_ok r then Some (Inl (snprintf 256 (er_message r)), stream, d')
                       else
                         Some (Inr (), stream @ (if er_message r \<noteq> [] then er_message r @ [LF] else [])
                                 @ ''Elapsed time: '' @ elapsed @ '' sec'' @ [LF], d')))))"

text \<open>One run of it in the program's state.\<close>

definition run_text :: "cli_env \<Rightarrow> string \<Rightarrow> cli \<Rightarrow> (bool \<times> cli) option" where
  "run_text env sql_text c =
     (case execute_sql_text (ci_elapsed env (cl_runs c)) sql_text (cl_db c) of
        None \<Rightarrow> None
      | Some (res, stream, d) \<Rightarrow>
          let c' = put_out stream (c\<lparr>cl_db := d, cl_runs := cl_runs c + 1\<rparr>) in
          (case res of
             Inl m \<Rightarrow> Some (False, put_err (''error: '' @ m @ [LF]) c')
           | Inr _ \<Rightarrow> Some (True, c')))"

definition execute_argument_or_sql :: "cli_env \<Rightarrow> string \<Rightarrow> bool \<Rightarrow> cli \<Rightarrow> (bool \<times> cli) option" where
  "execute_argument_or_sql env val force_file c =
     (case load_sql_from_argument env (db_fs (cl_db c)) val force_file of
        Inl m \<Rightarrow> Some (False, put_err (''error: '' @ m @ [LF]) c)
      | Inr sql_text \<Rightarrow> run_text env sql_text c)"

section \<open>The session\<close>

text \<open>The loop of \<open>run_repl\<close> on the rest of \<open>stdin\<close>.\<close>

function repl_loop :: "cli_env \<Rightarrow> string \<Rightarrow> string \<Rightarrow> bool \<Rightarrow> cli \<Rightarrow> (bool \<times> cli) option" where
  "repl_loop env program_name stdin had_error c0 =
     (let c = put_out ''sqlparser> '' c0 in
      if stdin = [] then Some (had_error, put_out [LF] c)
      else
        let chunk = fgets_chunk stdin; rest = drop (length chunk) stdin;
            input = trim_whitespace (line_text chunk) in
        if input = [] then repl_loop env program_name rest had_error c
        else if input = ''.exit'' \<or> input = ''.quit'' \<or> input = ''exit'' \<or> input = ''quit''
        then Some (had_error, c)
        else if input = ''.help'' \<or> input = ''help''
        then repl_loop env program_name rest had_error (put_out (print_cli_usage program_name) c)
        else
          (case execute_argument_or_sql env input False c of
             None \<Rightarrow> None
           | Some (ok, c') \<Rightarrow>
               repl_loop env program_name rest (if ok then had_error else True) c'))"
  by pat_completeness auto
termination
  by (relation "measure (\<lambda>(env, p, stdin, h, c). length stdin)")
    (auto intro!: diff_less fgets_chunk_pos simp del: length_greater_0_conv)

declare repl_loop.simps [simp del]

definition run_repl :: "cli_env \<Rightarrow> string \<Rightarrow> string \<Rightarrow> cli \<Rightarrow> (bool \<times> cli) option" where
  "run_repl env program_name stdin c = repl_loop env program_name stdin False c"

section \<open>The program\<close>

datatype loaded = Show_Help | No_Sql string | Sql_Text string

definition loaded_of :: "string + string \<Rightarrow> loaded" where
  "loaded_of r = (case r of Inl m \<Rightarrow> No_Sql m | Inr s \<Rightarrow> Sql_Text s)"

text \<open>The arguments are those after the program's name.\<close>

definition load_noninteractive_sql :: "cli_env \<Rightarrow> fs \<Rightarrow> string \<Rightarrow> string list \<Rightarrow> loaded" where
  "load_noninteractive_sql env f stdin args =
     (case args of
        [] \<Rightarrow> if ci_interactive env then No_Sql [] else loaded_of (read_stream stdin)
      | a # rest \<Rightarrow>
          if a = ''-h'' \<or> a = ''--help'' then Show_Help
          else if a = ''-e'' \<or> a = ''--execute'' then loaded_of (join_arguments_as_sql rest)
          else if a = ''-f'' \<or> a = ''--file'' then
            (case rest of
               [] \<Rightarrow> No_Sql (snprintf 256 (''missing file path after '' @ a))
             | path # extra \<Rightarrow>
                 if path = ''-'' then loaded_of (read_stream stdin)
                 else if extra \<noteq> [] then No_Sql ''unexpected arguments after file path''
                 else loaded_of (read_entire_file env f path))
          else if take 1 a = ''-'' \<and> a \<noteq> ''-'' then No_Sql (snprintf 256 (''unknown option: '' @ a))
          else if rest = [] \<and> a = ''-'' then loaded_of (read_stream stdin)
          else if rest = [] then loaded_of (load_sql_from_argument env f a False)
          else loaded_of (join_arguments_as_sql args))"

text \<open>The exit code and the state at the end.\<close>

definition cli_main :: "cli_env \<Rightarrow> string \<Rightarrow> string list \<Rightarrow> string \<Rightarrow> db \<Rightarrow> (int \<times> cli) option" where
  "cli_main env program_name args stdin d =
     (let c = \<lparr>cl_db = d, cl_out = [], cl_err = [], cl_runs = 0\<rparr>;
          reset = (\<lambda>c. c\<lparr>cl_db := execution_runtime_reset (cl_db c)\<rparr>) in
      if args = [] \<and> ci_interactive env
      then map_option (\<lambda>(had_error, c'). (if had_error then 1 else 0, reset c'))
             (run_repl env program_name stdin c)
      else
        (case load_noninteractive_sql env (db_fs d) stdin args of
           Show_Help \<Rightarrow> Some (0, reset (put_out (print_cli_usage program_name) c))
         | No_Sql m \<Rightarrow>
             Some (1, reset (put_err (''error: '' @ m @ [LF] @ print_cli_usage program_name) c))
         | Sql_Text s \<Rightarrow>
             map_option (\<lambda>(ok, c'). (if ok then 0 else 1, reset c')) (run_text env s c)))"

end
