(* ===== verification/Cli_Props.thy ===== *)
theory Cli_Props
  imports Cli Adapter_Props
begin

text \<open>
  The command line program against the server: on the same text and database both front ends do
  the same, and what a session prints.
\<close>

section \<open>Blank texts\<close>

lemma blank_sql_is_blank: "is_blank_sql s \<Longrightarrow> is_blank_string s"
  by (induction s) (auto split: if_splits)

lemma lex_blank:
  "is_blank_string s \<Longrightarrow> lex_loop i s ts = Inr (push_token ts (mk_token TOKEN_END [] (i + length s)))"
  by (induction s arbitrary: i) (auto split: if_splits)

lemma parse_end: "\<exists>m. parse_statement [mk_token TOKEN_END [] n] = Some (Inl m)"
proof -
  obtain m where "parse_body [mk_token TOKEN_END [] n] = Failed m"
    by (simp add: parse_body_def is_keyword_def mk_token_def)
  then show ?thesis by (simp add: parse_statement_def)
qed

lemma front_blank:
  assumes "is_blank_string s"
  shows "\<exists>r. adapter_front env cfg (Some s) = Some (Inl r) \<and> \<not> ar_ok r"
proof -
  obtain m where "parse_statement [mk_token TOKEN_END [] (length s)] = Some (Inl m)" using parse_end ..
  then show ?thesis
    using lex_blank [OF assms, of 0 "[]"]
    by (auto simp: adapter_front_def lex_sql_def push_token_def set_error_def)
qed

section \<open>The two front ends\<close>

lemma execute_ok_message:
  "execute_statement st schema_dir data_dir d = Some (r, stream, d') \<Longrightarrow> er_ok r
    \<Longrightarrow> length (er_message r) < 256 \<and> (case st of INSERT i \<Rightarrow> stream = [] | SELECT q \<Rightarrow> True)"
proof (cases st)
  case (INSERT i)
  assume "execute_statement st schema_dir data_dir d = Some (r, stream, d')" "er_ok r"
  with INSERT show ?thesis
    by (auto simp: execute_insert_def append_row_csv_def exec_error_def Let_def
        split: sum.splits option.splits prod.splits if_splits)
next
  case (SELECT q)
  assume "execute_statement st schema_dir data_dir d = Some (r, stream, d')" "er_ok r"
  moreover have "length (er_message (select_done n)) < 256" for n
    by (simp add: select_done_def length_snprintf)
  ultimately show ?thesis using SELECT
    by (auto simp: execute_select_def execute_index_select_def exec_error_def Let_def
        split: sum.splits option.splits prod.splits if_splits)
qed

lemma execute_load_error:
  "load_schema (db_fs d) schema_dir data_dir (statement_table_name st) = Inl m \<Longrightarrow>
     execute_statement st schema_dir data_dir d = Some (exec_error m, [], d)"
  by (cases st) (simp_all add: execute_insert_def execute_select_def)

text \<open>What the program prints after a statement: the rows, the summary and the time.\<close>

definition report :: "string \<Rightarrow> adapter_result \<Rightarrow> string" where
  "report elapsed r =
     (case ar_output r of None \<Rightarrow> [] | Some rows \<Rightarrow> rows)
     @ (if ar_summary r \<noteq> [] then ar_summary r @ [LF] else [])
     @ ''Elapsed time: '' @ elapsed @ '' sec'' @ [LF]"

text \<open>The part of \<open>execute_sql_text\<close> after the parser.\<close>

definition run_statement :: "string \<Rightarrow> statement \<Rightarrow> db \<Rightarrow> ((string + unit) \<times> string \<times> db) option" where
  "run_statement elapsed st d =
     (case execute_statement st ''schema'' ''data'' d of
        None \<Rightarrow> None
      | Some (r, stream, d') \<Rightarrow>
          if \<not> er_ok r then Some (Inl (snprintf 256 (er_message r)), stream, d')
          else Some (Inr (), stream @ (if er_message r \<noteq> [] then er_message r @ [LF] else [])
                       @ ''Elapsed time: '' @ elapsed @ '' sec'' @ [LF], d'))"

lemma front_text:
  assumes "\<not> is_blank_string s"
    and "ac_sql_length_limit cfg = 0 \<or> length s \<le> ac_sql_length_limit cfg"
  shows "case adapter_front env cfg (Some s) of
      None \<Rightarrow> execute_sql_text elapsed s d = None
    | Some (Inl r) \<Rightarrow> \<not> ar_ok r \<and> (\<exists>m. execute_sql_text elapsed s d = Some (Inl m, [], d))
    | Some (Inr st) \<Rightarrow> execute_sql_text elapsed s d = run_statement elapsed st d"
proof -
  from assms(1) blank_sql_is_blank have "\<not> is_blank_sql s" by blast
  with assms show ?thesis
    by (auto simp: adapter_front_def execute_sql_text_def run_statement_def set_error_def
        split: sum.splits option.splits)
qed

lemma run_agrees:
  assumes "ac_schema_dir cfg = ''schema''" and "ac_data_dir cfg = ''data''"
    and "en_forced e = SQL_ENGINE_ERROR_NONE" and "ae_tmpfile env"
  shows "case adapter_run env cfg st e of
      None \<Rightarrow> run_statement elapsed st (en_db e) = None
    | Some (r, e') \<Rightarrow> \<exists>res stream. run_statement elapsed st (en_db e) = Some (res, stream, en_db e')
        \<and> (if ar_ok r then res = Inr () \<and> stream = report elapsed r else (\<exists>m. res = Inl m))"
proof (cases "execute_statement st ''schema'' ''data'' (en_db e)")
  case None
  with assms show ?thesis by (simp add: adapter_run_def consume_forced_next_error_def run_statement_def)
next
  case ex: (Some y)
  obtain r stream d' where y: "y = (r, stream, d')" by (metis prod_cases3)
  show ?thesis
  proof (cases "er_ok r")
    case True
    with execute_ok_message ex y have "length (er_message r) < 256"
      "case st of INSERT i \<Rightarrow> stream = [] | SELECT q \<Rightarrow> True" by blast+
    with True ex y assms show ?thesis
      by (cases st) (simp_all add: adapter_run_def consume_forced_next_error_def empty_result_def
          report_def run_statement_def)
  next
    case False
    with ex y assms show ?thesis
      by (simp add: adapter_run_def consume_forced_next_error_def set_error_def run_statement_def)
  qed
qed

text \<open>
  C26: the command line program and the server do the same. On a text within the server's limit,
  with the directories \<open>schema\<close> and \<open>data\<close> and no other call holding a lock, the adapter never waits;
  it succeeds exactly when the program does, both leave the same database behind, and what the
  program prints is made of the adapter's output and summary.
\<close>

theorem front_ends_agree:
  assumes "ac_schema_dir cfg = ''schema''" and "ac_data_dir cfg = ''data''"
    and "ac_sql_length_limit cfg = 0 \<or> length s \<le> ac_sql_length_limit cfg"
    and "en_forced e = SQL_ENGINE_ERROR_NONE" and "ae_tmpfile env"
    and "manager_ok (en_locks e)" and "held_keys (en_locks e) = {}"
    and "lr_entry (ae_lock env) \<noteq> None" and "lr_key (ae_lock env)" and "lr_mutex (ae_lock env)"
    and "fresh_resources (ae_lock env) (en_locks e)"
  shows "case sql_engine_adapter_execute env cfg (Some s) e of
      Undefined \<Rightarrow> execute_sql_text elapsed s (en_db e) = None
    | Waits e' \<Rightarrow> False
    | Returns r e' \<Rightarrow> \<exists>res stream. execute_sql_text elapsed s (en_db e) = Some (res, stream, en_db e')
        \<and> (if ar_ok r then res = Inr () \<and> stream = report elapsed r else (\<exists>m. res = Inl m))"
proof (cases "is_blank_string s \<or> (\<forall>st. adapter_front env cfg (Some s) \<noteq> Some (Inr st))")
  case True
  with front_blank [of s env cfg] front_text [where s = s and cfg = cfg and env = env and elapsed = elapsed and d = "en_db e"] assms(3) show ?thesis
    by (cases "is_blank_string s")
      (auto simp: sql_engine_adapter_execute_def execute_sql_text_def split: option.splits sum.splits)
next
  case False
  then obtain st where nb: "\<not> is_blank_string s" and front: "adapter_front env cfg (Some s) = Some (Inr st)"
    by blast
  have run: "execute_sql_text elapsed s (en_db e) = run_statement elapsed st (en_db e)"
    using front_text [OF nb assms(3), where env = env and elapsed = elapsed and d = "en_db e"] front by simp
  show ?thesis
  proof (cases "load_schema (db_fs (en_db e)) ''schema'' ''data'' (statement_table_name st)")
    case (Inl m)
    with front run execute_load_error [OF Inl] assms(1,2) show ?thesis
      by (simp add: sql_engine_adapter_execute_def set_error_def exec_error_def run_statement_def)
  next
    case sch: (Inr sch)
    have "can_lock (ae_lock env) (en_locks e) (sc_storage_name sch)"
      using assms(8-11) by (simp add: can_lock_def)
    from execute_uncontended [OF front _ assms(6) this] sch assms(1,2,7) obtain m2 m3 where
      "sql_engine_adapter_execute env cfg (Some s) e
        = (case adapter_run env cfg st (e\<lparr>en_locks := m2\<rparr>) of
             None \<Rightarrow> Undefined | Some (r, e') \<Rightarrow> Returns r (e'\<lparr>en_locks := m3\<rparr>))" by auto
    with run_agrees [where cfg = cfg and e = "e\<lparr>en_locks := m2\<rparr>" and env = env and st = st and elapsed = elapsed] assms(1,2,4,5) run show ?thesis
      by (auto split: option.splits prod.splits if_splits)
  qed
qed

theorem front_ends_agree_witness:
  "case sql_engine_adapter_execute demo_env demo_config (Some ''SELECT * FROM users;'') demo_engine of
      Undefined \<Rightarrow> execute_sql_text ''0.000100'' ''SELECT * FROM users;'' (en_db demo_engine) = None
    | Waits e' \<Rightarrow> False
    | Returns r e' \<Rightarrow> \<exists>res stream.
        execute_sql_text ''0.000100'' ''SELECT * FROM users;'' (en_db demo_engine) = Some (res, stream, en_db e')
        \<and> (if ar_ok r then res = Inr () \<and> stream = report ''0.000100'' r else (\<exists>m. res = Inl m))"
  by (rule front_ends_agree) (simp_all add: demo_engine_simps, simp_all add: demo_env_def)

section \<open>Sessions\<close>

text \<open>
  A text that the operating system cannot look up as a path, as one longer than a file name may be,
  is refused in a session although the same text is executed after \<open>-e\<close>.
\<close>

lemma session_refuses_long_text:
  assumes "db_fs (cl_db c) s = Refused reason"
  shows "execute_argument_or_sql env s False c
      = Some (False, put_err (''error: '' @ format_system_error 256 ''failed to access SQL path'' s reason @ [LF]) c)"
    and "load_noninteractive_sql env (db_fs (cl_db c)) stdin [''-e'', s] = Sql_Text s"
  using assms
  by (simp_all add: execute_argument_or_sql_def load_sql_from_argument_def resolve_bare_argument_file_def
      load_noninteractive_sql_def join_arguments_as_sql_def loaded_of_def)

text \<open>The exit code of a session tells whether an input failed, and a session never resets it.\<close>

lemma repl_errors_kept:
  "repl_loop env p stdin h c = Some (h', c') \<Longrightarrow> h \<longrightarrow> h'"
proof (induction env p stdin h c rule: repl_loop.induct)
  case (1 env p stdin h c)
  from 1(4) show ?case
    apply (subst (asm) repl_loop.simps)
    using 1(1-3) by (auto simp: Let_def split: if_splits option.splits prod.splits)
qed

end
