(* ===== verification/Registry_Race.thy ===== *)
theory Registry_Race
  imports Table_Index
begin

text \<open>
  The index registry of \<open>src/index/table_index.c\<close> as the workers share it. \<open>ensure_loaded\<close> looks its
  entry up with the registry's mutex held, but keeps the pointer into the array after it has
  released it, for the whole rebuild, lookup or registration; only the lock of the table is held
  then. Another worker that creates an entry for another table may make \<open>realloc\<close> move the array.
  An array is known by its address and a pointer to an entry is the address and an index; what the
  entries hold is in \<open>Table_Index\<close>.
\<close>

section \<open>Workers and the array\<close>

record shared_registry =
  rg_names :: "string list"
  rg_capacity :: nat
  rg_items :: nat
  rg_next :: nat
  rg_held :: "nat \<Rightarrow> (string \<times> nat \<times> nat) option"

definition no_registry :: shared_registry where
  "no_registry = \<lparr>rg_names = [], rg_capacity = 0, rg_items = 0, rg_next = 1, rg_held = (\<lambda>t. None)\<rparr>"

fun entry_position :: "string list \<Rightarrow> string \<Rightarrow> nat option" where
  "entry_position [] key = None"
| "entry_position (n # ns) key = (if n = key then Some 0 else map_option Suc (entry_position ns key))"

text \<open>
  \<open>get_or_create_table_index\<close> when allocation succeeds: the pointer, with whether \<open>realloc\<close> moves
  an array that it makes larger.
\<close>

definition grow :: "bool \<Rightarrow> shared_registry \<Rightarrow> shared_registry" where
  "grow moves r =
     (if length (rg_names r) = rg_capacity r
      then r\<lparr>rg_capacity := (if rg_capacity r = 0 then 4 else rg_capacity r * 2),
             rg_items := (if moves \<or> rg_capacity r = 0 then rg_next r else rg_items r),
             rg_next := rg_next r + 1\<rparr>
      else r)"

definition get_or_create_entry :: "bool \<Rightarrow> string \<Rightarrow> shared_registry \<Rightarrow> (nat \<times> nat) \<times> shared_registry" where
  "get_or_create_entry moves key r =
     (case entry_position (rg_names r) key of
        Some i \<Rightarrow> ((rg_items r, i), r)
      | None \<Rightarrow>
          let r' = grow moves r in
          ((rg_items r', length (rg_names r)), r'\<lparr>rg_names := rg_names r @ [key]\<rparr>))"

text \<open>
  A worker that holds the lock of a table, which no other worker then holds, gets its pointer, and
  gives it up when its call ends.
\<close>

inductive registry_step :: "nat \<Rightarrow> shared_registry \<Rightarrow> shared_registry \<Rightarrow> bool" for t where
  enter: "rg_held s t = None \<Longrightarrow> \<forall>u x. rg_held s u = Some x \<longrightarrow> fst x \<noteq> key \<Longrightarrow>
    get_or_create_entry moves key s = (p, s') \<Longrightarrow>
    registry_step t s (s'\<lparr>rg_held := (rg_held s')(t \<mapsto> (key, p))\<rparr>)"
| leave: "rg_held s t = Some x \<Longrightarrow> registry_step t s (s\<lparr>rg_held := (rg_held s)(t := None)\<rparr>)"

inductive_cases registry_stepE: "registry_step t s s'"

inductive registry_reachable :: "shared_registry \<Rightarrow> bool" where
  start: "registry_reachable no_registry"
| step: "registry_reachable s \<Longrightarrow> registry_step t s s' \<Longrightarrow> registry_reachable s'"

text \<open>The pointer of a worker still points to the entry of its table.\<close>

definition access_ok :: "shared_registry \<Rightarrow> nat \<Rightarrow> bool" where
  "access_ok s t =
     (case rg_held s t of
        None \<Rightarrow> True
      | Some (key, a, i) \<Rightarrow> a = rg_items s \<and> i < length (rg_names s) \<and> rg_names s ! i = key)"

lemma access_ok_iff:
  "access_ok s t \<longleftrightarrow> (\<forall>key a i. rg_held s t = Some (key, a, i) \<longrightarrow>
     a = rg_items s \<and> i < length (rg_names s) \<and> rg_names s ! i = key)"
  by (auto simp: access_ok_def split: option.splits)

section \<open>The invariant\<close>

lemma entry_position_None: "key \<notin> set ns \<Longrightarrow> entry_position ns key = None"
  by (induction ns) auto

lemma entry_position_Some: "entry_position ns key = Some i \<Longrightarrow> i < length ns \<and> ns ! i = key"
  by (induction ns arbitrary: i) (auto split: if_splits)

text \<open>While there are at most four entries the array is the one of the first entry.\<close>

definition registry_inv :: "shared_registry \<Rightarrow> bool" where
  "registry_inv s =
     (length (rg_names s) \<le> rg_capacity s
      \<and> (rg_names s \<noteq> [] \<longrightarrow> 4 \<le> rg_capacity s)
      \<and> (rg_names s = [] \<longrightarrow> rg_capacity s = 0 \<and> (\<forall>t. rg_held s t = None))
      \<and> (length (rg_names s) \<le> 4 \<longrightarrow> (\<forall>t. access_ok s t)))"

lemma grow_small:
  "registry_inv s \<Longrightarrow> rg_names s \<noteq> [] \<Longrightarrow> length (rg_names s) < 4 \<Longrightarrow> grow moves s = s"
  by (auto simp: registry_inv_def grow_def)

lemma get_or_create_inv:
  assumes inv: "registry_inv s" and free: "rg_held s t = None"
    and call: "get_or_create_entry moves key s = (p, s')"
  shows "registry_inv (s'\<lparr>rg_held := (rg_held s')(t \<mapsto> (key, p))\<rparr>)"
proof (cases "entry_position (rg_names s) key")
  case (Some i)
  with call have "s' = s" "p = (rg_items s, i)" by (auto simp: get_or_create_entry_def)
  with inv entry_position_Some [OF Some] show ?thesis
    by (auto simp: registry_inv_def access_ok_iff)
next
  case None
  with call have s': "s' = grow moves s\<lparr>rg_names := rg_names s @ [key]\<rparr>"
    "p = (rg_items (grow moves s), length (rg_names s))" by (simp_all add: get_or_create_entry_def Let_def)
  have cap: "length (rg_names s) < rg_capacity (grow moves s)" "4 \<le> rg_capacity (grow moves s)"
    "rg_held (grow moves s) = rg_held s"
    using inv by (auto simp: registry_inv_def grow_def)
  show ?thesis
  proof (cases "length (rg_names s) < 4")
    case True
    have "access_ok (s'\<lparr>rg_held := (rg_held s')(t \<mapsto> (key, p))\<rparr>) u" for u
    proof (cases "rg_names s = []")
      case True
      with inv s' cap(3) show ?thesis by (auto simp: registry_inv_def access_ok_iff)
    next
      case False
      with True inv s' grow_small [OF inv False True] have "access_ok s u"
        by (auto simp: registry_inv_def)
      with s' grow_small [OF inv False True, of moves] show ?thesis
        by (auto simp: access_ok_iff nth_append)
    qed
    with cap s' show ?thesis by (simp add: registry_inv_def)
  qed (use cap s' in \<open>simp add: registry_inv_def\<close>)
qed

lemma registry_step_inv:
  assumes "registry_step t s s'" and "registry_inv s"
  shows "registry_inv s'"
  using assms(1)
proof (cases rule: registry_step.cases)
  case (enter key moves p s1)
  with get_or_create_inv [OF assms(2) enter(2,4)] show ?thesis by simp
next
  case (leave x)
  with assms(2) show ?thesis by (auto simp: registry_inv_def access_ok_iff)
qed

lemma registry_reachable_inv: "registry_reachable s \<Longrightarrow> registry_inv s"
proof (induction rule: registry_reachable.induct)
  case start
  show ?case by (simp add: no_registry_def registry_inv_def access_ok_iff)
qed (rule registry_step_inv)

section \<open>A fifth table\<close>

definition enter_with :: "nat \<Rightarrow> string \<Rightarrow> bool \<Rightarrow> shared_registry \<Rightarrow> shared_registry" where
  "enter_with t key moves s =
     (case get_or_create_entry moves key s of (p, s') \<Rightarrow> s'\<lparr>rg_held := (rg_held s')(t \<mapsto> (key, p))\<rparr>)"

definition leave_with :: "nat \<Rightarrow> shared_registry \<Rightarrow> shared_registry" where
  "leave_with t s = s\<lparr>rg_held := (rg_held s)(t := None)\<rparr>"

lemma reach_visit:
  assumes "registry_reachable s" and "rg_held s = (\<lambda>t. None)(0 := x)" and "\<forall>y. x = Some y \<longrightarrow> fst y \<noteq> key"
    and "t \<noteq> 0 \<or> x = None"
  shows "registry_reachable (enter_with t key moves s)"
proof -
  obtain p s' where "get_or_create_entry moves key s = (p, s')" by fastforce
  with assms(2-4) have "registry_step t s (enter_with t key moves s)"
    unfolding enter_with_def prod.case by (auto intro!: registry_step.enter split: if_splits)
  then show ?thesis by (rule registry_reachable.step [OF assms(1)])
qed

lemma reach_leave: "registry_reachable s \<Longrightarrow> rg_held s t \<noteq> None \<Longrightarrow> registry_reachable (leave_with t s)"
  unfolding leave_with_def by (auto intro: registry_reachable.step registry_step.leave)

lemma visit_new:
  assumes "registry_reachable s" and "rg_held s = (\<lambda>t. None)(0 \<mapsto> x)" and "fst x \<noteq> key"
    and "key \<notin> set (rg_names s)" and "length (rg_names s) < rg_capacity s"
  shows "registry_reachable (s\<lparr>rg_names := rg_names s @ [key]\<rparr>)"
proof -
  have g: "get_or_create_entry False key s
      = ((rg_items s, length (rg_names s)), s\<lparr>rg_names := rg_names s @ [key]\<rparr>)"
    using assms(4,5) by (simp add: get_or_create_entry_def entry_position_None grow_def)
  have "registry_reachable (leave_with 1 (enter_with 1 key False s))"
    using assms(2,3) g by (intro reach_leave reach_visit [OF assms(1,2)]) (auto simp: enter_with_def)
  moreover have "leave_with 1 (enter_with 1 key False s) = s\<lparr>rg_names := rg_names s @ [key]\<rparr>"
  proof -
    have "leave_with 1 (enter_with 1 key False s)
        = s\<lparr>rg_names := rg_names s @ [key], rg_held := (rg_held s)(1 := None)\<rparr>"
      by (simp add: g leave_with_def enter_with_def)
    moreover have "(rg_held s)(1 := None) = rg_held s" using assms(2) by (intro fun_upd_idem) simp
    ultimately show ?thesis by (cases s) simp
  qed
  ultimately show ?thesis by simp
qed

text \<open>Worker 0 is at work on the first table while worker 1 calls on the second to the fourth.\<close>

definition tables_known :: "string list \<Rightarrow> shared_registry" where
  "tables_known ns = \<lparr>rg_names = ''a'' # ns, rg_capacity = 4, rg_items = 1, rg_next = 2,
     rg_held = (\<lambda>t. None)(0 \<mapsto> (''a'', 1, 0))\<rparr>"

lemma reach_tables: "registry_reachable (tables_known [''b'', ''c'', ''d''])"
proof -
  have "registry_reachable (enter_with 0 ''a'' False no_registry)"
    by (rule reach_visit [OF registry_reachable.start, where x = None]) (auto simp: no_registry_def)
  then have "registry_reachable (tables_known [])"
    by (simp add: enter_with_def get_or_create_entry_def grow_def no_registry_def tables_known_def Let_def numeral_2_eq_2)
  then have "registry_reachable (tables_known [''b''])"
    using visit_new [of "tables_known []" "(''a'', 1, 0)" "''b''"] by (simp add: tables_known_def)
  then have "registry_reachable (tables_known [''b'', ''c''])"
    using visit_new [of "tables_known [''b'']" "(''a'', 1, 0)" "''c''"] by (simp add: tables_known_def)
  then show ?thesis
    using visit_new [of "tables_known [''b'', ''c'']" "(''a'', 1, 0)" "''d''"] by (simp add: tables_known_def)
qed

lemma fifth_table:
  "\<exists>s. registry_reachable s \<and> length (rg_names s) = 5 \<and> rg_held s 0 = Some (''a'', 1, 0) \<and> \<not> access_ok s 0"
proof (intro exI conjI)
  let ?s = "enter_with 1 ''e'' True (tables_known [''b'', ''c'', ''d''])"
  show "registry_reachable ?s"
    by (rule reach_visit [OF reach_tables]) (auto simp: tables_known_def)
  show "length (rg_names ?s) = 5" "rg_held ?s 0 = Some (''a'', 1, 0)" "\<not> access_ok ?s 0"
    by (simp_all add: enter_with_def get_or_create_entry_def grow_def tables_known_def Let_def access_ok_def)
qed

text \<open>
  C35: pointers into the index registry are safe up to four tables and not beyond. In every
  interleaving of workers that hold the locks of different tables, as long as at most four tables
  were used, the pointer each of them keeps points to the entry of its own table; but with a fifth
  table there is an interleaving in which the array moves while a worker still uses its old address.
\<close>

theorem registry_pointers:
  assumes "registry_reachable s" and "length (rg_names s) \<le> 4"
  shows "access_ok s t
    \<and> (\<exists>s'. registry_reachable s' \<and> length (rg_names s') = 5 \<and> rg_held s' 0 = Some (''a'', 1, 0)
         \<and> \<not> access_ok s' 0)"
  using registry_reachable_inv [OF assms(1)] assms(2) fifth_table by (simp add: registry_inv_def)

theorem registry_pointers_witness:
  "access_ok (tables_known [''b'', ''c'', ''d'']) 0
    \<and> (\<exists>s'. registry_reachable s' \<and> length (rg_names s') = 5 \<and> rg_held s' 0 = Some (''a'', 1, 0)
         \<and> \<not> access_ok s' 0)"
  by (rule registry_pointers [OF reach_tables]) (simp add: tables_known_def)

end
