(* ===== verification/Benchmark.thy ===== *)
theory Benchmark
  imports Cli
begin

text \<open>
  The benchmark program \<open>src/benchmark/benchmark_main.c\<close>: \<open>prepare\<close> replaces a table's CSV by its
  header and inserts generated rows through the executor; \<open>query-only\<close> repeats a query by \<open>id\<close> and
  one by the first column. The state is the one of the command line program: the database and what
  was written to \<open>stdout\<close> and \<open>stderr\<close>. \<^term>\<open>None\<close> is undefined behaviour of the layers below.

  Arguments are what the system answers: whether \<open>fopen(path, "wb")\<close> succeeds, how many bytes a
  failing \<open>fclose\<close> leaves in the file, whether \<open>tmpfile\<close> succeeds for each of the two queries, and
  the seconds the program prints. The clock does not run backwards.
\<close>

record bench_env =
  be_open_write :: "string \<Rightarrow> bool"
  be_flush :: "nat option"
  be_tmpfile :: "nat \<Rightarrow> bool"
  be_seconds :: "nat \<Rightarrow> string"

section \<open>The data set\<close>

text \<open>The header line the loop writes: the columns as they are, with commas between them.\<close>

fun header_cells :: "string_list \<Rightarrow> string" where
  "header_cells [] = []"
| "header_cells [c] = c"
| "header_cells (c # d # cs) = c @ COMMA # header_cells (d # cs)"

text \<open>\<open>write_csv_header\<close>: the error, if any, and the file system.\<close>

definition write_csv_header :: "bench_env \<Rightarrow> schema \<Rightarrow> string \<Rightarrow> fs \<Rightarrow> string option \<times> fs" where
  "write_csv_header env sch data_dir f =
     (let path = build_path data_dir (sc_storage_name sch) ''.csv'';
          written = header_cells (sc_columns sch) @ [LF] in
      if \<not> be_open_write env path then (Some ''failed to open benchmark CSV for reset'', f)
      else
        (case be_flush env of
           None \<Rightarrow> (None, f(path := Regular written))
         | Some k \<Rightarrow> (Some ''failed to finalize benchmark CSV reset'',
                      f(path := Regular (take k written)))))"

text \<open>The row number is positive, so \<open>%\<close> is \<open>mod\<close>.\<close>

definition make_value_text :: "string \<Rightarrow> int \<Rightarrow> string" where
  "make_value_text column_name row_number =
     (if column_name = ''age'' then snprintf 128 (show_int (20 + row_number mod 50))
      else snprintf 128 (column_name @ ''_'' @ show_int row_number))"

text \<open>The loop over the columns: the column and the value lists of the statement.\<close>

fun generate_values :: "string_list \<Rightarrow> int \<Rightarrow> string_list \<Rightarrow> string_list \<Rightarrow> string_list \<times> string_list" where
  "generate_values [] row_number cs vs = (cs, vs)"
| "generate_values (c # rest) row_number cs vs =
     generate_values rest row_number (string_list_push cs c)
       (string_list_push vs (make_value_text c row_number))"

text \<open>The copy of a table name that is NULL is NULL, which the code takes for a failed allocation.\<close>

definition build_insert_statement :: "schema \<Rightarrow> int \<Rightarrow> string + statement" where
  "build_insert_statement sch row_number =
     (case sc_table_name sch of
        None \<Rightarrow> Inl ''out of memory while building benchmark insert''
      | Some table \<Rightarrow>
          (case generate_values (sc_columns sch) row_number [] [] of
             (cs, vs) \<Rightarrow> Inr (INSERT \<lparr>ins_table = table, ins_columns = cs, ins_values = vs\<rparr>)))"

definition build_select_statement :: "string option \<Rightarrow> string \<Rightarrow> string \<Rightarrow> statement option" where
  "build_select_statement table column val =
     map_option (\<lambda>name. SELECT \<lparr>sel_table = name, sel_columns = [], select_all = True,
       has_where = True, where_column = column, where_value = val\<rparr>) table"

definition find_first_non_id_column :: "schema \<Rightarrow> string option" where
  "find_first_non_id_column sch = (case sc_columns sch of [] \<Rightarrow> None | c # cs \<Rightarrow> Some c)"

section \<open>The modes\<close>

definition print_prepare_usage :: "string \<Rightarrow> string" where
  "print_prepare_usage program_name =
     ''Usage: '' @ program_name @ '' prepare <schema_dir> <data_dir> <table_name> <row_count>'' @ [LF]"

definition print_query_usage :: "string \<Rightarrow> string" where
  "print_query_usage program_name =
     ''Usage: '' @ program_name
     @ '' query-only <schema_dir> <data_dir> <table_name> <target_id> [query_repeat]'' @ [LF]"

definition print_benchmark_usage :: "string \<Rightarrow> string" where
  "print_benchmark_usage program_name = print_prepare_usage program_name @ print_query_usage program_name"

definition put_error :: "string \<Rightarrow> cli \<Rightarrow> cli" where
  "put_error m = put_err (''error: '' @ m @ [LF])"

definition registry_reset :: "cli \<Rightarrow> cli" where
  "registry_reset c =
     c\<lparr>cl_db := (cl_db c)\<lparr>db_rt := table_index_registry_reset (db_rt (cl_db c))\<rparr>\<rparr>"

text \<open>The loop of \<open>run_prepare_mode\<close> with \<open>k\<close> rows left: whether all were inserted.\<close>

fun insert_rows :: "schema \<Rightarrow> string \<Rightarrow> string \<Rightarrow> nat \<Rightarrow> int \<Rightarrow> cli \<Rightarrow> (bool \<times> cli) option" where
  "insert_rows sch schema_dir data_dir 0 index c = Some (True, c)"
| "insert_rows sch schema_dir data_dir (Suc k) index c =
     (case build_insert_statement sch (index + 1) of
        Inl m \<Rightarrow> Some (False, put_error m c)
      | Inr st \<Rightarrow>
          (case execute_statement st schema_dir data_dir (cl_db c) of
             None \<Rightarrow> None
           | Some (r, stream, d) \<Rightarrow>
               let c' = put_out stream (c\<lparr>cl_db := d\<rparr>) in
               if \<not> er_ok r then Some (False, put_error (er_message r) c')
               else insert_rows sch schema_dir data_dir k (index + 1) c'))"

definition run_prepare_mode ::
  "bench_env \<Rightarrow> string \<Rightarrow> string \<Rightarrow> string \<Rightarrow> int \<Rightarrow> cli \<Rightarrow> (int \<times> cli) option" where
  "run_prepare_mode env schema_dir data_dir table row_count c =
     (case load_schema (db_fs (cl_db c)) schema_dir data_dir table of
        Inl m \<Rightarrow> Some (1, put_error m c)
      | Inr sch \<Rightarrow>
          (case write_csv_header env sch data_dir (db_fs (cl_db c)) of
             (Some m, f) \<Rightarrow> Some (1, put_error m (c\<lparr>cl_db := (cl_db c)\<lparr>db_fs := f\<rparr>\<rparr>))
           | (None, f) \<Rightarrow>
               (case insert_rows sch schema_dir data_dir (nat row_count) 0
                       (registry_reset (c\<lparr>cl_db := (cl_db c)\<lparr>db_fs := f\<rparr>\<rparr>)) of
                  None \<Rightarrow> None
                | Some (False, c') \<Rightarrow> Some (1, c')
                | Some (True, c') \<Rightarrow>
                    Some (0, registry_reset
                      (put_out (''Insert time: '' @ be_seconds env 0 @ '' sec'' @ [LF])
                        (put_out (''Prepared rows: '' @ show_int row_count @ [LF]) c'))))))"

text \<open>The loop of \<open>run_query_benchmark\<close>, whose output goes to the temporary file.\<close>

fun query_loop :: "statement \<Rightarrow> string \<Rightarrow> string \<Rightarrow> nat \<Rightarrow> db \<Rightarrow> (string option \<times> db) option" where
  "query_loop st schema_dir data_dir 0 d = Some (None, d)"
| "query_loop st schema_dir data_dir (Suc k) d =
     (case execute_statement st schema_dir data_dir d of
        None \<Rightarrow> None
      | Some (r, sink, d') \<Rightarrow>
          if \<not> er_ok r then Some (Some (snprintf 256 (er_message r)), d')
          else query_loop st schema_dir data_dir k d')"

text \<open>The error of a query benchmark, or nothing when it returns an average time.\<close>

definition run_query_benchmark ::
  "bool \<Rightarrow> statement \<Rightarrow> string \<Rightarrow> string \<Rightarrow> int \<Rightarrow> db \<Rightarrow> (string option \<times> db) option" where
  "run_query_benchmark sink_ok st schema_dir data_dir repeat_count d =
     (if \<not> sink_ok then Some (Some ''failed to create temporary output sink for benchmark query'', d)
      else query_loop st schema_dir data_dir (nat repeat_count) d)"

definition query_report :: "bench_env \<Rightarrow> int \<Rightarrow> string \<Rightarrow> string \<Rightarrow> int \<Rightarrow> string" where
  "query_report env target_id column val query_repeat =
     ''Query target id: '' @ show_int target_id @ [LF]
     @ ''Query target column: '' @ column @ [LF]
     @ ''Query target value: '' @ val @ [LF]
     @ ''Query repeats: '' @ show_int query_repeat @ [LF]
     @ ''Indexed query avg time: '' @ be_seconds env 0 @ '' sec'' @ [LF]
     @ ''Linear query avg time: '' @ be_seconds env 1 @ '' sec'' @ [LF]"

text \<open>The two measured queries and the report after them.\<close>

definition run_queries ::
  "bench_env \<Rightarrow> string \<Rightarrow> string \<Rightarrow> statement \<Rightarrow> statement \<Rightarrow> int \<Rightarrow> string \<Rightarrow> cli
     \<Rightarrow> (int \<times> cli) option" where
  "run_queries env schema_dir data_dir id_select other_select query_repeat report_text c =
     (case run_query_benchmark (be_tmpfile env 0) id_select schema_dir data_dir query_repeat (cl_db c) of
        None \<Rightarrow> None
      | Some (Some m, d) \<Rightarrow>
          Some (1, put_error (''indexed benchmark query failed: '' @ m) (c\<lparr>cl_db := d\<rparr>))
      | Some (None, d) \<Rightarrow>
          (case run_query_benchmark (be_tmpfile env 1) other_select schema_dir data_dir query_repeat d of
             None \<Rightarrow> None
           | Some (Some m, d') \<Rightarrow>
               Some (1, put_error (''linear benchmark query failed: '' @ m) (c\<lparr>cl_db := d'\<rparr>))
           | Some (None, d') \<Rightarrow>
               Some (0, registry_reset (put_out report_text (c\<lparr>cl_db := d'\<rparr>)))))"

definition run_query_only_mode ::
  "bench_env \<Rightarrow> string \<Rightarrow> string \<Rightarrow> string \<Rightarrow> int \<Rightarrow> int \<Rightarrow> cli \<Rightarrow> (int \<times> cli) option" where
  "run_query_only_mode env schema_dir data_dir table target_id query_repeat c =
     (case load_schema (db_fs (cl_db c)) schema_dir data_dir table of
        Inl m \<Rightarrow> Some (1, put_error m c)
      | Inr sch \<Rightarrow>
          (case find_first_non_id_column sch of
             None \<Rightarrow> Some (1, put_error ''benchmark table must have at least one user column'' c)
           | Some column \<Rightarrow>
               let val = make_value_text column target_id in
               (case (build_select_statement (sc_table_name sch) ''id'' (snprintf 32 (show_int target_id)),
                      build_select_statement (sc_table_name sch) column val) of
                  (Some id_select, Some other_select) \<Rightarrow>
                    run_queries env schema_dir data_dir id_select other_select query_repeat
                      (query_report env target_id column val query_repeat) (registry_reset c)
                | _ \<Rightarrow> Some (1, put_error ''out of memory while preparing benchmark queries'' c))))"

section \<open>The program\<close>

definition parse_positive :: "string \<Rightarrow> int option" where
  "parse_positive s = (case parse_int_strict s of None \<Rightarrow> None | Some n \<Rightarrow> if n \<le> 0 then None else Some n)"

text \<open>The exit code and the state at the end; \<open>args\<close> are the arguments after the program's name.\<close>

definition benchmark_main ::
  "bench_env \<Rightarrow> string \<Rightarrow> string list \<Rightarrow> db \<Rightarrow> (int \<times> cli) option" where
  "benchmark_main env program_name args d =
     (let c = \<lparr>cl_db = d, cl_out = [], cl_err = [], cl_runs = 0\<rparr> in
      case args of
        [] \<Rightarrow> Some (1, put_err (print_benchmark_usage program_name) c)
      | mode # rest \<Rightarrow>
          if mode = ''prepare'' then
            (case rest of
               [schema_dir, data_dir, table, rows] \<Rightarrow>
                 (case parse_positive rows of
                    None \<Rightarrow> Some (1, put_error ''row_count must be a positive integer'' c)
                  | Some row_count \<Rightarrow> run_prepare_mode env schema_dir data_dir table row_count c)
             | _ \<Rightarrow> Some (1, put_err (print_prepare_usage program_name) c))
          else if mode = ''query-only'' then
            (case rest of
               schema_dir # data_dir # table # target # more_args \<Rightarrow>
                 if 2 \<le> length more_args then Some (1, put_err (print_query_usage program_name) c)
                 else
                   (case parse_positive target of
                      None \<Rightarrow> Some (1, put_error ''target_id must be a positive integer'' c)
                    | Some target_id \<Rightarrow>
                        (case more_args of
                           [] \<Rightarrow> run_query_only_mode env schema_dir data_dir table target_id 100 c
                         | q # _ \<Rightarrow>
                             (case parse_positive q of
                                None \<Rightarrow> Some (1, put_error ''query_repeat must be a positive integer'' c)
                              | Some query_repeat \<Rightarrow>
                                  run_query_only_mode env schema_dir data_dir table target_id query_repeat c)))
             | _ \<Rightarrow> Some (1, put_err (print_query_usage program_name) c))
          else Some (1, put_err (print_benchmark_usage program_name)
                          (put_error (''unknown benchmark mode: '' @ mode) c)))"

end
