(* ===== verification/Benchmark_Props.thy ===== *)
theory Benchmark_Props
  imports Benchmark Database_Props
begin

text \<open>
  What the benchmark program establishes: after \<open>prepare\<close> the table holds exactly the generated
  rows, row \<open>k\<close> with the internal id \<open>k\<close>, and \<open>query-only\<close> then succeeds; its query by \<open>id\<close> finds
  exactly the target row and its query by the first column finds at least that row.
\<close>

section \<open>The generated rows\<close>

definition generated_row :: "schema \<Rightarrow> int \<Rightarrow> string_list" where
  "generated_row sch k = map (\<lambda>c. make_value_text c k) (sc_columns sch)"

definition generated_rows :: "schema \<Rightarrow> nat \<Rightarrow> string_list list" where
  "generated_rows sch n = map (\<lambda>k. generated_row sch (int k)) [1..<Suc n]"

text \<open>The schemas the generator can serve: plain, distinct column names and rows of one line.\<close>

definition plain_column :: "string \<Rightarrow> bool" where
  "plain_column c =
     (c \<noteq> [] \<and> \<not> needs_quotes c \<and> trim_whitespace c = c \<and> NUL \<notin> set c \<and> length c \<le> 100)"

definition bench_schema :: "schema \<Rightarrow> bool" where
  "bench_schema sch =
     (distinct (sc_columns sch) \<and> list_all plain_column (sc_columns sch)
      \<and> length (csv_row (sc_columns sch)) < LINE_SIZE - 1 \<and> 128 * length (sc_columns sch) \<le> LINE_SIZE - 1)"


lemma generate_values_map:
  "generate_values rest k cs vs = (cs @ rest, vs @ map (\<lambda>c. make_value_text c k) rest)"
  by (induction rest k cs vs rule: generate_values.induct) (simp_all add: string_list_push_def)

lemma build_insert_generated:
  "sc_table_name sch = Some table \<Longrightarrow> build_insert_statement sch k
     = Inr (INSERT \<lparr>ins_table = table, ins_columns = sc_columns sch, ins_values = generated_row sch k\<rparr>)"
  by (simp add: build_insert_statement_def generate_values_map generated_row_def)

text \<open>A generated value passes through the CSV file unchanged.\<close>

definition plain_value :: "string \<Rightarrow> bool" where
  "plain_value v =
     (v \<noteq> [] \<and> \<not> needs_quotes v \<and> trim_whitespace v = v \<and> NUL \<notin> set v \<and> length v \<le> 127)"

lemma needs_quotes_iff: "needs_quotes v \<longleftrightarrow> DQ \<in> set v \<or> COMMA \<in> set v \<or> LF \<in> set v \<or> CR \<in> set v"
  by (induction v) (auto simp: needs_quotes_def)

lemma digit_plain: "isdigit c \<Longrightarrow> c \<noteq> DQ \<and> c \<noteq> COMMA \<and> c \<noteq> LF \<and> c \<noteq> CR \<and> c \<noteq> NUL \<and> \<not> isspace c"
  by (auto simp: isdigit_def isspace_def byte_def)

lemma show_int_digits: "0 \<le> k \<Longrightarrow> c \<in> set (show_int k) \<Longrightarrow> isdigit c"
  by (auto simp: show_int_def dest: set_dec_digits)

lemma plain_value_word:
  assumes "\<forall>c\<in>set w. c \<noteq> DQ \<and> c \<noteq> COMMA \<and> c \<noteq> LF \<and> c \<noteq> CR \<and> c \<noteq> NUL" and "w \<noteq> []"
    and "\<not> isspace (hd w)" and "\<not> isspace (last w)" and "length w \<le> 127"
  shows "plain_value w"
  using assms trim_id [of w] by (auto simp: plain_value_def needs_quotes_iff)

lemma make_value_plain:
  assumes c: "plain_column c" and k: "0 \<le> k"
  shows "plain_value (make_value_text c k)"
proof (cases "c = ''age''")
  case True
  define w where "w = take 127 (show_int (20 + k mod 50))"
  have d: "\<forall>x\<in>set w. isdigit x" using k show_int_digits [of "20 + k mod 50"]
    by (auto simp: w_def dest!: in_set_takeD)
  have w: "w \<noteq> []" "length w \<le> 127" by (simp_all add: w_def)
  have e: "isdigit (hd w)" "isdigit (last w)" using d w(1) by auto
  have p: "\<forall>x\<in>set w. x \<noteq> DQ \<and> x \<noteq> COMMA \<and> x \<noteq> LF \<and> x \<noteq> CR \<and> x \<noteq> NUL" using d digit_plain by blast
  have "plain_value w"
    by (rule plain_value_word [OF p w(1)]) (use e w digit_plain in blast)+
  with True show ?thesis by (simp add: make_value_text_def snprintf_def w_def)
next
  case False
  from c have c': "c \<noteq> []" "DQ \<notin> set c" "COMMA \<notin> set c" "LF \<notin> set c" "CR \<notin> set c" "NUL \<notin> set c"
    "length c \<le> 100" "\<not> isspace (hd c)"
    using trim_ends [of c] by (auto simp: plain_column_def needs_quotes_iff)
  define t where "t = take (126 - length c) (show_int k)"
  have d: "\<forall>x\<in>set t. isdigit x" and t: "t \<noteq> []" using k show_int_digits [of k] c'(7)
    by (auto simp: t_def dest!: in_set_takeD)
  have v: "make_value_text c k = c @ ''_'' @ t"
    using False c'(7) by (simp add: make_value_text_def snprintf_def t_def take_Cons')
  have "isdigit (last t)" using d t by auto
  then have l: "\<not> isspace (last (c @ ''_'' @ t))" using t digit_plain by simp
  have q: "\<forall>x\<in>set t. x \<noteq> DQ \<and> x \<noteq> COMMA \<and> x \<noteq> LF \<and> x \<noteq> CR \<and> x \<noteq> NUL" using d digit_plain by blast
  have p: "\<forall>x\<in>set (c @ ''_'' @ t). x \<noteq> DQ \<and> x \<noteq> COMMA \<and> x \<noteq> LF \<and> x \<noteq> CR \<and> x \<noteq> NUL"
    using c'(2-6) q by auto
  show ?thesis unfolding v
    by (rule plain_value_word [OF p _ _ l]) (use c' in \<open>simp_all add: t_def\<close>)
qed

lemma generated_plain:
  assumes "bench_schema sch" and "0 \<le> k"
  shows "list_all plain_value (generated_row sch k)"
  using assms make_value_plain by (auto simp: bench_schema_def generated_row_def list_all_iff)

lemma plain_value_stored: "plain_value v \<Longrightarrow> stored v = v"
  by (simp add: plain_value_def stored_id)

lemma plain_values_stored: "list_all plain_value vs \<Longrightarrow> map stored vs = vs"
  by (induction vs) (simp_all add: plain_value_stored)

lemma length_plain_row: "list_all plain_value vs \<Longrightarrow> length (csv_row vs) \<le> 128 * length vs"
  by (induction vs rule: csv_row.induct) (auto simp: plain_value_def csv_escape_field_def)

text \<open>The statement for row \<open>k\<close> is one that the executor accepts, and it builds that row.\<close>

abbreviation generated_insert :: "schema \<Rightarrow> string \<Rightarrow> int \<Rightarrow> insert_statement" where
  "generated_insert sch table k \<equiv>
     \<lparr>ins_table = table, ins_columns = sc_columns sch, ins_values = generated_row sch k\<rparr>"

lemma find_nth:
  assumes "distinct (sc_columns sch)" and "j < length (sc_columns sch)"
  shows "schema_find_column sch (sc_columns sch ! j) = int j"
proof -
  from assms(2) have m: "sc_columns sch ! j \<in> set (sc_columns sch)" by simp
  from find_known [OF m] schema_find_column_found [of sch "sc_columns sch ! j"] assms
  show ?thesis by (auto simp: nth_eq_iff_index_eq)
qed

lemma map_find_columns:
  "distinct (sc_columns sch) \<Longrightarrow>
     map (schema_find_column sch) (sc_columns sch) = map int [0..<length (sc_columns sch)]"
  by (rule nth_equalityI) (simp_all add: find_nth)

lemma map_of_positions:
  "length vs = n \<Longrightarrow> j < n \<Longrightarrow> map_of (zip (map int [0..<n]) vs) (int j) = Some (vs ! j)"
  by (subst map_of_eq_Some_iff) (auto simp: in_set_zip distinct_map intro!: exI [of _ j])

lemma generated_insert_values:
  assumes "distinct (sc_columns sch)"
  shows "insert_values (generated_insert sch table k) sch = generated_row sch k"
  by (rule nth_equalityI)
    (simp_all add: insert_values_def map_find_columns [OF assms] map_of_positions generated_row_def)

lemma validate_generated:
  assumes "set cs \<subseteq> set (sc_columns sch)" and "''id'' \<notin> set (sc_columns sch)"
    and "list_all plain_value vs"
  shows "validate_insert_loop sch cs vs = None"
  using assms find_known [of _ sch]
  by (induction sch cs vs rule: validate_insert_loop.induct)
    (fastforce simp: plain_value_def needs_quotes_iff contains_newline_def)+

lemma generated_insert_ok:
  assumes b: "bench_schema sch" and "''id'' \<notin> set (sc_columns sch)" and "0 \<le> k"
  shows "insert_ok (generated_insert sch table k) sch"
proof -
  note p = generated_plain [OF b assms(3)]
  from b have d: "distinct (sc_columns sch)" by (simp add: bench_schema_def)
  have "validate_insert_columns (generated_insert sch table k) sch = None"
    using validate_generated [OF order_refl assms(2) p]
    by (simp add: validate_insert_columns_def generated_row_def)
  moreover have "length (csv_row (generated_row sch k)) \<le> LINE_SIZE - 1"
    using length_plain_row [OF p] b by (simp add: generated_row_def bench_schema_def)
  moreover have "list_all (\<lambda>v. NUL \<notin> set v) (generated_row sch k)"
    using p by (simp add: list_all_iff plain_value_def)
  ultimately show ?thesis
    by (simp add: insert_ok_def generated_insert_values [OF d] map_find_columns [OF d] distinct_map)
qed

section \<open>The new file\<close>

lemma header_cells_row: "list_all plain_column cs \<Longrightarrow> header_cells cs = csv_row cs"
  by (induction cs rule: header_cells.induct) (auto simp: plain_column_def csv_escape_field_def)

abbreviation header_file :: "schema \<Rightarrow> string" where
  "header_file sch \<equiv> header_cells (sc_columns sch) @ [LF]"

lemma header_storable:
  assumes "bench_schema sch" and "sc_columns sch \<noteq> []"
  shows "storable (sc_columns sch)"
  using assms by (auto simp: storable_def bench_schema_def list_all_iff plain_column_def needs_quotes_iff)

lemma header_chunk:
  assumes "bench_schema sch" and "sc_columns sch \<noteq> []"
  shows "fgets_chunk (header_file sch) = header_file sch"
proof -
  have "header_cells (sc_columns sch) = csv_row (sc_columns sch)"
    using assms by (simp add: header_cells_row bench_schema_def)
  moreover have "takeWhile (\<lambda>c. c \<noteq> LF) (csv_row (sc_columns sch)) = csv_row (sc_columns sch)"
    using storable_one_line [OF header_storable [OF assms]]
    by (auto simp: one_line_def takeWhile_eq_all_conv)
  moreover have "length (csv_row (sc_columns sch)) < LINE_SIZE - 1"
    using assms(1) by (simp add: bench_schema_def)
  ultimately show ?thesis by (simp add: fgets_chunk_def takeWhile_tail Suc_diff_Suc)
qed

lemma header_parses:
  assumes "bench_schema sch" and "sc_columns sch \<noteq> []"
  shows "csv_parse_line (line_text (fgets_chunk (header_file sch))) = Inr (sc_columns sch)"
proof -
  have "line_text (header_file sch) = csv_row (sc_columns sch)"
    using one_line_text [OF storable_one_line [OF header_storable [OF assms]]] assms(1)
    by (simp add: line_text_LF header_cells_row bench_schema_def)
  moreover have "map stored (sc_columns sch) = sc_columns sch"
    using assms(1) by (intro map_idI) (auto simp: bench_schema_def list_all_iff plain_column_def stored_id)
  ultimately show ?thesis using csv_parse_row [OF assms(2)] by (simp add: header_chunk [OF assms])
qed

text \<open>Replacing a table's file by its header changes no schema and leaves a table without rows.\<close>

lemma load_schema_header:
  assumes b: "bench_schema sch" and ok: "schema_ok f data_dir table sch"
  defines "g \<equiv> f(table_path data_dir (sc_storage_name sch) := Regular (header_file sch))"
  shows "load_schema g schema_dir data_dir = load_schema f schema_dir data_dir"
    and "table_ok g data_dir sch" and "table_rows g data_dir sch = []"
proof -
  let ?p = "table_path data_dir (sc_storage_name sch)"
  from ok have cols: "sc_columns sch \<noteq> []" by (simp add: schema_ok_def)
  from ok obtain content where c: "f ?p = Regular content" "content \<noteq> []"
    "csv_parse_line (line_text (fgets_chunk content)) = Inr (sc_columns sch)"
    by (auto simp: schema_ok_def header_matches_def split: fnode.splits)
  have "\<not> has_meta_extension ?p"
    using csv_not_meta [of "data_dir @ ''/'' @ sc_storage_name sch"] by (simp add: table_path_def)
  with c(1) have same: "same_meta g f" by (auto simp: same_meta_def g_def)
  have "validate_csv_header g data_dir name sch' = validate_csv_header f data_dir name sch'" for name sch'
    using c header_parses [OF b cols]
    by (auto simp: validate_csv_header_def open_read_def Let_def table_path_def g_def)
  then have "validate_csv_header g data_dir = validate_csv_header f data_dir" by (intro ext)
  then show "load_schema g schema_dir data_dir = load_schema f schema_dir data_dir"
    using load_schema_same [OF same] by (intro ext)
  have rows: "data_lines (header_file sch) = []" by (rule data_lines_header_only [OF header_chunk [OF b cols]])
  then show "table_rows g data_dir sch = []" by (simp add: g_def table_rows_def file_rows_def)
  with rows show "table_ok g data_dir sch" by (simp add: table_ok_def readable_def g_def)
qed

section \<open>Preparing\<close>

text \<open>A state in which the rows of the table are known.\<close>

definition bench_state :: "string \<Rightarrow> string \<Rightarrow> string \<Rightarrow> schema \<Rightarrow> string_list list \<Rightarrow> db \<Rightarrow> bool" where
  "bench_state schema_dir data_dir table sch rows d =
     (runtime_ok (db_fs d) data_dir (db_rt d) \<and> \<not> rt_force_failure (db_rt d)
      \<and> load_schema (db_fs d) schema_dir data_dir table = Inr sch
      \<and> table_ok (db_fs d) data_dir sch \<and> table_rows (db_fs d) data_dir sch = rows)"

text \<open>The state a run starts from: a table that loads under its own name.\<close>

definition bench_ready :: "string \<Rightarrow> string \<Rightarrow> string \<Rightarrow> schema \<Rightarrow> db \<Rightarrow> bool" where
  "bench_ready schema_dir data_dir table sch d =
     (load_schema (db_fs d) schema_dir data_dir table = Inr sch \<and> sc_table_name sch = Some table
      \<and> bench_schema sch \<and> oom (rt_alloc (db_rt d)) = [])"

definition same_elsewhere :: "string \<Rightarrow> schema \<Rightarrow> fs \<Rightarrow> fs \<Rightarrow> bool" where
  "same_elsewhere data_dir sch f g =
     (g = f(table_path data_dir (sc_storage_name sch) := g (table_path data_dir (sc_storage_name sch))))"

lemma same_elsewhere_trans:
  "same_elsewhere data_dir sch f g \<Longrightarrow> same_elsewhere data_dir sch g h \<Longrightarrow> same_elsewhere data_dir sch f h"
  unfolding same_elsewhere_def by (metis fun_upd_upd)

lemma same_elsewhere_refl [simp]: "same_elsewhere data_dir sch f f"
  by (simp add: same_elsewhere_def)

fun generated_from :: "schema \<Rightarrow> int \<Rightarrow> nat \<Rightarrow> string_list list" where
  "generated_from sch i 0 = []"
| "generated_from sch i (Suc n) = generated_row sch (i + 1) # generated_from sch (i + 1) n"

lemma generated_from_map: "generated_from sch i n = map (\<lambda>k. generated_row sch (i + int k)) [1..<Suc n]"
proof (induction n arbitrary: i)
  case (Suc n)
  have "[1..<Suc (Suc n)] = 1 # map Suc [1..<Suc n]" by (simp add: upt_conv_Cons map_Suc_upt del: upt_Suc)
  with Suc show ?case by (simp add: o_def algebra_simps)
qed simp

lemma insert_rows_ok:
  assumes b: "bench_schema sch" and id: "''id'' \<notin> set (sc_columns sch)"
    and t: "sc_table_name sch = Some table" and i: "0 \<le> i"
    and st: "bench_state schema_dir data_dir table sch rows (cl_db c)"
  shows "\<exists>d. insert_rows sch schema_dir data_dir n i c = Some (True, c\<lparr>cl_db := d\<rparr>)
    \<and> bench_state schema_dir data_dir table sch (rows @ generated_from sch i n) d
    \<and> same_elsewhere data_dir sch (db_fs (cl_db c)) (db_fs d)"
  using i st
proof (induction n arbitrary: i c rows)
  case (Suc n)
  let ?st = "generated_insert sch table (i + 1)" and ?p = "table_path data_dir (sc_storage_name sch)"
  from b have dist: "distinct (sc_columns sch)" by (simp add: bench_schema_def)
  have v: "map stored (insert_values ?st sch) = generated_row sch (i + 1)"
    using generated_plain [OF b, of "i + 1"] Suc.prems(1)
    by (simp add: generated_insert_values [OF dist] plain_values_stored)
  have "insert_ok ?st sch" using b id Suc.prems(1) by (intro generated_insert_ok) auto
  with execute_insert_ok [of "cl_db c" data_dir schema_dir ?st sch] Suc.prems(2) obtain d where
    e: "execute_insert ?st schema_dir data_dir (cl_db c)
        = Some (\<lparr>er_ok = True, er_affected_rows = 1, er_message = ''INSERT 1''\<rparr>, d)"
    and d: "bench_state schema_dir data_dir table sch (rows @ [generated_row sch (i + 1)]) d"
    and f: "same_elsewhere data_dir sch (db_fs (cl_db c)) (db_fs d)"
    by (auto simp: bench_state_def same_elsewhere_def v)
  have step: "insert_rows sch schema_dir data_dir (Suc n) i c
      = insert_rows sch schema_dir data_dir n (i + 1) (c\<lparr>cl_db := d\<rparr>)"
    using e by (simp add: build_insert_generated [OF t] Let_def put_out_def)
  from Suc.IH [where i = "i + 1" and c = "c\<lparr>cl_db := d\<rparr>"] Suc.prems(1) d
  show ?case unfolding step by (fastforce intro: same_elsewhere_trans [OF f])
qed (auto intro!: exI [of _ "cl_db _"])

lemma generated_from_rows: "generated_from sch 0 n = generated_rows sch n"
  by (simp add: generated_from_map generated_rows_def)

lemma bench_state_reset:
  "bench_state schema_dir data_dir table sch rows d \<Longrightarrow>
     bench_state schema_dir data_dir table sch rows (d\<lparr>db_rt := table_index_registry_reset (db_rt d)\<rparr>)"
  by (simp add: bench_state_def table_index_registry_reset_def runtime_ok_def)

lemma ready_header:
  assumes r: "bench_ready schema_dir data_dir table sch d"
    and w: "write_csv_header env sch data_dir (db_fs d) = (None, f)"
  shows "bench_state schema_dir data_dir table sch []
      (d\<lparr>db_fs := f, db_rt := table_index_registry_reset (db_rt d)\<rparr>)"
    and "same_elsewhere data_dir sch (db_fs d) f"
proof -
  have f: "f = (db_fs d)(table_path data_dir (sc_storage_name sch) := Regular (header_file sch))"
    using w by (auto simp: write_csv_header_def Let_def table_path_def split: if_splits option.splits)
  from r have b: "bench_schema sch" and ok: "schema_ok (db_fs d) data_dir table sch"
    using load_schema_ok by (auto simp: bench_ready_def)
  show "bench_state schema_dir data_dir table sch []
      (d\<lparr>db_fs := f, db_rt := table_index_registry_reset (db_rt d)\<rparr>)"
    using r load_schema_header [OF b ok] unfolding f
    by (simp add: bench_state_def bench_ready_def table_index_registry_reset_def runtime_ok_def)
  show "same_elsewhere data_dir sch (db_fs d) f" unfolding f by (simp add: same_elsewhere_def)
qed

lemma prepare_ok:
  assumes r: "bench_ready schema_dir data_dir table sch (cl_db c)"
    and w: "be_open_write env (table_path data_dir (sc_storage_name sch))" "be_flush env = None"
  shows "\<exists>d. run_prepare_mode env schema_dir data_dir table row_count c
      = Some (0, c\<lparr>cl_db := d, cl_out := cl_out c @ ''Prepared rows: '' @ show_int row_count @ [LF]
                     @ ''Insert time: '' @ be_seconds env 0 @ '' sec'' @ [LF]\<rparr>)
    \<and> bench_state schema_dir data_dir table sch (generated_rows sch (nat row_count)) d
    \<and> same_elsewhere data_dir sch (db_fs (cl_db c)) (db_fs d)"
proof -
  from r have l: "load_schema (db_fs (cl_db c)) schema_dir data_dir table = Inr sch"
    and t: "sc_table_name sch = Some table" and b: "bench_schema sch" by (auto simp: bench_ready_def)
  from load_schema_ok [OF l] have id: "''id'' \<notin> set (sc_columns sch)" by (simp add: schema_ok_def)
  obtain f where h: "write_csv_header env sch data_dir (db_fs (cl_db c)) = (None, f)"
    using w by (simp add: write_csv_header_def Let_def table_path_def)
  define c1 where "c1 = registry_reset (c\<lparr>cl_db := (cl_db c)\<lparr>db_fs := f\<rparr>\<rparr>)"
  from ready_header [OF r h] have s1: "bench_state schema_dir data_dir table sch [] (cl_db c1)"
    "same_elsewhere data_dir sch (db_fs (cl_db c)) (db_fs (cl_db c1))"
    by (simp_all add: c1_def registry_reset_def)
  from insert_rows_ok [OF b id t _ s1(1), of 0 "nat row_count"] obtain d where
    "insert_rows sch schema_dir data_dir (nat row_count) 0 c1 = Some (True, c1\<lparr>cl_db := d\<rparr>)"
    "bench_state schema_dir data_dir table sch (generated_rows sch (nat row_count)) d"
    "same_elsewhere data_dir sch (db_fs (cl_db c1)) (db_fs d)"
    by (auto simp: generated_from_rows)
  then show ?thesis using l h same_elsewhere_trans [OF s1(2)]
    by (intro exI [of _ "d\<lparr>db_rt := table_index_registry_reset (db_rt d)\<rparr>"])
      (auto simp: run_prepare_mode_def c1_def [symmetric] bench_state_reset,
       simp add: c1_def registry_reset_def put_out_def)
qed

section \<open>Querying\<close>

lemma query_loop_ok:
  assumes "bench_state schema_dir data_dir (sel_table st) sch rows d" and "select_ok st sch"
  shows "\<exists>rt. query_loop (SELECT st) schema_dir data_dir k d = Some (None, d\<lparr>db_rt := rt\<rparr>)
    \<and> bench_state schema_dir data_dir (sel_table st) sch rows (d\<lparr>db_rt := rt\<rparr>)"
  using assms(1)
proof (induction k arbitrary: d)
  case (Suc k)
  from execute_select_ok [of d data_dir schema_dir st sch] Suc.prems assms(2) obtain rt where
    e: "execute_select st schema_dir data_dir d
      = Some (select_done (length (answer st sch rows)),
              print_result_table (select_headers st sch) (answer st sch rows), d\<lparr>db_rt := rt\<rparr>)"
    and b: "bench_state schema_dir data_dir (sel_table st) sch rows (d\<lparr>db_rt := rt\<rparr>)"
    by (auto simp: bench_state_def)
  from Suc.IH [OF b] e show ?case by (auto simp: select_done_def)
next
  case 0
  then show ?case by (intro exI [of _ "db_rt d"]) simp
qed

abbreviation bench_select :: "string \<Rightarrow> string \<Rightarrow> string \<Rightarrow> select_statement" where
  "bench_select table column val \<equiv> \<lparr>sel_table = table, sel_columns = [], select_all = True,
     has_where = True, where_column = column, where_value = val\<rparr>"

text \<open>The two queries of \<open>query-only\<close> for a table whose first column is \<open>column\<close>.\<close>

abbreviation id_query :: "string \<Rightarrow> int \<Rightarrow> select_statement" where
  "id_query table k \<equiv> bench_select table ''id'' (snprintf 32 (show_int k))"

abbreviation column_query :: "string \<Rightarrow> schema \<Rightarrow> int \<Rightarrow> select_statement" where
  "column_query table sch k \<equiv>
     bench_select table (hd (sc_columns sch)) (make_value_text (hd (sc_columns sch)) k)"

lemma query_only_ok:
  assumes st: "bench_state schema_dir data_dir table sch rows (cl_db c)"
    and t: "sc_table_name sch = Some table"
    and ok: "select_ok (id_query table k) sch" "select_ok (column_query table sch k) sch"
    and tmp: "be_tmpfile env 0" "be_tmpfile env 1"
  shows "\<exists>rt. run_query_only_mode env schema_dir data_dir table k n c
      = Some (0, c\<lparr>cl_db := (cl_db c)\<lparr>db_rt := rt\<rparr>,
                   cl_out := cl_out c @ query_report env k (hd (sc_columns sch))
                     (make_value_text (hd (sc_columns sch)) k) n\<rparr>)
    \<and> bench_state schema_dir data_dir table sch rows ((cl_db c)\<lparr>db_rt := rt\<rparr>)"
proof -
  from st have l: "load_schema (db_fs (cl_db c)) schema_dir data_dir table = Inr sch"
    by (simp add: bench_state_def)
  from load_schema_ok [OF l] obtain col cols where cols: "sc_columns sch = col # cols"
    by (cases "sc_columns sch") (auto simp: schema_ok_def)
  note s0 = bench_state_reset [OF st]
  from query_loop_ok [of schema_dir data_dir "id_query table k", OF _ ok(1), of rows
      "cl_db (registry_reset c)" "nat n"] s0 obtain rt where q1:
    "query_loop (SELECT (id_query table k)) schema_dir data_dir (nat n) (cl_db (registry_reset c))
      = Some (None, (cl_db c)\<lparr>db_rt := rt\<rparr>)"
    "bench_state schema_dir data_dir table sch rows ((cl_db c)\<lparr>db_rt := rt\<rparr>)"
    by (auto simp: registry_reset_def)
  from query_loop_ok [of schema_dir data_dir "column_query table sch k", OF _ ok(2), of rows
      "(cl_db c)\<lparr>db_rt := rt\<rparr>" "nat n"] q1(2) obtain rt' where q2:
    "query_loop (SELECT (column_query table sch k)) schema_dir data_dir (nat n) ((cl_db c)\<lparr>db_rt := rt\<rparr>)
      = Some (None, (cl_db c)\<lparr>db_rt := rt'\<rparr>)"
    "bench_state schema_dir data_dir table sch rows ((cl_db c)\<lparr>db_rt := rt'\<rparr>)"
    by auto
  show ?thesis using l q1(1) q2 tmp bench_state_reset [OF q2(2)]
    by (intro exI [of _ "table_index_registry_reset rt'"])
      (simp add: run_query_only_mode_def find_first_non_id_column_def cols build_select_statement_def t
        run_queries_def run_query_benchmark_def registry_reset_def put_out_def Let_def)
qed

lemma id_text_exact: "0 \<le> k \<Longrightarrow> k \<le> INT_MAX \<Longrightarrow> snprintf 32 (show_int k) = show_int k"
  using length_show_int [of k] by (simp add: INT_MAX_def)

lemma id_query_ok: "0 \<le> k \<Longrightarrow> k \<le> INT_MAX \<Longrightarrow> select_ok (id_query table k) sch"
  using parse_int_strict_show_int [of k] by (simp add: select_ok_def id_text_exact INT_MIN_def)

lemma column_query_ok: "sc_columns sch \<noteq> [] \<Longrightarrow> ''id'' \<notin> set (sc_columns sch) \<Longrightarrow>
    select_ok (column_query table sch k) sch"
  by (cases "sc_columns sch") (auto simp: select_ok_def)

text \<open>What the two queries find after \<open>prepare\<close>.\<close>

lemma length_generated_rows [simp]: "length (generated_rows sch n) = n"
  by (simp add: generated_rows_def del: upt_Suc)

lemma nth_generated_rows: "i < n \<Longrightarrow> generated_rows sch n ! i = generated_row sch (int i + 1)"
  by (simp add: generated_rows_def add.commute del: upt_Suc)

lemma id_query_answer:
  assumes "1 \<le> k" and "k \<le> int n" and "k \<le> INT_MAX"
  shows "answer (id_query table k) sch (generated_rows sch n) = [generated_row sch k]"
proof -
  have "selected (id_query table k) sch = (\<lambda>r. fst r = k)"
    using parse_int_strict_show_int [of k] assms by (auto simp: selected_def id_text_exact INT_MIN_def)
  then show ?thesis
    using assms by (simp add: answer_def numbered_filter project_def nth_generated_rows)
qed

lemma numbered_nth: "i < length xs \<Longrightarrow> (n + int i, xs ! i) \<in> set (numbered n xs)"
proof (induction xs arbitrary: n i)
  case (Cons x xs)
  then show ?case by (cases i) (auto simp: algebra_simps dest: Cons.IH [of _ "n + 1"])
qed simp

lemma column_query_answer:
  assumes "1 \<le> k" and "k \<le> int n" and cols: "sc_columns sch \<noteq> []" "''id'' \<notin> set (sc_columns sch)"
  shows "generated_row sch k \<in> set (answer (column_query table sch k) sch (generated_rows sch n))"
proof -
  obtain col rest where c: "sc_columns sch = col # rest" using cols by (cases "sc_columns sch") auto
  have "nat (k - 1) < n" using assms(1,2) by auto
  from numbered_nth [of "nat (k - 1)" "generated_rows sch n" 1] nth_generated_rows [OF this, of sch] this
  have m: "(k, generated_row sch k) \<in> set (numbered 1 (generated_rows sch n))" using assms(1) by simp
  have "schema_find_column sch col = 0"
    by (simp add: schema_find_column_def string_list_index_of_def c)
  then have "selected (column_query table sch k) sch (k, generated_row sch k)"
    using cols(2) by (auto simp: selected_def generated_row_def c)
  with m show ?thesis by (force simp: answer_def project_def)
qed

text \<open>
  A column called \<open>age\<close> holds only 50 values, so a query by it finds other rows as well when
  there are enough of them.
\<close>

lemma age_query_ambiguous:
  assumes "1 \<le> k" and "k + 50 \<le> int n" and cols: "sc_columns sch = ''age'' # cs"
  shows "{generated_row sch k, generated_row sch (k + 50)}
    \<subseteq> set (answer (column_query table sch k) sch (generated_rows sch n))"
proof -
  have n: "nat (k - 1) < n" "nat (k + 49) < n" using assms(1,2) by auto
  from numbered_nth [of "nat (k - 1)" "generated_rows sch n" 1]
    numbered_nth [of "nat (k + 49)" "generated_rows sch n" 1]
    nth_generated_rows [OF n(1), of sch] nth_generated_rows [OF n(2), of sch] n
  have m: "(k, generated_row sch k) \<in> set (numbered 1 (generated_rows sch n))"
    "(k + 50, generated_row sch (k + 50)) \<in> set (numbered 1 (generated_rows sch n))"
    using assms(1) by (simp_all add: algebra_simps)
  have "schema_find_column sch ''age'' = 0"
    by (simp add: schema_find_column_def string_list_index_of_def cols)
  moreover have "(k + 50) mod 50 = k mod 50" by simp
  ultimately have "selected (column_query table sch k) sch (k, generated_row sch k)"
    "selected (column_query table sch k) sch (k + 50, generated_row sch (k + 50))"
    by (simp_all add: selected_def generated_row_def cols make_value_text_def)
  with m show ?thesis by (force simp: answer_def project_def)
qed

section \<open>The whole program\<close>

lemma bench_state_fresh:
  "bench_state schema_dir data_dir table sch rows d \<Longrightarrow>
     bench_state schema_dir data_dir table sch rows \<lparr>db_fs = db_fs d, db_rt = fresh_runtime\<rparr>"
  by (simp add: bench_state_def fresh_ok demo_simps)

lemma parse_positive_Some: "parse_positive s = Some n \<Longrightarrow> 0 < n \<and> n \<le> INT_MAX"
  using parse_int_strict_range by (auto simp: parse_positive_def split: option.splits if_splits)

text \<open>An exit with 0 has written nothing to \<open>stderr\<close>, an exit with 1 has.\<close>

definition exit_ok :: "(int \<times> cli) option \<Rightarrow> bool" where
  "exit_ok r = (case r of None \<Rightarrow> True
     | Some (code, c) \<Rightarrow> code = 0 \<and> cl_err c = [] \<or> code = 1 \<and> cl_err c \<noteq> [])"

lemma put_error_nonempty [simp]: "cl_err (put_error m c) \<noteq> []" "m \<noteq> [] \<Longrightarrow> cl_err (put_err m c) \<noteq> []"
  by (simp_all add: put_error_def put_err_def)

lemma put_out_err [simp]: "cl_err (put_out m c) = cl_err c" "cl_err (registry_reset c) = cl_err c"
  by (simp_all add: put_out_def registry_reset_def)

lemma exit_ok_error [simp]: "cl_err c \<noteq> [] \<Longrightarrow> exit_ok (Some (1, c))"
  by (simp add: exit_ok_def)

lemma insert_rows_err:
  "insert_rows sch schema_dir data_dir n i c = Some (ok, c') \<Longrightarrow> cl_err c = [] \<Longrightarrow> ok = (cl_err c' = [])"
proof (induction n arbitrary: i c)
  case (Suc n)
  then show ?case by (auto simp: Let_def split: sum.splits option.splits if_splits prod.splits)
qed simp

lemma prepare_exit: "cl_err c = [] \<Longrightarrow> exit_ok (run_prepare_mode env schema_dir data_dir table n c)"
  using insert_rows_err
  by (fastforce simp: run_prepare_mode_def exit_ok_def split: sum.splits option.splits bool.splits prod.splits)

lemma queries_exit: "cl_err c = [] \<Longrightarrow> exit_ok (run_queries env schema_dir data_dir s1 s2 n report c)"
  by (auto simp: run_queries_def exit_ok_def split: option.splits prod.splits)

lemma query_only_exit: "cl_err c = [] \<Longrightarrow> exit_ok (run_query_only_mode env schema_dir data_dir table k n c)"
  by (auto simp: run_query_only_mode_def queries_exit Let_def split: sum.splits option.splits)

lemma usage_nonempty [simp]: "print_prepare_usage p \<noteq> []" "print_query_usage p \<noteq> []"
  "print_benchmark_usage p \<noteq> []"
  by (simp_all add: print_prepare_usage_def print_query_usage_def print_benchmark_usage_def)

lemma benchmark_exit: "exit_ok (benchmark_main env program_name args d)"
  by (auto simp: benchmark_main_def Let_def prepare_exit query_only_exit split: list.splits option.splits)

lemma benchmark_round_trip:
  fixes env program_name schema_dir data_dir table rows target sch d n k
  defines "c0 \<equiv> \<lparr>cl_db = d, cl_out = [], cl_err = [], cl_runs = 0\<rparr>"
  assumes r: "bench_ready schema_dir data_dir table sch d"
    and env: "be_open_write env (table_path data_dir (sc_storage_name sch))" "be_flush env = None"
      "be_tmpfile env 0" "be_tmpfile env 1"
    and n: "parse_positive rows = Some n" and k: "parse_positive target = Some k" "k \<le> n"
  shows "\<exists>d1 rt.
      benchmark_main env program_name [''prepare'', schema_dir, data_dir, table, rows] d
        = Some (0, c0\<lparr>cl_db := d1, cl_out := ''Prepared rows: '' @ show_int n @ [LF]
                        @ ''Insert time: '' @ be_seconds env 0 @ '' sec'' @ [LF]\<rparr>)
    \<and> table_rows (db_fs d1) data_dir sch = generated_rows sch (nat n)
    \<and> same_elsewhere data_dir sch (db_fs d) (db_fs d1)
    \<and> benchmark_main env program_name [''query-only'', schema_dir, data_dir, table, target]
          \<lparr>db_fs = db_fs d1, db_rt = fresh_runtime\<rparr>
        = Some (0, c0\<lparr>cl_db := \<lparr>db_fs = db_fs d1, db_rt = rt\<rparr>,
                       cl_out := query_report env k (hd (sc_columns sch))
                                   (make_value_text (hd (sc_columns sch)) k) 100\<rparr>)
    \<and> answer (id_query table k) sch (table_rows (db_fs d1) data_dir sch) = [generated_row sch k]
    \<and> generated_row sch k \<in> set (answer (column_query table sch k) sch (table_rows (db_fs d1) data_dir sch))"
proof -
  from parse_positive_Some [OF n] parse_positive_Some [OF k(1)] have nk: "0 < n" "0 < k" "k \<le> INT_MAX"
    by auto
  from r have t: "sc_table_name sch = Some table" and l: "load_schema (db_fs d) schema_dir data_dir table = Inr sch"
    by (auto simp: bench_ready_def)
  from load_schema_ok [OF l] have cols: "sc_columns sch \<noteq> []" "''id'' \<notin> set (sc_columns sch)"
    by (auto simp: schema_ok_def)
  from prepare_ok [of schema_dir data_dir table sch c0 env, OF _ env(1,2), of n] r obtain d1 where p:
    "benchmark_main env program_name [''prepare'', schema_dir, data_dir, table, rows] d
      = Some (0, c0\<lparr>cl_db := d1, cl_out := ''Prepared rows: '' @ show_int n @ [LF]
                        @ ''Insert time: '' @ be_seconds env 0 @ '' sec'' @ [LF]\<rparr>)"
    "bench_state schema_dir data_dir table sch (generated_rows sch (nat n)) d1"
    "same_elsewhere data_dir sch (db_fs d) (db_fs d1)"
    using n by (auto simp: benchmark_main_def Let_def c0_def)
  define d2 where "d2 = \<lparr>db_fs = db_fs d1, db_rt = fresh_runtime\<rparr>"
  have "bench_state schema_dir data_dir table sch (generated_rows sch (nat n)) d2"
    unfolding d2_def by (rule bench_state_fresh [OF p(2)])
  from query_only_ok [of schema_dir data_dir table sch _ "c0\<lparr>cl_db := d2\<rparr>" k env 100, OF _ t
      id_query_ok column_query_ok env(3,4)] this nk cols
  obtain rt where "benchmark_main env program_name [''query-only'', schema_dir, data_dir, table, target] d2
      = Some (0, c0\<lparr>cl_db := d2\<lparr>db_rt := rt\<rparr>, cl_out := query_report env k (hd (sc_columns sch))
                        (make_value_text (hd (sc_columns sch)) k) 100\<rparr>)"
    using k by (auto simp: benchmark_main_def Let_def c0_def)
  moreover have "table_rows (db_fs d1) data_dir sch = generated_rows sch (nat n)"
    using p(2) by (simp add: bench_state_def)
  ultimately show ?thesis
    using p(1,3) nk k(2) id_query_answer [of k "nat n" table sch] column_query_answer [of k "nat n" sch table] cols
    by (intro exI [of _ d1] exI [of _ rt]) (simp add: d2_def)
qed

text \<open>
  The registry is reset right before the first measured query, so that query finds no index and
  rebuilds it.
\<close>

lemma first_query_rebuilds:
  "\<not> table_index_is_loaded (db_rt (cl_db (registry_reset c))) name"
  by (simp add: table_index_is_loaded_def registry_reset_def table_index_registry_reset_def)

section \<open>A concrete run\<close>

definition demo_bench :: bench_env where
  "demo_bench = \<lparr>be_open_write = (\<lambda>p. True), be_flush = None, be_tmpfile = (\<lambda>i. True),
     be_seconds = (\<lambda>i. ''0.000001'')\<rparr>"

lemma demo_bench_schema: "bench_schema demo_schema"
  by (simp add: bench_schema_def demo_schema_def plain_column_def needs_quotes_def trim_whitespace_def
      isspace_def byte_def csv_escape_field_def LINE_SIZE_def)

lemma demo_bench_ready: "bench_ready ''schema'' ''data'' ''users'' demo_schema demo_db"
  by (simp add: bench_ready_def demo_simps demo_load demo_bench_schema)
    (simp add: demo_schema_def fresh_runtime_def)

section \<open>Properties\<close>

text \<open>
  C39: after \<open>prepare\<close> of \<open>n\<close> rows the table holds exactly the \<open>n\<close> generated rows and no other file
  has changed, whatever the table held before; \<open>query-only\<close> in a new process then succeeds for every
  target up to \<open>n\<close>, changes no file, prints only its report, and the queries it measures find
  exactly the target row by \<open>id\<close> and at least that row by the first column.
\<close>

theorem benchmark_prepares_and_queries:
  assumes "bench_ready schema_dir data_dir table sch d"
    and "be_open_write env (table_path data_dir (sc_storage_name sch))" and "be_flush env = None"
    and "be_tmpfile env 0" and "be_tmpfile env 1"
    and "parse_positive rows = Some n" and "parse_positive target = Some k" and "k \<le> n"
  shows "\<exists>c1 c2.
      benchmark_main env program_name [''prepare'', schema_dir, data_dir, table, rows] d = Some (0, c1)
    \<and> cl_err c1 = []
    \<and> table_rows (db_fs (cl_db c1)) data_dir sch = generated_rows sch (nat n)
    \<and> same_elsewhere data_dir sch (db_fs d) (db_fs (cl_db c1))
    \<and> benchmark_main env program_name [''query-only'', schema_dir, data_dir, table, target]
          \<lparr>db_fs = db_fs (cl_db c1), db_rt = fresh_runtime\<rparr> = Some (0, c2)
    \<and> cl_out c2 = query_report env k (hd (sc_columns sch)) (make_value_text (hd (sc_columns sch)) k) 100
    \<and> cl_err c2 = [] \<and> db_fs (cl_db c2) = db_fs (cl_db c1)
    \<and> answer (id_query table k) sch (table_rows (db_fs (cl_db c1)) data_dir sch) = [generated_row sch k]
    \<and> generated_row sch k
        \<in> set (answer (column_query table sch k) sch (table_rows (db_fs (cl_db c1)) data_dir sch))"
  using benchmark_round_trip [OF assms, of program_name] by fastforce

theorem benchmark_prepares_and_queries_witness:
  "\<exists>c1 c2.
      benchmark_main demo_bench ''bench'' [''prepare'', ''schema'', ''data'', ''users'', show_int 3] demo_db
        = Some (0, c1)
    \<and> cl_err c1 = []
    \<and> table_rows (db_fs (cl_db c1)) ''data'' demo_schema = generated_rows demo_schema (nat 3)
    \<and> same_elsewhere ''data'' demo_schema (db_fs demo_db) (db_fs (cl_db c1))
    \<and> benchmark_main demo_bench ''bench'' [''query-only'', ''schema'', ''data'', ''users'', show_int 2]
          \<lparr>db_fs = db_fs (cl_db c1), db_rt = fresh_runtime\<rparr> = Some (0, c2)
    \<and> cl_out c2 = query_report demo_bench 2 (hd (sc_columns demo_schema))
                     (make_value_text (hd (sc_columns demo_schema)) 2) 100
    \<and> cl_err c2 = [] \<and> db_fs (cl_db c2) = db_fs (cl_db c1)
    \<and> answer (id_query ''users'' 2) demo_schema (table_rows (db_fs (cl_db c1)) ''data'' demo_schema)
        = [generated_row demo_schema 2]
    \<and> generated_row demo_schema 2
        \<in> set (answer (column_query ''users'' demo_schema 2) demo_schema
                 (table_rows (db_fs (cl_db c1)) ''data'' demo_schema))"
  by (rule benchmark_prepares_and_queries)
    (simp_all add: demo_bench_ready demo_bench_def parse_positive_def parse_int_strict_show_int
      INT_MIN_def INT_MAX_def)

end
