(* ===== verification/Spec2Isabelle.thy ===== *)
theory Spec2Isabelle
  imports Prelude Util BPlusTree BPlusTree_Leaves BPlusTree_Props BPlusTree_Nodes
    Lexer Parser Sql_Frontend Files Csv Storage Storage_Props
    Schema Table_Index Table_Index_Props Executor Executor_Props Select_Props Result_Table
    Executor_Safety Database_Props Task_Queue Worker_Pool Engine_Locks Engine_Adapter Adapter_Props
    Registry_Access Statement_Interleaving Interleaving_Simulation Interleaving_Props Ownership Ownership_Props
    Http_Response Http_Request Root_Page Query_Handler Http_Props Request_Props Api_Contract Content_Type_Race
    Platform Server Server_Props Server_System Connection_Ownership Connection_Props
    Signal_Handler Cli Cli_Props Registry_Race Benchmark Benchmark_Props
begin

text \<open>
  A development for the SQL API server (\<open>src/\<close>): a table store over CSV files with a SQL front end
  and an in-memory B+ tree index, behind an HTTP/1.1 server with a worker pool.

  \<^bold>\<open>The program.\<close> \<open>main\<close> (\<open>app/sqlapi_server_main.c\<close>) reads the options, creates, starts and
  destroys the server (\<open>server/server.c\<close>). An accept thread puts connections into a bounded ring
  (\<open>server/task_queue.c\<close>) and workers (\<open>server/worker_pool.c\<close>) take them out. A worker reads one
  request (\<open>http/http_request.c\<close>), routes it (\<open>http/router.c\<close>) to a handler (\<open>api/*.c\<close>) and sends one
  response (\<open>http/http_response.c\<close>). A query goes through the service (\<open>service/db_service.c\<close>) to the
  engine adapter (\<open>engine/sql_engine_adapter.c\<close>), which lexes and parses the text (\<open>sql/lexer.c\<close>,
  \<open>sql/parser.c\<close>), takes the lock of the table (\<open>engine/engine_lock_manager.c\<close>) and executes the
  statement (\<open>execution/executor.c\<close>) over the schemas (\<open>storage/schema.c\<close>), the CSV files
  (\<open>storage/storage.c\<close>) and the id indexes (\<open>index/table_index.c\<close>, \<open>index/bptree.c\<close>).

  \<^bold>\<open>Theories, in the order of the layers.\<close> Definitions have the names of the C functions they
  model; a loop inside a function has a name of its own. A struct is a record, an enum a datatype,
  a \<open>char *\<close> a list of bytes, a failure the left side of a sum, undefined behaviour \<open>None\<close>.
  \<^item> \<open>Prelude\<close>, \<open>Util\<close>: C strings, \<open>snprintf\<close>, character classes, and \<open>common/util.c\<close> (trimming,
    integers, paths, the display width of UTF-8), with the round trip of printed integers.
  \<^item> \<open>BPlusTree\<close>, \<open>BPlusTree_Leaves\<close>, \<open>BPlusTree_Props\<close>, \<open>BPlusTree_Nodes\<close>: \<open>index/bptree.c\<close> with explicit
    node addresses and failing allocations. Order, capacity and balance are kept by an insertion, it
    refines the update of a map, the \<open>next\<close> pointers link the leaves in order, and the height is
    logarithmic.
  \<^item> \<open>Lexer\<close>, \<open>Parser\<close>, \<open>Sql_Frontend\<close>: tokens and statements; the parser accepts exactly a
    grammar given as an inductive relation, never reads past the tokens, and the printed form of
    a statement is lexed and parsed back.
  \<^item> \<open>Files\<close>, \<open>Csv\<close>, \<open>Storage\<close>, \<open>Storage_Props\<close>: a file system as a map, the CSV reader and
    writer, appending, scanning and reading at an offset; what was written is read back.
  \<^item> \<open>Schema\<close>, \<open>Table_Index\<close>, \<open>Table_Index_Props\<close>: table definitions, and the registry of trees with
    its invariant: a loaded index has exactly the ids and offsets of the rows of its file.
    \<open>Registry_Race\<close>: the pointers that concurrent workers keep into the registry's array.
  \<^item> \<open>Executor\<close>, \<open>Executor_Props\<close>, \<open>Select_Props\<close>, \<open>Result_Table\<close>, \<open>Database_Props\<close>: statements over
    the abstract table (the list of its rows): an INSERT appends a row, a SELECT prints the
    projection of the matching rows, the lookup by id agrees with the scan, every line of the
    printed table has one width. \<open>Executor_Safety\<close>: on any database whose trees are well formed a
    statement is defined, but for a SELECT of more known columns than its table has.
  \<^item> \<open>Task_Queue\<close>, \<open>Worker_Pool\<close>: the ring refines a bounded FIFO (locale \<open>fifo\<close>, interpreted on the
    ring's operations); the threads are the inductive step relation \<open>pool_step\<close>, with invariants by
    rule induction: each connection is handled once and no wakeup is lost. A handler waits for the
    peer of its connection, which is the environment (\<open>peer_step\<close>).
  \<^item> \<open>Engine_Locks\<close>: the lock manager as steps of threads (locale \<open>table_locks\<close>, interpreted on its
    functions): mutual exclusion per storage name, and waiting only for a holder.
  \<^item> \<open>Engine_Adapter\<close>, \<open>Adapter_Props\<close>: one call, its error classification and its lock; the
    results are well formed, locks are given back, only the named table's file grows.
    \<open>Registry_Access\<close>, \<open>Statement_Interleaving\<close>: the calls of several threads as a step relation in
    which others can come between the parts of a statement and, inside an operation of the registry,
    between the lookup, the test of the flag, the rebuild and the use, which go through a kept pointer.
    \<open>Interleaving_Simulation\<close>, \<open>Interleaving_Props\<close>: with at most four tables in use (the first
    capacity of the array) no pointer dangles, every interleaving is a serial execution, and all calls
    can run to their end.
    \<open>Ownership\<close>, \<open>Ownership_Props\<close>: the blocks and files one call acquires and releases, function by
    function, on a multiset of owned blocks; a call that succeeds leaves its output and nothing else.
    \<open>Connection_Ownership\<close>, \<open>Connection_Props\<close>: the same for a connection, from its bytes to the close of
    its socket, around the call.
  \<^item> \<open>Http_Response\<close>, \<open>Http_Request\<close>, \<open>Root_Page\<close>, \<open>Query_Handler\<close>: the HTTP layer, the handlers and
    the router. \<open>Http_Props\<close>: JSON text is read back, every error and report fits its buffer, what
    is sent is a prefix of header and body. \<open>Request_Props\<close>: the limits on any input, and the round
    trip of a printed request. \<open>Api_Contract\<close>: the documented answer of a request, stated apart from
    the code, which the router and the handlers give. \<open>Content_Type_Race\<close>: the check of the content type as calls of
    \<open>strtok\<close> by several threads.
  \<^item> \<open>Server\<close>, \<open>Server_Props\<close>: configuration, creation, start, one connection, shutdown and the
    program; from the bytes of two requests to the bytes of their responses.
  \<^item> \<open>Platform\<close>: \<open>common/platform.c\<close> for both operating systems, used by the start of the server.
  \<^item> \<open>Server_System\<close>: the running server, with the accept loop, the workers and a shutdown as one step
    relation: connections are accounted for in every state; a shutdown ends every run whose peers do
    their part, and hangs on a peer that stays silent.
    \<open>Signal_Handler\<close>: the signal handler on top of a thread that holds one of the two mutexes.
  \<^item> \<open>Cli\<close>, \<open>Cli_Props\<close>: the command line program \<open>app/main.c\<close>, with its sources of SQL text and its
    session; on the same text it does what the adapter does for the server.
  \<^item> \<open>Benchmark\<close>, \<open>Benchmark_Props\<close>: \<open>benchmark/benchmark_main.c\<close>: the rows \<open>prepare\<close> leaves behind are
    the generated ones, and what the two measured queries find.

  \<^bold>\<open>Arguments.\<close> What the operating system decides is an argument: which allocations of tree nodes
  and lock entries succeed, what \<open>recv\<close> and \<open>send\<close> return, the addresses and threads of a start,
  the two timings of an answer, and \<open>ae_overlap\<close>, the effect of an \<open>snprintf\<close> onto its own source.
  Other allocations succeed, and reading or writing an open file does not fail.

  \<^bold>\<open>Bounds.\<close> The code's buffers are kept: 4096 bytes per CSV line, 256 per message, 1024 for an error
  body, 256 for a response header and a health report, 16384 for the page, 15 and 127 bytes for
  method and path, and the two limits of a request. Row ids and file offsets are unbounded
  integers; a C \<open>int\<close> that is read from text is checked against its range. No definition uses fuel:
  loops are structural or have a termination proof.

  \<^bold>\<open>Not modelled.\<close> The Windows branches outside \<open>common/platform.c\<close>, the test delay inside the adapter, the
  values of clocks, and the memory of a process that ends (\<open>app/main.c\<close>, the benchmark): \<open>Ownership\<close> and
  \<open>Connection_Ownership\<close> follow the memory of the server's connections. Threads interleave in the
  queue, in the table locks, in the parts of a statement and of a registry operation, in \<open>strtok\<close> and
  in the registry's array. The scan of a rebuild is one step, as nothing else touches its table's file
  and entry, and so is the read of a row at an offset. The accept thread's refusal, a short text on a
  new connection, is sent without waiting.
\<close>

end
